(* ===== verification/Cpp_Prelude.thy ===== *)
theory Cpp_Prelude
  imports Main "HOL-Library.Signed_Division" "HOL-Library.Word"
begin

text \<open>
  The vocabulary the component theories share: what a C++ call can do besides returning
  (a fault), the sequencing of calls that may fault, vectors read by index, counted loops,
  the truncating remainder of \<^verbatim>\<open>mpz_class\<close> and the 32-bit \<^verbatim>\<open>int\<close> of the thresholds.
  The collections \<open>result_simps\<close> and \<open>loop_simps\<close> carry the component proofs.
\<close>

named_theorems result_simps \<open>rewriting of calls that may fault\<close>
named_theorems loop_simps \<open>unfolding of counted loops\<close>

section \<open>Calls that may not return a value\<close>

text \<open>
  A C++ call of this program either returns, or throws, or aborts, or has undefined behaviour, or
  runs forever. The last four are the faults of the model:
  \<^item> \<open>Out_of_bounds\<close>: an unchecked \<^verbatim>\<open>operator[]\<close> outside a vector or array;
  \<^item> \<open>Out_of_range\<close>: \<^verbatim>\<open>std::out_of_range\<close>, thrown by \<^verbatim>\<open>substr\<close>;
  \<^item> \<open>Invalid_argument\<close>: \<^verbatim>\<open>std::invalid_argument\<close>, thrown by the \<^verbatim>\<open>mpz_class\<close> constructor;
  \<^item> \<open>Division_by_zero\<close>: GMP's division trap;
  \<^item> \<open>Indeterminate\<close>: a read of a byte that no conversion has written;
  \<^item> \<open>Signed_overflow\<close>: an \<^verbatim>\<open>int\<close> operation outside the 32-bit range;
  \<^item> \<open>Null_pointer\<close>: a null pointer is dereferenced;
  \<^item> \<open>Check_failed\<close>: a \<^verbatim>\<open>CHECK\<close> that holds in every build aborts the program;
  \<^item> \<open>Diverges\<close>: a loop that never ends.
\<close>

datatype fault =
    Out_of_bounds
  | Out_of_range
  | Invalid_argument
  | Division_by_zero
  | Indeterminate
  | Signed_overflow
  | Null_pointer
  | Check_failed
  | Diverges

type_synonym 'a result = "fault + 'a"

definition rbind :: "'a result \<Rightarrow> ('a \<Rightarrow> 'b result) \<Rightarrow> 'b result" where
  "rbind r f = (case r of Inl e \<Rightarrow> Inl e | Inr x \<Rightarrow> f x)"

definition of_option :: "fault \<Rightarrow> 'a option \<Rightarrow> 'a result" where
  "of_option e r = (case r of None \<Rightarrow> Inl e | Some x \<Rightarrow> Inr x)"

lemma rbind_Inr [simp]: "rbind (Inr x) f = f x"
  by (simp add: rbind_def)

lemma rbind_Inl [simp]: "rbind (Inl e) f = Inl e"
  by (simp add: rbind_def)

lemma rbind_assoc [result_simps]: "rbind (rbind r f) g = rbind r (\<lambda>x. rbind (f x) g)"
  by (cases r) simp_all

lemma rbind_eq_Inr: "rbind r f = Inr y \<longleftrightarrow> (\<exists>x. r = Inr x \<and> f x = Inr y)"
  by (cases r) simp_all

lemma rbind_eq_Inl: "rbind r f = Inl e \<longleftrightarrow> r = Inl e \<or> (\<exists>x. r = Inr x \<and> f x = Inl e)"
  by (cases r) simp_all

lemma rbind_cong [fundef_cong]:
  "r = r' \<Longrightarrow> (\<And>x. r' = Inr x \<Longrightarrow> f x = f' x) \<Longrightarrow> rbind r f = rbind r' f'"
  by (cases r') simp_all

lemma of_option_simps [simp]:
  "of_option e None = Inl e" "of_option e (Some x) = Inr x"
  by (simp_all add: of_option_def)

lemma of_option_eq_Inr: "of_option e r = Inr x \<longleftrightarrow> r = Some x"
  by (cases r) simp_all

section \<open>Vectors read by index\<close>

text \<open>\<^verbatim>\<open>v[i]\<close> with an \<^verbatim>\<open>int\<close> index: undefined outside the vector.\<close>

definition vec_at :: "'a list \<Rightarrow> int \<Rightarrow> 'a result" where
  "vec_at xs i = (if 0 \<le> i \<and> i < int (length xs) then Inr (xs ! nat i) else Inl Out_of_bounds)"

lemma vec_at_inside [simp]:
  "0 \<le> i \<Longrightarrow> i < int (length xs) \<Longrightarrow> vec_at xs i = Inr (xs ! nat i)"
  by (simp add: vec_at_def)

lemma vec_at_outside [simp]:
  "int (length xs) \<le> i \<Longrightarrow> vec_at xs i = Inl Out_of_bounds"
  "i < 0 \<Longrightarrow> vec_at xs i = Inl Out_of_bounds"
  by (auto simp: vec_at_def)

lemma vec_at_eq_Inr:
  "vec_at xs i = Inr x \<longleftrightarrow> 0 \<le> i \<and> i < int (length xs) \<and> x = xs ! nat i"
  by (auto simp: vec_at_def)

section \<open>Counted loops\<close>

text \<open>
  \<^verbatim>\<open>for (int i = lo; i < hi; ++i) body\<close>: the body runs on the loop's variables and may
  fault. \<open>for_steps\<close> counts the rounds that are left.
\<close>

primrec for_steps :: "nat \<Rightarrow> int \<Rightarrow> (int \<Rightarrow> 's \<Rightarrow> 's result) \<Rightarrow> 's \<Rightarrow> 's result" where
  "for_steps 0 i body s = Inr s"
| "for_steps (Suc n) i body s = rbind (body i s) (for_steps n (i + 1) body)"

definition for_range :: "int \<Rightarrow> int \<Rightarrow> (int \<Rightarrow> 's \<Rightarrow> 's result) \<Rightarrow> 's \<Rightarrow> 's result" where
  "for_range lo hi body s = for_steps (nat (hi - lo)) lo body s"

lemma for_range_empty [loop_simps]: "hi \<le> lo \<Longrightarrow> for_range lo hi body s = Inr s"
  by (simp add: for_range_def)

lemma for_range_first [loop_simps]:
  "lo < hi \<Longrightarrow> for_range lo hi body s = rbind (body lo s) (for_range (lo + 1) hi body)"
proof -
  assume "lo < hi"
  then have "nat (hi - lo) = Suc (nat (hi - (lo + 1)))"
    by simp
  then show ?thesis
    by (simp add: for_range_def [abs_def])
qed

text \<open>
  A loop whose round \<open>i\<close> turns \<open>acc i\<close> into \<open>acc (i + 1)\<close> computes \<open>acc hi\<close>: the
  closed forms of the program's loops are proved with this rule.
\<close>

lemma for_steps_acc:
  assumes "\<And>i. lo \<le> i \<Longrightarrow> i < lo + int n \<Longrightarrow> body i (acc i) = Inr (acc (i + 1))"
  shows "for_steps n lo body (acc lo) = Inr (acc (lo + int n))"
  using assms
proof (induction n arbitrary: lo)
  case 0
  then show ?case by simp
next
  case (Suc n)
  have "body lo (acc lo) = Inr (acc (lo + 1))"
    by (rule Suc.prems) simp_all
  moreover have "for_steps n (lo + 1) body (acc (lo + 1)) = Inr (acc (lo + 1 + int n))"
    by (rule Suc.IH) (rule Suc.prems, simp_all)
  ultimately show ?case
    by (simp add: algebra_simps)
qed

lemma for_range_acc:
  assumes "\<And>i. lo \<le> i \<Longrightarrow> i < hi \<Longrightarrow> body i (acc i) = Inr (acc (i + 1))"
    and "lo \<le> hi" and "s = acc lo"
  shows "for_range lo hi body s = Inr (acc hi)"
proof -
  have "for_steps (nat (hi - lo)) lo body (acc lo) = Inr (acc (lo + int (nat (hi - lo))))"
    using assms(2) by (intro for_steps_acc assms(1)) simp_all
  then show ?thesis
    using assms(2,3) by (simp add: for_range_def)
qed

text \<open>The same rule for a loop from 0 over a natural number of rounds.\<close>

lemma for_range_acc_nat:
  assumes "\<And>k. k < n \<Longrightarrow> body (int k) (acc k) = Inr (acc (Suc k))"
    and "s = acc 0" and "hi = int n"
  shows "for_range 0 hi body s = Inr (acc n)"
proof -
  have "for_range 0 (int n) body s = Inr ((\<lambda>i. acc (nat i)) (int n))"
  proof (rule for_range_acc)
    fix i :: int
    assume "0 \<le> i" and "i < int n"
    then show "body i (acc (nat i)) = Inr (acc (nat (i + 1)))"
      using assms(1) [of "nat i"] by (simp add: nat_add_distrib)
  qed (use assms in simp_all)
  with assms(3) show ?thesis by simp
qed

text \<open>A loop faults with the fault of the first round that faults.\<close>

lemma for_steps_add:
  "for_steps (m + k) i b x = rbind (for_steps m i b x) (for_steps k (i + int m) b)"
proof (induction m arbitrary: i x)
  case 0
  then show ?case by simp
next
  case (Suc m)
  then show ?case
    by (cases "b i x") (simp_all add: algebra_simps)
qed

lemma for_range_fault:
  assumes "\<And>k. k < n \<Longrightarrow> body (int k) (acc k) = Inr (acc (Suc k))"
    and "s = acc 0" and "body (int n) (acc n) = Inl e" and "int n < hi"
  shows "for_range 0 hi body s = Inl e"
proof -
  have front: "for_steps n 0 body s = Inr (acc n)"
    using for_range_acc_nat [OF assms(1,2) refl] by (simp add: for_range_def)
  have "nat hi = n + Suc (nat hi - n - 1)"
    using assms(4) by simp
  then obtain k where k: "nat hi = n + Suc k" ..
  show ?thesis
    by (simp add: for_range_def k for_steps_add front assms(3) del: add_Suc_right)
qed

text \<open>A loop that appends one value per round, and the case where no round faults.\<close>

definition for_collect :: "int \<Rightarrow> (int \<Rightarrow> 'a result) \<Rightarrow> 'a list result" where
  "for_collect hi f = for_range 0 hi (\<lambda>i acc. rbind (f i) (\<lambda>x. Inr (acc @ [x]))) []"

lemma for_collect_map:
  assumes "\<And>k. k < n \<Longrightarrow> f (int k) = Inr (g k)"
  shows "for_collect (int n) f = Inr (map g [0..<n])"
  unfolding for_collect_def
  by (rule for_range_acc_nat [where acc = "\<lambda>k. map g [0..<k]"]) (simp_all add: assms)

lemma for_collect_fault:
  assumes "\<And>j. j < k \<Longrightarrow> f (int j) = Inr (g j)" and "f (int k) = Inl e" and "k < n"
  shows "for_collect (int n) f = Inl e"
  unfolding for_collect_def
  by (rule for_range_fault [where acc = "\<lambda>j. map g [0..<j]" and n = k]) (simp_all add: assms)

text \<open>
  The total-correctness rules: a loop whose rounds all return and keep an invariant returns a
  state with the invariant.
\<close>

lemma for_range_inv_from:
  assumes "\<And>k s. l \<le> k \<Longrightarrow> k < n \<Longrightarrow> I k s \<Longrightarrow> \<exists>s'. body (int k) s = Inr s' \<and> I (Suc k) s'"
    and "I l s" and "l \<le> n" and "lo = int l" and "hi = int n"
  shows "\<exists>s'. for_range lo hi body s = Inr s' \<and> I n s'"
proof -
  have "\<exists>s'. for_steps m (int k) body s = Inr s' \<and> I (k + m) s'"
    if "I k s" "l \<le> k" "k + m \<le> n" for m k s
    using that
  proof (induction m arbitrary: k s)
    case (Suc m)
    then obtain s' where s': "body (int k) s = Inr s'" "I (Suc k) s'"
      using assms(1) [of k s] by auto
    moreover have "\<exists>t. for_steps m (int (Suc k)) body s' = Inr t \<and> I (Suc k + m) t"
      using Suc.prems(2,3) s'(2) by (intro Suc.IH) simp_all
    ultimately show ?case by (simp add: add.commute)
  qed simp
  from this [of l s "n - l"] assms(2-5) show ?thesis by (simp add: for_range_def nat_diff_distrib)
qed

lemma for_range_inv:
  assumes "\<And>k s. k < n \<Longrightarrow> I k s \<Longrightarrow> \<exists>s'. body (int k) s = Inr s' \<and> I (Suc k) s'"
    and "I 0 s" and "hi = int n"
  shows "\<exists>s'. for_range 0 hi body s = Inr s' \<and> I n s'"
  by (rule for_range_inv_from [where l = 0]) (simp_all add: assms)

lemma for_collect_inv:
  assumes "\<And>k. k < n \<Longrightarrow> \<exists>x. f (int k) = Inr x \<and> Q k x" and "hi = int n"
  shows "\<exists>xs. for_collect hi f = Inr xs \<and> length xs = n \<and> (\<forall>k < n. Q k (xs ! k))"
proof -
  obtain g where "\<And>k. k < n \<Longrightarrow> f (int k) = Inr (g k) \<and> Q k (g k)"
    using assms(1) by metis
  then show ?thesis
    using for_collect_map [of n f g] assms(2) by auto
qed

section \<open>Arithmetic of mpz\_class and int\<close>

text \<open>
  \<^verbatim>\<open>a % b\<close> on \<^verbatim>\<open>mpz_class\<close> truncates towards zero (\<^verbatim>\<open>mpz_tdiv_r\<close>) and traps on a zero
  divisor. \<open>smod\<close> is the truncating remainder of the library.
\<close>

definition mpz_rem :: "int \<Rightarrow> int \<Rightarrow> int result" where
  "mpz_rem a b = (if b = 0 then Inl Division_by_zero else Inr (a smod b))"

lemma mpz_rem_nonzero [simp]: "b \<noteq> 0 \<Longrightarrow> mpz_rem a b = Inr (a smod b)"
  by (simp add: mpz_rem_def)

lemma mpz_rem_zero [simp]: "mpz_rem a 0 = Inl Division_by_zero"
  by (simp add: mpz_rem_def)

lemma smod_nonneg: "0 \<le> a \<Longrightarrow> 0 < b \<Longrightarrow> a smod b = a mod (b::int)"
  by (cases "a = 0") (simp_all add: signed_modulo_int_def)

lemma smod_neg: "a < 0 \<Longrightarrow> 0 < b \<Longrightarrow> a smod b = - (- a mod (b::int))"
  by (simp add: signed_modulo_int_def)

lemma smod_mod_eq: "0 < b \<Longrightarrow> (a smod b) mod b = a mod (b::int)"
  by (cases "0 \<le> a") (simp_all add: smod_nonneg smod_neg mod_minus_eq)

lemma smod_eq_0_iff: "0 < b \<Longrightarrow> a smod b = 0 \<longleftrightarrow> b dvd (a::int)"
  by (cases "0 \<le> a") (simp_all add: smod_nonneg smod_neg dvd_eq_mod_eq_0 [symmetric])

lemma smod_range: "0 \<le> a \<Longrightarrow> 0 < b \<Longrightarrow> 0 \<le> a smod b \<and> a smod b < (b::int)"
  by (simp add: smod_nonneg)

text \<open>The 32-bit range of \<^verbatim>\<open>int\<close>, and subtraction that overflows outside it.\<close>

definition int32_range :: "int \<Rightarrow> bool" where
  "int32_range i \<longleftrightarrow> - (2 ^ 31) \<le> i \<and> i < 2 ^ 31"

definition int_sub :: "int \<Rightarrow> int \<Rightarrow> int result" where
  "int_sub a b = (if int32_range (a - b) then Inr (a - b) else Inl Signed_overflow)"

lemma int_sub_small [simp]:
  "0 \<le> a \<Longrightarrow> a < 2 ^ 31 \<Longrightarrow> 0 \<le> b \<Longrightarrow> b < 2 ^ 31 \<Longrightarrow> int_sub a b = Inr (a - b)"
  by (simp add: int_sub_def int32_range_def)

end
