(* ===== verification/Digits.thy ===== *)
theory Digits
  imports Cpp_Prelude
begin

text \<open>
  Numbers written in a base: the digit strings GMP and the C++ streams print, the values
  they are read back to, big-endian byte arrays, and the two C readers the program calls
  on one byte of hexadecimal text (\<^verbatim>\<open>strtol\<close> and \<^verbatim>\<open>sscanf\<close>). The lemmas say that each
  reader inverts its printer and relate a text of two digits a byte to the bytes.
\<close>

section \<open>Digit characters\<close>

type_synonym byte = "8 word"

text \<open>The digit characters of the bases up to 16, in lower and in upper case.\<close>

definition digit_char :: "nat \<Rightarrow> char" where
  "digit_char d = (if d < 10 then char_of (48 + d) else char_of (87 + d))"

definition digit_char_upper :: "nat \<Rightarrow> char" where
  "digit_char_upper d = (if d < 10 then char_of (48 + d) else char_of (55 + d))"

text \<open>The value of a character as a digit, in either case.\<close>

definition digit_val :: "char \<Rightarrow> nat option" where
  "digit_val c =
     (let n = of_char c :: nat in
      if 48 \<le> n \<and> n \<le> 57 then Some (n - 48)
      else if 97 \<le> n \<and> n \<le> 102 then Some (n - 87)
      else if 65 \<le> n \<and> n \<le> 70 then Some (n - 55)
      else None)"

definition is_digit :: "nat \<Rightarrow> char \<Rightarrow> bool" where
  "is_digit b c = (case digit_val c of None \<Rightarrow> False | Some d \<Rightarrow> d < b)"

definition digit_of :: "char \<Rightarrow> nat" where
  "digit_of c = (case digit_val c of None \<Rightarrow> 0 | Some d \<Rightarrow> d)"

abbreviation is_hex :: "char \<Rightarrow> bool" where
  "is_hex \<equiv> is_digit 16"

lemma digit_val_char [simp]: "d < 16 \<Longrightarrow> digit_val (digit_char d) = Some d"
  by (auto simp: digit_val_def digit_char_def Let_def)

lemma digit_val_char_upper [simp]: "d < 16 \<Longrightarrow> digit_val (digit_char_upper d) = Some d"
  by (auto simp: digit_val_def digit_char_upper_def Let_def)

lemma digit_of_char [simp]:
  "d < 16 \<Longrightarrow> digit_of (digit_char d) = d"
  "d < 16 \<Longrightarrow> digit_of (digit_char_upper d) = d"
  by (simp_all add: digit_of_def)

lemma is_digit_char [simp]:
  "d < b \<Longrightarrow> b \<le> 16 \<Longrightarrow> is_digit b (digit_char d)"
  "d < b \<Longrightarrow> b \<le> 16 \<Longrightarrow> is_digit b (digit_char_upper d)"
  by (simp_all add: is_digit_def)

lemma digit_of_less: "is_digit b c \<Longrightarrow> digit_of c < b"
  by (auto simp: is_digit_def digit_of_def split: option.splits)

lemma is_digit_mono: "is_digit b c \<Longrightarrow> b \<le> b' \<Longrightarrow> is_digit b' c"
  by (auto simp: is_digit_def split: option.splits)

lemma not_digit [simp]:
  "\<not> is_digit b CHR '',''" "\<not> is_digit b CHR '';''" "\<not> is_digit b CHR ''-''"
  "\<not> is_digit b CHR ''+''" "\<not> is_digit b CHR '' ''" "\<not> is_digit b CHR ''x''"
  "\<not> is_digit b CHR ''X''"
  by (simp_all add: is_digit_def digit_val_def)

lemma digit_char_0 [simp]: "digit_char 0 = CHR ''0''"
  by (simp add: digit_char_def char_of_def bit_Suc_0_iff)

lemma digit_char_eq_0_iff: "d < 16 \<Longrightarrow> digit_char d = CHR ''0'' \<longleftrightarrow> d = 0"
  by (metis digit_char_0 digit_of_char(1) zero_less_numeral)

section \<open>Digit strings\<close>

text \<open>The canonical representation (no leading zero) and the value of a digit string.\<close>

fun digits_in :: "nat \<Rightarrow> nat \<Rightarrow> string" where
  "digits_in b n =
     (if n < b \<or> b < 2 then [digit_char n] else digits_in b (n div b) @ [digit_char (n mod b)])"

declare digits_in.simps [simp del]

definition digits_val :: "nat \<Rightarrow> string \<Rightarrow> nat" where
  "digits_val b s = foldl (\<lambda>v c. v * b + digit_of c) 0 s"

lemma digits_val_Nil [simp]: "digits_val b [] = 0"
  by (simp add: digits_val_def)

lemma digits_val_snoc [simp]: "digits_val b (s @ [c]) = digits_val b s * b + digit_of c"
  by (simp add: digits_val_def)

lemma digits_val_append:
  "digits_val b (s @ t) = digits_val b s * b ^ length t + digits_val b t"
proof (induction t rule: rev_induct)
  case Nil
  then show ?case by simp
next
  case (snoc c t)
  then show ?case
    by (simp add: append_assoc [symmetric] algebra_simps del: append_assoc)
qed

lemma digits_val_Cons: "digits_val b (c # s) = digit_of c * b ^ length s + digits_val b s"
  using digits_val_append [of b "[c]" s] digits_val_snoc [of b "[]" c] by simp

lemma digits_val_zeros [simp]: "digits_val b (replicate k CHR ''0'' @ s) = digits_val b s"
proof -
  have "digits_val b (replicate k CHR ''0'') = 0"
    by (induction k) (simp_all add: digits_val_Cons digit_of_def digit_val_def)
  then show ?thesis by (simp add: digits_val_append)
qed

lemma digits_in_induct [case_names small step]:
  assumes "2 \<le> b"
    and "\<And>n. n < b \<Longrightarrow> P n" and "\<And>n. b \<le> n \<Longrightarrow> P (n div b) \<Longrightarrow> P n"
  shows "P (n::nat)"
proof (induction n rule: less_induct)
  case (less n)
  show ?case
  proof (cases "n < b")
    case False
    with assms(1) have "n div b < n" by simp
    with less False assms(3) show ?thesis by simp
  qed (rule assms(2))
qed

lemma digits_in_small: "n < b \<Longrightarrow> digits_in b n = [digit_char n]"
  by (simp add: digits_in.simps)

lemma digits_in_step:
  "2 \<le> b \<Longrightarrow> b \<le> n \<Longrightarrow> digits_in b n = digits_in b (n div b) @ [digit_char (n mod b)]"
  by (subst digits_in.simps) simp

lemmas digits_in_rec = digits_in_small digits_in_step

lemma digits_in_nonempty [simp]: "digits_in b n \<noteq> []"
  by (subst digits_in.simps) simp

lemma digits_val_in [simp]:
  assumes "2 \<le> b" "b \<le> 16"
  shows "digits_val b (digits_in b n) = n"
proof (induction n rule: digits_in_induct [OF assms(1)])
  case (1 n)
  then show ?case
    using assms(2) by (simp add: digits_in_rec digits_val_Cons)
next
  case (2 n)
  have "n mod b < 16"
    using assms by (intro less_le_trans [OF mod_less_divisor]) simp_all
  with 2 assms(1) show ?case by (simp add: digits_in_rec)
qed

lemma digits_in_digits:
  assumes "2 \<le> b" "b \<le> 16" "c \<in> set (digits_in b n)"
  shows "is_digit b c"
  using assms(3)
proof (induction n rule: digits_in_induct [OF assms(1)])
  case (1 n)
  then show ?case using assms(2) by (simp add: digits_in_rec)
next
  case (2 n)
  moreover have "n mod b < b" using assms(1) by simp
  ultimately show ?case using assms(1,2) by (auto simp: digits_in_rec)
qed

lemma digits_in_no_leading_zero:
  assumes "2 \<le> b" "b \<le> 16" "0 < n"
  shows "hd (digits_in b n) \<noteq> CHR ''0''"
  using assms(3)
proof (induction n rule: digits_in_induct [OF assms(1)])
  case (1 n)
  then show ?case using assms(2) by (simp add: digits_in_rec digit_char_eq_0_iff)
next
  case (2 n)
  then have "0 < n div b" using assms(1) by (simp add: div_greater_zero_iff)
  with 2 assms(1) show ?case by (simp add: digits_in_rec)
qed

lemma length_digits_in:
  assumes "2 \<le> b"
  shows "length (digits_in b n) \<le> Suc k \<longleftrightarrow> n < b ^ Suc k"
proof (induction n arbitrary: k rule: digits_in_induct [OF assms])
  case (1 n)
  moreover have "b \<le> b ^ Suc k" using assms by simp
  ultimately have "n < b ^ Suc k" by (rule less_le_trans)
  with 1 show ?case by (simp add: digits_in_rec)
next
  case (2 n)
  show ?case
  proof (cases k)
    case 0
    with 2 assms show ?thesis by (simp add: digits_in_rec)
  next
    case (Suc k')
    have "n div b < b ^ Suc k' \<longleftrightarrow> n < b ^ Suc k"
      using assms Suc by (simp add: div_less_iff_less_mult mult.commute)
    with 2 assms Suc show ?thesis by (simp add: digits_in_rec)
  qed
qed

lemma digits_val_bound:
  "(\<And>c. c \<in> set s \<Longrightarrow> is_digit b c) \<Longrightarrow> digits_val b s < b ^ length s"
proof (induction s)
  case Nil
  then show ?case by simp
next
  case (Cons c s)
  then have "digit_of c < b" by (simp add: digit_of_less)
  then have "Suc (digit_of c) * b ^ length s \<le> b * b ^ length s"
    by (intro mult_le_mono1) simp
  moreover have "digits_val b s < b ^ length s" using Cons by simp
  ultimately show ?case by (simp add: digits_val_Cons)
qed

text \<open>The leading digits of a number are the number divided by the base's power.\<close>

lemma digits_val_take:
  assumes "\<And>c. c \<in> set s \<Longrightarrow> is_digit b c" and "2 \<le> b"
  shows "digits_val b (take k s) = digits_val b s div b ^ (length s - k)"
proof -
  have "digits_val b (drop k s) < b ^ length (drop k s)"
    by (rule digits_val_bound) (meson assms(1) in_set_dropD)
  moreover have "digits_val b s = digits_val b (take k s) * b ^ (length s - k) + digits_val b (drop k s)"
    using digits_val_append [of b "take k s" "drop k s"] by simp
  ultimately show ?thesis using assms(2) by simp
qed

section \<open>Big-endian bytes\<close>

definition be_val :: "byte list \<Rightarrow> nat" where
  "be_val bs = foldl (\<lambda>v w. v * 256 + unat w) 0 bs"

primrec be_bytes :: "nat \<Rightarrow> nat \<Rightarrow> byte list" where
  "be_bytes 0 n = []"
| "be_bytes (Suc k) n = be_bytes k (n div 256) @ [word_of_nat (n mod 256)]"

lemma be_val_Nil [simp]: "be_val [] = 0"
  by (simp add: be_val_def)

lemma be_val_snoc [simp]: "be_val (bs @ [w]) = be_val bs * 256 + unat w"
  by (simp add: be_val_def)

lemma length_be_bytes [simp]: "length (be_bytes k n) = k"
  by (induction k arbitrary: n) simp_all

lemma unat_byte_of_nat [simp]: "n < 256 \<Longrightarrow> unat (word_of_nat n :: byte) = n"
  by (simp add: unat_of_nat)

lemma byte_less_256: "unat (w::byte) < 256"
  by (rule order_less_le_trans [OF unsigned_less]) simp

lemma be_val_be_bytes: "be_val (be_bytes k n) = n mod 256 ^ k"
proof (induction k arbitrary: n)
  case 0
  then show ?case by simp
next
  case (Suc k)
  have "n mod (256 * 256 ^ k) = 256 * (n div 256 mod 256 ^ k) + n mod 256"
    by (rule mod_mult2_eq)
  with Suc show ?case by simp
qed

lemma be_val_append: "be_val (as @ bs) = be_val as * 256 ^ length bs + be_val bs"
proof (induction bs rule: rev_induct)
  case Nil
  then show ?case by simp
next
  case (snoc w bs)
  then show ?case
    by (simp add: append_assoc [symmetric] algebra_simps del: append_assoc)
qed

lemma be_val_Cons: "be_val (w # bs) = unat w * 256 ^ length bs + be_val bs"
  using be_val_append [of "[w]" bs] be_val_snoc [of "[]" w] by simp

lemma be_val_bound: "be_val bs < 256 ^ length bs"
proof (induction bs)
  case Nil
  then show ?case by simp
next
  case (Cons w bs)
  have "unat w < 256" by (rule byte_less_256)
  then have "Suc (unat w) * 256 ^ length bs \<le> 256 * 256 ^ length bs"
    by (intro mult_le_mono1) simp
  with Cons have "unat w * 256 ^ length bs + be_val bs < 256 * 256 ^ length bs"
    unfolding mult_Suc by linarith
  then show ?case by (simp add: be_val_Cons)
qed

lemma be_val_zeros [simp]: "be_val (replicate k 0 @ bs) = be_val bs"
  by (induction k) (simp_all add: be_val_Cons)

section \<open>Two digits a byte\<close>

text \<open>
  What \<^verbatim>\<open>hex << setw(2) << setfill('0')\<close> prints for a byte (lower case), and what
  \<^verbatim>\<open>"%02X"\<close> prints (upper case).
\<close>

definition hex2 :: "byte \<Rightarrow> string" where
  "hex2 w = [digit_char (unat w div 16), digit_char (unat w mod 16)]"

definition hex2_upper :: "byte \<Rightarrow> string" where
  "hex2_upper w = [digit_char_upper (unat w div 16), digit_char_upper (unat w mod 16)]"

lemma byte_div_16 [simp]: "unat (w::byte) div 16 < 16"
  using byte_less_256 [of w] by simp

lemma length_hex2 [simp]: "length (hex2 w) = 2" "length (hex2_upper w) = 2"
  by (simp_all add: hex2_def hex2_upper_def)

lemma hex2_digits:
  "c \<in> set (hex2 w) \<Longrightarrow> is_hex c" "c \<in> set (hex2_upper w) \<Longrightarrow> is_hex c"
  by (auto simp: hex2_def hex2_upper_def)

lemma digits_val_hex2 [simp]:
  "digits_val 16 (hex2 w) = unat w" "digits_val 16 (hex2_upper w) = unat w"
  by (simp_all add: hex2_def hex2_upper_def digits_val_Cons)

lemma digits_val_hex2_concat: "digits_val 16 (concat (map hex2 bs)) = be_val bs"
proof (induction bs rule: rev_induct)
  case Nil
  then show ?case by simp
next
  case (snoc w bs)
  then show ?case by (simp add: digits_val_append)
qed

lemma length_hex2_concat [simp]:
  "length (concat (map hex2 bs)) = 2 * length bs"
  "length (concat (map hex2_upper bs)) = 2 * length bs"
  by (induction bs) simp_all

lemma take2_drop_concat:
  assumes "\<And>x. length (f x) = 2" and "i < length bs"
  shows "take 2 (drop (2 * i) (concat (map f bs))) = f (bs ! i)"
  using assms(2)
proof (induction bs arbitrary: i)
  case Nil
  then show ?case by simp
next
  case (Cons b bs)
  then show ?case by (cases i) (simp_all add: assms(1))
qed

text \<open>Reading a text of hexadecimal digits two by two gives its value as bytes.\<close>

lemma be_val_pairs:
  assumes "length s = 2 * n" and "\<And>c. c \<in> set s \<Longrightarrow> is_hex c"
  shows "be_val (map (\<lambda>i. word_of_nat (digits_val 16 (take 2 (drop (2 * i) s)))) [0..<n]) = digits_val 16 s"
  using assms
proof (induction n arbitrary: s)
  case 0
  then show ?case by simp
next
  case (Suc n)
  define u v where "u = take (2 * n) s" and "v = drop (2 * n) s"
  have s: "s = u @ v" and lens: "length u = 2 * n" "length v = 2"
    using Suc.prems(1) by (simp_all add: u_def v_def)
  have digs: "\<And>c. c \<in> set u \<Longrightarrow> is_hex c" "\<And>c. c \<in> set v \<Longrightarrow> is_hex c"
    using Suc.prems(2) by (auto simp: s)
  have "digits_val 16 v < 256"
    using digits_val_bound [of v 16] digs(2) lens by simp
  moreover have "map (\<lambda>i. word_of_nat (digits_val 16 (take 2 (drop (2 * i) s))) :: byte) [0..<n]
      = map (\<lambda>i. word_of_nat (digits_val 16 (take 2 (drop (2 * i) u)))) [0..<n]"
    using lens by (auto simp: s)
  then have "be_val (map (\<lambda>i. word_of_nat (digits_val 16 (take 2 (drop (2 * i) s)))) [0..<n])
      = digits_val 16 u"
    using Suc.IH [OF lens(1) digs(1)] by (simp only:)
  moreover have "take 2 (drop (2 * n) s) = v"
    using lens by (simp add: s)
  moreover have "digits_val 16 s = digits_val 16 u * 256 + digits_val 16 v"
    using lens by (simp add: s digits_val_append)
  ultimately show ?case by simp
qed

section \<open>The C library's readers\<close>

definition is_space :: "char \<Rightarrow> bool" where
  "is_space c \<longleftrightarrow> (let n = of_char c :: nat in n = 32 \<or> (9 \<le> n \<and> n \<le> 13))"

text \<open>
  \<^verbatim>\<open>strtol(s, nullptr, 16)\<close>: white space, a sign, an optional \<^verbatim>\<open>0x\<close> before a digit, then the
  longest run of digits; 0 when there is none. The result saturates at \<^verbatim>\<open>long\<close>.
\<close>

definition skip_0x :: "string \<Rightarrow> string" where
  "skip_0x s = (case s of
       c # x # d # r \<Rightarrow>
         if c = CHR ''0'' \<and> (x = CHR ''x'' \<or> x = CHR ''X'') \<and> is_hex d then d # r else s
     | _ \<Rightarrow> s)"

definition strtol16 :: "string \<Rightarrow> int" where
  "strtol16 s =
     (let s1 = dropWhile is_space s;
          neg = (s1 \<noteq> [] \<and> hd s1 = CHR ''-'');
          s2 = (if s1 \<noteq> [] \<and> (hd s1 = CHR ''-'' \<or> hd s1 = CHR ''+'') then tl s1 else s1);
          v = int (digits_val 16 (takeWhile is_hex (skip_0x s2)))
      in max (- (2 ^ 63)) (min (2 ^ 63 - 1) (if neg then - v else v)))"

text \<open>
  \<^verbatim>\<open>sscanf(s, "%2hhx", &b)\<close>: white space, then at most two characters of an optionally
  signed hexadecimal number. \<open>None\<close> is a matching or input failure: the byte keeps the
  value it had. The two characters \<^verbatim>\<open>0x\<close> alone are a prefix without a digit and fail.
\<close>

definition sscanf_2hhx :: "string \<Rightarrow> byte option" where
  "sscanf_2hhx s = (case take 2 (dropWhile is_space s) of
       [] \<Rightarrow> None
     | [c] \<Rightarrow> if is_hex c then Some (word_of_nat (digit_of c)) else None
     | c # d # _ \<Rightarrow>
         if c = CHR ''+'' \<and> is_hex d then Some (word_of_nat (digit_of d))
         else if c = CHR ''-'' \<and> is_hex d then Some (- word_of_nat (digit_of d))
         else if \<not> is_hex c then None
         else if is_hex d then Some (word_of_nat (digit_of c * 16 + digit_of d))
         else if c = CHR ''0'' \<and> (d = CHR ''x'' \<or> d = CHR ''X'') then None
         else Some (word_of_nat (digit_of c)))"

lemma hex_not_space: "is_hex c \<Longrightarrow> \<not> is_space c"
  by (auto simp: is_digit_def digit_val_def is_space_def Let_def split: option.splits if_splits)

lemma hex_not_sign: "is_hex c \<Longrightarrow> c \<noteq> CHR ''-'' \<and> c \<noteq> CHR ''+''"
  by (metis not_digit(3,4))

lemma two_chars: "length s = 2 \<Longrightarrow> \<exists>c d. s = [c, d]"
  by (auto simp: length_Suc_conv numeral_2_eq_2)

lemma strtol16_hex2:
  assumes "length s = 2" and "\<And>c. c \<in> set s \<Longrightarrow> is_hex c"
  shows "strtol16 s = int (digits_val 16 s)"
proof -
  obtain c d where s: "s = [c, d]" using two_chars [OF assms(1)] by blast
  have hex: "is_hex c" "is_hex d" using assms(2) by (simp_all add: s)
  have "digits_val 16 s < 256" using digits_val_bound [of s 16] assms by simp
  then show ?thesis
    using hex hex_not_sign [OF hex(1)] hex_not_space [OF hex(1)]
    by (simp add: s strtol16_def skip_0x_def Let_def)
qed

lemma sscanf_2hhx_hex2:
  assumes "length s = 2" and "\<And>c. c \<in> set s \<Longrightarrow> is_hex c"
  shows "sscanf_2hhx s = Some (word_of_nat (digits_val 16 s))"
proof -
  obtain c d where s: "s = [c, d]" using two_chars [OF assms(1)] by blast
  have hex: "is_hex c" "is_hex d" using assms(2) by (simp_all add: s)
  then show ?thesis
    using hex_not_sign [OF hex(1)] hex_not_space [OF hex(1)]
    by (simp add: s sscanf_2hhx_def digits_val_Cons)
qed

lemma sscanf_2hhx_printed [simp]:
  "sscanf_2hhx (hex2 w) = Some w" "sscanf_2hhx (hex2_upper w) = Some w"
  by (simp_all add: sscanf_2hhx_hex2 hex2_digits)

end
