(* ===== verification/Primality.thy ===== *)
theory Primality
  imports Main
begin

text \<open>
  Prime integers, as far as the scheme needs them: Euclid's lemma, the existence of prime
  divisors, Fermat's little theorem, trial division and Pocklington's criterion. The
  modulus of the program is a 255-bit number; the criterion and the checked chains of
  squarings at the end are how its primality is proved by the kernel.
\<close>

section \<open>Primes and their divisors\<close>

definition is_prime :: "int \<Rightarrow> bool" where
  "is_prime p \<longleftrightarrow> 1 < p \<and> (\<forall>d. 0 < d \<and> d dvd p \<longrightarrow> d = 1 \<or> d = p)"

lemma is_prime_gt_1: "is_prime p \<Longrightarrow> 1 < p"
  by (simp add: is_prime_def)

lemma is_prime_pos [simp]:
  "is_prime p \<Longrightarrow> 0 < p" "is_prime p \<Longrightarrow> p \<noteq> 0" "is_prime p \<Longrightarrow> 0 \<le> p" "is_prime p \<Longrightarrow> \<not> p \<le> 0"
  by (auto simp: is_prime_def)

lemma is_prime_dvd: "is_prime p \<Longrightarrow> 0 < d \<Longrightarrow> d dvd p \<Longrightarrow> d = 1 \<or> d = p"
  by (simp add: is_prime_def)

lemma prime_coprime:
  assumes "is_prime p" and "\<not> p dvd a"
  shows "coprime p a"
proof -
  have "gcd p a = 1 \<or> gcd p a = p"
    by (rule is_prime_dvd [OF assms(1)]) (use assms(1) in \<open>simp_all add: gcd_pos_int\<close>)
  with assms(2) show ?thesis
    by (metis coprime_iff_gcd_eq_1 gcd_dvd2)
qed

lemma prime_dvd_mult:
  "is_prime p \<Longrightarrow> p dvd a * b \<longleftrightarrow> p dvd a \<or> p dvd b"
  by (metis coprime_dvd_mult_right_iff dvd_mult dvd_mult2 prime_coprime)

lemma prime_not_unit [simp]: "is_prime p \<Longrightarrow> \<not> p dvd 1" "is_prime p \<Longrightarrow> \<bar>p\<bar> \<noteq> 1" "\<not> is_prime 1"
  by (auto simp: is_prime_def)

lemma prime_dvd_power: "is_prime p \<Longrightarrow> p dvd a ^ n \<Longrightarrow> p dvd a"
  by (induction n) (auto simp: prime_dvd_mult)

lemma prime_dvd_prod_list: "is_prime p \<Longrightarrow> p dvd prod_list xs \<Longrightarrow> \<exists>x \<in> set xs. p dvd x"
  by (induction xs) (auto simp: prime_dvd_mult)

lemma prime_dvd_prod:
  "finite A \<Longrightarrow> is_prime p \<Longrightarrow> p dvd (\<Prod>x\<in>A. f x) \<Longrightarrow> \<exists>x\<in>A. p dvd f x"
  by (induction A rule: finite_induct) (auto simp: prime_dvd_mult)

lemma prime_dvd_prime: "is_prime p \<Longrightarrow> is_prime r \<Longrightarrow> p dvd r \<Longrightarrow> p = r"
  using is_prime_dvd [of r p] is_prime_gt_1 [of p] by simp

lemma prime_divisor_exists:
  "1 < n \<Longrightarrow> \<exists>p. is_prime p \<and> p dvd n"
proof (induction "nat n" arbitrary: n rule: less_induct)
  case less
  show ?case
  proof (cases "is_prime n")
    case False
    with less.prems obtain d where d: "0 < d" "d dvd n" "d \<noteq> 1" "d \<noteq> n"
      by (auto simp: is_prime_def)
    then have "d < n" using less.prems zdvd_imp_le by force
    with d less.hyps [of d] obtain p where "is_prime p" "p dvd d" by force
    with d(2) show ?thesis by (blast intro: dvd_trans)
  qed auto
qed

lemma composite_small_prime:
  assumes "1 < n" and "\<not> is_prime n"
  shows "\<exists>p. is_prime p \<and> p dvd n \<and> p * p \<le> n"
proof -
  obtain d where d: "0 < d" "d dvd n" "d \<noteq> 1" "d \<noteq> n"
    using assms by (auto simp: is_prime_def)
  then obtain e where e: "n = d * e" by (auto elim: dvdE)
  with assms(1) d have e1: "1 < e" "1 < d"
    by (auto simp: zero_less_mult_iff order_less_le split: if_splits)
       (metis int_one_le_iff_zero_less mult.right_neutral order_le_less zero_less_mult_pos)+
  define f where "f = min d e"
  have f: "1 < f" "f dvd n" "f * f \<le> n"
    using e1 by (auto simp: f_def e min_def intro: mult_mono)
  obtain p where p: "is_prime p" "p dvd f" using prime_divisor_exists [OF f(1)] by blast
  then have "p \<le> f" using f(1) by (simp add: zdvd_imp_le)
  then have "p * p \<le> f * f" using is_prime_pos(1) [OF p(1)] by (intro mult_mono) linarith+
  with p f show ?thesis by (meson dvd_trans order_trans)
qed

section \<open>Fermat's little theorem\<close>

lemma mult_mod_bij:
  assumes "is_prime p" and "\<not> p dvd a"
  shows "bij_betw (\<lambda>x. a * x mod p) {1..<p} {1..<p}"
proof -
  have inj: "inj_on (\<lambda>x. a * x mod p) {1..<p}"
  proof (rule inj_onI)
    fix x y
    assume xy: "x \<in> {1..<p}" "y \<in> {1..<p}" and eq: "a * x mod p = a * y mod p"
    from eq have "p dvd a * (x - y)"
      by (simp add: mod_eq_dvd_iff right_diff_distrib)
    with assms have "p dvd x - y" by (simp add: prime_dvd_mult)
    then have "x mod p = y mod p" by (simp add: mod_eq_dvd_iff)
    with xy show "x = y" by simp
  qed
  moreover have "(\<lambda>x. a * x mod p) ` {1..<p} \<subseteq> {1..<p}"
  proof
    fix y
    assume "y \<in> (\<lambda>x. a * x mod p) ` {1..<p}"
    then obtain x where x: "x \<in> {1..<p}" and y: "y = a * x mod p" by auto
    then have "\<not> p dvd x" using zdvd_not_zless [of x p] by simp
    with assms have "y \<noteq> 0" by (simp add: y prime_dvd_mult dvd_eq_mod_eq_0 [symmetric])
    moreover have "0 \<le> y" "y < p" using assms(1) by (simp_all add: y)
    ultimately show "y \<in> {1..<p}" by simp
  qed
  ultimately show ?thesis
    by (simp add: bij_betw_def endo_inj_surj)
qed

theorem fermat_little:
  assumes "is_prime p" and "\<not> p dvd a"
  shows "a ^ nat (p - 1) mod p = 1"
proof -
  let ?P = "\<Prod>x\<in>{1..<p}. x"
  have "(\<Prod>x\<in>{1..<p}. a * x mod p) = ?P"
    using prod.reindex_bij_betw [OF mult_mod_bij [OF assms], of "\<lambda>x. x"] by simp
  moreover have "(\<Prod>x\<in>{1..<p}. a * x mod p) mod p = (\<Prod>x\<in>{1..<p}. a * x) mod p"
    by (simp add: mod_prod_eq)
  moreover have "(\<Prod>x\<in>{1..<p}. a * x) = a ^ nat (p - 1) * ?P"
    by (simp add: prod.distrib)
  ultimately have "p dvd (a ^ nat (p - 1) - 1) * ?P"
    by (simp add: mod_eq_dvd_iff left_diff_distrib)
       (metis mod_eq_dvd_iff)
  moreover have "\<not> p dvd ?P"
  proof
    assume "p dvd ?P"
    then obtain x where "x \<in> {1..<p}" "p dvd x"
      using prime_dvd_prod [of "{1..<p}" p "\<lambda>x. x"] assms(1) by auto
    then show False using zdvd_not_zless [of x p] by simp
  qed
  ultimately have "p dvd a ^ nat (p - 1) - 1"
    using assms(1) by (simp add: prime_dvd_mult)
  then show ?thesis
    using is_prime_gt_1 [OF assms(1)] by (simp add: mod_eq_dvd_iff [symmetric])
qed

section \<open>Trial division\<close>

text \<open>No odd divisor from \<open>d\<close> on up to the square root, in at most \<open>k\<close> steps.\<close>

primrec trial :: "nat \<Rightarrow> int \<Rightarrow> int \<Rightarrow> bool" where
  "trial 0 n d \<longleftrightarrow> n < d * d"
| "trial (Suc k) n d \<longleftrightarrow> n < d * d \<or> (n mod d \<noteq> 0 \<and> trial k n (d + 2))"

lemma prime_below_square:
  assumes "n < d * d" and "\<And>e. is_prime e \<Longrightarrow> e dvd n \<Longrightarrow> d \<le> e" and "0 \<le> d" and "1 < n"
  shows "is_prime n"
proof (rule ccontr)
  assume "\<not> is_prime n"
  then obtain p where p: "is_prime p" "p dvd n" "p * p \<le> n"
    using composite_small_prime [OF assms(4)] by blast
  then have "d * d \<le> p * p" using assms(2,3) by (intro mult_mono) simp_all
  with p(3) assms(1) show False by simp
qed

lemma trial_sound:
  assumes "trial k n d" and "odd d" and "3 \<le> d"
    and "\<And>e. is_prime e \<Longrightarrow> e dvd n \<Longrightarrow> d \<le> e" and "1 < n" and "odd n"
  shows "is_prime n"
  using assms
proof (induction k arbitrary: d)
  case 0
  then have "n < d * d" by simp
  then show ?case
    by (rule prime_below_square [OF _ "0.prems"(4)]) (use "0.prems"(3,5) in simp_all)
next
  case (Suc k)
  show ?case
  proof (cases "n < d * d")
    case True
    then show ?thesis
      by (rule prime_below_square [OF _ Suc.prems(4)]) (use Suc.prems(3,5) in simp_all)
  next
    case False
    with Suc.prems(1) have nd: "\<not> d dvd n" and tr: "trial k n (d + 2)"
      by (simp_all add: mod_eq_0_iff_dvd)
    have "d + 2 \<le> e" if "is_prime e" "e dvd n" for e
    proof -
      have "d \<le> e" "e \<noteq> d" using Suc.prems(4) [OF that] that nd by auto
      moreover have "odd e" using that(2) Suc.prems(6) by (meson dvd_trans)
      ultimately show ?thesis using Suc.prems(2) by presburger
    qed
    with Suc.IH [OF tr] Suc.prems show ?thesis by simp
  qed
qed

lemma is_prime_2: "is_prime 2"
  unfolding is_prime_def by (auto dest: zdvd_imp_le)

lemma trial_prime:
  assumes "trial k n 3" and "odd n" and "1 < n"
  shows "is_prime n"
proof (rule trial_sound [OF assms(1)])
  fix e
  assume e: "is_prime e" "e dvd n"
  then have "odd e" using assms(2) by (meson dvd_trans)
  with is_prime_gt_1 [OF e(1)] show "3 \<le> e" by presburger
qed (use assms in simp_all)

section \<open>Pocklington's criterion\<close>

lemma power_gcd_one:
  fixes x p :: int
  assumes "x ^ m mod p = 1 mod p" and "x ^ n mod p = 1 mod p" and "m \<noteq> 0"
  shows "x ^ gcd m n mod p = 1 mod p"
proof -
  obtain u v where uv: "m * u = n * v + gcd m n"
    using bezout_nat [OF assms(3), of n] by blast
  have one: "x ^ (k * w) mod p = 1 mod p" if "x ^ k mod p = 1 mod p" for k w
    using that by (metis power_mod power_mult power_one)
  have "1 mod p = x ^ (n * v) * x ^ gcd m n mod p"
    using one [OF assms(1), of u] by (simp add: uv power_add)
  also have "\<dots> = (x ^ (n * v) mod p) * x ^ gcd m n mod p"
    by (simp add: mod_mult_left_eq)
  also have "\<dots> = x ^ gcd m n mod p"
    by (simp add: one [OF assms(2)] mod_mult_left_eq)
  finally show ?thesis by simp
qed

text \<open>
  If \<open>x\<close> has \<open>x ^ F = 1\<close> modulo a prime and \<open>x ^ (F / r) \<noteq> 1\<close> for every prime \<open>r\<close> of
  \<open>F\<close>, then \<open>F\<close> divides the order of the multiplicative group.
\<close>

lemma order_dvd:
  fixes x p :: int and F :: nat
  assumes p: "is_prime p" and F: "0 < F" and one: "x ^ F mod p = 1"
    and rs: "\<And>r. is_prime r \<Longrightarrow> r dvd int F \<Longrightarrow> x ^ (F div nat r) mod p \<noteq> 1"
  shows "F dvd nat (p - 1)"
proof -
  have p1: "1 mod p = 1" using is_prime_gt_1 [OF p] by simp
  have "\<not> p dvd x"
  proof
    assume "p dvd x"
    then have "p dvd x ^ F" using F by (simp add: dvd_power_le [where n = 1, simplified])
    with one show False by simp
  qed
  then have fer: "x ^ nat (p - 1) mod p = 1" by (rule fermat_little [OF p])
  define d where "d = gcd F (nat (p - 1))"
  have d1: "x ^ d mod p = 1"
    using power_gcd_one [of x F p "nat (p - 1)"] one fer F by (simp add: p1 d_def)
  have "d = F"
  proof (rule ccontr)
    assume "d \<noteq> F"
    obtain m where m: "F = d * m" unfolding d_def by (meson gcd_dvd1 dvdE)
    with F \<open>d \<noteq> F\<close> have "1 < int m" "0 < d" by (auto simp: nat_neq_iff)
    then obtain r where r: "is_prime r" "r dvd int m"
      using prime_divisor_exists by blast
    then obtain l where l: "m = nat r * l"
      by (metis dvd_def int_dvd_int_iff int_nat_eq is_prime_pos(1) order_less_imp_le)
    have "F div nat r = d * l" using r(1) by (simp add: m l)
    then have "x ^ (F div nat r) mod p = 1"
      using d1 p1 by (metis power_mod power_mult power_one)
    moreover have "r dvd int F" using r(2) by (simp add: m)
    ultimately show False using rs r(1) by blast
  qed
  then show ?thesis unfolding d_def by (metis gcd_dvd2)
qed

theorem pocklington:
  fixes N a :: int and F R :: nat
  assumes N: "1 < N" and FR: "nat (N - 1) = F * R" and big: "N < (int F + 1) * (int F + 1)"
    and one: "a ^ (F * R) mod N = 1"
    and rs: "\<And>r. is_prime r \<Longrightarrow> r dvd int F \<Longrightarrow> coprime (a ^ (F * R div nat r) - 1) N"
  shows "is_prime N"
proof (rule ccontr)
  assume "\<not> is_prime N"
  then obtain p where p: "is_prime p" "p dvd N" "p * p \<le> N"
    using composite_small_prime [OF N] by blast
  have "0 < F * R" using N FR by (simp flip: FR)
  then have F0: "0 < F" by simp
  have p1: "1 < p" by (rule is_prime_gt_1 [OF p(1)])
  have "F dvd nat (p - 1)"
  proof (rule order_dvd [OF p(1) F0])
    have "a ^ (F * R) mod p = 1"
      using one p(2) p1 by (metis mod_mod_cancel mod_pos_pos_trivial zero_le_one)
    then show "(a ^ R) ^ F mod p = 1" by (simp add: power_mult [symmetric] mult.commute)
  next
    fix r
    assume r: "is_prime r" "r dvd int F"
    then obtain l where l: "F = nat r * l"
      by (metis dvd_def int_dvd_int_iff int_nat_eq is_prime_pos(1) order_less_imp_le)
    have "coprime (a ^ (F * R div nat r) - 1) N" by (rule rs [OF r])
    then have "\<not> p dvd a ^ (F * R div nat r) - 1"
      using p(1,2) p1 by (metis coprime_common_divisor prime_not_unit(1))
    moreover have "F * R div nat r = l * R" "F div nat r = l" using r(1) by (simp_all add: l)
    ultimately have "\<not> p dvd (a ^ R) ^ (F div nat r) - 1"
      by (simp add: power_mult [symmetric] mult.commute)
    then show "(a ^ R) ^ (F div nat r) mod p \<noteq> 1"
      using p1 by (metis mod_eq_dvd_iff mod_pos_pos_trivial zero_le_one)
  qed
  then have "F \<le> nat (p - 1)" using p1 by (simp add: dvd_imp_le)
  then have "int F + 1 \<le> p" using p1 by simp
  then have "(int F + 1) * (int F + 1) \<le> p * p" by (intro mult_mono) simp_all
  with big p(3) show False by simp
qed

section \<open>Checked chains of squarings\<close>

text \<open>
  A power modulo a large number is checked, not computed: a chain lists, for every
  squaring (\<open>False\<close>) and every multiplication by the base (\<open>True\<close>), the quotient and the
  residue, so that a check multiplies and compares numerals and never divides. \<open>pow_res\<close>
  keeps the power itself folded.
\<close>

definition pow_res :: "int \<Rightarrow> int \<Rightarrow> nat \<Rightarrow> int \<Rightarrow> bool" where
  "pow_res N b e x \<longleftrightarrow> x mod N = b ^ e mod N"

definition square :: "int \<Rightarrow> int" where
  "square x = x * x"

lemma square_numeral: "square (numeral n) = numeral (Num.sqr n)" "square 1 = 1"
  by (simp_all add: square_def numeral_sqr)

fun chain :: "int \<Rightarrow> int \<Rightarrow> (bool \<times> int \<times> int) list \<Rightarrow> int \<Rightarrow> nat \<Rightarrow> int \<Rightarrow> nat \<Rightarrow> bool" where
  "chain N b [] x e y f \<longleftrightarrow> x = y \<and> e = f"
| "chain N b ((True, k, r) # cs) x e y f \<longleftrightarrow> x * b = k * N + r \<and> chain N b cs r (e + 1) y f"
| "chain N b ((False, k, r) # cs) x e y f \<longleftrightarrow> square x = k * N + r \<and> chain N b cs r (2 * e) y f"

lemmas chain_eval = chain.simps arith_simps rel_simps simp_thms mult_1_left mult_1_right
  numeral_plus_one one_plus_numeral one_add_one square_numeral Num.sqr.simps

lemma pow_res_1: "pow_res N b 1 b"
  by (simp add: pow_res_def)

lemma pow_res_mult:
  "pow_res N b e x \<Longrightarrow> pow_res N b f y \<Longrightarrow> x * y = k * N + r \<Longrightarrow> pow_res N b (e + f) r"
proof -
  assume e: "pow_res N b e x" and f: "pow_res N b f y" and r: "x * y = k * N + r"
  have "r mod N = x * y mod N" by (simp add: r)
  also have "\<dots> = b ^ e * b ^ f mod N"
    using e f unfolding pow_res_def by (rule mod_mult_cong)
  finally show ?thesis by (simp add: pow_res_def power_add)
qed

lemma pow_res_power: "pow_res N b e x \<Longrightarrow> pow_res N x f y \<Longrightarrow> pow_res N b (e * f) y"
  unfolding pow_res_def power_mult by (metis power_mod)

lemma chain_sound:
  "chain N b cs x e y f \<Longrightarrow> pow_res N b e x \<Longrightarrow> pow_res N b f y"
proof (induction N b cs x e y f rule: chain.induct)
  case (1 N b x e y f)
  then show ?case by simp
next
  case (2 N b k r cs x e y f)
  then have "pow_res N b (e + 1) r"
    using pow_res_1 pow_res_mult by (metis chain.simps(2))
  with 2 show ?case by simp
next
  case (3 N b k r cs x e y f)
  then have "pow_res N b (2 * e) r"
    using pow_res_mult by (metis chain.simps(3) mult_2 square_def)
  with 3 show ?case by simp
qed

lemma pow_res_coprime:
  assumes "pow_res N b e x" and "x * w = k * N + (w + 1)"
  shows "coprime (b ^ e - 1) N"
proof -
  have "(b ^ e - 1) mod N = (x - 1) mod N"
    using assms(1) unfolding pow_res_def by (metis mod_diff_left_eq)
  then obtain l where l: "b ^ e - 1 = (x - 1) + N * l"
    by (metis mod_eqE add.commute)
  have "(b ^ e - 1) * w = N * (k + l * w) + 1"
    using assms(2) by (simp add: l algebra_simps)
  then have "\<And>d. d dvd b ^ e - 1 \<Longrightarrow> d dvd N \<Longrightarrow> d dvd 1"
    by (metis dvd_add_right_iff dvd_mult2)
  then show ?thesis by (simp add: coprime_def)
qed

text \<open>
  Pocklington's criterion over a certificate: the prime factors \<open>ps\<close> of the factored part
  of \<open>N - 1\<close>, and for each the residue of a power with an inverse of the residue minus one.
\<close>

lemma pocklington_cert:
  fixes N a :: int and ps :: "int list"
  assumes N: "1 < N" and primes: "\<And>p. p \<in> set ps \<Longrightarrow> is_prime p"
    and NR: "N - 1 = prod_list ps * R" and big: "N < (prod_list ps + 1) * (prod_list ps + 1)"
    and one: "pow_res N a (nat (N - 1)) 1"
    and cert: "\<And>p. p \<in> set ps \<Longrightarrow>
      \<exists>E x w k. N = p * int E + 1 \<and> pow_res N a E x \<and> x * w = k * N + (w + 1)"
  shows "is_prime N"
proof -
  have pos: "0 < prod_list ps" using primes by (induction ps) simp_all
  then have "0 < R" using N NR by (metis diff_gt_0_iff_gt zero_less_mult_pos)
  define F where "F = nat (prod_list ps)"
  have F: "int F = prod_list ps" using pos by (simp add: F_def)
  have FR: "nat (N - 1) = F * nat R"
    using pos \<open>0 < R\<close> by (simp add: NR F_def nat_mult_distrib)
  show ?thesis
  proof (rule pocklington [OF N FR])
    show "N < (int F + 1) * (int F + 1)" using big by (simp only: F)
    show "a ^ (F * nat R) mod N = 1" using one N by (simp add: pow_res_def FR)
    fix r
    assume r: "is_prime r" "r dvd int F"
    then obtain p where p: "p \<in> set ps" "r dvd p"
      using prime_dvd_prod_list unfolding F by blast
    then have rp: "r = p" using r(1) primes prime_dvd_prime by blast
    obtain E x w k where E: "N = p * int E + 1" "pow_res N a E x" "x * w = k * N + (w + 1)"
      using cert [OF p(1)] by blast
    have "F * nat R div nat r = E"
      using r(1) by (simp flip: FR) (simp add: E(1) rp nat_mult_distrib)
    then show "coprime (a ^ (F * nat R div nat r) - 1) N"
      using pow_res_coprime [OF E(2,3)] by simp
  qed
qed

end
