(* ===== verification/Small_Primes.thy ===== *)
theory Small_Primes
  imports Primality
begin

text \<open>
  The twelve numbers that \<^verbatim>\<open>getFactors\<close> (\<^verbatim>\<open>src/fussion.cpp\<close>) lists are primes: by trial
  division the small ones, by Pocklington's criterion over checked powers the others.
\<close>

lemma is_prime_3: "is_prime 3"
  by (rule trial_prime [of 1]) (code_simp | simp)+

lemma is_prime_7: "is_prime 7"
  by (rule trial_prime [of 1]) (code_simp | simp)+

lemma is_prime_11: "is_prime 11"
  by (rule trial_prime [of 1]) (code_simp | simp)+

lemma is_prime_19: "is_prime 19"
  by (rule trial_prime [of 2]) (code_simp | simp)+

lemma is_prime_1607: "is_prime 1607"
  by (rule trial_prime [of 20]) (code_simp | simp)+

lemma is_prime_10177: "is_prime 10177"
  by (rule trial_prime [of 50]) (code_simp | simp)+

lemma is_prime_18329: "is_prime 18329"
  by (rule trial_prime [of 68]) (code_simp | simp)+

lemma is_prime_20921: "is_prime 20921"
  by (rule trial_prime [of 73]) (code_simp | simp)+

lemma is_prime_47737: "is_prime 47737"
  by (rule trial_prime [of 110]) (code_simp | simp)+

lemma is_prime_609743: "is_prime 609743"
  by (rule trial_prime [of 392]) (code_simp | simp)+

lemma is_prime_2653753: "is_prime 2653753"
  by (rule trial_prime [of 816]) (code_simp | simp)+

lemma pow_125527_20921_1:
  "chain 125527 2
     [(False, 0, 4),
      (True, 0, 8),
      (False, 0, 64)]
     2 1 64 6"
  by (simp only: chain_eval)

lemma pow_125527_20921: "pow_res 125527 2 6 64"
  by (rule pow_125527_20921_1 [THEN chain_sound, OF pow_res_1])

lemma pow_125527_1:
  "chain 125527 2
     [(False, 0, 4),
      (True, 0, 8),
      (False, 0, 64),
      (True, 0, 128),
      (False, 0, 16384),
      (True, 0, 32768),
      (False, 8553, 109393),
      (False, 95332, 88485),
      (True, 1, 51443),
      (False, 21082, 22035),
      (False, 3868, 2789),
      (True, 0, 5578),
      (False, 247, 108915),
      (False, 94501, 50198),
      (False, 20074, 10206),
      (True, 0, 20412),
      (False, 3319, 25631),
      (False, 5233, 65370),
      (True, 1, 5213),
      (False, 216, 61537),
      (False, 30167, 29360),
      (True, 0, 58720),
      (False, 27468, 62764),
      (True, 1, 1),
      (False, 0, 1)]
     2 1 1 125526"
  by (simp only: chain_eval)

lemma pow_125527: "pow_res 125527 2 125526 1"
  by (rule pow_125527_1 [THEN chain_sound, OF pow_res_1])

lemma is_prime_125527: "is_prime 125527"
proof (rule pocklington_cert [where ps = "[20921]" and R = 6 and a = 2])
  show "pow_res 125527 2 (nat (125527 - 1)) 1"
    using pow_125527 by simp
next
  fix p :: int
  assume "p \<in> set [20921]"
  then have p: "p = 20921" by simp
  show "\<exists>E x w k. 125527 = p * int E + 1 \<and> pow_res 125527 2 E x \<and> x * w = k * 125527 + (w + 1)"
    by (intro exI [of _ 6] exI [of _ 64] exI [of _ 3985] exI [of _ 2]) (simp add: p pow_125527_20921)
qed (auto simp: is_prime_20921)

lemma pow_859267_47737_1:
  "chain 859267 2
     [(False, 0, 4),
      (False, 0, 16),
      (False, 0, 256),
      (True, 0, 512),
      (False, 0, 262144)]
     2 1 262144 18"
  by (simp only: chain_eval)

lemma pow_859267_47737: "pow_res 859267 2 18 262144"
  by (rule pow_859267_47737_1 [THEN chain_sound, OF pow_res_1])

lemma pow_859267_1:
  "chain 859267 2
     [(False, 0, 4),
      (True, 0, 8),
      (False, 0, 64),
      (False, 0, 4096),
      (True, 0, 8192),
      (False, 78, 86038),
      (False, 8614, 811506),
      (False, 766399, 618503),
      (False, 445200, 292609),
      (True, 0, 585218),
      (False, 398572, 340800),
      (True, 0, 681600),
      (False, 540668, 389644),
      (True, 0, 779288),
      (False, 706753, 256893),
      (False, 76802, 589315),
      (False, 404172, 507301),
      (True, 1, 155335),
      (False, 28080, 744865),
      (False, 645694, 321927),
      (False, 120610, 800459),
      (False, 745675, 690456),
      (False, 554809, 422933),
      (False, 208168, 429633),
      (True, 0, 859266),
      (False, 859265, 1)]
     2 1 1 859266"
  by (simp only: chain_eval)

lemma pow_859267: "pow_res 859267 2 859266 1"
  by (rule pow_859267_1 [THEN chain_sound, OF pow_res_1])

lemma is_prime_859267: "is_prime 859267"
proof (rule pocklington_cert [where ps = "[47737]" and R = 18 and a = 2])
  show "pow_res 859267 2 (nat (859267 - 1)) 1"
    using pow_859267 by simp
next
  fix p :: int
  assume "p \<in> set [47737]"
  then have p: "p = 47737" by simp
  show "\<exists>E x w k. 859267 = p * int E + 1 \<and> pow_res 859267 2 E x \<and> x * w = k * 859267 + (w + 1)"
    by (intro exI [of _ 18] exI [of _ 262144] exI [of _ 326009] exI [of _ 99458]) (simp add: p pow_859267_47737)
qed (auto simp: is_prime_47737)

lemma pow_906349_1607_1:
  "chain 906349 2
     [(False, 0, 4),
      (False, 0, 16),
      (False, 0, 256),
      (False, 0, 65536),
      (True, 0, 131072),
      (False, 18955, 23889),
      (True, 0, 47778),
      (False, 2518, 550502),
      (False, 334366, 162270),
      (True, 0, 324540),
      (False, 116209, 300659),
      (False, 99736, 210417)]
     2 1 210417 564"
  by (simp only: chain_eval)

lemma pow_906349_1607: "pow_res 906349 2 564 210417"
  by (rule pow_906349_1607_1 [THEN chain_sound, OF pow_res_1])

lemma pow_906349_1:
  "chain 906349 2
     [(False, 0, 4),
      (True, 0, 8),
      (False, 0, 64),
      (False, 0, 4096),
      (True, 0, 8192),
      (False, 74, 39038),
      (True, 0, 78076),
      (False, 6725, 664751),
      (True, 1, 423153),
      (False, 197560, 152969),
      (False, 25817, 302828),
      (True, 0, 605656),
      (False, 404721, 716707),
      (False, 566745, 159844),
      (True, 0, 319688),
      (False, 112760, 504104),
      (False, 280378, 522894),
      (False, 301669, 738755),
      (False, 602150, 899675),
      (True, 1, 893001),
      (False, 879849, 524700),
      (True, 1, 143051),
      (False, 22578, 40879),
      (False, 1843, 691434),
      (True, 1, 476519),
      (False, 250533, 23344),
      (True, 0, 46688),
      (False, 2404, 906348),
      (False, 906347, 1)]
     2 1 1 906348"
  by (simp only: chain_eval)

lemma pow_906349: "pow_res 906349 2 906348 1"
  by (rule pow_906349_1 [THEN chain_sound, OF pow_res_1])

lemma is_prime_906349: "is_prime 906349"
proof (rule pocklington_cert [where ps = "[1607]" and R = 564 and a = 2])
  show "pow_res 906349 2 (nat (906349 - 1)) 1"
    using pow_906349 by simp
next
  fix p :: int
  assume "p \<in> set [1607]"
  then have p: "p = 1607" by simp
  show "\<exists>E x w k. 906349 = p * int E + 1 \<and> pow_res 906349 2 E x \<and> x * w = k * 906349 + (w + 1)"
    by (intro exI [of _ 564] exI [of _ 210417] exI [of _ 298534] exI [of _ 69307]) (simp add: p pow_906349_1607)
qed (auto simp: is_prime_1607)

lemma pow_2508409_2_1:
  "chain 2508409 11
     [(False, 0, 121),
      (False, 0, 14641),
      (False, 85, 1144116),
      (True, 5, 43231),
      (False, 745, 154656),
      (True, 0, 1701216),
      (False, 1153773, 1301499),
      (False, 675288, 1150209),
      (False, 527418, 685719),
      (True, 3, 17682),
      (False, 124, 1610408),
      (False, 1033887, 2470681),
      (False, 2433520, 1134081),
      (False, 512731, 659582),
      (True, 2, 2238584),
      (False, 1997783, 1467809),
      (True, 6, 1095445),
      (False, 478390, 1966515),
      (False, 1541686, 2207651),
      (False, 1942953, 2146024),
      (True, 9, 1030583),
      (False, 423416, 814745),
      (True, 3, 1436968),
      (False, 823181, 2403995),
      (True, 10, 1359855),
      (False, 737202, 1489407),
      (True, 6, 1333023),
      (False, 708397, 908156),
      (False, 328792, 2508408)]
     11 1 2508408 1254204"
  by (simp only: chain_eval)

lemma pow_2508409_2: "pow_res 2508409 11 1254204 2508408"
  by (rule pow_2508409_2_1 [THEN chain_sound, OF pow_res_1])

lemma pow_2508409_3_1:
  "chain 2508409 11
     [(False, 0, 121),
      (True, 0, 1331),
      (False, 0, 1771561),
      (False, 1251162, 2355463),
      (False, 2211842, 1564991),
      (True, 6, 2164447),
      (False, 1867650, 746959),
      (True, 3, 691322),
      (False, 190529, 1449323),
      (False, 837398, 478547),
      (False, 91295, 2031554),
      (False, 1645350, 906766),
      (False, 327787, 717873),
      (True, 3, 371376),
      (False, 54983, 281329),
      (False, 31552, 685473),
      (False, 187319, 568258),
      (False, 128733, 2138767),
      (True, 9, 950756),
      (False, 360362, 1687478),
      (False, 1135214, 985958),
      (True, 4, 811902),
      (False, 262790, 56494),
      (False, 1272, 875788),
      (False, 305773, 875787)]
     11 1 875787 836136"
  by (simp only: chain_eval)

lemma pow_2508409_3: "pow_res 2508409 11 836136 875787"
  by (rule pow_2508409_3_1 [THEN chain_sound, OF pow_res_1])

lemma pow_2508409_7_1:
  "chain 2508409 11
     [(False, 0, 121),
      (False, 0, 14641),
      (True, 0, 161051),
      (False, 10340, 475541),
      (False, 90152, 1154513),
      (True, 5, 157598),
      (False, 9901, 1372095),
      (True, 6, 42591),
      (False, 723, 413574),
      (True, 1, 2040905),
      (False, 1660531, 2313846),
      (False, 2134374, 360750),
      (True, 1, 1459841),
      (False, 849596, 1492517),
      (True, 6, 1367233),
      (False, 745223, 1996082),
      (True, 8, 1889630),
      (False, 1423492, 1392672),
      (True, 6, 268938),
      (False, 28834, 182738),
      (True, 0, 2010118),
      (False, 1610811, 1564225),
      (False, 975438, 2392483),
      (False, 2281914, 1290463),
      (True, 5, 1653048),
      (False, 1089362, 2245246),
      (False, 2009692, 100488),
      (False, 4025, 1491919)]
     11 1 1491919 358344"
  by (simp only: chain_eval)

lemma pow_2508409_7: "pow_res 2508409 11 358344 1491919"
  by (rule pow_2508409_7_1 [THEN chain_sound, OF pow_res_1])

lemma pow_2508409_1:
  "chain 2508409 11
     [(False, 0, 121),
      (False, 0, 14641),
      (False, 85, 1144116),
      (True, 5, 43231),
      (False, 745, 154656),
      (True, 0, 1701216),
      (False, 1153773, 1301499),
      (False, 675288, 1150209),
      (False, 527418, 685719),
      (True, 3, 17682),
      (False, 124, 1610408),
      (False, 1033887, 2470681),
      (False, 2433520, 1134081),
      (False, 512731, 659582),
      (True, 2, 2238584),
      (False, 1997783, 1467809),
      (True, 6, 1095445),
      (False, 478390, 1966515),
      (False, 1541686, 2207651),
      (False, 1942953, 2146024),
      (True, 9, 1030583),
      (False, 423416, 814745),
      (True, 3, 1436968),
      (False, 823181, 2403995),
      (True, 10, 1359855),
      (False, 737202, 1489407),
      (True, 6, 1333023),
      (False, 708397, 908156),
      (False, 328792, 2508408),
      (False, 2508407, 1)]
     11 1 1 2508408"
  by (simp only: chain_eval)

lemma pow_2508409: "pow_res 2508409 11 2508408 1"
  by (rule pow_2508409_1 [THEN chain_sound, OF pow_res_1])

lemma is_prime_2508409: "is_prime 2508409"
proof (rule pocklington_cert [where ps = "[2, 2, 2, 3, 3, 3, 3, 7]" and R = 553 and a = 11])
  show "pow_res 2508409 11 (nat (2508409 - 1)) 1"
    using pow_2508409 by simp
next
  fix p :: int
  assume "p \<in> set [2, 2, 2, 3, 3, 3, 3, 7]"
  then consider "p = 2" | "p = 3" | "p = 7" by auto
  then show "\<exists>E x w k. 2508409 = p * int E + 1 \<and> pow_res 2508409 11 E x \<and> x * w = k * 2508409 + (w + 1)"
  proof cases
    case 1
    show ?thesis
      by (intro exI [of _ 1254204] exI [of _ 2508408] exI [of _ 1254204] exI [of _ 1254203]) (simp add: 1 pow_2508409_2)
  next
    case 2
    show ?thesis
      by (intro exI [of _ 836136] exI [of _ 875787] exI [of _ 1380343] exI [of _ 481933]) (simp add: 2 pow_2508409_3)
  next
    case 3
    show ?thesis
      by (intro exI [of _ 358344] exI [of _ 1491919] exI [of _ 1480885] exI [of _ 880781]) (simp add: 3 pow_2508409_7)
  qed
qed (auto simp: is_prime_2 is_prime_3 is_prime_7)

lemma pow_2529403_18329_1:
  "chain 2529403 2
     [(False, 0, 4),
      (False, 0, 16),
      (False, 0, 256),
      (False, 0, 65536),
      (True, 0, 131072),
      (False, 6792, 164008),
      (False, 10634, 952562),
      (True, 0, 1905124),
      (False, 1434922, 1443810)]
     2 1 1443810 138"
  by (simp only: chain_eval)

lemma pow_2529403_18329: "pow_res 2529403 2 138 1443810"
  by (rule pow_2529403_18329_1 [THEN chain_sound, OF pow_res_1])

lemma pow_2529403_1:
  "chain 2529403 2
     [(False, 0, 4),
      (False, 0, 16),
      (False, 0, 256),
      (True, 0, 512),
      (False, 0, 262144),
      (True, 0, 524288),
      (False, 108673, 94725),
      (False, 3547, 1033184),
      (True, 0, 2066368),
      (False, 1688096, 1624736),
      (False, 1043632, 1158000),
      (False, 530150, 999550),
      (True, 0, 1999100),
      (False, 1579977, 2246269),
      (True, 1, 1963135),
      (False, 1523639, 1970708),
      (False, 1535417, 1655213),
      (False, 1083152, 2157113),
      (False, 1839618, 1206715),
      (False, 575693, 1489946),
      (True, 1, 450489),
      (False, 80232, 1277625),
      (True, 1, 25847),
      (False, 264, 305017),
      (True, 0, 610034),
      (False, 147126, 535378),
      (True, 0, 1070756),
      (False, 453276, 737308),
      (False, 214921, 1264701),
      (True, 0, 2529402),
      (False, 2529401, 1)]
     2 1 1 2529402"
  by (simp only: chain_eval)

lemma pow_2529403: "pow_res 2529403 2 2529402 1"
  by (rule pow_2529403_1 [THEN chain_sound, OF pow_res_1])

lemma is_prime_2529403: "is_prime 2529403"
proof (rule pocklington_cert [where ps = "[18329]" and R = 138 and a = 2])
  show "pow_res 2529403 2 (nat (2529403 - 1)) 1"
    using pow_2529403 by simp
next
  fix p :: int
  assume "p \<in> set [18329]"
  then have p: "p = 18329" by simp
  show "\<exists>E x w k. 2529403 = p * int E + 1 \<and> pow_res 2529403 2 E x \<and> x * w = k * 2529403 + (w + 1)"
    by (intro exI [of _ 138] exI [of _ 1443810] exI [of _ 1168483] exI [of _ 666982]) (simp add: p pow_2529403_18329)
qed (auto simp: is_prime_18329)

lemma pow_52437899_609743_1:
  "chain 52437899 2
     [(False, 0, 4),
      (False, 0, 16),
      (True, 0, 32),
      (False, 0, 1024),
      (False, 0, 1048576),
      (True, 0, 2097152),
      (False, 83871, 27484075),
      (True, 1, 2530251),
      (False, 122090, 27034091)]
     2 1 27034091 86"
  by (simp only: chain_eval)

lemma pow_52437899_609743: "pow_res 52437899 2 86 27034091"
  by (rule pow_52437899_609743_1 [THEN chain_sound, OF pow_res_1])

lemma pow_52437899_1:
  "chain 52437899 2
     [(False, 0, 4),
      (True, 0, 8),
      (False, 0, 64),
      (False, 0, 4096),
      (False, 0, 16777216),
      (True, 0, 33554432),
      (False, 21471110, 9244734),
      (False, 1629834, 36051990),
      (False, 24786385, 29754985),
      (False, 16883955, 5339680),
      (False, 543732, 18803332),
      (False, 6742552, 33523976),
      (False, 21432150, 49795726),
      (False, 47286683, 20668059),
      (True, 0, 41336118),
      (False, 32584727, 27941351),
      (False, 14888451, 5900752),
      (False, 664002, 4353706),
      (False, 361470, 28582906),
      (True, 1, 4727913),
      (False, 426278, 38625647),
      (True, 1, 24813395),
      (False, 11741594, 51155019),
      (True, 1, 49872139),
      (False, 47431920, 18099241),
      (False, 6247056, 33200737),
      (False, 21020844, 42776413),
      (False, 34895019, 27221488),
      (True, 1, 2005077),
      (False, 76668, 24935397),
      (False, 11857340, 26218949),
      (True, 0, 52437898),
      (False, 52437897, 1)]
     2 1 1 52437898"
  by (simp only: chain_eval)

lemma pow_52437899: "pow_res 52437899 2 52437898 1"
  by (rule pow_52437899_1 [THEN chain_sound, OF pow_res_1])

lemma is_prime_52437899: "is_prime 52437899"
proof (rule pocklington_cert [where ps = "[609743]" and R = 86 and a = 2])
  show "pow_res 52437899 2 (nat (52437899 - 1)) 1"
    using pow_52437899 by simp
next
  fix p :: int
  assume "p \<in> set [609743]"
  then have p: "p = 609743" by simp
  show "\<exists>E x w k. 52437899 = p * int E + 1 \<and> pow_res 52437899 2 E x \<and> x * w = k * 52437899 + (w + 1)"
    by (intro exI [of _ 86] exI [of _ 27034091] exI [of _ 17952639] exI [of _ 9255391]) (simp add: p pow_52437899_609743)
qed (auto simp: is_prime_609743)

lemma pow_63690073_2653753_1:
  "chain 63690073 2
     [(False, 0, 4),
      (True, 0, 8),
      (False, 0, 64),
      (False, 0, 4096),
      (False, 0, 16777216)]
     2 1 16777216 24"
  by (simp only: chain_eval)

lemma pow_63690073_2653753: "pow_res 63690073 2 24 16777216"
  by (rule pow_63690073_2653753_1 [THEN chain_sound, OF pow_res_1])

lemma pow_63690073_1:
  "chain 63690073 2
     [(False, 0, 4),
      (True, 0, 8),
      (False, 0, 64),
      (True, 0, 128),
      (False, 0, 16384),
      (True, 0, 32768),
      (False, 16, 54700656),
      (False, 46980033, 35517927),
      (False, 19807217, 41720488),
      (True, 1, 19750903),
      (False, 6124944, 38834497),
      (False, 23679014, 27014987),
      (True, 0, 54029974),
      (False, 45835056, 27841588),
      (True, 0, 55683176),
      (False, 48682878, 35776882),
      (True, 1, 7863691),
      (False, 970914, 52606759),
      (True, 1, 41523445),
      (False, 27071667, 37206334),
      (False, 21735118, 37635942),
      (True, 1, 11581811),
      (False, 2106110, 46393691),
      (False, 33794506, 10464543),
      (True, 0, 20929086),
      (False, 6877471, 10750013),
      (False, 1814455, 8094954),
      (True, 0, 16189908),
      (False, 4115447, 1190833),
      (False, 22265, 23758544),
      (True, 0, 47517088),
      (False, 35450950, 58580394),
      (False, 53880650, 29407786),
      (True, 0, 58815572),
      (False, 54314139, 31845037),
      (True, 1, 1),
      (False, 0, 1),
      (False, 0, 1),
      (False, 0, 1)]
     2 1 1 63690072"
  by (simp only: chain_eval)

lemma pow_63690073: "pow_res 63690073 2 63690072 1"
  by (rule pow_63690073_1 [THEN chain_sound, OF pow_res_1])

lemma is_prime_63690073: "is_prime 63690073"
proof (rule pocklington_cert [where ps = "[2653753]" and R = 24 and a = 2])
  show "pow_res 63690073 2 (nat (63690073 - 1)) 1"
    using pow_63690073 by simp
next
  fix p :: int
  assume "p \<in> set [2653753]"
  then have p: "p = 2653753" by simp
  show "\<exists>E x w k. 63690073 = p * int E + 1 \<and> pow_res 63690073 2 E x \<and> x * w = k * 63690073 + (w + 1)"
    by (intro exI [of _ 24] exI [of _ 16777216] exI [of _ 34981479] exI [of _ 9214808]) (simp add: p pow_63690073_2653753)
qed (auto simp: is_prime_2653753)

lemma pow_254760293_63690073_1:
  "chain 254760293 2
     [(False, 0, 4),
      (False, 0, 16)]
     2 1 16 4"
  by (simp only: chain_eval)

lemma pow_254760293_63690073: "pow_res 254760293 2 4 16"
  by (rule pow_254760293_63690073_1 [THEN chain_sound, OF pow_res_1])

lemma pow_254760293_1:
  "chain 254760293 2
     [(False, 0, 4),
      (True, 0, 8),
      (False, 0, 64),
      (True, 0, 128),
      (False, 0, 16384),
      (True, 0, 32768),
      (False, 4, 54700652),
      (False, 11745006, 159378346),
      (False, 99707285, 32861211),
      (True, 0, 65722422),
      (False, 16954905, 187958919),
      (False, 138673710, 240651531),
      (True, 1, 226542769),
      (False, 201450648, 76667497),
      (True, 0, 153334994),
      (False, 92289187, 64128245),
      (True, 0, 128256490),
      (False, 64569431, 66716817),
      (True, 0, 133433634),
      (False, 69887400, 181437756),
      (False, 129218171, 197431433),
      (True, 1, 140102573),
      (False, 77047842, 158282623),
      (False, 98341026, 146079511),
      (True, 1, 37398729),
      (False, 5490121, 96249988),
      (False, 36363830, 204597954),
      (True, 1, 154435615),
      (False, 93618824, 147872793),
      (False, 85831126, 101340931),
      (True, 0, 202681862),
      (False, 161249371, 181761341),
      (False, 129679490, 213627711),
      (True, 1, 172495129),
      (False, 116794376, 78214473),
      (True, 0, 156428946),
      (False, 96051134, 105848654),
      (False, 43978350, 221955166),
      (False, 193374309, 94575019),
      (True, 0, 189150038),
      (False, 140436864, 254760292),
      (False, 254760291, 1)]
     2 1 1 254760292"
  by (simp only: chain_eval)

lemma pow_254760293: "pow_res 254760293 2 254760292 1"
  by (rule pow_254760293_1 [THEN chain_sound, OF pow_res_1])

lemma is_prime_254760293: "is_prime 254760293"
proof (rule pocklington_cert [where ps = "[63690073]" and R = 4 and a = 2])
  show "pow_res 254760293 2 (nat (254760293 - 1)) 1"
    using pow_254760293 by simp
next
  fix p :: int
  assume "p \<in> set [63690073]"
  then have p: "p = 63690073" by simp
  show "\<exists>E x w k. 254760293 = p * int E + 1 \<and> pow_res 254760293 2 E x \<and> x * w = k * 254760293 + (w + 1)"
    by (intro exI [of _ 4] exI [of _ 16] exI [of _ 220792254] exI [of _ 13]) (simp add: p pow_254760293_63690073)
qed (auto simp: is_prime_63690073)

end
