(* ===== verification/Order_Prime.thy ===== *)
theory Order_Prime
  imports Small_Primes
begin

text \<open>
  The modulus of the program, the 255-bit literal of \<^verbatim>\<open>rand_mpz\<close> (\<^verbatim>\<open>src/Tools/Tools.cpp\<close>),
  is a prime: Pocklington's criterion with base 5 and the factored part
  \<open>2^32 * 906349^2 * 254760293^2\<close> of the modulus minus one, which exceeds its square root.
  The powers are checked in chunks, so that the kernel checks them in parallel.
\<close>

lemma pow_y_1:
  "chain 52435875175126190479447740508185965837690552500527637822603658699938581184513 5
     [(False, 0, 25),
      (False, 0, 625),
      (False, 0, 390625),
      (False, 0, 152587890625),
      (True, 0, 762939453125),
      (False, 0, 582076609134674072265625),
      (True, 0, 2910383045673370361328125),
      (False, 0, 8470329472543003390683225006796419620513916015625),
      (False, 1368270885797377582764, 45463504887875152153942403795318426358151359991825895558627331940127431606693),
      (True, 4, 17574023738870998851921056943848268439994589957018926502722024900882833295413),
      (False, 5889981035749121395546196515096900325825584784513173908399051155681337031525, 15588083824904181078736466175010133110853205906280812340303828298471604068244),
      (False, 4634009759934451136168787395928406899060342250824960574266598867847001748553, 29935184469540413216654978340886751077543093716625139127418370848834485483847),
      (True, 2, 44804171997449685124379410688061823712334363582070419991884536844295265050209),
      (False, 38283213957479704260499783490687345485278100687503546552181979047419914870532, 10769203597043142064057780878715355062474543989409985835890597109375692472765)]
     5 1 10769203597043142064057780878715355062474543989409985835890597109375692472765 1130"
  by (simp only: chain_eval)

lemma pow_y_2:
  "chain 52435875175126190479447740508185965837690552500527637822603658699938581184513 5
     [(False, 2211763334305554408557404738024840925950458619951370224911664755650702193514, 30538088977474599520821218015162002174139865066290910695787053707702800896543),
      (True, 2, 47818694537120616645210609059438079195318220330399277833727951138636842113689),
      (False, 43608074426097269417344100230938344758583656395883419303691090137914343935271, 22961641049455615716085982688229106570008039491006131197904199402940221530698),
      (False, 10054890052338605943040932943862160030094370031174144807047006880110680818665, 22350588440240242929009869365446926770762971702947413670216811819625897032059),
      (False, 9526851644157736274252876732821777300747444499115321315836250658044127846889, 20804432986238632717750507613650279362563222336682738334055141614178951749424),
      (False, 8254356972842353092307973396790868856586905591800062893879061150597039334116, 31037722870898572763538068252732807175810724861458606714728858844462032586268),
      (True, 2, 50316864004240482858794860247292104203672519306237757928436976822433000562314),
      (False, 48283485204843607008056368703656308377619667961324352497502120571060126793047, 49127351741442558370040153962158861481131583956117940645106799765218924553485),
      (True, 4, 35893258006708029932409807778050444054895709778479151935119364026340298029373),
      (False, 24569552163158105514525305316046993681717518353075538560922309424238035216035, 2366263257761061966546477231231020231802193038840061510747656192209019507174),
      (True, 0, 11831316288805309832732386156155101159010965194200307553738280961045097535870),
      (False, 2669547226173725786051128829084384218667089386296727606163350975097772982392, 38218656860961361084971430662932854987593003438404493314978970071693884561804),
      (False, 27856228724657568902543154286533056886571054840431954461151489996800924814670, 34710726224008107904427194791496965759034657549572028370816413741105496528706),
      (False, 22977293903727518836888040495976186496751335084822831247756746735032514702709, 15930509622279120285251982866432758142609391338158558190038497032314612088719)]
     10769203597043142064057780878715355062474543989409985835890597109375692472765 1130 15930509622279120285251982866432758142609391338158558190038497032314612088719 1157688"
  by (simp only: chain_eval)

lemma pow_y_3:
  "chain 52435875175126190479447740508185965837690552500527637822603658699938581184513 5
     [(True, 1, 27216672936269410946812173823977824875356404190265153127588826461634479259082),
      (False, 14126726849621560472246311130548569247906901928333300472259200010311485991392, 31717066565241322389578660694677149400891370002665684252520012911334197770628),
      (True, 3, 1277707300828040509550081948827849491385192511745507794789088456855245299601),
      (False, 31133950585108127739567815326809533327672578303059770461241961794425105291, 2089306667788894062984922867807835149542283002368853473251051868712727200918),
      (False, 83248393156177105528380386956768802849362520161705811421824357151034980420, 49255029347328930931921170041156168870263578630640313407649645029905777807264),
      (False, 46267138822488353354507538282219678675965552683449704898242539448873505281091, 18251837965228356036608569821783605943069992893390273207741666606228130222013),
      (True, 1, 38823314651015589703595108600732063877659411966423728216104674331202069925552),
      (False, 28744628662300846993816475181797169296595469871342294072943600597993089617705, 5207704190285685258583996301259042755882565144410978017846216467469585902039),
      (True, 0, 26038520951428426292919981506295213779412825722054890089231082337347929510195),
      (False, 12930166056608503141198379448558339759147252626779465814759163723162745800245, 38068622643090003092833118196304023888324259399457525944307046372064423332340),
      (False, 27637948734561141936786134813769298074792041190896405005122323749026931570554, 12555773020593095873491667161200922593368699401248364807022192835421338245398),
      (False, 3006480498668897930110584217811292429880059415291942198513221375087171896755, 11918183005372331394147132868418141009198787927625449752946474462512427223089),
      (True, 1, 7155039851735466491287923833904739208303387137599610942128713612623554930932),
      (False, 976327659430535728720766221861124252615345108357850446922074392940703508337, 19118602294395280534208934105384831159386606527249070423317266868135059603743)]
     15930509622279120285251982866432758142609391338158558190038497032314612088719 1157688 19118602294395280534208934105384831159386606527249070423317266868135059603743 592737074"
  by (simp only: chain_eval)

lemma pow_y_4:
  "chain 52435875175126190479447740508185965837690552500527637822603658699938581184513 5
     [(True, 1, 43157136296850212191596930018738189959242480135717714293982675640736716834202),
      (False, 35520307558982660230620681863995967462089626905233713538974283599890599126096, 38874703716017556100797405375584608916749726990689566078643578268190827625556),
      (True, 3, 37065893054709209065643805353365147070676977451864916925406915241138394574241),
      (False, 26201153758846059834487187704173201821821983650616261858702413653868653573312, 13783312948458059837066732706866231526287384320994478098522575493720616209025),
      (False, 3623086583386550977645104755200040076902975574509435045352253995804635002878, 5844583711860687696336032158796970261934101506009153369402180100708087422211),
      (False, 651446336136508429636916406521235016663869555965523827196042623782693737536, 23106888389889369060503251115413500329532131549150642562085861142972966148553),
      (True, 2, 10662691599194464343620774560695569972279552744697937165221988314987668373739),
      (False, 2168229132436876382760280930120239720290836232280029156632286955518058055553, 8258564032382581999060623815270837713805936967830467922522611686804687589432),
      (True, 0, 41292820161912909995303119076354188569029684839152339612613058434023437947160),
      (False, 32517756044489971482858475140069076947406800581809457027795259360836007692030, 29940406926196427632214222387903014797866514618893012080384181749578242534210),
      (True, 2, 44830284280729757202175630923143142313951468093409784756713591348014050302024),
      (False, 38327850578994535761890996301422341495607748802796644509773265032549024096670, 45813512769280622599287809042119143144118064429789652245615018966257199624866),
      (False, 40027518283068068763464082111473953989418418400290369873915288218994984379202, 24247755199153633233539892700023487923310620600257485564993500907866003819330),
      (True, 2, 16367025645515785208803982483745507941171998000232152179760187139452856727624)]
     19118602294395280534208934105384831159386606527249070423317266868135059603743 592737074 16367025645515785208803982483745507941171998000232152179760187139452856727624 151740691357"
  by (simp only: chain_eval)

lemma pow_y_5:
  "chain 52435875175126190479447740508185965837690552500527637822603658699938581184513 5
     [(False, 5108707112950875532038597339097903255908472108057431140608882137425102669166, 23354501442881030417066541939090036113595319382830490640425785145855482859218),
      (True, 2, 11900756864152771126437228679078248892595491913097177556921608329400251927064),
      (False, 2700975495625232713900088242224452247406474287790024534846817985177109142320, 13229836211104572101627306149382285290676893522976725678827220658658478769936),
      (False, 3337954512785197581937878583535432582248589172712288242904804430296186193022, 13917946667466541370239813995637851239754409313152250229143387381442802375810),
      (False, 3694212002593448280770922793938486357798242344727991022030260127841656706120, 37875684185378856661810971636566259013049735517346763331859752028560936836540),
      (False, 27358510708925259035501156477425698815512004229399113133402966341256640620761, 35855849089467964274798991837409858505134980853184919479323956127491679697207),
      (False, 24518364757580431831700752883547012633944252642395074854324643923096134069485, 33243847918285187717065526502322227319801928679342200439766305900280855715044),
      (False, 21076284523202196795670005834530706353339353057185394198409065784849651740460, 20732143336516601222162997169862528356958898656486728853656450156397680425956),
      (False, 8197093419159000714027795542257548678100845754806861543379633020481099043986, 10001946900027796876527333920639286083102089377410573330944555414093829525118),
      (False, 1907833929668647039755138783139756788158950110287779541451578487600396043484, 27308698450999738295729022009892384261890479059209294107448088670738017550632),
      (True, 2, 31671741904746310519749629033089989634071290294991194892033125953812925384134),
      (False, 19130017987316818487685216003233543118304539603364161184224841437220197442330, 16272104894528258966616400485909887986125300932518497165713769473587052294666),
      (True, 1, 28924649297515104353634261921363474092935952162064848005965188667996680288817),
      (False, 15955399508257136670476024113335297959514380629232862134253560826105770218114, 37615325077582388425442512699782950432157230846975703718189973966702046391007)]
     16367025645515785208803982483745507941171998000232152179760187139452856727624 151740691357 37615325077582388425442512699782950432157230846975703718189973966702046391007 310764935900166"
  by (simp only: chain_eval)

lemma pow_y_6:
  "chain 52435875175126190479447740508185965837690552500527637822603658699938581184513 5
     [(False, 26983676270619114974496880172704052913739712533860383843170729872961288832087, 51642297257675529025656069782453969965190920440947400866413824821618708605418),
      (False, 50860729550962497608388266752869249314794243881275316203845822071646255050821, 5090503022646568449283458229527401784549835975697871040561939375203225819551),
      (False, 494188776997207577468943738739325169385193444190187502251716781910149389729, 40521460639607971971535647609911987761068220753037773575523567462546717774624),
      (False, 31314224600683353730900499134621925567834430045046027682037826003690004976676, 38379623586293381121987407455833213886438298657980733868734209274393840922588),
      (False, 28091368775786287811494631094705317526658445658554860293187937429788579655992, 12994457755706420239373999604588666535684246716495265220469895440141590565848),
      (True, 1, 12536413603405910717422257514757366840730681081948688279745818500769371644727),
      (False, 2997216419307767388879009640721941158345758543280818219918974211748089116966, 12939566276797990142263515848796059418124709499158895601404475709696622156971),
      (False, 3193088221994091347972076344125349081837551079541348312121205458675020341831, 34709123138895600158847332814037645201154981879533301860312662631818420631538),
      (False, 22975171579523821908241407673576438968012985366443308778857887103268606775091, 35238645829184469601661600304241154336636043807889224998223675501930996879761),
      (True, 3, 18885603620543776569964779996647874170108561537863211523307401409839240845266),
      (False, 6801946623778037495319811210402620337981861331447344080827514744797094210797, 1185067021038653482273604356943477080296582734658441772785594637486980823895),
      (True, 0, 5925335105193267411368021784717385401482913673292208863927973187434904119475),
      (False, 669572043788267252130778199732774411179314434024928061438717394360630331699, 22391222275600267911117286074415477783203689631737333226616464165961562498038),
      (False, 9561523161783121070565376063786030295015555441406640156158377577545142419454, 788495112103169501311502876490752847948174265766697751288841046660739133542)]
     37615325077582388425442512699782950432157230846975703718189973966702046391007 310764935900166 788495112103169501311502876490752847948174265766697751288841046660739133542 636446588723540044"
  by (simp only: chain_eval)

lemma pow_y_7:
  "chain 52435875175126190479447740508185965837690552500527637822603658699938581184513 5
     [(True, 0, 3942475560515847506557514382453764239740871328833488756444205233303695667710),
      (False, 296421362156226096040113104284540336439553012893349859329170331185952551050, 25280956932234098856473173196546591322493218404613566124031378065099634755450),
      (False, 12188731117291535451466061499931476050590537863859345070235928668246613962430, 44275440191819622335856730966509405133036650415331935286255270764587424855910),
      (False, 37384988762603956409438058161764395489210781708574173322627392031186990872839, 8452176504537199685541385332567780790733864493699989734171084534535882785693),
      (False, 1362412421367176154122593487037323760838981088736049868285976523149425292562, 25454111722473408381493955821939837899747082271662408154819650900046236997943),
      (False, 12356269470400785417632260568227646817422798028150708414691914421089592917705, 3184898660674708959289666081286442012606009500068537439382902787246356728584),
      (True, 0, 15924493303373544796448330406432210063030047500342687196914513936231783642920),
      (False, 4836182978204265144683871663779920149865318240362277103507053057328222183259, 18549931107882413661311079552108430565446859534811737843970731536590887458533),
      (True, 1, 40313780364285877827107657252356186989543745173531051397249998983015856108152),
      (False, 30994064308681970015900404318576380132335388739201846773874401448475700675177, 25942798415550647964030369541542300402942143186125566528951942269465404921303),
      (True, 2, 24842241727500858861256366691339570339329610929572556999552393947449862237489),
      (False, 11769365381744096625995032132716026883800898365628061365042686185980597637939, 26230392534472875688677226322522208829284165933081204706234864071172908986414),
      (False, 13121426699080064928040113831058606243881327333291936435849561717905686906815, 30811066915037787497558231797301938559943744896806392058153068068379084423301),
      (True, 2, 49183584224936556528895677970137761124337619482976684645558022942018259747479)]
     788495112103169501311502876490752847948174265766697751288841046660739133542 636446588723540044 49183584224936556528895677970137761124337619482976684645558022942018259747479 325860653426452503069"
  by (simp only: chain_eval)

lemma pow_y_8:
  "chain 52435875175126190479447740508185965837690552500527637822603658699938581184513 5
     [(False, 46133013878996567141325921971974967924350512994309450053081781697708403922048, 38840637023326105435349575994869255866562889485907315625519798431530090012817),
      (True, 3, 36895559591251955738404658449788381819742789927953664659788016057834706510546),
      (False, 25960896294859031410300650457204610912962063039393284543721306658766135068611, 19936203944951077143417995575499672456667896605084116951285288155018703596673),
      (False, 7579776754126167691440857549779391226897302250380909838925563020571110635756, 14230212607375401794515330332229888672361715900499840339165393458667285422101),
      (False, 3861839821969148696076115736970886054705192269961558951918021992212599048997, 25995094773074307513653278786038238223692528943580983208766313031568154670740),
      (False, 12887073020222341646563956105746614167966727637229746908744466691768668147849, 11451726007614564078896853385358679496381600482283251619974550124149579085063),
      (False, 2500998183314105442125283371957351385108658301021472920163835578416958856182, 42567220347747627825297478414491563219715136125325484328964330451797017004603),
      (False, 34555888350905913015397437925818670737043398362374605392893203283244374738232, 26327628013711516997382448425060181513862689677558806262195669910493655786593),
      (False, 13218888680953523151206067667182716036279072368469278137589041995396301704254, 20307302859028636203218177828551399784961096722861560605544716912513627529347),
      (False, 7864587899620580441017796280582435702818958679185088941286276560325575558789, 41449195120880791473565878509122599327000473428168657917535907423441858411652),
      (False, 32764510374451158198361894225348052747828911929167849145110299334410760989422, 36770688226207334652930476279161419418261003702126831716147009216195666147618),
      (True, 3, 26545815605658101826309159871249199578233361009051245112924069981162587184551),
      (False, 13438897011179814920088761569257877507067081975189080541137604356399758145591, 20900094275076819026936915968818906344025520996289373287257061097699844639418),
      (True, 1, 52064596200257904655236839335908565882437052480919228613681646788560642012577)]
     49183584224936556528895677970137761124337619482976684645558022942018259747479 325860653426452503069 52064596200257904655236839335908565882437052480919228613681646788560642012577 667362618217374726286339"
  by (simp only: chain_eval)

lemma pow_y_9:
  "chain 52435875175126190479447740508185965837690552500527637822603658699938581184513 5
     [(False, 51695946114041116645488383788923000287780626241921195789983191941590273807581, 24008991930884901646574057336880527663506562089237450679696475260015406987876),
      (False, 10993078529005577831160547318811144838930672189569336170339381185983407479973, 30594036347841001404750884550608278914000938539016042876642190351408545733227),
      (False, 17850280116942166095793157947620097629306818696738720280298295203669690054419, 32051272668793361088423020534495318521284776677174089875451584938826601820582),
      (False, 19591245044702700049058830192988646689280222746831830693952315227508571555039, 24727202128384322892406821827214592577770626093132109884677951371353924907717),
      (False, 11660614475412018896254883719560344450347335661342835133547229110018314224480, 31038782785488240638143280349413793640045565333813988624065188860611584673849),
      (False, 18373032462738954269358861305271775066067868214105766622869884423636746881983, 32027167705362696788634819772731494991790494348628693080861553724424146145522),
      (False, 19561787951505450531007002768803837955660581347355274678322591554614382142064, 35336631579408289589764174913981825571159841678084393656305664037106237997652),
      (False, 23813420243458922375951923574102754830622390013078125105302681902832601865990, 39443726595761444832603591785252653916119818364960662180732218048478068100234),
      (False, 29670670367664643093184180129709384250376230338883574565704606160977213695301, 4781737743541706003916853318129971319020611948866927394829893788407428781343),
      (False, 436056722075227572122738179990208616463634071503576653469997800245888314058, 10566836330822160859909418902414363086940318221726805326084299426179915099895),
      (False, 2129420547849460677719807527041237103727634667016023101325061986257299909875, 29467512527560288106110581937649389296121042649351702859646934081662183245150),
      (False, 16559927562224249918828638087412829030378906252513834564142727686371476967811, 17277664184131587983687616741608709278628607400349754439318607183039045811457),
      (False, 5693004620646251068489930795652709726945207558020115099871550938762569734425, 51606487350307719603312439189530550144511273828157143856091525774955259502824),
      (False, 50790218104356478611165498860789274518409240744097906110939901031574887420306, 36481654895377328370248729460861466941388511030228933618229698578127295053998)]
     52064596200257904655236839335908565882437052480919228613681646788560642012577 667362618217374726286339 36481654895377328370248729460861466941388511030228933618229698578127295053998 10934069136873467515475378176"
  by (simp only: chain_eval)

lemma pow_y_10:
  "chain 52435875175126190479447740508185965837690552500527637822603658699938581184513 5
     [(False, 25381690292388748332338016452098405078016887490727260541876596869306788346608, 24254747170879848442783388913393626336793914297698456898652457917232290102100),
      (True, 2, 16401985504146861255021463550596200008588466487437008848054972186284288141474),
      (False, 5130554750535759303346864807912765352671637980634272456675243165108868000554, 51642896632114278888194663692649303384484285665812993530878351904205778672474),
      (False, 50861910164519763643198088544686845156730747122864205168532622598403776150475, 45074818047362567639444047922263186265766645456417614397430588647236937687001),
      (False, 38747121416724837131235631261051795013739649828490563353716315523705213285450, 50209568769872929570689296056768543002841990140906445862727977174418456138151),
      (True, 4, 41304343148859885935655518251098851663447740702421678023225251072337955952703),
      (False, 32535907091488015307994838651966036257528909205743349007375786939008539847049, 17234335740589338706883798578956891829927730080600277555070176482582105454072),
      (True, 1, 33735803527820503054971252386598493311948097902473749952747223712971946085847),
      (False, 21704690459854947470053478178258897900263824016389558660541168954131560646975, 6323836844439392764783808634517983647538905471713033880622859121211763409234),
      (True, 0, 31619184222196963823919043172589918237694527358565169403114295606058817046170),
      (False, 19066580037773220884832405504935981348513411296280505189050194017304731215687, 35172624462700143088181069462340708418365074951564424799076247648572964613469),
      (False, 23592883831201456283175146935016207137674398197463737294746037098069322136768, 3613128669495151815594634056469134366607541780106584910952728764998946739977),
      (True, 0, 18065643347475759077973170282345671833037708900532924554763643824994733699885),
      (False, 6224125533676853037620926039331517026540490223176122651705917642385848380915, 28643292373331730407535156812055357650469104283838244766655415834277326243830)]
     36481654895377328370248729460861466941388511030228933618229698578127295053998 10934069136873467515475378176 28643292373331730407535156812055357650469104283838244766655415834277326243830 5598243398079215367923393626426"
  by (simp only: chain_eval)

lemma pow_y_11:
  "chain 52435875175126190479447740508185965837690552500527637822603658699938581184513 5
     [(True, 2, 38344711516406271078780303043904856576964416418135948188069761771509468850124),
      (False, 28040285326903219668311016312394305514361725397799225863484888221208950705506, 30917968784809601198751408714996164234615420223701831680943509709022263786798),
      (False, 18230282046134655743461733017581817788144305632042515554051736718608803373425, 34794008890322061870115613110559026864382767686236659751320605992840033325779),
      (False, 23087686638518992412291994430126181525031549894978692383512647935744667590161, 31137901245507169972686451654626673468090037817710867958098043919574941580248),
      (False, 18490563774072139990085102909258484078416549587237427467701008795498616364008, 30831892079328665043682451745986803785513832839268394568389209546873603533400),
      (False, 18128915861831650566525517762840156557920002587068892634256887846983292953979, 30137135346568639568983009928205088255965081457566758376999398581068299032773),
      (False, 17321097890786012181325015231527496478359194905456268060123558337687885789959, 160377944840843626311671325377708456400664687715868125891850332348386364562),
      (False, 490524571306743355083597292583621526306374929300919041671176133362970836, 7250937570107403064532512356271642757233844984084436455222153391301215588976),
      (False, 1002674132356913079824903027249962512292000064633254575084800591806128615867, 51004961730996732938275159928742077156809240516947231242148490907884546260805),
      (True, 4, 45281307954478902773584837610966522433283992582625604920327819739668406565973),
      (False, 39102939413529487932023624311591653405326024102787953740959251982192193921500, 377162667805520845836204857177909148814151172094413852286937766149863707229),
      (False, 2712869338236144590977554474709515233997774249003392696588626376112870944, 46717330405253145099360531257902202704346936853673672474408196657214806368169),
      (True, 4, 23843151325760963579011694256767150170972474266257811081626348486319707102793),
      (False, 10841735038167381391807697556760248458589689178624496554162767580310683855670, 25097607133194460278730891121363907203471360189487374779523991238479337162139)]
     28643292373331730407535156812055357650469104283838244766655415834277326243830 5598243398079215367923393626426 25097607133194460278730891121363907203471360189487374779523991238479337162139 11465202479266233073507110146922506"
  by (simp only: chain_eval)

lemma pow_y_12:
  "chain 52435875175126190479447740508185965837690552500527637822603658699938581184513 5
     [(True, 2, 20616285315719920434758974590447604341975695946381598252412638792519523441669),
      (False, 8105733313302059385845215906819003331468182612134444958921005656822263838815, 5165263803528194016629627736477186089199427425246000336639279109413639233466),
      (True, 0, 25826319017640970083148138682385930445997137126230001683196395547068196167330),
      (False, 12720275036381300646029246941912704137146941591467489923314831905846196504235, 49871327240038720530832683544932660607496216767214171331351981452855238416345),
      (True, 4, 39613135499688840736372455691919439686718873833960305366345272464521867343673),
      (False, 29926085888256214743907861905042724034710959060172914483289543100724879695736, 44780386428088981447281493592876221163973930230174972894134503718995177794361),
      (True, 4, 14158431439940145318616505931637242469107441148764313180257883795221564233753),
      (False, 3822977687889866585166388531005848899057810294120790869542455806611633144802, 7086787176964496431814827547399665322641687767889815989116748336881615613583),
      (True, 0, 35433935884822482159074137736998326613208438839449079945583741684408078067915),
      (False, 23944747905825123332060775408875714785473865746198950917282865760437077029054, 10615895122547975578062235627186610558675202180854242633139555954313116606523),
      (True, 1, 643600437613687410863437627747086955685458403743575343094121071627001848102),
      (False, 7899582526526088231660127468406909503683457755071165594662504159613634916, 26731251962475610522236924975412325993279325134266556957159942647438665746496),
      (True, 2, 28784509462125671652289143860689698291015520670277509140592395837316166363454),
      (False, 15801166323781271119379737028799740118809961622742985618635964224999868609447, 31089316540230573741449913880220594517172996017400729213134395198595384915805)]
     25097607133194460278730891121363907203471360189487374779523991238479337162139 11465202479266233073507110146922506 31089316540230573741449913880220594517172996017400729213134395198595384915805 1467545917346077833408910098806081022"
  by (simp only: chain_eval)

lemma pow_y_13:
  "chain 52435875175126190479447740508185965837690552500527637822603658699938581184513 5
     [(True, 2, 50574832350900487748354088384731040910483875085948370420464658593099762209999),
      (False, 48779841259043789856176868613429486704857349014525179121445275415159229692190, 16756849046515341103623048897963267040766204099039280758110739547553990526531),
      (True, 1, 31348370057450515038667503981630369366140467994668765967950039037831371448142),
      (False, 18741373191097787845351709845904651877588283650873151206038346832763042473193, 34386118880151237665406599822416008506588222607325207592933646247511205992155),
      (True, 3, 14622968875377616888689777587522145019869455535043124496857255137740286407236),
      (False, 4077956513858222761273130658878769606959774397263649998526963813583619533208, 11827773014014365671175390794155683430217155035743437142563990158096054351992),
      (True, 1, 6702989894945637876429213462592451313395222678189547890216292090541690575447),
      (False, 856857511802466186926549321321640085534090418193196774969578064394739763027, 20233379321070344539869087393120940649699786199756863141013548926839416848958),
      (True, 1, 48731021430225532219897696457418737410808378498256677882464085934258503060277),
      (False, 45287933913603934993124215247966259665816277260298054047839382327171215435237, 49116684309551654616640059740698786987163546198442184331319455182921996432148),
      (True, 4, 35839920847253511165409336670750071585055520990100370366182641114855657422688),
      (False, 24496586011912703842452666596615874501281870115514392535847433200812963621466, 16586230689289120792547577248468122001623171764298257122191590729534263589286),
      (True, 1, 30495278271319413483290145734154644170425306320963647788354294947732736761917),
      (False, 17735224094940796210756353257798923783399571159821091726653444987696590502549, 35252237040947934892945690515946865487340669289092605398739279977663975691252)]
     31089316540230573741449913880220594517172996017400729213134395198595384915805 1467545917346077833408910098806081022 35252237040947934892945690515946865487340669289092605398739279977663975691252 187845877420297962676340492647178371070"
  by (simp only: chain_eval)

lemma pow_y_14:
  "chain 52435875175126190479447740508185965837690552500527637822603658699938581184513 5
     [(True, 3, 18953559679361103026385231055176429923631688943880113525885423788504134902721),
      (False, 6850985576560245318881619677283755758430336229138693091975318102000965217019, 2430625205541332368336498001786565621468865575958846360651567297507006377094),
      (False, 112669787050972518994823387437792001219861939454062478554048168828802978355, 26106164598668357655377803220274259168309899311282222065155092768645127668721),
      (False, 12997434061633831767009719161393147258700057906047764943407826239498808622947, 1731679618448742246671119697709322599003763057762664341401737674498668956030),
      (True, 0, 8658398092243711233355598488546612995018815288813321707008688372493344780150),
      (False, 1429705469268714708759382895998064963902752722664380475388309861393547082286, 13738747364893891852483041968308277995696658646049849171944928440622874185782),
      (False, 3599695409411551027311036157476226927951905455834339796111616439922963208560, 44213250669153017996160491925034392965595857241628382440268957274425589920244),
      (True, 4, 11322752645260328063011497592428101477217076206031360910930151572373624863168),
      (False, 2444981170573953774139036627932925345272562146162525391030010887915485976238, 30224397791162805301965626265125601724498783167229333212016039193804511394130),
      (True, 2, 46250238605561645550932650309256076947112810835091390414872878569145394601624),
      (False, 40794295202039354077381067637885552077876361817789538719516412167233646107458, 50816502059517632623906568603349570180033319243334572108312495185620340039422),
      (False, 49247139919768589575762140720343310057151847374081491476931672110597104229060, 21159096117530212300146883620921456008301116546251875569277710691232037546304),
      (True, 2, 923730237398680541838937088235348366124477730204102201181236056283025362494),
      (False, 16272781728822727556029146555980998309694692449094348626703685358544551679, 24849526077790198630922037189100532029280758296656359956300517101301738952709)]
     35252237040947934892945690515946865487340669289092605398739279977663975691252 187845877420297962676340492647178371070 24849526077790198630922037189100532029280758296656359956300517101301738952709 96177089239192556890286332235355325988442"
  by (simp only: chain_eval)

lemma pow_y_15:
  "chain 52435875175126190479447740508185965837690552500527637822603658699938581184513 5
     [(True, 2, 19375880038698612195714704929130728471022686482226524136295268106631532394519),
      (False, 7159692214923269823076666845407043520703732767105573335509180676828821434673, 28131339236846256031673212661982114425060396344227246773230042234753472422112),
      (True, 2, 35784945833978899199470582293538640449920876720080958220942893773890199741534),
      (False, 24421492805526002430492342235463744061981412099187401274557093979111948325149, 16075151462103100243140042462387197107695322189347251635064455390605517455719),
      (True, 1, 27939882135389310736252471803750019700786058446208620352718618253089006094082),
      (False, 14887460371973625490892195095304348550635748025453240545372414147522226140197, 21330198470375847189597169821618671006504384914327302802120283911981572253663),
      (True, 2, 1779242001626854989090368091721423357140819570581238365394102160030698899289),
      (False, 60372828522080998631259880365146616597802363860944135928059184315396014569, 33141207109140491020245470285546168280221417449558987699356582829704739535624),
      (True, 3, 8398410020323883662884129903172943888035429746212025028971938048707954124581),
      (False, 1345134235557399998432639867894761025375299009542067934463451480754148644817, 40046668813157337539576300613226539788757121082841506605434987613036490306440),
      (True, 3, 42925718540408116259538281541574801430713947912624619559363961965366707978661),
      (False, 35140393977526526824356292838142933449289292639753336241970727351055351367491, 48385828756594089880197954209933289552062980281707408406559578007519290486038),
      (True, 4, 32185643082465687483198809016922584409552691406426490742383255237842127692138),
      (False, 19755856408844202341018094302197071564165590985322544237688693985234584731842, 33162676258682494625447275709479774397997047854693663807942839933745278648098)]
     24849526077790198630922037189100532029280758296656359956300517101301738952709 96177089239192556890286332235355325988442 33162676258682494625447275709479774397997047854693663807942839933745278648098 12310667422616647281956650526125481726520830"
  by (simp only: chain_eval)

lemma pow_y_16:
  "chain 52435875175126190479447740508185965837690552500527637822603658699938581184513 5
     [(True, 3, 8505755768033901688893157022840974476913581771885405571903223568910649686951),
      (False, 1379740129135126592788638891311787726180149066065505023984708056060565640056, 49742577247432771689098842848786026398709670704690271795086820623405820023673),
      (True, 4, 38969385536659096527703252211186268642786143521340807685019468317274775380313),
      (False, 28961336185061977194029128194908763831040455385328717282723654351930931805701, 15849120847235454937015771832315895462122405445868060912451810110483241669356),
      (True, 1, 26809729061051084205631118653393511472921474728812666739655391852477627162267),
      (False, 13707439227941470146681142195775141525007761376009200391684896137470247152679, 25377908761975056571052372052772738606314680230492334650612442625905767318962),
      (True, 2, 22017793459622901896366379247491761356192296151406397607854895729651674225784),
      (False, 9245258655672783317053485359234836164259142398479201064027518183527452600384, 39397527685964665854599853446798726136192482538345701542110922885299051761664),
      (True, 3, 39680012904444757834656045709435733167890755190145594242743638326679515254781),
      (False, 30027217412474766756690259835248824627392439645092208228542212857960912524012, 3303731639693480849423763059950210070718006609296403170331175662527828331805),
      (True, 0, 16518658198467404247118815299751050353590033046482015851655878312639141659025),
      (False, 5203804985927513291571378902656860834080131905318649501888768942498684727601, 11121743759304626378455042128222178243231769890687118140324243225940039107312),
      (True, 1, 3172843621396941412827470132924925378468296952907952879017557429761614352047),
      (False, 191985670349117634166956456100874050959002735836646548664774405735944417626, 21247873550448270118027152351618332187112812841623752482956633999830617664071)]
     33162676258682494625447275709479774397997047854693663807942839933745278648098 12310667422616647281956650526125481726520830 21247873550448270118027152351618332187112812841623752482956633999830617664071 1575765430094930852090451267344061660994666494"
  by (simp only: chain_eval)

lemma pow_y_17:
  "chain 52435875175126190479447740508185965837690552500527637822603658699938581184513 5
     [(True, 2, 1367617401988969631240280741719729260182959207063486769575852599275925951329),
      (False, 35669803392740984529121986084197990060737796443112129069864504110577715145, 42612476587882564309898237930325759867512612304112608433496752990278477316856),
      (True, 4, 3318882238908059631700227618884935986800851518452490877069130151638061846228),
      (False, 210065709382200014317421319231758087122463386672137628699799762651085769443, 34923367962504268005584821978843067924933151008016203892936087201514957591725),
      (True, 3, 17309214287142768589580888369657442111594097538498105996869459907759044405086),
      (False, 5713815174011850818960851971217440896531399721158656134531600651709761647179, 361165541011699866437458103240793238088954036294528812233177281195857728569),
      (True, 0, 1805827705058499332187290516203966190444770181472644061165886405979288642845),
      (False, 62190507729024446564729489924193991649787645680290323763495910580676385492, 23516035006537702951229983387053236965799303493147174234012324003393201408629),
      (True, 2, 12708424682436133797254435918894253153615412464680595524854302617088844674119),
      (False, 3080029795817425826246982249455044763033084542303587046930617166335921341772, 17982932664620207400321222174753265037776013879862295302520639315751242049125),
      (True, 1, 37478788147974846522158370365580359351189516898783838689999537878817629061112),
      (False, 26788139920416602791058620022420217293062743109578388582623061736910504459230, 47472343549417503287151593048914720805551254850278390501890092060428714771554),
      (True, 4, 27618217046582754517967003211829740676994064249281401219035825502389249119718),
      (False, 14546642165972365691340068956635880248209296996101638722324553560699145613015, 49761596689707638228182929876393141554563370192765764550317472697551687162829)]
     21247873550448270118027152351618332187112812841623752482956633999830617664071 1575765430094930852090451267344061660994666494 49761596689707638228182929876393141554563370192765764550317472697551687162829 201697975052151149067577762220039892607317311486"
  by (simp only: chain_eval)

lemma pow_y_18:
  "chain 52435875175126190479447740508185965837690552500527637822603658699938581184513 5
     [(True, 4, 39064482748033429223123687349221844422054640961718271461172728688004111076093),
      (False, 29102857676633198647865918317441869618105863020482827914637325700080534967577, 34362347164966154105983886504022645569835882035532471875936521228505726609648),
      (True, 3, 14504110299452199091576210995555330336107752676079445911871630042712889494701),
      (False, 4011932953842780839233028130766354522520533015499390352800369462413920460001, 31953316842925398777575360624460625969572877352356681293218550192142689914888),
      (True, 3, 2458958689248422449533581597745232334792729260200492998281774860897706020901),
      (False, 115311851194171825795602229995688329717959867014526537165815487511423794843, 29812473538079740621137361659453092402515494234010474184307804442030207985342),
      (True, 2, 44190617340146322146791327280893530337196366168997095276331704810273877557684),
      (False, 37241881715165655889814073668618696771359057715696928769455680786473652643557, 20445055415429871815437314660042688887616325716256775845893757884509909811115),
      (True, 1, 49789401902023168597738832792027478600391076080756241406865130722610967871062),
      (False, 47276497883974194103227548013321366420477218122878154933743392890128528967485, 2331593902307225204089184285857802744520047437541932568438087866728494448039),
      (True, 0, 11657969511536126020445921429289013722600237187709662842190439333642472240195),
      (False, 2591894436356735955261192467481977799174327275430303427289226006337346202939, 28399062770211820246423380145009923015760720952572091072456199106732271754318),
      (True, 2, 37123563500806720273221419708677683403422499761805179717073678133784196402564),
      (False, 26282749403831463366655287973986148507212961105625749650812096755259646335948, 30209092510584858027482457315150696676475895518864687528178531302784973000772)]
     49761596689707638228182929876393141554563370192765764550317472697551687162829 201697975052151149067577762220039892607317311486 30209092510584858027482457315150696676475895518864687528178531302784973000772 25817340806675347080649953564165106253736615870462"
  by (simp only: chain_eval)

lemma pow_y_19:
  "chain 52435875175126190479447740508185965837690552500527637822603658699938581184513 5
     [(True, 2, 46173712202671909178516805559381551706998372593268161995685339114047702634834),
      (False, 40659409067830857283856796432930476478135137634805359823481950888339655178159, 34585428383118792309711072781098532326096373318656525139472423394657683555989),
      (True, 3, 15619516390215390110212142380934764117410209091699712229551140873472674226406),
      (False, 4652717084427304635215001855210321357971712901755266957580565780027216971231, 31892832829343771456027614428126262893084508143599503970740918478662323931333),
      (True, 3, 2156538621340285841794850616073416952350883216414606385893616293495876103126),
      (False, 88692308649372488254348770529753429337704870325816467123476619605921247203, 36290095991375363362217313095902729807507058300687466281969721122041358804737),
      (True, 3, 24142854431498245372743343954955751524463634001854417942037629510391050470146),
      (False, 11116004417849629813951901461813267199571689930117893689948608563323585702139, 13683923712882193643991311059292557228595050133114744683991193536314219488009),
      (True, 1, 15983743389284777740508814788276820305284698165046085597352308981632516255532),
      (False, 4872237792947068971131937599392785623046357406310990676856993270038476290908, 15613754239817673138112327807593457040429534684280062124654720398124908295220),
      (True, 1, 25632896023962175211113898529781319364457120920872672800669943290685960291587),
      (False, 12530454700733898196604730298840134204971328448079647738377807993698692860956, 36379377814494309647911277841086180484625235707070192665363682394262773404141),
      (True, 3, 24589263547092976801213167680873004910054521033768049859007435871498123467166),
      (False, 11530881858442069873136465785225988726599997826370708953974053250109248742346, 50492674925008473094161662396305132181846176529916051884716512611812857584058)]
     30209092510584858027482457315150696676475895518864687528178531302784973000772 25817340806675347080649953564165106253736615870462 50492674925008473094161662396305132181846176529916051884716512611812857584058 3304619623254444426323194056213133600478286831419390"
  by (simp only: chain_eval)

lemma pow_y_20:
  "chain 52435875175126190479447740508185965837690552500527637822603658699938581184513 5
     [(True, 4, 42719873924537603553017349948781797558468672647469708133167928259309963182238),
      (False, 34804179810735769104118479692604323913121725371104814035584404895143570539592, 9342300774870215792270878629131807828139996001688382055848592572677674949948),
      (True, 0, 46711503874351078961354393145659039140699980008441910279242962863388374749740),
      (False, 41612056381554707502930501460489986459170733501737558479573177771019228253643, 50285622623771668224004704583364016098567867513551382187389029415244282636741),
      (True, 4, 41684612418353579202232560884076217142077127565646359646530512276467088445653),
      (False, 33137749807075204637249783619271949689695524675108824914510889741800530310094, 49236817057190533613806304980831111594936157566325447021429212992949814222187),
      (True, 4, 36440584585447906151240562871411694623918577829516683816731430164994746372883),
      (False, 25324574072506415948497197651545911262450222215035499039891529405488404789790, 29508705241649885636760982014658050426890906282933384549478497889963509209419),
      (True, 2, 42671775857997047224909429056918320459073426413611647102185172049940383678069),
      (False, 34725852268007989129618275997207298074629702472483237393866075996877011078493, 9598173168244968632707329183728461393735391983514696454934041302597072589852),
      (False, 1756906466420886891769586844524989780549178445657757838635233917213707374638, 9608163536997071500094759065667991237417415224876469868288687950677118800610),
      (False, 1760565762378503272866006868526844729390005727643251553985865819895973822230, 16487359704388210804662321185832136548407851939778452704347057861251445248110),
      (False, 5184103995861835549163214562829710338399477477978282212287094349226216069168, 1028832373364929136896957928903230500182551556014941655986842592523280176916),
      (False, 20186485854360789861383764348686945224470381082014449629427231642965064736, 51758752387740534528026654955357187706144416872178915043653032069847653637488)]
     50492674925008473094161662396305132181846176529916051884716512611812857584058 3304619623254444426323194056213133600478286831419390 51758752387740534528026654955357187706144416872178915043653032069847653637488 1691965247106275546277475356781124403444882857686728672"
  by (simp only: chain_eval)

lemma pow_y_21:
  "chain 52435875175126190479447740508185965837690552500527637822603658699938581184513 5
     [(False, 51090373523626219624353756049450784772398654807133430406381815976103392295017, 10769860882111742797258432957505846207362735212818634389150249193064311478423),
      (False, 2212033327042902533951961828961282483006763144046496351217785244043022222079, 11298361535281090935024972425716724008691548648181810632870501982662833104402),
      (False, 2434458716586341113332698678261151057043291345954918882043887971659908619090, 9987235220270253969687032834346868053374215278395962470469603410362307624434),
      (False, 1902225661570005168901579533528032258977115304240718259901283208866225585957, 1870372969573695500615673406699793699167205275537023358023370433019835136415),
      (False, 66715679553898190301664877122072535715632977995395978335607854316255456097, 25677577009102492323659045109781897661527681649396053530474644529380331226464),
      (False, 12574176722641154120088408840955820485456623313096956973806129169020780764687, 39440139017245925004279074582475585266365578956537907114462716090600072250865),
      (False, 29665273260044159908435690818556085653479186522654204444170407017447616010053, 211997574311279287771592715409516822719416190043976952114748267659837339036),
      (False, 857103488094079007328152523451120316599103266361917917383132551883281641, 42827477161827886404027925893472536138864071812985291970880471239577842983463),
      (False, 34979730841165941940182417857790921505782457445124651203861474619726045084870, 25263882003472804691130307480339841438808547413386407110824339407294676854059),
      (False, 12172271975126064652873908833599075268377353393248171914821463064676173261693, 33977085317364327463054741031190538304230579396308750072452908209274517014972),
      (False, 22016268877134772024999407916752506042783073970286832519967685028753567498932, 27531502813017663754571934999013963317378712804167363337354145215041849720668),
      (False, 14455439994310639318567661327894048573187707151749760612337226903404251471653, 34601557658857319030975954669349829346514614876307277265370268568793444256235),
      (False, 22832989597686185407000944016054811609970652573203427086324903158028715792190, 8553136321759989829433589779458194719705960409447456300694575600392982021755),
      (False, 1395154380360429505672961237417011751504125328180231548065283642300808995077, 40183351640301839710327844705926441621305577881844718900123701342111447637524)]
     51758752387740534528026654955357187706144416872178915043653032069847653637488 1691965247106275546277475356781124403444882857686728672 40183351640301839710327844705926441621305577881844718900123701342111447637524 27721158608589218550210156245501942226040960740339362562048"
  by (simp only: chain_eval)

lemma pow_y_22:
  "chain 52435875175126190479447740508185965837690552500527637822603658699938581184513 5
     [(False, 30793836159982861639899514625016349714166876231582014099222962690862377697749, 6624296118283421850888827295369349975589832153783608834724420753830579089339),
      (False, 836856425417699860937362777761844928346706537234343723159592486389345923092, 7568106832173381686267987036905348059976992481768689959529023874205783982725),
      (False, 1092310194726364254406263050648877330140576712889651933655165036260070508699, 20498197097366008279700912859803819215309041771410980168018104665557207847038),
      (False, 8013141438741192231125626213186324059228575249739268970785457007315168537372, 39462304520209587113714845148252871637291741895412996950847658593881737253608),
      (False, 29698626614788952599537697284993570040789573558221307863262706339695820551783, 2013592187970126642235355731211544928844885101921580692977775563201114880985),
      (False, 77324035994686042105855916168793514384271004579662285428514119904335265913, 20050907306123642254820044428515692260940228126850609233802603152108342164856),
      (False, 7667248471700461565841110910465412057212888093886403970355145067900905550916, 31104856138718695308692426761474472894535984465376215069383912141608569336828),
      (False, 18451338366701680977091402559366996800483437750017325100991705899102242660867, 4095105665682476952121825606166459343645191807902459648347883258961905548813),
      (False, 319817116756349910887107466117669121895047021460785971128183050127621747228, 38682282164072788666308238378637191754197164647438381533917418640363811429005),
      (False, 28536168194456817199616778650516287565016480847839465716875309074099594518108, 8023817760456517532405444352602607928739395171866714394824129043852087628621),
      (False, 1227816857027646735961596000771316145798834019923018679425019509921974082324, 11083493449928885050654692457228464234913905296489957163055679384013122513429),
      (False, 2342743906616237122291423371479850530864166919373349046946360564497092135456, 6088429413777511112843551934153282607269039673017457978116293446305159945113)]
     40183351640301839710327844705926441621305577881844718900123701342111447637524 27721158608589218550210156245501942226040960740339362562048 6088429413777511112843551934153282607269039673017457978116293446305159945113 113545865660781439181660799981575955357863775192430029054148608"
  by (simp only: chain_eval)

lemma pow_y: "pow_res 52435875175126190479447740508185965837690552500527637822603658699938581184513 5 113545865660781439181660799981575955357863775192430029054148608 6088429413777511112843551934153282607269039673017457978116293446305159945113"
  by (rule pow_y_22 [THEN chain_sound, OF pow_y_21 [THEN chain_sound, OF pow_y_20 [THEN chain_sound, OF pow_y_19 [THEN chain_sound, OF pow_y_18 [THEN chain_sound, OF pow_y_17 [THEN chain_sound, OF pow_y_16 [THEN chain_sound, OF pow_y_15 [THEN chain_sound, OF pow_y_14 [THEN chain_sound, OF pow_y_13 [THEN chain_sound, OF pow_y_12 [THEN chain_sound, OF pow_y_11 [THEN chain_sound, OF pow_y_10 [THEN chain_sound, OF pow_y_9 [THEN chain_sound, OF pow_y_8 [THEN chain_sound, OF pow_y_7 [THEN chain_sound, OF pow_y_6 [THEN chain_sound, OF pow_y_5 [THEN chain_sound, OF pow_y_4 [THEN chain_sound, OF pow_y_3 [THEN chain_sound, OF pow_y_2 [THEN chain_sound, OF pow_y_1 [THEN chain_sound, OF pow_res_1]]]]]]]]]]]]]]]]]]]]]])

lemma pow_A_1:
  "chain 52435875175126190479447740508185965837690552500527637822603658699938581184513 6088429413777511112843551934153282607269039673017457978116293446305159945113
     [(False, 706939144292864539507286270309384815647164572149540021685621707381130865688, 43701169925752037688933215201989756621950284093825506237276747922461023892825),
      (True, 5074226138188940004515102356779452605177889395645914401183451528668093767063, 42771592146658955112081735726706158435464087184549659832017099809515749418906),
      (False, 34888501215060255875930578971401331248368535548417829627943869939257530618793, 46955741351158696427670118051450632233479805693569801555510862760776871884027),
      (False, 42048342637042838705813311808555424852372941515746146462765317267296898556211, 428057649415809645704268069519167627191595889041782361310279202940644576486),
      (True, 49702589587595365234859037439258668298818701886908866753748375059402160395, 7895511392943906234559192631379185956134060852898282403002305367138574450283),
      (False, 1188863539473802618013244232892638862979331223846026230897362643573345446900, 33498692336727672217218696745522094305859013208543614760638836347698294920389),
      (True, 3889597018545905010600241709716046096700246523918470910103268941262155235648, 22087447824891801515206238805737235142982182144628902551586347997809461489533),
      (False, 9303846837455660278423727488813717460089051204565841146824986849844875118134, 47588101425054722522207822419438422077164277297418616682556827492212542299347),
      (True, 5525545163391723522282017932023513807565841527923374508175046703176349020721, 16744824108773831711575893014166799153657531855652207108098937386897574447338),
      (False, 5347276716509930399022171366448792682382385040144514611633358131049798633712, 3267453712664961028183894474050135124901735624909045926449298942578161183988),
      (False, 203605903949372664924801962466069646421000461806851879027221044151810004426, 13247712023905904508195693490702237678751311548952350923151928941327134929606),
      (True, 1538217094350396777138852368557930187072113971490983195759989607538593232312, 33722653099307453398372543828315237394298232380814255166504342339029733131422),
      (False, 21687772508003987977397344395675642848193283294527381192823128468886520378021, 13391200001573203183988054695314564108412804354096374074188393959295212953311),
      (False, 3419876885495362594631924896772975767719415622499361687746388646362488516300, 32022268726510927630022295652263086594466226179721381166776150201388757800821)]
     6088429413777511112843551934153282607269039673017457978116293446305159945113 1 32022268726510927630022295652263086594466226179721381166776150201388757800821 884"
  by (simp only: chain_eval)

lemma pow_A_2:
  "chain 52435875175126190479447740508185965837690552500527637822603658699938581184513 6088429413777511112843551934153282607269039673017457978116293446305159945113
     [(True, 3718166658975910898554085875650789563499650187492023213417915767000631075139, 38234363132630388415475970582483655931880232486387554725601730156307620215466),
      (False, 27879128922240359421294682438493205301016054277949962016667113830071202326611, 1388278156089166378963948826973281477725958253898108145847164425714384621713),
      (False, 36755679813437911050950651206033482320554252073875212169988942139101515099, 6812998504683480829372430431963214186207986779891218410396791533853736592582),
      (False, 885213576960339924884851833538852472835160935692803885530429717169389581442, 504263936940544399921243215875228274710217323176899738309075152530214818978),
      (False, 4849392086038838426736430204220818134787542397684219828800876252357482236, 43502976777609637233108431102065321157147621685417759438834034626090073153416),
      (True, 5051213553985296060017814807015272003825774084025454176364563100182938161016, 7774538561075550502215955804301957867054611986033851349016848483554188910800),
      (False, 1152711757661728205477654744379601739541775170999366840101111434675794121791, 20468758305750887795572881265900968180833161553182727991911702785170991617217),
      (True, 2376666542057701560310213054760163387508318937263703523934828190794669021802, 48175589276450916188292124491022128260836745165160288482623723165014644058095),
      (False, 44261441129416738830451989776878711226158488355449684859749054791135607707180, 21648615573380515740462812363250230870368532215282860260280736750393280125685),
      (False, 8937822715436074118409614967698394961012575419626734972585258179461040526113, 51360779107812342011293878173237909043970097143210529977351652837173149031256),
      (True, 5963597960178064071394147667633576233770411581946048931164448887668511087925, 705373525325628279111144786382723183723575019048389439274307260729290146403),
      (False, 9488767157381718425408162033335276349909376933854320092315492103847152046, 47293243954977908331513291646634340432988606917909681376802782674872882374811),
      (True, 5491308700517937273286024278012930215023534083641560156760119662683680798767, 22695311927877142391129707985583280931283117173709885577071745780905003853172),
      (False, 9822992021843429174710791843715256663396917607401337207575622571717437587652, 44601205416040339383633853714379284028311851588040281899016554072603512028108)]
     32022268726510927630022295652263086594466226179721381166776150201388757800821 884 44601205416040339383633853714379284028311851588040281899016554072603512028108 453174"
  by (simp only: chain_eval)

lemma pow_A_3:
  "chain 52435875175126190479447740508185965837690552500527637822603658699938581184513 6088429413777511112843551934153282607269039673017457978116293446305159945113
     [(False, 37937147380873076016333436487001087169001019871339238523140953858743542262146, 19708030512194767143269947478448891205644671993923365049795193274563140714766),
      (True, 2288336987936666432374774168555068814263987895487805361051703663631710051204, 17787834878459167865343342605229115218047729389086170616813820364069946834906)]
     44601205416040339383633853714379284028311851588040281899016554072603512028108 453174 17787834878459167865343342605229115218047729389086170616813820364069946834906 906349"
  by (simp only: chain_eval)

lemma pow_A: "pow_res 52435875175126190479447740508185965837690552500527637822603658699938581184513 6088429413777511112843551934153282607269039673017457978116293446305159945113 906349 17787834878459167865343342605229115218047729389086170616813820364069946834906"
  by (rule pow_A_3 [THEN chain_sound, OF pow_A_2 [THEN chain_sound, OF pow_A_1 [THEN chain_sound, OF pow_res_1]]])

lemma pow_B_1:
  "chain 52435875175126190479447740508185965837690552500527637822603658699938581184513 6088429413777511112843551934153282607269039673017457978116293446305159945113
     [(False, 706939144292864539507286270309384815647164572149540021685621707381130865688, 43701169925752037688933215201989756621950284093825506237276747922461023892825),
      (True, 5074226138188940004515102356779452605177889395645914401183451528668093767063, 42771592146658955112081735726706158435464087184549659832017099809515749418906),
      (False, 34888501215060255875930578971401331248368535548417829627943869939257530618793, 46955741351158696427670118051450632233479805693569801555510862760776871884027),
      (True, 5452120629880105247180260748546338926445881666702828100350705696422844282852, 20095907283117925961045329285727554745963551103543379921956951732047538975),
      (False, 7701702091991453425156130296712793694020716839437783678908445721570986, 43389897918235324809559370672325883053329156725066283129297790692319050710807),
      (True, 5038083752085516521342806366060203660294047799535919569358773233824571012978, 37309995760614901847807131814781582479343433183029569239702282289152220326477),
      (False, 26547392963461716838279734197923640404972028023013567264638373301991318945028, 44095014748777630448067778247520474944020725535184576608218563859206695280165),
      (False, 37080916818896929891567341053627016682341950867928088768957439585958256281503, 40664850518777526115260535378474451590331878013247785483604844850379330464186),
      (False, 31536234728450706406009112388342802460593954221033751581952338785267848428165, 35820985116829600030968275418668810462122358410131543749267096242515337633951),
      (True, 4159242859729134582682258847740322860687436928859180050529701281848981640240, 50224326412164916976602123802375877609993329357238304818481252143901619728343),
      (False, 48106052490419140907252216944128791045512163850333831942464508259095227100688, 6311221480398692170834255926097465259005773048696859302681469894823360280705),
      (False, 759623376965024639678363074178091802466136970598763799120440141268844298824, 34206904644932933119954084979331462385891608537476483597927335633819542384313),
      (True, 3971828899563914505107428424176718784883624315994405409026871491805223822947, 21620972562321482066408777546213038700251828560448544484345018766050781792558),
      (False, 8915011964221180066993216149030291615702541516030317462226416815636032210960, 33714700732492834666054273456276268554165395579002978824301284225144643320884)]
     6088429413777511112843551934153282607269039673017457978116293446305159945113 1 33714700732492834666054273456276268554165395579002978824301284225144643320884 970"
  by (simp only: chain_eval)

lemma pow_B_2:
  "chain 52435875175126190479447740508185965837690552500527637822603658699938581184513 6088429413777511112843551934153282607269039673017457978116293446305159945113
     [(True, 3914678165108390007218375025016585875235320649892540193467534690959785934147, 19141667222156118729217717537642265308254030291700556288403246877316012374481),
      (False, 6987647728202224445672271066180042831926941369826826008932134899413706038011, 27509291102233255517857035507930548218892821900439314523712182426575197495718),
      (True, 3194156224905649251703332381212046732701572867494267558697273220461937460498, 7502976345101474336611957261465847375548623501920403190800861781299945658660),
      (False, 1073590434929110558661410763332207690286176706932348196603879216541240005860, 52175738521859026141426712630020407431073717174862023069039301315079371749420),
      (True, 6058224451124293921398703699542735398323337501284545132395306868236664103498, 11648575931750071313676414605482312220785322049508868439293464632669922857986),
      (False, 2587719205306855957066002710423220665660581572023639512831813073446383092663, 42948295679838381234973903585883859039033452834443820748047802211915544448077),
      (False, 35177368464669382003734339320697946391219611817768506868739863791964270724103, 8542575639382507730061607288644981408276913877915109818022283698816589581090),
      (True, 991894740357225687145901527414629153030016505276629754083862575004796807065, 16482638782799869829526299321308953961176073998665265585913233492324035728825),
      (False, 5181135631605381410144596801593894014386176480774882016668046535335749869420, 29900305345878459715525468601290507906268402065777775433507860179840259588165),
      (False, 17049934930825085766622465686896435723815495931526734847060242147183945775577, 43247953009569113983870794674466499752302870385597648062050430911992282028224),
      (True, 5021602258181333953712702913880337661604229413683767239819794862393841819275, 28443630588896185440758760489860250895120842363658688983978020439567781981237),
      (False, 15429133553612777117432403288152136962784713276379353361093749400876273460342, 2925754378952287739115751823581825092434634799190636278660744680313329966723),
      (False, 163247750845571475991411246256066741134240255841054969674205899481856730566, 39051796472664575120285134740650830500728660736648829111575438565438514434371),
      (True, 4534378524453638242903514471284735240594086337044208663080964799604030132056, 38039686294604706191117416249020339947446902875717251778933526177248308630195)]
     33714700732492834666054273456276268554165395579002978824301284225144643320884 970 38039686294604706191117416249020339947446902875717251778933526177248308630195 248789"
  by (simp only: chain_eval)

lemma pow_B_3:
  "chain 52435875175126190479447740508185965837690552500527637822603658699938581184513 6088429413777511112843551934153282607269039673017457978116293446305159945113
     [(False, 27595948929223813151135486929831464372113653331857398670817651355521751806204, 17065239903091763074504872048296364416959256839262230289474742859569723619373),
      (False, 5553877225800961769499362971564994236236451748029178996458679456722594129878, 21356076361977739917542429536648118385858443557964879906854389292437176733715),
      (True, 2479694732869135894920779610832118683876016071694998567351701261800035226875, 19204881190335958185755671392332421108393040125385028882479372540685825197920),
      (False, 7033876335678653654843450438502087910462601408879918383604575041455826833909, 44675172993419992354229910312119899318502655780373425855780381574887438275083),
      (False, 38063083248370705609887293942892485495051484167491153671253465591250608267015, 45124750090543652616967156158720567358829167216404031744576423594601491918194),
      (True, 5239520744586565485477229123469674538510390698092736129891663523733031830895, 10222661446310066662660731354300404112372133208357497679311584356831917156787),
      (False, 1992963914435566219770927355959382895325483949409677476987338807367051725892, 39944259524813282521727165059128674713143835563146970459853529936311588652773),
      (True, 4638004110548354671393563127028508209106097056170322246990158411862604173715, 12958683558834242846999393119493243780816171980214730297335571944759975572554),
      (False, 3202530309967250177759916892855988332174673743194721939615217976352230705223, 6019824305772337495186148017364407025881544019214788948344317735727442271517),
      (False, 691097164895945597104875637638540776822114386613963901520165273628788577289, 23880462825963952019405649797686748810174222024206614356773334639659079156032),
      (False, 10875693461349266254193219542478935991963119011715237594362151019870840298449, 27718859081417392914861912915489988327910147637916939021788773373936545264687),
      (True, 3218489562422935090885317898923878524725820168374397745507199486348865596331, 48970314511384191258032439721259869573730629665278735965771240791540890302828),
      (False, 45733797621088602966162415238192071207178774123272203368508986426312006239799, 32055437687746368573692635987173479603501089435716374059246865424373001764697),
      (False, 19596337086415710451776233750681022832714909717300044727852506848403984040477, 25444579940214394568051603511026543615638343889297890057911565840825757969108)]
     38039686294604706191117416249020339947446902875717251778933526177248308630195 248789 25444579940214394568051603511026543615638343889297890057911565840825757969108 254760292"
  by (simp only: chain_eval)

lemma pow_B_4:
  "chain 52435875175126190479447740508185965837690552500527637822603658699938581184513 6088429413777511112843551934153282607269039673017457978116293446305159945113
     [(True, 2954418676370299097806659198867250944613289344712724278582250092385324283115, 22197645079205072466521533008375053504079329843162519831674947968920364171209)]
     25444579940214394568051603511026543615638343889297890057911565840825757969108 254760292 22197645079205072466521533008375053504079329843162519831674947968920364171209 254760293"
  by (simp only: chain_eval)

lemma pow_B: "pow_res 52435875175126190479447740508185965837690552500527637822603658699938581184513 6088429413777511112843551934153282607269039673017457978116293446305159945113 254760293 22197645079205072466521533008375053504079329843162519831674947968920364171209"
  by (rule pow_B_4 [THEN chain_sound, OF pow_B_3 [THEN chain_sound, OF pow_B_2 [THEN chain_sound, OF pow_B_1 [THEN chain_sound, OF pow_res_1]]]])

lemma pow_AB_1:
  "chain 52435875175126190479447740508185965837690552500527637822603658699938581184513 17787834878459167865343342605229115218047729389086170616813820364069946834906
     [(False, 6034171616409318836450381223856664811028770279339894681037005826584524329422, 43603732304489846592705804904240825429920340867092040465272759079799443387350),
      (True, 14791704872406273699085990351696353745927670024040537839379207857080647256658, 16733771171481769281035433181647674146216702509551050713936457340874293101546),
      (False, 5340219776713976819008638139924370064913924337594965381881799431349999585579, 27815844166647219940760379982761373101657402265825958217091783255127334652089),
      (True, 9435975682465219284428383663751149684159234388227049658353409633413130544071, 24218997619571250094951737426121774631655058446510294518147102542822901846211),
      (False, 11186231635074188167339234991894050153191204618243847887228910736544033396695, 52038802004535395708392155757017960583527301957050175025733043963848375671986),
      (True, 17653135648789672631747775778546755744626827651878002578545751519607354403184, 44857215600396594480039169091402549561161283657385063985717950426046652453924),
      (False, 38373914513683354108777164801896404685913505290597753394781964627645567900974, 35228110665905996621847785715776803251827444929879164188569015048382936582114),
      (False, 23667379955889774899996320306391632188813181296966755905221642940013387444933, 30011821312055367658517157564066324502175691534259170356849814555334564786367),
      (False, 17177350725215070309315338287039042895413987770537577416488898925743152739429, 5993257112887106430023064244533471394340828842233382787080269803444689795612),
      (True, 2033094089726522982354237938486423352799369438285056031409745365456764772167, 43006363617122547196440510963719958316981665879605820284041246121742013382801),
      (False, 35272555390579706875153912521143223614788743340878317756557699318773141935934, 30021650448031262511752970133929301190266020191775427079394064072175683615459),
      (False, 17188604035187759539854225175156833262657408365029125348409074499007164799771, 1548593058532391658197992277757094602225137879624217509211972664882132634158),
      (True, 525329605486763850979013832222481350726339229811144938410426344655347329925, 8232269264677958111673966049097614964519795522711699062231837587206210867623),
      (False, 1292440662424745644376224217331467276487867924548948953513457592297580564684, 30531888427020111904245928980861097772491981161329385382623435626674294131237)]
     17787834878459167865343342605229115218047729389086170616813820364069946834906 1 30531888427020111904245928980861097772491981161329385382623435626674294131237 970"
  by (simp only: chain_eval)

lemma pow_AB_2:
  "chain 52435875175126190479447740508185965837690552500527637822603658699938581184513 17787834878459167865343342605229115218047729389086170616813820364069946834906
     [(True, 10357340047315519387922004570100472329580554226432799922068186129179375157756, 38993109839505998801602690373241223757925369282888365589423524039886417525894),
      (False, 28996609856853036562665759335468255151200202566685481616888596623040301084431, 10584848200829590966627875529251059115914101946305896038439807513633757882133),
      (True, 3590700667836412375569503467210445875961403443039919828825062731195676090016, 15034267484314771447520047284137361102788978102094144844271932606843465012290),
      (False, 4310583127201146251894569364426461458544933314331835614040873415180247301073, 11736442150366194386102437435313470040902517564670196268160051169002175161651),
      (True, 3981356167586835758739865614323020789024940913508243052925107470653908027996, 30818663463385216344847960565921320028795544727756373923391790957850713763858),
      (False, 18113362549919700548779784492679474521417244405423684264441970897734749605960, 22036509518747803425261813712324264754917336553344133448978052546048182546684),
      (False, 9260983060700748550607592642184348685918841201160222601156114552638885785259, 39984502295101552180149147791576963123233639809268777894857844419045464901989),
      (True, 13563952582983209363549993303367523274087445397192593445846885209814746225542, 50409907923857703726409066287281513295597429606501176518609584081735838596988),
      (False, 48462218059769348269386684129112433657684243887443010498294379680028134138319, 3794048725443921346084312774255525250649533962490922123479481183568680018497),
      (False, 274522084030573291294688426207904566253493694473125314886600596900830472169, 14208728394942373802055105822712074481549176425262012341995297846963161820312),
      (True, 4820030440571374806855407885018748508920295072920038092731240551402191283230, 27600177007276646927077966580448949999119017479701675580273691429309028793682),
      (False, 14527644828828190448801243144359562531894511452909502807398295948588464934987, 23099292308663207476566542301805972591275487496667057926181927519088126860793),
      (False, 10175806227683185107092559192724600757929716946766941468803122593714324065509, 40395185600446990678178216205784666717020216602675989077327226195649772326732),
      (True, 13703268782024925976838904610043954674012185639343269228996210579845719644569, 8188607744298000231904911196160336046882719150517794718953186258925327147295)]
     30531888427020111904245928980861097772491981161329385382623435626674294131237 970 8188607744298000231904911196160336046882719150517794718953186258925327147295 248789"
  by (simp only: chain_eval)

lemma pow_AB_3:
  "chain 52435875175126190479447740508185965837690552500527637822603658699938581184513 17787834878459167865343342605229115218047729389086170616813820364069946834906
     [(False, 1278767572125600843591541234574734483356999975488869907016110305825555574638, 15677490172654778697284748830958534863518796114738044598312962189058204635731),
      (False, 4687319460060783998871668807024713081772873274419994213225990227321739316536, 9267946446736434719345005818580097865684816866913650349759360004816473897393),
      (True, 3143967760743173810507553932873750102833245707628980772323313901516019770464, 30447138041268126459219137502892689513492990894030215150985046638779063176026),
      (False, 17679274195537554088828616832780348308874892047909952975719422449323939263388, 6421740441435834036748366201408603482577806406658240020441391325740527642632),
      (False, 786460608494521170326586290113160167713863879804482177762993234133434795814, 48419070355847128244163286903955985305784968859768308969537264563752689858842),
      (True, 16425213188143058292487571466798446791486487233615395313012087170980762868456, 12269785823620943931226706656495883116754134992838092372365896102041734916924),
      (False, 2871080985198168428049256603033692150712792046100078191159163949989695323346, 48391244309031856735130694571265616260667155113015618891785846202587959081278),
      (True, 16415773751413581925339664111681017628757105671351551502367630720094418143439, 33347055062364717530323780731689786549437590421226463886726290864140742129661),
      (False, 21207352363594991127429415228699812878144672237418405088586825713395252632375, 43362116239890942613497524321317186356086521603071447806163534499104903566546),
      (False, 35858524693676743138976821093992608490137388188693187541921585856684654427631, 50845852056127571572964066784826823625515040804711799299001375317097033891413),
      (False, 49304043513704750459469639428470547386651738579556085140645612340460412325258, 24811698093435729321041472373234510731832877329147127293935326557711606807215),
      (True, 8416878468533213976015182602200743089619495096196718771378246680126335187738, 15346431432368670105092985099699009493950795000988582788112838909449101545196),
      (False, 4491447065998671657398132813718502677545226240587294462454847518242529410795, 14854750212690433545282618498348727609140882738324362347335974123223761660581),
      (False, 4208256334893821837813069996788831709749222851234740012125079839303470155441, 11370583832379349646748309502772085021144061201410504004531029047808637372328)]
     8188607744298000231904911196160336046882719150517794718953186258925327147295 248789 11370583832379349646748309502772085021144061201410504004531029047808637372328 254760292"
  by (simp only: chain_eval)

lemma pow_AB_4:
  "chain 52435875175126190479447740508185965837690552500527637822603658699938581184513 17787834878459167865343342605229115218047729389086170616813820364069946834906
     [(True, 3857245960070972732884466299838012940402608453466686157516443219393419402512, 52435875175126190479447740508185965837690552500527637822603658699938581184512)]
     11370583832379349646748309502772085021144061201410504004531029047808637372328 254760292 52435875175126190479447740508185965837690552500527637822603658699938581184512 254760293"
  by (simp only: chain_eval)

lemma pow_AB: "pow_res 52435875175126190479447740508185965837690552500527637822603658699938581184513 17787834878459167865343342605229115218047729389086170616813820364069946834906 254760293 52435875175126190479447740508185965837690552500527637822603658699938581184512"
  by (rule pow_AB_4 [THEN chain_sound, OF pow_AB_3 [THEN chain_sound, OF pow_AB_2 [THEN chain_sound, OF pow_AB_1 [THEN chain_sound, OF pow_res_1]]]])

lemma pow_A2: "pow_res 52435875175126190479447740508185965837690552500527637822603658699938581184513 5 (113545865660781439181660799981575955357863775192430029054148608 * 906349 + 113545865660781439181660799981575955357863775192430029054148608 * 906349) 43603732304489846592705804904240825429920340867092040465272759079799443387350"
  by (rule pow_res_mult [OF pow_res_power [OF pow_y pow_A] pow_res_power [OF pow_y pow_A], of 6034171616409318836450381223856664811028770279339894681037005826584524329422]) (simp only: chain_eval)

lemma pow_B2: "pow_res 52435875175126190479447740508185965837690552500527637822603658699938581184513 5 (113545865660781439181660799981575955357863775192430029054148608 * 254760293 + 113545865660781439181660799981575955357863775192430029054148608 * 254760293) 4681681615185861505731311821549842608922871405158480711315762820312151169802"
  by (rule pow_res_mult [OF pow_res_power [OF pow_y pow_B] pow_res_power [OF pow_y pow_B], of 9396914715673406641531885106301706502126482339760803529604658389973342122183]) (simp only: chain_eval)

lemma pow_half: "pow_res 52435875175126190479447740508185965837690552500527637822603658699938581184513 5 (113545865660781439181660799981575955357863775192430029054148608 * 906349 * 254760293) 52435875175126190479447740508185965837690552500527637822603658699938581184512"
  by (rule pow_res_power [OF pow_res_power [OF pow_y pow_A] pow_AB])

lemma pow_full: "pow_res 52435875175126190479447740508185965837690552500527637822603658699938581184513 5 (113545865660781439181660799981575955357863775192430029054148608 * 906349 * 254760293 + 113545865660781439181660799981575955357863775192430029054148608 * 906349 * 254760293) 1"
  by (rule pow_res_mult [OF pow_half pow_half, of 52435875175126190479447740508185965837690552500527637822603658699938581184511]) (simp only: chain_eval)

lemma cert_2:
  "\<exists>E x w k. 52435875175126190479447740508185965837690552500527637822603658699938581184513 = (2::int) * int E + 1 \<and> pow_res 52435875175126190479447740508185965837690552500527637822603658699938581184513 5 E x \<and> x * w = k * 52435875175126190479447740508185965837690552500527637822603658699938581184513 + (w + 1)"
  by (intro exI [of _ "113545865660781439181660799981575955357863775192430029054148608 * 906349 * 254760293"] exI [of _ 52435875175126190479447740508185965837690552500527637822603658699938581184512] exI [of _ 26217937587563095239723870254092982918845276250263818911301829349969290592256] exI [of _ 26217937587563095239723870254092982918845276250263818911301829349969290592255] conjI, simp only: chain_eval of_nat_mult of_nat_add of_nat_numeral, rule pow_half, simp only: chain_eval)

lemma cert_906349:
  "\<exists>E x w k. 52435875175126190479447740508185965837690552500527637822603658699938581184513 = (906349::int) * int E + 1 \<and> pow_res 52435875175126190479447740508185965837690552500527637822603658699938581184513 5 E x \<and> x * w = k * 52435875175126190479447740508185965837690552500527637822603658699938581184513 + (w + 1)"
  by (intro exI [of _ "113545865660781439181660799981575955357863775192430029054148608 * 254760293 + 113545865660781439181660799981575955357863775192430029054148608 * 254760293"] exI [of _ 4681681615185861505731311821549842608922871405158480711315762820312151169802] exI [of _ 23228006829848193982005774833676428102340799460332544135501612309786345839955] exI [of _ 2073888004529719578756517511504293145810796783323215621873515747645007284458] conjI, simp only: chain_eval of_nat_mult of_nat_add of_nat_numeral, rule pow_B2, simp only: chain_eval)

lemma cert_254760293:
  "\<exists>E x w k. 52435875175126190479447740508185965837690552500527637822603658699938581184513 = (254760293::int) * int E + 1 \<and> pow_res 52435875175126190479447740508185965837690552500527637822603658699938581184513 5 E x \<and> x * w = k * 52435875175126190479447740508185965837690552500527637822603658699938581184513 + (w + 1)"
  by (intro exI [of _ "113545865660781439181660799981575955357863775192430029054148608 * 906349 + 113545865660781439181660799981575955357863775192430029054148608 * 906349"] exI [of _ 43603732304489846592705804904240825429920340867092040465272759079799443387350] exI [of _ 35712579557439236096876167352832642893763751801196582581341201406049842986247] exI [of _ 29697258865702329084714130822732336728870991264334716186206336229376044313554] conjI, simp only: chain_eval of_nat_mult of_nat_add of_nat_numeral, rule pow_A2, simp only: chain_eval)

lemma prod_factored: "prod_list (replicate 32 2 @ [906349, 906349, 254760293, 254760293]) = (228988810152649578064853576960394133504::int)"
  by (simp add: numeral_eq_Suc)

lemma is_prime_order: "is_prime 52435875175126190479447740508185965837690552500527637822603658699938581184513"
proof (rule pocklington_cert [where ps = "replicate 32 2 @ [906349, 906349, 254760293, 254760293]"
      and R = 228988810152649578064853576960394133503 and a = 5])
  have "nat (52435875175126190479447740508185965837690552500527637822603658699938581184513 - 1) = 113545865660781439181660799981575955357863775192430029054148608 * 906349 * 254760293 + 113545865660781439181660799981575955357863775192430029054148608 * 906349 * 254760293"
    by simp
  then show "pow_res 52435875175126190479447740508185965837690552500527637822603658699938581184513 5 (nat (52435875175126190479447740508185965837690552500527637822603658699938581184513 - 1)) 1"
    using pow_full by (simp only:)
next
  fix p :: int
  assume "p \<in> set (replicate 32 2 @ [906349, 906349, 254760293, 254760293])"
  then consider "p = 2" | "p = 906349" | "p = 254760293" by auto
  then show "\<exists>E x w k. 52435875175126190479447740508185965837690552500527637822603658699938581184513 = p * int E + 1 \<and> pow_res 52435875175126190479447740508185965837690552500527637822603658699938581184513 5 E x \<and> x * w = k * 52435875175126190479447740508185965837690552500527637822603658699938581184513 + (w + 1)"
    by cases (simp_all only: cert_2 cert_906349 cert_254760293)
next
  fix p :: int
  assume "p \<in> set (replicate 32 2 @ [906349, 906349, 254760293, 254760293])"
  then show "is_prime p" by (auto simp: is_prime_2 is_prime_906349 is_prime_254760293)
qed (simp_all only: prod_factored, simp_all)

end
