(* ===== verification/Zq_Field.thy ===== *)
theory Zq_Field
  imports Cpp_Prelude Order_Prime
begin

text \<open>
  The program computes modulo the order of the BLS12-381 groups. This theory names the
  order, factors the order minus one (the modulus of the exponents) and makes the
  residues a field, the type \<open>zq\<close>: the component proofs read an \<^verbatim>\<open>mpz_class\<close> value \<open>a\<close> as
  the field element \<open>of_int a\<close>, and the collection \<open>zq_simps\<close> moves the program's
  operations into the field.
\<close>

named_theorems zq_simps \<open>reading integers of the program as field elements\<close>

section \<open>The group order\<close>

definition curve_order :: int where
  "curve_order = 0x73EDA753299D7D483339D80809A1D80553BDA402FFFE5BFEFFFFFFFF00000001"

lemma curve_order_prime: "is_prime curve_order"
  unfolding curve_order_def by (rule is_prime_order)

lemma curve_order_bounds: "1 < curve_order" "0 < curve_order" "curve_order < 2 ^ 256"
  "2 ^ 254 < curve_order"
  by (simp_all add: curve_order_def)

lemma curve_order_nonzero [simp]: "curve_order \<noteq> 0" "0 < curve_order" "1 < curve_order"
  "0 \<le> curve_order" "1 \<le> curve_order" "curve_order \<noteq> 1"
  by (simp_all add: curve_order_def)

lemma curve_order_minus_1:
  "curve_order - 1 =
     2 ^ 32 * 3 * 11 * 19 * 10177 * 125527 * 859267 * 906349 ^ 2 * 2508409 * 2529403
       * 52437899 * 254760293 ^ 2"
  by (simp add: curve_order_def)

lemma order_factor_primes:
  "p \<in> {2, 3, 11, 19, 10177, 125527, 859267, 906349, 2508409, 2529403, 52437899, 254760293}
     \<Longrightarrow> is_prime p"
  by (auto simp: is_prime_2 is_prime_3 is_prime_11 is_prime_19 is_prime_10177 is_prime_125527
      is_prime_859267 is_prime_906349 is_prime_2508409 is_prime_2529403 is_prime_52437899
      is_prime_254760293)

text \<open>The primes of the order minus one are exactly the twelve listed.\<close>

lemma prime_dvd_order_minus_1:
  assumes "is_prime p" and "p dvd curve_order - 1"
  shows "p \<in> {2, 3, 11, 19, 10177, 125527, 859267, 906349, 2508409, 2529403, 52437899, 254760293}"
proof -
  have "p dvd prod_list [2 ^ 32, 3, 11, 19, 10177, 125527, 859267, 906349 ^ 2, 2508409, 2529403,
      52437899, 254760293 ^ 2]"
    using assms(2) unfolding curve_order_minus_1 by (simp only: prod_list.Cons prod_list.Nil mult_1_right mult.assoc)
  then obtain x where x: "x \<in> set [2 ^ 32, 3, 11, 19, 10177, 125527, 859267, 906349 ^ 2, 2508409,
      2529403, 52437899, 254760293 ^ 2]" and "p dvd x"
    using prime_dvd_prod_list [OF assms(1)] by blast
  then have "\<exists>f \<in> {2, 3, 11, 19, 10177, 125527, 859267, 906349, 2508409, 2529403, 52437899,
      254760293}. p dvd f"
    using prime_dvd_power [OF assms(1), of 2 32] prime_dvd_power [OF assms(1), of 906349 2]
      prime_dvd_power [OF assms(1), of 254760293 2]
    by (simp only: set_simps insert_iff empty_iff) blast
  then show ?thesis
    using prime_dvd_prime [OF assms(1)] order_factor_primes by blast
qed

section \<open>The field of residues\<close>

typedef zq = "{0..<curve_order}"
  morphisms rep_zq abs_zq
  by (rule exI [of _ 0]) simp

setup_lifting type_definition_zq

instantiation zq :: comm_ring_1
begin

lift_definition zero_zq :: zq is 0 by simp

lift_definition one_zq :: zq is 1 by simp

lift_definition plus_zq :: "zq \<Rightarrow> zq \<Rightarrow> zq" is "\<lambda>a b. (a + b) mod curve_order" by simp

lift_definition minus_zq :: "zq \<Rightarrow> zq \<Rightarrow> zq" is "\<lambda>a b. (a - b) mod curve_order" by simp

lift_definition uminus_zq :: "zq \<Rightarrow> zq" is "\<lambda>a. (- a) mod curve_order" by simp

lift_definition times_zq :: "zq \<Rightarrow> zq \<Rightarrow> zq" is "\<lambda>a b. (a * b) mod curve_order" by simp

instance
  by standard (transfer; simp add: mod_simps algebra_simps)+

end

lemma rep_of_nat_zq: "rep_zq (of_nat n) = int n mod curve_order"
  by (induction n) (simp_all add: zero_zq.rep_eq one_zq.rep_eq plus_zq.rep_eq mod_simps add.commute)

lemma rep_of_int_zq: "rep_zq (of_int a) = a mod curve_order"
proof (cases a)
  case (nonneg n)
  then show ?thesis by (simp add: rep_of_nat_zq)
next
  case (neg n)
  then show ?thesis
    by (simp add: uminus_zq.rep_eq rep_of_nat_zq mod_minus_eq del: of_nat_Suc)
qed

lemma of_int_zq_eq_iff: "(of_int a :: zq) = of_int b \<longleftrightarrow> a mod curve_order = b mod curve_order"
  by (metis rep_of_int_zq rep_zq_inject)

lemma of_int_zq_eq_0_iff: "(of_int a :: zq) = 0 \<longleftrightarrow> curve_order dvd a"
  using of_int_zq_eq_iff [of a 0] by (simp add: mod_eq_0_iff_dvd)

lemma of_int_rep_zq [simp]: "of_int (rep_zq x) = x"
  using rep_zq [of x] by (simp add: rep_zq_inject [symmetric] rep_of_int_zq)

text \<open>Fermat's theorem in the residues, and the inverse it gives.\<close>

lemma curve_order_pred: "nat (curve_order - 1) = Suc (nat (curve_order - 2))"
proof -
  have "0 \<le> curve_order - 2" using curve_order_bounds(1) by linarith
  then show ?thesis by (simp add: Suc_nat_eq_nat_zadd1)
qed

lemma zq_power_order:
  assumes "(x::zq) \<noteq> 0"
  shows "x ^ nat (curve_order - 1) = 1"
proof -
  have "\<not> curve_order dvd rep_zq x"
    using assms of_int_zq_eq_0_iff [of "rep_zq x"] by simp
  then have "rep_zq x ^ nat (curve_order - 1) mod curve_order = 1 mod curve_order"
    using fermat_little [OF curve_order_prime] by simp
  then have "(of_int (rep_zq x ^ nat (curve_order - 1)) :: zq) = of_int 1"
    by (subst of_int_zq_eq_iff)
  then show ?thesis by simp
qed

instantiation zq :: field
begin

definition inverse_zq :: "zq \<Rightarrow> zq" where
  "inverse_zq x = (if x = 0 then 0 else x ^ nat (curve_order - 2))"

definition divide_zq :: "zq \<Rightarrow> zq \<Rightarrow> zq" where
  "divide_zq x y = x * inverse y"

instance
proof
  fix x :: zq
  assume "x \<noteq> 0"
  then show "inverse x * x = 1"
    using zq_power_order [of x] by (simp add: inverse_zq_def curve_order_pred mult.commute)
qed (simp_all add: divide_zq_def inverse_zq_def)

end

section \<open>The program's operations in the field\<close>

lemma of_int_mod_zq [zq_simps]: "(of_int (a mod curve_order) :: zq) = of_int a"
  by (simp add: of_int_zq_eq_iff)

lemma of_int_smod_zq [zq_simps]: "(of_int (a smod curve_order) :: zq) = of_int a"
  by (simp add: of_int_zq_eq_iff smod_mod_eq)

lemma of_int_order_zq [zq_simps]: "(of_int curve_order :: zq) = 0"
  by (simp add: of_int_zq_eq_0_iff)

lemma of_int_powm_zq [zq_simps]: "(of_int (a ^ n mod curve_order) :: zq) = of_int a ^ n"
  by (simp add: of_int_mod_zq)

lemma of_int_inverse_zq:
  assumes "b * a mod curve_order = 1"
  shows "(of_int b :: zq) = inverse (of_int a)"
proof -
  have "b * a mod curve_order = 1 mod curve_order" using assms by simp
  then have "(of_int (b * a) :: zq) = of_int 1" by (subst of_int_zq_eq_iff)
  then have "(of_int b :: zq) * of_int a = 1" by simp
  then show ?thesis by (metis inverse_unique mult.commute)
qed

text \<open>Two canonical residues that are equal in the field are the same integer.\<close>

lemma zq_residue_eqI:
  "0 \<le> a \<Longrightarrow> a < curve_order \<Longrightarrow> 0 \<le> b \<Longrightarrow> b < curve_order \<Longrightarrow> (of_int a :: zq) = of_int b \<Longrightarrow> a = b"
  by (simp add: of_int_zq_eq_iff)

lemma coprime_order_iff: "coprime a curve_order \<longleftrightarrow> (of_int a :: zq) \<noteq> 0"
proof
  assume "coprime a curve_order"
  then show "(of_int a :: zq) \<noteq> 0"
    by (auto simp: of_int_zq_eq_0_iff coprime_absorb_right)
next
  assume "(of_int a :: zq) \<noteq> 0"
  then show "coprime a curve_order"
    using prime_coprime [OF curve_order_prime, of a]
    by (simp only: of_int_zq_eq_0_iff coprime_commute not_False_eq_True)
qed

text \<open>Exponents count modulo the order minus one.\<close>

lemma zq_power_mod:
  assumes "(x::zq) \<noteq> 0" and "m mod nat (curve_order - 1) = n mod nat (curve_order - 1)"
  shows "x ^ m = x ^ n"
proof -
  have "x ^ k = x ^ (k mod nat (curve_order - 1))" for k
  proof -
    have "x ^ k = (x ^ nat (curve_order - 1)) ^ (k div nat (curve_order - 1))
        * x ^ (k mod nat (curve_order - 1))"
      by (simp only: power_mult [symmetric] power_add [symmetric] mult_div_mod_eq)
    then show ?thesis by (simp only: zq_power_order [OF assms(1)] power_one mult_1)
  qed
  with assms(2) show ?thesis by metis
qed

end
