(* ===== verification/Libraries.thy ===== *)
theory Libraries
  imports Digits Zq_Field
begin

text \<open>
  The two libraries the program is linked with, GMP and MIRACL Core (curve BLS12-381). Their
  sources are not part of the repository (only the MIRACL headers under
  \<^verbatim>\<open>libsh/miracl\<close> are), so the functions the program calls are the fields of two records that
  every definition of the model takes as arguments, and what their manuals promise is
  stated as the laws of the locales \<open>gmp_lib\<close> and \<open>miracl_lib\<close>. The theory
  \<^verbatim>\<open>Reference_Libraries\<close> instantiates both with concrete functions.
\<close>

section \<open>GMP\<close>

text \<open>
  Fields are the C functions with output parameters returned. \<open>mpz_powm\<close> is \<open>None\<close> when it
  traps (a zero modulus, or a negative exponent with no inverse); \<open>mpz_invert\<close> returns the
  C return value and the contents of \<^verbatim>\<open>rop\<close>; \<open>mpz_set_str\<close> is \<open>None\<close> when it returns -1.
\<close>

record 'rs gmp =
  gmp_randinit_default :: 'rs
  gmp_randseed_ui :: "'rs \<Rightarrow> 64 word \<Rightarrow> 'rs"
  mpz_urandomm :: "'rs \<Rightarrow> int \<Rightarrow> int \<times> 'rs"
  mpz_powm :: "int \<Rightarrow> int \<Rightarrow> int \<Rightarrow> int option"
  mpz_invert :: "int \<Rightarrow> int \<Rightarrow> int \<times> int"
  mpz_get_str :: "nat \<Rightarrow> int \<Rightarrow> string"
  mpz_set_str :: "string \<Rightarrow> nat \<Rightarrow> int option"

locale gmp_lib =
  fixes G :: "'rs gmp"
  assumes urandomm: "0 < n \<Longrightarrow> 0 \<le> fst (mpz_urandomm G st n) \<and> fst (mpz_urandomm G st n) < n"
    and powm: "0 \<le> x \<Longrightarrow> 0 < m \<Longrightarrow> mpz_powm G a x m = Some (a ^ nat x mod m)"
    and invert: "1 < m \<Longrightarrow> coprime a m \<Longrightarrow>
      \<exists>rc rop. mpz_invert G a m = (rc, rop) \<and> rc \<noteq> 0 \<and> 0 \<le> rop \<and> rop < m \<and> rop * a mod m = 1"
    and get_str_nonneg: "2 \<le> b \<Longrightarrow> b \<le> 16 \<Longrightarrow> 0 \<le> z \<Longrightarrow> mpz_get_str G b z = digits_in b (nat z)"
    and get_str_neg: "2 \<le> b \<Longrightarrow> b \<le> 16 \<Longrightarrow> z < 0 \<Longrightarrow>
      mpz_get_str G b z = CHR ''-'' # digits_in b (nat (- z))"
    and set_str_digits: "2 \<le> b \<Longrightarrow> b \<le> 16 \<Longrightarrow> s \<noteq> [] \<Longrightarrow> list_all (is_digit b) s \<Longrightarrow>
      mpz_set_str G s b = Some (int (digits_val b s))"
    and set_str_minus: "2 \<le> b \<Longrightarrow> b \<le> 16 \<Longrightarrow> s \<noteq> [] \<Longrightarrow> list_all (is_digit b) s \<Longrightarrow>
      mpz_set_str G (CHR ''-'' # s) b = Some (- int (digits_val b s))"
    and set_str_base0: "s \<noteq> [] \<Longrightarrow> hd s \<noteq> CHR ''0'' \<Longrightarrow> list_all (is_digit 10) s \<Longrightarrow>
      mpz_set_str G s 0 = Some (int (digits_val 10 s))"
    and set_str_base0_minus: "s \<noteq> [] \<Longrightarrow> hd s \<noteq> CHR ''0'' \<Longrightarrow> list_all (is_digit 10) s \<Longrightarrow>
      mpz_set_str G (CHR ''-'' # s) 0 = Some (- int (digits_val 10 s))"
    and set_str_base0_zero: "mpz_set_str G ''0'' 0 = Some 0"
    and set_str_invalid: "b = 0 \<or> 2 \<le> b \<and> b \<le> 16 \<Longrightarrow>
      s = [] \<or> CHR '','' \<in> set s \<or> CHR '';'' \<in> set s \<Longrightarrow> mpz_set_str G s b = None"
begin

lemma get_set_str:
  assumes "2 \<le> b" "b \<le> 16"
  shows "mpz_set_str G (mpz_get_str G b z) b = Some z"
  using assms digits_in_digits [of b]
  by (cases "0 \<le> z")
     (simp_all add: get_str_nonneg get_str_neg set_str_digits set_str_minus list_all_iff)

lemma get_set_str_decimal: "mpz_set_str G (mpz_get_str G 10 z) 0 = Some z"
proof (cases "z = 0")
  case True
  then show ?thesis
    by (simp add: get_str_nonneg set_str_base0_zero digits_in_small)
next
  case False
  then consider "0 < z" | "z < 0" by linarith
  then show ?thesis
  proof cases
    case 1
    then show ?thesis
      using digits_in_no_leading_zero [of 10 "nat z"] digits_in_digits [of 10]
      by (simp add: get_str_nonneg set_str_base0 list_all_iff)
  next
    case 2
    then show ?thesis
      using digits_in_no_leading_zero [of 10 "nat (- z)"] digits_in_digits [of 10]
      by (simp add: get_str_neg set_str_base0_minus list_all_iff)
  qed
qed

lemma get_str_no_separator:
  assumes "2 \<le> b" "b \<le> 16"
  shows "CHR '','' \<notin> set (mpz_get_str G b z)" "CHR '';'' \<notin> set (mpz_get_str G b z)"
  using assms digits_in_digits [of b "CHR '',''"] digits_in_digits [of b "CHR '';''"]
  by (cases "0 \<le> z"; fastforce simp: get_str_nonneg get_str_neg)+

lemma get_str_nonempty: "2 \<le> b \<Longrightarrow> b \<le> 16 \<Longrightarrow> mpz_get_str G b z \<noteq> []"
  by (cases "0 \<le> z") (simp_all add: get_str_nonneg get_str_neg)

end

section \<open>MIRACL Core\<close>

text \<open>
  \<open>ECP_mul_BIG\<close> and \<open>ECP2_mul_BIG\<close> are the library's \<^verbatim>\<open>ECP_mul(ECP*, BIG)\<close> and
  \<^verbatim>\<open>ECP2_mul(ECP2*, BIG)\<close>; the program overloads both names. \<open>ECP_get\<close> returns the sign (-1 at
  infinity) with the two coordinates, \<open>ECP_set\<close> and the \<open>fromOctet\<close> functions the object they
  fill with their return value.
\<close>

record ('big, 'ecp, 'ecp2, 'fp12, 'hash, 'rng) miracl =
  CREATE_CSPRNG :: "byte list \<Rightarrow> 'rng"
  BIG_randtrunc :: "'big \<Rightarrow> int \<Rightarrow> 'rng \<Rightarrow> 'big \<times> 'rng"
  BIG_toBytes :: "'big \<Rightarrow> byte list"
  BIG_fromBytes :: "byte list \<Rightarrow> 'big"
  BIG_fromBytesLen :: "byte list \<Rightarrow> 'big"
  BIG_mod :: "'big \<Rightarrow> 'big \<Rightarrow> 'big"
  BIG_sdiv :: "'big \<Rightarrow> 'big \<Rightarrow> 'big"
  BIG_comp :: "'big \<Rightarrow> 'big \<Rightarrow> int"
  BIG_modmul :: "'big \<Rightarrow> 'big \<Rightarrow> 'big \<Rightarrow> 'big"
  BIG_modneg :: "'big \<Rightarrow> 'big \<Rightarrow> 'big"
  BIG_modadd :: "'big \<Rightarrow> 'big \<Rightarrow> 'big \<Rightarrow> 'big"
  BIG_zero :: 'big
  BIG_one :: 'big
  CURVE_Order :: 'big
  HASH256_init :: 'hash
  HASH256_process :: "'hash \<Rightarrow> int \<Rightarrow> 'hash"
  HASH256_hash :: "'hash \<Rightarrow> byte list"
  ECP_generator :: 'ecp
  ECP_mul_BIG :: "'ecp \<Rightarrow> 'big \<Rightarrow> 'ecp"
  ECP_add :: "'ecp \<Rightarrow> 'ecp \<Rightarrow> 'ecp"
  ECP_get :: "'ecp \<Rightarrow> int \<times> 'big \<times> 'big"
  ECP_set :: "'big \<Rightarrow> 'big \<Rightarrow> 'ecp \<times> int"
  ECP2_generator :: 'ecp2
  ECP2_mul_BIG :: "'ecp2 \<Rightarrow> 'big \<Rightarrow> 'ecp2"
  ECP2_toOctet :: "'ecp2 \<Rightarrow> bool \<Rightarrow> byte list"
  ECP2_fromOctet :: "byte list \<Rightarrow> 'ecp2 \<times> int"
  PAIR_ate :: "'ecp2 \<Rightarrow> 'ecp \<Rightarrow> 'fp12"
  PAIR_fexp :: "'fp12 \<Rightarrow> 'fp12"
  FP12_reduce :: "'fp12 \<Rightarrow> 'fp12"
  FP12_equals :: "'fp12 \<Rightarrow> 'fp12 \<Rightarrow> int"
  FP12_toOctet :: "'fp12 \<Rightarrow> byte list"
  FP12_fromOctet :: "byte list \<Rightarrow> 'fp12"

text \<open>
  What the library's objects stand for: the value of a \<^verbatim>\<open>BIG\<close>, membership in the groups
  \<open>G\<^sub>1\<close> and \<open>G\<^sub>2\<close> of prime order with discrete logarithms to the generators, and affine
  coordinates.
\<close>

record ('big, 'ecp, 'ecp2) meaning =
  big_val :: "'big \<Rightarrow> int"
  inG1 :: "'ecp \<Rightarrow> bool"
  dlog1 :: "'ecp \<Rightarrow> zq"
  xcoord :: "'ecp \<Rightarrow> int"
  ycoord :: "'ecp \<Rightarrow> int"
  inG2 :: "'ecp2 \<Rightarrow> bool"
  dlog2 :: "'ecp2 \<Rightarrow> zq"

text \<open>
  The laws are those of the header comments: big-endian conversion of 48 bytes
  (\<^verbatim>\<open>MODBYTES\<close>), modular arithmetic, a 32-byte SHA-256 digest, groups of order \<open>curve_order\<close>,
  affine coordinates below the 381-bit field prime, octet forms that decode to the encoded point, of which the
  compressed one has 97 bytes (a tag and the two parts of \<open>x\<close>), and a bilinear, non-degenerate pairing. The laws say nothing
  on the length of the uncompressed form.
\<close>

locale miracl_lib =
  fixes M :: "('big, 'ecp, 'ecp2, 'fp12, 'hash, 'rng) miracl"
    and V :: "('big, 'ecp, 'ecp2) meaning"
  assumes toBytes: "0 \<le> big_val V x \<Longrightarrow> big_val V x < 2 ^ 384 \<Longrightarrow>
      BIG_toBytes M x = be_bytes 48 (nat (big_val V x))"
    and toBytes_length: "length (BIG_toBytes M x) = 48"
    and fromBytes: "length bs = 48 \<Longrightarrow> big_val V (BIG_fromBytes M bs) = int (be_val bs)"
    and fromBytesLen: "length bs \<le> 48 \<Longrightarrow> big_val V (BIG_fromBytesLen M bs) = int (be_val bs)"
    and big_randtrunc: "0 < big_val V m \<Longrightarrow> 0 < t \<Longrightarrow>
      0 \<le> big_val V (fst (BIG_randtrunc M m t st)) \<and>
      big_val V (fst (BIG_randtrunc M m t st)) < big_val V m"
    and big_mod: "0 \<le> big_val V x \<Longrightarrow> 0 < big_val V m \<Longrightarrow>
      big_val V (BIG_mod M x m) = big_val V x mod big_val V m"
    and big_sdiv: "0 \<le> big_val V x \<Longrightarrow> 0 < big_val V m \<Longrightarrow>
      big_val V (BIG_sdiv M x m) = big_val V x div big_val V m"
    and big_comp: "BIG_comp M x y =
      (if big_val V x < big_val V y then -1 else if big_val V x = big_val V y then 0 else 1)"
    and big_modmul: "0 \<le> big_val V x \<Longrightarrow> 0 \<le> big_val V y \<Longrightarrow> 0 < big_val V m \<Longrightarrow>
      big_val V (BIG_modmul M x y m) = big_val V x * big_val V y mod big_val V m"
    and big_modneg: "0 \<le> big_val V x \<Longrightarrow> 0 < big_val V m \<Longrightarrow>
      big_val V (BIG_modneg M x m) = - big_val V x mod big_val V m"
    and big_modadd: "0 \<le> big_val V x \<Longrightarrow> 0 \<le> big_val V y \<Longrightarrow> 0 < big_val V m \<Longrightarrow>
      big_val V (BIG_modadd M x y m) = (big_val V x + big_val V y) mod big_val V m"
    and big_zero: "big_val V (BIG_zero M) = 0"
    and big_one: "big_val V (BIG_one M) = 1"
    and order: "big_val V (CURVE_Order M) = curve_order"
    and hash_length: "length (HASH256_hash M h) = 32"
    and gen1: "inG1 V (ECP_generator M)" "dlog1 V (ECP_generator M) = 1"
    and mul1: "inG1 V P \<Longrightarrow> 0 \<le> big_val V k \<Longrightarrow> inG1 V (ECP_mul_BIG M P k)"
      "inG1 V P \<Longrightarrow> 0 \<le> big_val V k \<Longrightarrow>
        dlog1 V (ECP_mul_BIG M P k) = of_int (big_val V k) * dlog1 V P"
    and add1: "inG1 V P \<Longrightarrow> inG1 V P' \<Longrightarrow> inG1 V (ECP_add M P P')"
      "inG1 V P \<Longrightarrow> inG1 V P' \<Longrightarrow> dlog1 V (ECP_add M P P') = dlog1 V P + dlog1 V P'"
    and get1: "inG1 V P \<Longrightarrow> dlog1 V P \<noteq> 0 \<Longrightarrow> ECP_get M P = (s, x, y) \<Longrightarrow>
        s \<noteq> -1 \<and> big_val V x = xcoord V P \<and> big_val V y = ycoord V P"
    and coord1: "inG1 V P \<Longrightarrow> dlog1 V P \<noteq> 0 \<Longrightarrow> 0 \<le> xcoord V P \<and> xcoord V P < 2 ^ 381"
      "inG1 V P \<Longrightarrow> dlog1 V P \<noteq> 0 \<Longrightarrow> 0 \<le> ycoord V P \<and> ycoord V P < 2 ^ 381"
    and set1: "inG1 V P \<Longrightarrow> dlog1 V P \<noteq> 0 \<Longrightarrow> big_val V x = xcoord V P \<Longrightarrow>
      big_val V y = ycoord V P \<Longrightarrow> ECP_set M x y = (P', rc) \<Longrightarrow>
        rc = 1 \<and> inG1 V P' \<and> dlog1 V P' = dlog1 V P"
    and gen2: "inG2 V (ECP2_generator M)" "dlog2 V (ECP2_generator M) = 1"
    and mul2: "inG2 V Q \<Longrightarrow> 0 \<le> big_val V k \<Longrightarrow> inG2 V (ECP2_mul_BIG M Q k)"
      "inG2 V Q \<Longrightarrow> 0 \<le> big_val V k \<Longrightarrow>
        dlog2 V (ECP2_mul_BIG M Q k) = of_int (big_val V k) * dlog2 V Q"
    and octet2_length: "length (ECP2_toOctet M Q True) = 97"
    and octet2: "inG2 V Q \<Longrightarrow> dlog2 V Q \<noteq> 0 \<Longrightarrow> ECP2_fromOctet M (ECP2_toOctet M Q c) = (Q', rc) \<Longrightarrow>
        rc = 1 \<and> inG2 V Q' \<and> dlog2 V Q' = dlog2 V Q"
    and pairing: "inG1 V P \<Longrightarrow> inG2 V Q \<Longrightarrow> inG1 V P' \<Longrightarrow> inG2 V Q' \<Longrightarrow>
      FP12_equals M (FP12_reduce M (PAIR_fexp M (PAIR_ate M Q P)))
                    (FP12_reduce M (PAIR_fexp M (PAIR_ate M Q' P'))) =
      (if dlog1 V P * dlog2 V Q = dlog1 V P' * dlog2 V Q' then 1 else 0)"
    and octet12_length: "length (FP12_toOctet M f) = 576"
    and octet12: "FP12_fromOctet M (FP12_toOctet M f) = f"

text \<open>Both libraries together: the setting of the program.\<close>

locale fussion_libs = gmp_lib G + miracl_lib M V
  for G :: "'rs gmp"
    and M :: "('big, 'ecp, 'ecp2, 'fp12, 'hash, 'rng) miracl"
    and V :: "('big, 'ecp, 'ecp2) meaning"

end
