(* ===== verification/Tools.thy ===== *)
theory Tools
  imports Libraries
begin

text \<open>
  The helper functions of \<^verbatim>\<open>src/Tools/Tools.cpp\<close>: random numbers and points, conversions between
  \<^verbatim>\<open>BIG\<close>, \<^verbatim>\<open>mpz_class\<close> and text, modular arithmetic, hashing into the scalar field and into
  \<open>G\<^sub>1\<close>, the pairing, and the modular inverse of a \<^verbatim>\<open>BIG\<close>. \<open>G\<close> and \<open>M\<close> are GMP and MIRACL. The
  clock readings that seed the generators are arguments. Overloads on \<^verbatim>\<open>BIG\<close> carry the suffix
  \<open>_BIG\<close>. The functions that only print (\<^verbatim>\<open>show_mpz\<close>, \<^verbatim>\<open>showBIG\<close>, \<^verbatim>\<open>showFP12\<close>, \<^verbatim>\<open>printLine\<close>) are
  not modelled.
\<close>

section \<open>Definitions\<close>

subsection \<open>Random numbers and points\<close>

definition initRNG :: "('big, 'ecp, 'ecp2, 'fp12, 'hash, 'rng) miracl \<Rightarrow> 64 word \<Rightarrow> 'rng" where
  "initRNG M secs = CREATE_CSPRNG M
     ([ucast secs, ucast (drop_bit 8 secs), ucast (drop_bit 16 secs), ucast (drop_bit 24 secs)]
      @ map word_of_nat [4..<100])"

definition randBig :: "('big, 'ecp, 'ecp2, 'fp12, 'hash, 'rng) miracl \<Rightarrow> 'rng \<Rightarrow> 'big \<times> 'rng" where
  "randBig M rng = BIG_randtrunc M (CURVE_Order M) (2 * 128) rng"

definition randECP :: "('big, 'ecp, 'ecp2, 'fp12, 'hash, 'rng) miracl \<Rightarrow> 'rng \<Rightarrow> 'ecp \<times> 'rng" where
  "randECP M rng = (let (r, rng') = randBig M rng in (ECP_mul_BIG M (ECP_generator M) r, rng'))"

definition randECP2 :: "('big, 'ecp, 'ecp2, 'fp12, 'hash, 'rng) miracl \<Rightarrow> 'rng \<Rightarrow> 'ecp2 \<times> 'rng" where
  "randECP2 M rng = (let (r, rng') = randBig M rng in (ECP2_mul_BIG M (ECP2_generator M) r, rng'))"

definition initState :: "'rs gmp \<Rightarrow> 64 word \<Rightarrow> 'rs" where
  "initState G now = gmp_randseed_ui G (gmp_randinit_default G) now"

definition rand_mpz :: "'rs gmp \<Rightarrow> 'rs \<Rightarrow> int \<times> 'rs" where
  "rand_mpz G st = (let (res, st') = mpz_urandomm G st curve_order in (res + 1, st'))"

subsection \<open>Conversions\<close>

text \<open>
  \<open>charsToString\<close> is only called on 48-byte buffers. \<open>pad_left\<close> is the
  \<^verbatim>\<open>insert(0, n - length, '0')\<close> of both conversions to \<^verbatim>\<open>BIG\<close>.
\<close>

definition charsToString :: "byte list \<Rightarrow> string" where
  "charsToString ch = concat (map hex2 (take 48 ch))"

definition BIG_to_mpz ::
    "'rs gmp \<Rightarrow> ('big, 'ecp, 'ecp2, 'fp12, 'hash, 'rng) miracl \<Rightarrow> 'big \<Rightarrow> int" where
  "BIG_to_mpz G M big = (case mpz_set_str G (charsToString (BIG_toBytes M big)) 16 of
     None \<Rightarrow> 0 | Some t \<Rightarrow> t)"

definition pad_left :: "nat \<Rightarrow> string \<Rightarrow> string" where
  "pad_left n s = (if length s < n then replicate (n - length s) CHR ''0'' @ s else s)"

definition mpz_to_BIG ::
    "'rs gmp \<Rightarrow> ('big, 'ecp, 'ecp2, 'fp12, 'hash, 'rng) miracl \<Rightarrow> int \<Rightarrow> 'big" where
  "mpz_to_BIG G M t =
    (let hexStr = pad_left 64 (mpz_get_str G 16 t);
         ch = map (\<lambda>i. word_of_int (strtol16 (take 2 (drop (2 * i) hexStr)))) [0..<32]
     in BIG_fromBytesLen M ch)"

definition str_to_BIG ::
    "('big, 'ecp, 'ecp2, 'fp12, 'hash, 'rng) miracl \<Rightarrow> string \<Rightarrow> 'big result" where
  "str_to_BIG M hex_string =
    (let s = pad_left 96 hex_string in
     rbind (for_collect 48 (\<lambda>i. of_option Indeterminate (sscanf_2hhx (take 2 (drop (nat (i * 2)) s)))))
       (\<lambda>byte_array. Inr (BIG_fromBytes M byte_array)))"

subsection \<open>Arithmetic\<close>

definition ECP_mul ::
    "'rs gmp \<Rightarrow> ('big, 'ecp, 'ecp2, 'fp12, 'hash, 'rng) miracl \<Rightarrow> 'ecp \<Rightarrow> int \<Rightarrow> 'ecp" where
  "ECP_mul G M P1 t = ECP_mul_BIG M P1 (mpz_to_BIG G M t)"

definition ECP2_mul ::
    "'rs gmp \<Rightarrow> ('big, 'ecp, 'ecp2, 'fp12, 'hash, 'rng) miracl \<Rightarrow> 'ecp2 \<Rightarrow> int \<Rightarrow> 'ecp2" where
  "ECP2_mul G M P2 t = ECP2_mul_BIG M P2 (mpz_to_BIG G M t)"

definition pow_mpz :: "'rs gmp \<Rightarrow> int \<Rightarrow> int \<Rightarrow> int \<Rightarrow> int result" where
  "pow_mpz G base exp md = of_option Division_by_zero (mpz_powm G base exp md)"

definition invert_mpz :: "'rs gmp \<Rightarrow> int \<Rightarrow> int \<Rightarrow> int" where
  "invert_mpz G a m = snd (mpz_invert G a m)"

subsection \<open>Hashing and pairing\<close>

text \<open>
  The \<^verbatim>\<open>octet\<close> of MIRACL, with the two members \<^verbatim>\<open>hashZp256\<close> reads: it hashes \<^verbatim>\<open>max\<close> bytes,
  each passed as a signed \<^verbatim>\<open>char\<close>. The digest fills the first 32 bytes of a zeroed 48-byte
  buffer.
\<close>

record octet =
  oct_max :: int
  oct_val :: "byte list"

definition hashZp256 ::
    "('big, 'ecp, 'ecp2, 'fp12, 'hash, 'rng) miracl \<Rightarrow> octet \<Rightarrow> 'big \<Rightarrow> 'big result" where
  "hashZp256 M ct q =
    rbind (for_range 0 (oct_max ct)
             (\<lambda>j h. rbind (vec_at (oct_val ct) j) (\<lambda>b. Inr (HASH256_process M h (sint b))))
             (HASH256_init M))
      (\<lambda>h. let hashstr = take 48 (HASH256_hash M h @ replicate (48 - length (HASH256_hash M h)) 0)
            in Inr (BIG_mod M (BIG_fromBytesLen M hashstr) q))"

definition hashToZp256_BIG ::
    "('big, 'ecp, 'ecp2, 'fp12, 'hash, 'rng) miracl \<Rightarrow> 'big \<Rightarrow> 'big \<Rightarrow> 'big result" where
  "hashToZp256_BIG M beHashed q =
     hashZp256 M \<lparr>oct_max = 48, oct_val = BIG_toBytes M beHashed\<rparr> q"

definition hashToZp256 ::
    "'rs gmp \<Rightarrow> ('big, 'ecp, 'ecp2, 'fp12, 'hash, 'rng) miracl \<Rightarrow> int \<Rightarrow> int \<Rightarrow> int result" where
  "hashToZp256 G M beHashed q =
     rbind (hashToZp256_BIG M (mpz_to_BIG G M beHashed) (mpz_to_BIG G M q))
       (\<lambda>res_b. Inr (BIG_to_mpz G M res_b))"

definition hashToPoint_BIG ::
    "('big, 'ecp, 'ecp2, 'fp12, 'hash, 'rng) miracl \<Rightarrow> 'big \<Rightarrow> 'big \<Rightarrow> 'ecp result" where
  "hashToPoint_BIG M big q =
     rbind (hashToZp256_BIG M big q) (\<lambda>hash. Inr (ECP_mul_BIG M (ECP_generator M) hash))"

definition hashToPoint ::
    "'rs gmp \<Rightarrow> ('big, 'ecp, 'ecp2, 'fp12, 'hash, 'rng) miracl \<Rightarrow> int \<Rightarrow> int \<Rightarrow> 'ecp result" where
  "hashToPoint G M big q = hashToPoint_BIG M (mpz_to_BIG G M big) (mpz_to_BIG G M q)"

text \<open>\<^verbatim>\<open>e(P1, P2)\<close>; the message it prints on a degenerate value is not modelled.\<close>

definition pairing_e ::
    "('big, 'ecp, 'ecp2, 'fp12, 'hash, 'rng) miracl \<Rightarrow> 'ecp \<Rightarrow> 'ecp2 \<Rightarrow> 'fp12" where
  "pairing_e M P1 P2 = FP12_reduce M (PAIR_fexp M (PAIR_ate M P2 P1))"

subsection \<open>The modular inverse of a BIG\<close>

text \<open>The \<^verbatim>\<open>while\<close> loop of \<^verbatim>\<open>BIG_inv\<close>; \<open>None\<close> is a loop that does not end.\<close>

partial_function (option) BIG_inv_loop ::
    "('big, 'ecp, 'ecp2, 'fp12, 'hash, 'rng) miracl \<Rightarrow> 'big \<Rightarrow> 'big \<Rightarrow> 'big \<Rightarrow> 'big \<Rightarrow> 'big \<Rightarrow> 'big option" where
  "BIG_inv_loop M m0 a_back md x0 x1 =
    (if BIG_comp M a_back (BIG_one M) > 0 then
       let q = BIG_sdiv M a_back md;
           md' = BIG_mod M a_back md;
           x0' = BIG_modadd M (BIG_modneg M (BIG_modmul M q x0 m0) m0) x1 m0
       in BIG_inv_loop M m0 md md' x0' x0
     else Some x1)"

definition BIG_inv ::
    "('big, 'ecp, 'ecp2, 'fp12, 'hash, 'rng) miracl \<Rightarrow> 'big \<Rightarrow> 'big \<Rightarrow> 'big option" where
  "BIG_inv M a m = BIG_inv_loop M m a m (BIG_zero M) (BIG_one M)"

section \<open>Random numbers\<close>

context gmp_lib
begin

lemma rand_mpz_range:
  assumes "rand_mpz G st = (r, st')"
  shows "1 \<le> r" "r \<le> curve_order"
proof -
  have "0 \<le> fst (mpz_urandomm G st curve_order) \<and> fst (mpz_urandomm G st curve_order) < curve_order"
    by (rule urandomm) simp
  with assms show "1 \<le> r" "r \<le> curve_order"
    by (auto simp: rand_mpz_def split: prod.splits)
qed

lemma pow_mpz_eq: "0 \<le> x \<Longrightarrow> 0 < m \<Longrightarrow> pow_mpz G a x m = Inr (a ^ nat x mod m)"
  by (simp add: pow_mpz_def powm)

lemma invert_mpz_inverse:
  assumes "1 < m" "coprime a m"
  shows "0 \<le> invert_mpz G a m" "invert_mpz G a m < m" "invert_mpz G a m * a mod m = 1"
  using invert [OF assms] by (auto simp: invert_mpz_def)

lemma invert_mpz_zq:
  assumes "(of_int a :: zq) \<noteq> 0"
  shows "(of_int (invert_mpz G a curve_order) :: zq) = inverse (of_int a)"
  using assms invert_mpz_inverse [of curve_order a]
  by (intro of_int_inverse_zq) (simp_all add: coprime_order_iff)

end

context miracl_lib
begin

lemma randBig_range:
  "0 \<le> big_val V (fst (randBig M rng))" "big_val V (fst (randBig M rng)) < curve_order"
  using big_randtrunc [of "CURVE_Order M" 256 rng] by (simp_all add: randBig_def order)

lemma randECP_group: "inG1 V (fst (randECP M rng))"
  using randBig_range [of rng] by (auto simp: randECP_def gen1 intro!: mul1 split: prod.splits)

lemma randECP2_group: "inG2 V (fst (randECP2 M rng))"
  using randBig_range [of rng] by (auto simp: randECP2_def gen2 intro!: mul2 split: prod.splits)

end

section \<open>Conversions\<close>

lemma length_pad_left: "n \<le> length (pad_left n s)"
  by (simp add: pad_left_def)

lemma pad_left_digits:
  "0 < b \<Longrightarrow> (\<And>c. c \<in> set s \<Longrightarrow> is_digit b c) \<Longrightarrow> c \<in> set (pad_left n s) \<Longrightarrow> is_digit b c"
  by (auto simp: pad_left_def is_digit_def digit_val_def split: if_splits)

lemma digits_val_pad_left [simp]: "digits_val b (pad_left n s) = digits_val b s"
  by (simp add: pad_left_def)

lemma length_pad_left_eq: "length s \<le> n \<Longrightarrow> length (pad_left n s) = n"
  by (simp add: pad_left_def)

lemma pair_of_hex:
  assumes "2 * i + 2 \<le> length s" and "\<And>c. c \<in> set s \<Longrightarrow> is_hex c"
  shows "length (take 2 (drop (2 * i) s)) = 2" "c \<in> set (take 2 (drop (2 * i) s)) \<Longrightarrow> is_hex c"
  using assms by (auto dest!: in_set_takeD in_set_dropD)

lemma strtol_bytes:
  assumes "2 * n \<le> length s" and "\<And>c. c \<in> set s \<Longrightarrow> is_hex c"
  shows "be_val (map (\<lambda>i. word_of_int (strtol16 (take 2 (drop (2 * i) s)))) [0..<n]) =
    digits_val 16 (take (2 * n) s)"
proof -
  have "strtol16 (take 2 (drop (2 * i) s)) =
      int (digits_val 16 (take 2 (drop (2 * i) (take (2 * n) s))))" if "i < n" for i
  proof -
    have i: "2 * i + 2 \<le> length s" using that assms(1) by simp
    have "take 2 (drop (2 * i) (take (2 * n) s)) = take 2 (drop (2 * i) s)"
      using that by (simp add: drop_take min_def)
    moreover have "strtol16 (take 2 (drop (2 * i) s)) = int (digits_val 16 (take 2 (drop (2 * i) s)))"
      by (rule strtol16_hex2 [OF pair_of_hex [OF i assms(2)]])
    ultimately show ?thesis by (simp only:)
  qed
  then have "map (\<lambda>i. word_of_int (strtol16 (take 2 (drop (2 * i) s)))) [0..<n] =
      map (\<lambda>i. word_of_nat (digits_val 16 (take 2 (drop (2 * i) (take (2 * n) s)))) :: byte) [0..<n]"
    by simp
  moreover have "be_val (map (\<lambda>i. word_of_nat (digits_val 16 (take 2 (drop (2 * i) (take (2 * n) s)))))
      [0..<n]) = digits_val 16 (take (2 * n) s)"
    using assms by (intro be_val_pairs) (auto dest: in_set_takeD)
  ultimately show ?thesis by (simp only:)
qed

context fussion_libs
begin

lemma BIG_to_mpz_val:
  assumes "0 \<le> big_val V x" "big_val V x < 2 ^ 384"
  shows "BIG_to_mpz G M x = big_val V x"
proof -
  let ?bs = "BIG_toBytes M x"
  have digits: "list_all (is_digit 16) (concat (map hex2 ?bs))"
    using hex2_digits by (auto simp: list_all_iff)
  have nonempty: "concat (map hex2 ?bs) \<noteq> []"
  proof -
    have "length (concat (map hex2 ?bs)) = 96" by (simp add: toBytes_length)
    then show ?thesis by (metis list.size(3) zero_neq_numeral)
  qed
  have "nat (big_val V x) < 256 ^ 48"
    using assms by (simp add: nat_less_iff)
  then have "digits_val 16 (concat (map hex2 ?bs)) = nat (big_val V x)"
    unfolding digits_val_hex2_concat toBytes [OF assms] be_val_be_bytes by (rule mod_less)
  with set_str_digits [OF _ _ nonempty digits] assms show ?thesis
    by (simp add: BIG_to_mpz_def charsToString_def toBytes_length)
qed

lemma mpz_to_BIG_nonneg: "0 \<le> big_val V (mpz_to_BIG G M t)"
  by (simp add: mpz_to_BIG_def Let_def fromBytesLen)

lemma mpz_to_BIG_bound: "big_val V (mpz_to_BIG G M t) < 2 ^ 256"
proof -
  have "be_val (bs :: byte list) < 2 ^ 256" if "length bs = 32" for bs
    using be_val_bound [of bs] by (simp add: that)
  then have "int (be_val (bs :: byte list)) < 2 ^ 256" if "length bs = 32" for bs
    using that by (metis of_nat_less_numeral_power_cancel_iff)
  then show ?thesis
    by (simp only: mpz_to_BIG_def Let_def fromBytesLen length_map length_upt)
qed

lemma mpz_to_BIG_leading:
  assumes "0 \<le> t"
  shows "big_val V (mpz_to_BIG G M t) = int (digits_val 16 (take 64 (pad_left 64 (digits_in 16 (nat t)))))"
proof -
  let ?s = "pad_left 64 (digits_in 16 (nat t))"
  have hex: "is_hex c" if "c \<in> set ?s" for c
    by (rule pad_left_digits [OF _ _ that]) (auto intro: digits_in_digits)
  have "big_val V (mpz_to_BIG G M t) =
      int (be_val (map (\<lambda>i. word_of_int (strtol16 (take 2 (drop (2 * i) ?s)))) [0..<32]))"
    using assms by (simp add: mpz_to_BIG_def Let_def fromBytesLen get_str_nonneg)
  also have "\<dots> = int (digits_val 16 (take (2 * 32) ?s))"
    using length_pad_left [of 64] hex by (subst strtol_bytes) simp_all
  finally show ?thesis by simp
qed

lemma mpz_to_BIG_val:
  assumes "0 \<le> t" "t < 2 ^ 256"
  shows "big_val V (mpz_to_BIG G M t) = t"
proof -
  have "nat t < 16 ^ Suc 63"
    using assms by (simp add: nat_less_iff)
  then have "length (digits_in 16 (nat t)) \<le> 64"
    using length_digits_in [of 16 "nat t" 63] by simp
  then have "length (pad_left 64 (digits_in 16 (nat t))) = 64"
    by (rule length_pad_left_eq)
  with assms(1) show ?thesis
    by (simp add: mpz_to_BIG_leading)
qed

lemma mpz_to_BIG_truncates:
  assumes "2 ^ 256 \<le> t"
  shows "big_val V (mpz_to_BIG G M t) = t div 16 ^ (length (mpz_get_str G 16 t) - 64)"
proof -
  have t: "0 \<le> t" using assms by (rule order_trans [rotated]) simp
  have "\<not> nat t < 16 ^ Suc 63"
    using assms by (simp add: nat_less_iff)
  then have len: "64 < length (digits_in 16 (nat t))"
    using length_digits_in [of 16 "nat t" 63] by simp
  have "digits_val 16 (take 64 (digits_in 16 (nat t))) = nat t div 16 ^ (length (digits_in 16 (nat t)) - 64)"
    by (subst digits_val_take) (auto intro: digits_in_digits)
  with len t show ?thesis
    by (simp add: mpz_to_BIG_leading pad_left_def get_str_nonneg nat_div_distrib zdiv_int)
qed

end

context miracl_lib
begin

lemma str_to_BIG_val:
  assumes "length s \<le> 96" and "\<And>c. c \<in> set s \<Longrightarrow> is_hex c"
  shows "\<exists>x. str_to_BIG M s = Inr x \<and> big_val V x = int (digits_val 16 s)"
proof -
  let ?s = "pad_left 96 s"
  let ?byte = "\<lambda>k. word_of_nat (digits_val 16 (take 2 (drop (2 * k) ?s))) :: byte"
  have len: "length ?s = 2 * 48" using length_pad_left_eq [OF assms(1)] by simp
  have hex: "is_hex c" if "c \<in> set ?s" for c
    by (rule pad_left_digits [OF _ _ that]) (simp_all add: assms(2))
  have scan: "sscanf_2hhx (take 2 (drop (2 * k) ?s)) = Some (?byte k)" if "k < 48" for k
    using that len by (intro sscanf_2hhx_hex2 pair_of_hex [OF _ hex]) simp_all
  have "for_collect (int 48) (\<lambda>i. of_option Indeterminate (sscanf_2hhx (take 2 (drop (nat (i * 2)) ?s)))) =
      Inr (map ?byte [0..<48])"
  proof (rule for_collect_map)
    fix k :: nat
    assume "k < 48"
    moreover have "nat (int k * 2) = 2 * k" by simp
    ultimately show "of_option Indeterminate (sscanf_2hhx (take 2 (drop (nat (int k * 2)) ?s))) = Inr (?byte k)"
      by (simp only: scan of_option_simps)
  qed
  then have "str_to_BIG M s = Inr (BIG_fromBytes M (map ?byte [0..<48]))"
    by (simp add: str_to_BIG_def)
  moreover have "big_val V (BIG_fromBytes M (map ?byte [0..<48])) = int (digits_val 16 ?s)"
    by (subst fromBytes) (simp_all only: be_val_pairs [OF len hex] length_map length_upt)
  ultimately show ?thesis by auto
qed

end

section \<open>Hashing and the groups\<close>

context miracl_lib
begin

lemma hashZp256_in_bounds:
  assumes "oct_max ct \<le> int (length (oct_val ct))"
  shows "\<exists>h. hashZp256 M ct q = Inr (BIG_mod M (BIG_fromBytesLen M (HASH256_hash M h @ replicate 16 0)) q)"
proof -
  let ?body = "\<lambda>j h. rbind (vec_at (oct_val ct) j) (\<lambda>b. Inr (HASH256_process M h (sint b)))"
  let ?n = "nat (oct_max ct)"
  have "for_range 0 (oct_max ct) ?body (HASH256_init M) =
      Inr (foldl (\<lambda>h b. HASH256_process M h (sint b)) (HASH256_init M) (take ?n (oct_val ct)))"
  proof (cases "0 \<le> oct_max ct")
    case True
    show ?thesis
      using assms True
      by (intro for_range_acc_nat
            [where acc = "\<lambda>k. foldl (\<lambda>h b. HASH256_process M h (sint b)) (HASH256_init M) (take k (oct_val ct))"])
         (simp_all add: take_Suc_conv_app_nth)
  qed (simp add: for_range_empty)
  then show ?thesis
    by (simp add: hashZp256_def hash_length Let_def) blast
qed

lemma hashToZp256_BIG_val:
  assumes "0 < big_val V q"
  shows "\<exists>h. hashToZp256_BIG M x q = Inr h \<and> 0 \<le> big_val V h \<and> big_val V h < big_val V q"
proof -
  obtain h where h: "hashToZp256_BIG M x q =
      Inr (BIG_mod M (BIG_fromBytesLen M (HASH256_hash M h @ replicate 16 0)) q)"
    using hashZp256_in_bounds [of "\<lparr>oct_max = 48, oct_val = BIG_toBytes M x\<rparr>" q]
    by (auto simp: hashToZp256_BIG_def toBytes_length)
  have "0 \<le> big_val V (BIG_fromBytesLen M (HASH256_hash M h @ replicate 16 0))"
    by (simp add: fromBytesLen hash_length)
  with h assms show ?thesis
    by (simp add: big_mod)
qed

lemma hashToPoint_BIG_group:
  assumes "0 < big_val V q"
  shows "\<exists>P. hashToPoint_BIG M x q = Inr P \<and> inG1 V P"
  using hashToZp256_BIG_val [OF assms, of x]
  by (auto simp: hashToPoint_BIG_def intro!: mul1 gen1)

lemma pairing_e_equals:
  assumes "inG1 V P" "inG2 V Q" "inG1 V P'" "inG2 V Q'"
  shows "FP12_equals M (pairing_e M P Q) (pairing_e M P' Q') =
    (if dlog1 V P * dlog2 V Q = dlog1 V P' * dlog2 V Q' then 1 else 0)"
  unfolding pairing_e_def by (rule pairing [OF assms])

end

context fussion_libs
begin

lemma hashToZp256_range:
  assumes "0 < q" "q < 2 ^ 256"
  shows "\<exists>h. hashToZp256 G M x q = Inr h \<and> 0 \<le> h \<and> h < q"
proof -
  have q: "big_val V (mpz_to_BIG G M q) = q"
    using assms by (intro mpz_to_BIG_val) simp_all
  obtain h where h: "hashToZp256_BIG M (mpz_to_BIG G M x) (mpz_to_BIG G M q) = Inr h"
      "0 \<le> big_val V h" "big_val V h < q"
    using hashToZp256_BIG_val [of "mpz_to_BIG G M q" "mpz_to_BIG G M x"] assms q by auto
  have "big_val V h < 2 ^ 384"
    using h(3) assms(2) by simp
  with h show ?thesis
    by (simp add: hashToZp256_def BIG_to_mpz_val)
qed

lemma hashToPoint_group:
  assumes "0 < q" "q < 2 ^ 256"
  shows "\<exists>P. hashToPoint G M x q = Inr P \<and> inG1 V P"
  unfolding hashToPoint_def
  using assms by (intro hashToPoint_BIG_group) (simp add: mpz_to_BIG_val)

lemma ECP_mul_group: "inG1 V P \<Longrightarrow> inG1 V (ECP_mul G M P t)"
  by (simp add: ECP_mul_def mul1 mpz_to_BIG_nonneg)

lemma ECP_mul_dlog:
  "inG1 V P \<Longrightarrow> 0 \<le> t \<Longrightarrow> t < 2 ^ 256 \<Longrightarrow> dlog1 V (ECP_mul G M P t) = of_int t * dlog1 V P"
  by (simp only: ECP_mul_def mul1 mpz_to_BIG_nonneg mpz_to_BIG_val)

lemma ECP2_mul_group: "inG2 V Q \<Longrightarrow> inG2 V (ECP2_mul G M Q t)"
  by (simp add: ECP2_mul_def mul2 mpz_to_BIG_nonneg)

lemma ECP2_mul_dlog:
  "inG2 V Q \<Longrightarrow> 0 \<le> t \<Longrightarrow> t < 2 ^ 256 \<Longrightarrow> dlog2 V (ECP2_mul G M Q t) = of_int t * dlog2 V Q"
  by (simp only: ECP2_mul_def mul2 mpz_to_BIG_nonneg mpz_to_BIG_val)

end

section \<open>The extended Euclidean loop\<close>

context miracl_lib
begin

lemma BIG_inv_step:
  assumes "1 < big_val V a'" "0 < big_val V md" "0 < big_val V m0"
    "0 \<le> big_val V x0" "0 \<le> big_val V x1"
  defines "x2 \<equiv> BIG_modadd M (BIG_modneg M (BIG_modmul M (BIG_sdiv M a' md) x0 m0) m0) x1 m0"
  shows "BIG_inv_loop M m0 a' md x0 x1 = BIG_inv_loop M m0 md (BIG_mod M a' md) x2 x0"
    and "big_val V x2 = (big_val V x1 - big_val V a' div big_val V md * big_val V x0) mod big_val V m0"
proof -
  show "BIG_inv_loop M m0 a' md x0 x1 = BIG_inv_loop M m0 md (BIG_mod M a' md) x2 x0"
    using assms(1) by (subst BIG_inv_loop.simps) (simp add: big_comp big_one x2_def)
  have q: "big_val V (BIG_sdiv M a' md) = big_val V a' div big_val V md"
    using assms by (intro big_sdiv) simp_all
  then have "0 \<le> big_val V (BIG_sdiv M a' md)"
    using assms by (simp add: pos_imp_zdiv_nonneg_iff)
  with assms(3-5) q show "big_val V x2 =
      (big_val V x1 - big_val V a' div big_val V md * big_val V x0) mod big_val V m0"
    unfolding x2_def
    by (simp add: big_modadd big_modneg big_modmul mod_simps algebra_simps)
qed

lemma BIG_inv_loop_inverse:
  assumes "0 < big_val V a'" "0 \<le> big_val V md" "1 < m" "m = big_val V m0"
    and "coprime (big_val V a') (big_val V md)"
    and "0 \<le> big_val V x0" "big_val V x0 < m" "0 \<le> big_val V x1" "big_val V x1 < m"
    and "(a * big_val V x1) mod m = big_val V a' mod m"
    and "(a * big_val V x0) mod m = big_val V md mod m"
  shows "\<exists>r. BIG_inv_loop M m0 a' md x0 x1 = Some r \<and>
    0 \<le> big_val V r \<and> big_val V r < m \<and> (a * big_val V r) mod m = 1"
  using assms
proof (induction "nat (big_val V md)" arbitrary: a' md x0 x1 rule: less_induct)
  case less
  show ?case
  proof (cases "1 < big_val V a'")
    case False
    then have "big_val V a' = 1" using less.prems(1) by simp
    then have "BIG_inv_loop M m0 a' md x0 x1 = Some x1"
      by (subst BIG_inv_loop.simps) (simp add: big_comp big_one)
    with \<open>big_val V a' = 1\<close> less.prems show ?thesis by simp
  next
    case True
    let ?x2 = "BIG_modadd M (BIG_modneg M (BIG_modmul M (BIG_sdiv M a' md) x0 m0) m0) x1 m0"
    have md: "0 < big_val V md"
      using True less.prems(2,5) by (cases "big_val V md = 0") simp_all
    note step = BIG_inv_step [OF True md _ less.prems(6,8), of m0]
    have rest: "big_val V (BIG_mod M a' md) = big_val V a' mod big_val V md"
      using True md by (intro big_mod) simp_all
    have "(a * big_val V ?x2) mod m =
        (a * big_val V x1 - big_val V a' div big_val V md * (a * big_val V x0)) mod m"
      using step(2) less.prems(3,4) by (simp add: mod_mult_right_eq algebra_simps)
    also have "\<dots> = (big_val V a' - big_val V a' div big_val V md * big_val V md) mod m"
      using less.prems(10,11) by (intro mod_diff_cong mod_mult_cong) simp_all
    finally have congr: "(a * big_val V ?x2) mod m = big_val V (BIG_mod M a' md) mod m"
      by (simp add: rest minus_div_mult_eq_mod)
    have "\<exists>r. BIG_inv_loop M m0 md (BIG_mod M a' md) ?x2 x0 = Some r \<and>
        0 \<le> big_val V r \<and> big_val V r < m \<and> (a * big_val V r) mod m = 1"
      using less.prems step(2) congr md rest
      by (intro less.hyps) (simp_all add: coprime_commute)
    then show ?thesis
      using step(1) less.prems(3,4) by simp
  qed
qed

lemma BIG_inv_inverse:
  assumes "1 < big_val V m" "0 < big_val V a" "coprime (big_val V a) (big_val V m)"
  shows "\<exists>r. BIG_inv M a m = Some r \<and> 0 \<le> big_val V r \<and> big_val V r < big_val V m \<and>
    big_val V a * big_val V r mod big_val V m = 1"
  unfolding BIG_inv_def
  by (rule BIG_inv_loop_inverse) (use assms in \<open>simp_all add: big_zero big_one\<close>)

end

end
