(* ===== verification/Reference_Libraries.thy ===== *)
theory Reference_Libraries
  imports Tools
begin

text \<open>
  A concrete instance of both libraries. GMP is instantiated with textbook integer
  arithmetic and a counter as random state. MIRACL is instantiated with integers for \<^verbatim>\<open>BIG\<close> and
  with the discrete logarithms themselves for points and pairing values, which is the group
  structure the laws describe. The interpretations at the end show that the laws of
  \<open>fussion_libs\<close> can hold, and the witnesses of the properties run on this instance.
\<close>

section \<open>GMP\<close>

text \<open>Extended Euclid: \<open>egcd a b\<close> gives the coefficients of a linear combination of the gcd.\<close>

function egcd :: "int \<Rightarrow> int \<Rightarrow> int \<times> int" where
  "egcd a b = (if b \<le> 0 then (1, 0) else
     (let (x, y) = egcd b (a mod b) in (y, x - (a div b) * y)))"
  by auto
termination
  by (relation "measure (\<lambda>(a, b). nat b)") auto

declare egcd.simps [simp del]

lemma egcd_combination:
  assumes "0 \<le> b" "egcd a b = (x, y)" "b = 0 \<longrightarrow> 0 \<le> a"
  shows "a * x + b * y = gcd a b"
  using assms
proof (induction a b arbitrary: x y rule: egcd.induct)
  case (1 a b)
  show ?case
  proof (cases "b = 0")
    case True
    with 1(3,4) show ?thesis by (simp add: egcd.simps)
  next
    case False
    with 1(2) have b: "0 < b" by simp
    obtain u v where uv: "egcd b (a mod b) = (u, v)" by fastforce
    have "b * u + a mod b * v = gcd b (a mod b)"
      using 1(1) [OF _ _ uv] b by simp
    moreover have "x = v" "y = u - (a div b) * v"
      using 1(3) b uv by (auto simp: egcd.simps [of a b])
    moreover have "a * v + b * (u - a div b * v) = b * u + (a - b * (a div b)) * v"
      by (simp add: algebra_simps)
    ultimately show ?thesis
      by (simp add: minus_mult_div_eq_mod gcd_red_int [of a b] gcd.commute)
  qed
qed

definition invert_ref :: "int \<Rightarrow> int \<Rightarrow> int \<times> int" where
  "invert_ref a m = (if gcd a m = 1 then (1, fst (egcd a m) mod m) else (0, 0))"

lemma invert_ref_law:
  assumes "1 < m" "coprime a m"
  shows "\<exists>rc rop. invert_ref a m = (rc, rop) \<and> rc \<noteq> 0 \<and> 0 \<le> rop \<and> rop < m \<and> rop * a mod m = 1"
proof -
  obtain x y where xy: "egcd a m = (x, y)" by fastforce
  have "a * x + m * y = 1"
    using egcd_combination [OF _ xy] assms by simp
  then have "(a * x) mod m = 1 mod m"
    by (metis mod_mult_self2)
  then have "x mod m * a mod m = 1"
    using assms(1) by (simp add: mod_mult_right_eq mult.commute)
  with assms xy show ?thesis
    by (simp add: invert_ref_def)
qed

definition parse_digits :: "nat \<Rightarrow> string \<Rightarrow> int option" where
  "parse_digits b s = (if s \<noteq> [] \<and> list_all (is_digit b) s then Some (int (digits_val b s)) else None)"

definition parse_ref :: "string \<Rightarrow> nat \<Rightarrow> int option" where
  "parse_ref s b = (let b' = (if b = 0 then 10 else b) in case s of
     [] \<Rightarrow> None
   | c # t \<Rightarrow> if c = CHR ''-'' then map_option uminus (parse_digits b' t) else parse_digits b' s)"

definition print_ref :: "nat \<Rightarrow> int \<Rightarrow> string" where
  "print_ref b z = (if 0 \<le> z then digits_in b (nat z) else CHR ''-'' # digits_in b (nat (- z)))"

definition gmp_ref :: "nat gmp" where
  "gmp_ref = \<lparr>
     gmp_randinit_default = 0,
     gmp_randseed_ui = (\<lambda>st seed. unat seed),
     mpz_urandomm = (\<lambda>st n. (int st mod n, Suc st)),
     mpz_powm = (\<lambda>b x m. if m = 0 then None else Some (b ^ nat x mod m)),
     mpz_invert = invert_ref,
     mpz_get_str = print_ref,
     mpz_set_str = parse_ref\<rparr>"

lemma parse_digits_ok: "s \<noteq> [] \<Longrightarrow> list_all (is_digit b) s \<Longrightarrow> parse_digits b s = Some (int (digits_val b s))"
  by (simp add: parse_digits_def)

lemma digit_not_minus: "list_all (is_digit b) (c # s) \<Longrightarrow> c \<noteq> CHR ''-''"
  by auto

lemma parse_ref_digits:
  "s \<noteq> [] \<Longrightarrow> list_all (is_digit (if b = 0 then 10 else b)) s \<Longrightarrow>
    parse_ref s b = Some (int (digits_val (if b = 0 then 10 else b) s))"
  using digit_not_minus by (cases s) (auto simp: parse_ref_def parse_digits_def)

lemma parse_ref_minus:
  "s \<noteq> [] \<Longrightarrow> list_all (is_digit (if b = 0 then 10 else b)) s \<Longrightarrow>
    parse_ref (CHR ''-'' # s) b = Some (- int (digits_val (if b = 0 then 10 else b) s))"
  by (simp add: parse_ref_def parse_digits_def)

lemma parse_ref_invalid:
  "s = [] \<or> CHR '','' \<in> set s \<or> CHR '';'' \<in> set s \<Longrightarrow> parse_ref s b = None"
  by (cases s) (auto simp: parse_ref_def parse_digits_def list_all_iff)

lemma parse_ref_zero: "parse_ref ''0'' 0 = Some 0"
  by (simp add: parse_ref_def parse_digits_def is_digit_def digit_val_def digits_val_def digit_of_def)

interpretation gref: gmp_lib gmp_ref
  using invert_ref_law parse_ref_invalid parse_ref_zero
  by unfold_locales
     (auto simp: gmp_ref_def print_ref_def parse_ref_digits parse_ref_minus
        parse_ref_digits [where b = 0, simplified] parse_ref_minus [where b = 0, simplified])

section \<open>MIRACL\<close>

text \<open>
  The digest is the number of the bytes' absolute values modulo 1000, plus one, in 32 bytes. A
  point of the reference instance is its discrete logarithm, which is also both of its
  coordinates.
\<close>

definition miracl_ref :: "(int, zq, zq, zq, nat, nat) miracl" where
  "miracl_ref = \<lparr>
     CREATE_CSPRNG = be_val,
     BIG_randtrunc = (\<lambda>m t st. (int st mod m, Suc st)),
     BIG_toBytes = (\<lambda>x. be_bytes 48 (nat x)),
     BIG_fromBytes = (\<lambda>bs. int (be_val bs)),
     BIG_fromBytesLen = (\<lambda>bs. int (be_val bs)),
     BIG_mod = (\<lambda>x m. x mod m),
     BIG_sdiv = (\<lambda>x m. x div m),
     BIG_comp = (\<lambda>x y. if x < y then -1 else if x = y then 0 else 1),
     BIG_modmul = (\<lambda>x y m. x * y mod m),
     BIG_modneg = (\<lambda>x m. - x mod m),
     BIG_modadd = (\<lambda>x y m. (x + y) mod m),
     BIG_zero = 0,
     BIG_one = 1,
     CURVE_Order = curve_order,
     HASH256_init = 0,
     HASH256_process = (\<lambda>h b. (h + nat (abs b)) mod 1000),
     HASH256_hash = (\<lambda>h. be_bytes 32 (Suc (h mod 1000))),
     ECP_generator = 1,
     ECP_mul_BIG = (\<lambda>P k. of_int k * P),
     ECP_add = (\<lambda>P P'. P + P'),
     ECP_get = (\<lambda>P. (if P = 0 then -1 else 0, rep_zq P, rep_zq P)),
     ECP_set = (\<lambda>x y. (of_int x, 1)),
     ECP2_generator = 1,
     ECP2_mul_BIG = (\<lambda>Q k. of_int k * Q),
     ECP2_toOctet = (\<lambda>Q c. be_bytes (if c then 97 else 192) (nat (rep_zq Q))),
     ECP2_fromOctet = (\<lambda>bs. (of_nat (be_val bs), 1)),
     PAIR_ate = (\<lambda>Q P. P * Q),
     PAIR_fexp = (\<lambda>f. f),
     FP12_reduce = (\<lambda>f. f),
     FP12_equals = (\<lambda>f g. if f = g then 1 else 0),
     FP12_toOctet = (\<lambda>f. be_bytes 576 (nat (rep_zq f))),
     FP12_fromOctet = (\<lambda>bs. of_nat (be_val bs))\<rparr>"

definition meaning_ref :: "(int, zq, zq) meaning" where
  "meaning_ref = \<lparr>big_val = (\<lambda>x. x), inG1 = (\<lambda>P. True), dlog1 = (\<lambda>P. P),
     xcoord = rep_zq, ycoord = rep_zq, inG2 = (\<lambda>Q. True), dlog2 = (\<lambda>Q. Q)\<rparr>"

lemma rep_zq_bounds: "0 \<le> rep_zq x" "rep_zq x < curve_order"
  using rep_zq [of x] by simp_all

lemma rep_zq_below: "256 \<le> k \<Longrightarrow> rep_zq x < 2 ^ k"
proof -
  assume "256 \<le> k"
  then have "(2::int) ^ 256 \<le> 2 ^ k" by (intro power_increasing) simp_all
  with rep_zq_bounds(2) [of x] curve_order_bounds show ?thesis by linarith
qed

lemma octet_ref:
  assumes "32 \<le> k"
  shows "of_nat (be_val (be_bytes k (nat (rep_zq x)))) = x"
proof -
  have "rep_zq x < 2 ^ (8 * k)"
    using assms by (intro rep_zq_below) simp
  then have "nat (rep_zq x) < 256 ^ k"
    using rep_zq_bounds(1) [of x] by (simp add: nat_less_iff power_mult)
  then have "be_val (be_bytes k (nat (rep_zq x))) = nat (rep_zq x)"
    by (simp add: be_val_be_bytes)
  then have "(of_nat (be_val (be_bytes k (nat (rep_zq x)))) :: zq) = of_int (int (nat (rep_zq x)))"
    by simp
  then show ?thesis
    using rep_zq_bounds(1) [of x] by simp
qed

interpretation mref: miracl_lib miracl_ref meaning_ref
  using rep_zq_bounds rep_zq_below [of 381] octet_ref
  by unfold_locales (auto simp: miracl_ref_def meaning_ref_def split: if_splits)

interpretation lref: fussion_libs gmp_ref miracl_ref meaning_ref
  by unfold_locales

end
