(* ===== verification/Reference_Run.thy ===== *)
theory Reference_Run
  imports Reference_Libraries
begin

text \<open>
  What the reference instance of the libraries computes where the witnesses need it: the hash
  value of any input is a small multiple of \<open>2 ^ 128\<close>, random draws count upwards, and a second
  instance has a digest of 32 zero bytes.
\<close>

lemma be_val_digest:
  assumes "n < 2 ^ 256"
  shows "be_val (be_bytes 32 n @ replicate 16 0) = n * 2 ^ 128"
proof -
  have "be_val (replicate 16 (0 :: byte)) = 0"
    using be_val_zeros [of 16 "[]"] by simp
  moreover have "n mod 256 ^ 32 = n"
    using assms by simp
  ultimately show ?thesis
    by (simp add: be_val_append be_val_be_bytes)
qed

lemma hash_ref_BIG:
  "\<exists>s < 1000. hashToZp256_BIG miracl_ref x q = Inr (int (Suc s) * 2 ^ 128 mod q)"
proof -
  obtain h where h: "hashToZp256_BIG miracl_ref x q =
      Inr (BIG_mod miracl_ref (BIG_fromBytesLen miracl_ref
             (HASH256_hash miracl_ref h @ replicate 16 0)) q)"
    using mref.hashZp256_in_bounds [of "\<lparr>oct_max = 48, oct_val = BIG_toBytes miracl_ref x\<rparr>" q]
    by (auto simp: hashToZp256_BIG_def mref.toBytes_length)
  have "be_val (be_bytes 32 (Suc (h mod 1000)) @ replicate 16 0) = Suc (h mod 1000) * 2 ^ 128"
    by (rule be_val_digest) (use mod_less_divisor [of 1000 h] in simp)
  then have "hashToZp256_BIG miracl_ref x q = Inr (int (Suc (h mod 1000)) * 2 ^ 128 mod q)"
    using h by (simp add: miracl_ref_def)
  then show ?thesis
    by (intro exI [of _ "h mod 1000"]) simp
qed

lemma hash_ref:
  assumes "2 ^ 138 < q" "q < 2 ^ 256"
  shows "\<exists>s < 1000. hashToZp256 gmp_ref miracl_ref x q = Inr (int (Suc s) * 2 ^ 128)"
proof -
  have q: "mpz_to_BIG gmp_ref miracl_ref q = q"
    using lref.mpz_to_BIG_val [of q] assms by (simp add: meaning_ref_def)
  obtain s where s: "s < 1000" and
    h: "hashToZp256_BIG miracl_ref (mpz_to_BIG gmp_ref miracl_ref x) q = Inr (int (Suc s) * 2 ^ 128 mod q)"
    using hash_ref_BIG by blast
  have small: "int (Suc s) * 2 ^ 128 < 2 ^ 138" using s by simp
  then have "int (Suc s) * 2 ^ 128 mod q = int (Suc s) * 2 ^ 128"
    using assms(1) by (intro mod_pos_pos_trivial) simp_all
  moreover have "BIG_to_mpz gmp_ref miracl_ref (int (Suc s) * 2 ^ 128) = int (Suc s) * 2 ^ 128"
    using lref.BIG_to_mpz_val [of "int (Suc s) * 2 ^ 128"] small by (simp add: meaning_ref_def)
  ultimately show ?thesis
    using s h by (intro exI [of _ s]) (simp add: hashToZp256_def q)
qed

lemma hash_ref_order:
  "\<exists>s < 1000. hashToZp256 gmp_ref miracl_ref x (curve_order - 1) = Inr (int (Suc s) * 2 ^ 128)"
  by (rule hash_ref) (simp_all add: curve_order_def)

lemma hash_ref_not_dvd: "s < 1000 \<Longrightarrow> \<not> 254760293 dvd int (Suc s) * 2 ^ 128"
proof
  assume s: "s < 1000" and "254760293 dvd int (Suc s) * 2 ^ 128"
  then have "254760293 dvd int (Suc s) \<or> (254760293 :: int) dvd 2"
    using prime_dvd_mult [OF is_prime_254760293] prime_dvd_power [OF is_prime_254760293] by blast
  then show False
    using s zdvd_imp_le [of 254760293 "int (Suc s)"] by simp
qed

lemma rand_ref: "int st < curve_order \<Longrightarrow> rand_mpz gmp_ref st = (int st + 1, Suc st)"
  by (simp add: rand_mpz_def gmp_ref_def)

lemma initState_ref: "initState gmp_ref now = unat now"
  by (simp add: initState_def gmp_ref_def)

section \<open>An instance whose digest is zero\<close>

definition miracl_zero :: "(int, zq, zq, zq, nat, nat) miracl" where
  "miracl_zero = miracl_ref\<lparr>HASH256_hash := (\<lambda>h. replicate 32 0)\<rparr>"

interpretation mzero: miracl_lib miracl_zero meaning_ref
  using rep_zq_bounds rep_zq_below [of 381] octet_ref
  by unfold_locales (auto simp: miracl_zero_def miracl_ref_def meaning_ref_def split: if_splits)

interpretation lzero: fussion_libs gmp_ref miracl_zero meaning_ref
  by unfold_locales

lemma hash_zero:
  assumes "0 < q" "q < 2 ^ 256"
  shows "hashToZp256 gmp_ref miracl_zero x q = Inr 0"
proof -
  have zeros: "be_val (replicate k (0 :: byte)) = 0" for k
    using be_val_zeros [of k "[]"] by simp
  have "hashToZp256_BIG miracl_zero y r = Inr (0 mod r)" for y r
    using mzero.hashZp256_in_bounds [of "\<lparr>oct_max = 48, oct_val = BIG_toBytes miracl_zero y\<rparr>" r]
    by (auto simp: hashToZp256_BIG_def mzero.toBytes_length miracl_zero_def miracl_ref_def
        replicate_add [symmetric] zeros)
  moreover have "BIG_to_mpz gmp_ref miracl_zero 0 = 0"
    using lzero.BIG_to_mpz_val [of 0] by (simp add: meaning_ref_def)
  ultimately show ?thesis
    by (simp add: hashToZp256_def)
qed

end
