(* ===== verification/Tools_Properties.thy ===== *)
theory Tools_Properties
  imports Reference_Run
begin

text \<open>
  Properties of the conversions, the random numbers and the modular inverse of \<^verbatim>\<open>Tools.cpp\<close>, each
  with a witness on the reference instance of the libraries.
\<close>

text \<open>
  C17. A 256-bit number survives the conversion to a \<^verbatim>\<open>BIG\<close> and back: \<^verbatim>\<open>mpz_to_BIG\<close> pads the
  hexadecimal text and packs it into 32 bytes, \<^verbatim>\<open>BIG_to_mpz\<close> prints 48 bytes and parses them.
\<close>

theorem mpz_BIG_roundtrip:
  assumes "fussion_libs G M V" and "0 \<le> t" and "t < 2 ^ 256"
  shows "BIG_to_mpz G M (mpz_to_BIG G M t) = t"
proof -
  have "big_val V (mpz_to_BIG G M t) = t"
    by (rule fussion_libs.mpz_to_BIG_val [OF assms])
  moreover have "t < 2 ^ 384"
    using assms(3) by (rule less_trans) simp
  ultimately show ?thesis
    using fussion_libs.BIG_to_mpz_val [OF assms(1), of "mpz_to_BIG G M t"] assms(2) by simp
qed

theorem mpz_BIG_roundtrip_witness:
  "BIG_to_mpz gmp_ref miracl_ref (mpz_to_BIG gmp_ref miracl_ref (2 ^ 255 + 7)) = 2 ^ 255 + 7"
  by (rule mpz_BIG_roundtrip [OF lref.fussion_libs_axioms]) simp_all

text \<open>
  C18. A number of more than 64 hexadecimal digits is not reduced but cut: \<^verbatim>\<open>mpz_to_BIG\<close> keeps its
  leading 64 digits, so the conversion divides it by a power of 16 and does not round trip.
\<close>

theorem mpz_to_BIG_cuts:
  assumes "fussion_libs G M V" and "2 ^ 256 \<le> t"
  shows "big_val V (mpz_to_BIG G M t) = t div 16 ^ (length (mpz_get_str G 16 t) - 64) \<and>
    BIG_to_mpz G M (mpz_to_BIG G M t) \<noteq> t"
proof
  show "big_val V (mpz_to_BIG G M t) = t div 16 ^ (length (mpz_get_str G 16 t) - 64)"
    by (rule fussion_libs.mpz_to_BIG_truncates [OF assms])
  let ?b = "mpz_to_BIG G M t"
  have b: "0 \<le> big_val V ?b" "big_val V ?b < 2 ^ 256"
    by (rule fussion_libs.mpz_to_BIG_nonneg [OF assms(1)] fussion_libs.mpz_to_BIG_bound [OF assms(1)])+
  then have "BIG_to_mpz G M ?b = big_val V ?b"
    by (intro fussion_libs.BIG_to_mpz_val [OF assms(1)]) simp_all
  with b(2) assms(2) show "BIG_to_mpz G M ?b \<noteq> t" by simp
qed

theorem mpz_to_BIG_cuts_witness:
  "BIG_to_mpz gmp_ref miracl_ref (mpz_to_BIG gmp_ref miracl_ref (2 ^ 256)) \<noteq> 2 ^ 256"
  using mpz_to_BIG_cuts [OF lref.fussion_libs_axioms, of "2 ^ 256"] by blast

text \<open>
  C19. A random number of the program lies between 1 and the curve order, both included; the
  increment by one that is meant to avoid zero moves the draw \<open>q - 1\<close> to \<open>q\<close>, which is zero in the
  scalar field.
\<close>

theorem rand_mpz_bounds:
  assumes "gmp_lib G" and "mpz_urandomm G st curve_order = (u, st')"
  shows "rand_mpz G st = (u + 1, st') \<and> 1 \<le> u + 1 \<and> u + 1 \<le> curve_order \<and>
    ((of_int (fst (rand_mpz G st)) :: zq) = 0 \<longleftrightarrow> u = curve_order - 1)"
proof -
  have r: "rand_mpz G st = (u + 1, st')"
    using assms(2) by (simp add: rand_mpz_def)
  have u: "1 \<le> u + 1" "u + 1 \<le> curve_order"
    by (rule gmp_lib.rand_mpz_range [OF assms(1) r])+
  have "curve_order dvd u + 1 \<longleftrightarrow> u + 1 = curve_order"
    using u zdvd_imp_le [of curve_order "u + 1"] by auto
  then have "(of_int (u + 1) :: zq) = 0 \<longleftrightarrow> u = curve_order - 1"
    unfolding of_int_zq_eq_0_iff by linarith
  with r u show ?thesis by simp
qed

theorem rand_mpz_bounds_witness:
  "rand_mpz gmp_ref (nat (curve_order - 1)) = (curve_order - 1 + 1, Suc (nat (curve_order - 1))) \<and>
    (of_int (fst (rand_mpz gmp_ref (nat (curve_order - 1)))) :: zq) = 0"
proof -
  have "mpz_urandomm gmp_ref (nat (curve_order - 1)) curve_order =
      (curve_order - 1, Suc (nat (curve_order - 1)))"
    by (simp add: gmp_ref_def zmod_minus1)
  from rand_mpz_bounds [OF gref.gmp_lib_axioms this] show ?thesis by blast
qed

text \<open>
  C20. \<^verbatim>\<open>BIG_inv\<close> ends and returns the inverse: for a positive \<open>a\<close> coprime to the modulus \<open>m > 1\<close> its
  loop returns the residue \<open>r\<close> with \<open>a * r\<close> congruent to 1.
\<close>

theorem BIG_inv_correct:
  assumes "miracl_lib M V" and "1 < big_val V m" and "0 < big_val V a"
    and "coprime (big_val V a) (big_val V m)"
  shows "\<exists>r. BIG_inv M a m = Some r \<and> 0 \<le> big_val V r \<and> big_val V r < big_val V m \<and>
    big_val V a * big_val V r mod big_val V m = 1"
  by (rule miracl_lib.BIG_inv_inverse [OF assms])

theorem BIG_inv_correct_witness:
  "\<exists>r. BIG_inv miracl_ref 10 17 = Some r \<and> 10 * r mod 17 = 1"
proof -
  have "coprime (10::int) 17" by (simp add: coprime_iff_gcd_eq_1 gcd_non_0_int)
  then show ?thesis
    using BIG_inv_correct [OF mref.miracl_lib_axioms, of 17 10] by (auto simp: meaning_ref_def)
qed

end
