(* ===== verification/Fussion.thy ===== *)
theory Fussion
  imports Tools
begin

text \<open>
  The threshold signature scheme of \<^verbatim>\<open>src/fussion.cpp\<close>: key generation by the trusted authority,
  partial signatures of the drones (UAVs), aggregation and re-encryption by the cluster head, and
  verification. The global random state \<^verbatim>\<open>state_gmp\<close> is threaded through the calls that
  draw from it, and each call of \<^verbatim>\<open>initState\<close> takes the clock reading as an argument.
\<close>

section \<open>Entities and messages (include/fussion.h)\<close>

record UAV_h =
  uavH_ID :: int
  uavH_alpha :: int

record UAV =
  uav_c1 :: "int list"
  uav_c2 :: "int list"
  uav_ID :: int

record 'ecp2 Params =
  pp_n :: int
  pp_tm :: int
  pp_q :: int
  pp_P2 :: 'ecp2
  pp_g :: int
  pp_beta :: int
  pp_PK :: "'ecp2 list"

record 'ecp parSig =
  ps_cj :: int
  ps_sig :: 'ecp
  ps_ID :: int

record 'ecp Sigma =
  sg_aux :: "int list"
  sg_sig :: "'ecp list"
  sg_IDs :: "int list"

section \<open>Hashing to an exponent that is invertible modulo q - 1\<close>

definition getFactors :: "int list" where
  "getFactors = [2, 3, 11, 19, 10177, 125527, 859267, 906349, 2508409, 2529403, 52437899, 254760293]"

fun isCoprime :: "int \<Rightarrow> int list \<Rightarrow> bool result" where
  "isCoprime x [] = Inr True"
| "isCoprime x (f # factors) =
     rbind (mpz_rem x f) (\<lambda>r. if r = 0 then Inr False else isCoprime x factors)"

text \<open>The loop of \<^verbatim>\<open>hashToCoprime\<close>; \<open>None\<close> is a loop that does not end.\<close>

partial_function (option) hashToCoprime_loop :: "int \<Rightarrow> int list \<Rightarrow> int \<Rightarrow> int result option" where
  "hashToCoprime_loop inc factors hash = (case isCoprime hash factors of
     Inl e \<Rightarrow> Some (Inl e)
   | Inr c \<Rightarrow> if \<not> c then hashToCoprime_loop inc factors (hash + inc) else Some (Inr hash))"

definition hashToCoprime ::
    "'rs gmp \<Rightarrow> ('big, 'ecp, 'ecp2, 'fp12, 'hash, 'rng) miracl \<Rightarrow> int \<Rightarrow> int \<Rightarrow> int list \<Rightarrow> int result" where
  "hashToCoprime G M beHashed module factors =
     rbind (hashToZp256 G M beHashed module) (\<lambda>hash.
       case hashToCoprime_loop 254760293 factors hash of
         None \<Rightarrow> Inl Diverges
       | Some r \<Rightarrow> r)"

section \<open>Setup and key generation\<close>

text \<open>\<open>Setup\<close> returns the parameters, the reference parameter \<^verbatim>\<open>alpha\<close> and the random state.\<close>

definition Setup ::
    "'rs gmp \<Rightarrow> ('big, 'ecp, 'ecp2, 'fp12, 'hash, 'rng) miracl \<Rightarrow> 64 word \<Rightarrow> int \<Rightarrow> int \<Rightarrow>
      ('ecp2 Params \<times> int \<times> 'rs) result" where
  "Setup G M now n tm =
    (let st0 = initState G now;
         q = BIG_to_mpz G M (CURVE_Order M);
         P2 = ECP2_generator M;
         (g, st1) = rand_mpz G st0;
         (alpha, st2) = rand_mpz G st1
     in rbind (pow_mpz G g alpha q) (\<lambda>beta.
          Inr (\<lparr>pp_n = n, pp_tm = tm, pp_q = q, pp_P2 = P2, pp_g = g, pp_beta = beta, pp_PK = []\<rparr>,
               alpha, st2)))"

text \<open>The \<^verbatim>\<open>do ... while\<close> loop of \<^verbatim>\<open>getPK\<close>: the first round reads \<^verbatim>\<open>b[0]\<close> unconditionally.\<close>

definition getPK_round ::
    "'rs gmp \<Rightarrow> ('big, 'ecp, 'ecp2, 'fp12, 'hash, 'rng) miracl \<Rightarrow> int list \<Rightarrow> int \<Rightarrow>
      'ecp2 \<times> 'ecp2 list \<Rightarrow> ('ecp2 \<times> 'ecp2 list) result" where
  "getPK_round G M b i = (\<lambda>(A, PK). rbind (vec_at b i) (\<lambda>bi.
     let A' = ECP2_mul G M A bi in Inr (A', PK @ [A'])))"

definition getPK ::
    "'rs gmp \<Rightarrow> ('big, 'ecp, 'ecp2, 'fp12, 'hash, 'rng) miracl \<Rightarrow> int list \<Rightarrow> 'ecp2 list result" where
  "getPK G M b =
     rbind (getPK_round G M b 0 (ECP2_generator M, [])) (\<lambda>s.
     rbind (for_range 1 (int (length b)) (getPK_round G M b) s) (\<lambda>(A, PK). Inr PK))"

text \<open>One ElGamal encryption of a share factor, and the loop over all factors.\<close>

definition getUAV_round ::
    "'rs gmp \<Rightarrow> 'ecp2 Params \<Rightarrow> int list \<Rightarrow> int list \<Rightarrow> int \<Rightarrow> int \<Rightarrow>
      int list \<times> int list \<times> 'rs \<Rightarrow> (int list \<times> int list \<times> 'rs) result" where
  "getUAV_round G pp d b ident i = (\<lambda>(c1s, c2s, st).
     rbind (vec_at d i) (\<lambda>di.
     rbind (vec_at b i) (\<lambda>bi.
     rbind (mpz_rem (di * ident + bi) (pp_q pp)) (\<lambda>fij.
     let (u, st') = rand_mpz G st in
     rbind (pow_mpz G (pp_g pp) u (pp_q pp)) (\<lambda>c1.
     rbind (pow_mpz G (pp_beta pp) u (pp_q pp)) (\<lambda>beta_u.
     rbind (mpz_rem (beta_u * fij) (pp_q pp)) (\<lambda>c2.
     Inr (c1s @ [c1], c2s @ [c2], st'))))))))"

definition getUAV ::
    "'rs gmp \<Rightarrow> 'ecp2 Params \<Rightarrow> int list \<Rightarrow> int list \<Rightarrow> int \<Rightarrow> 'rs \<Rightarrow> (UAV \<times> 'rs) result" where
  "getUAV G pp d b ident st =
     rbind (for_range 0 (int (length b)) (getUAV_round G pp d b ident) ([], [], st))
       (\<lambda>(c1s, c2s, st'). Inr (\<lparr>uav_c1 = c1s, uav_c2 = c2s, uav_ID = ident\<rparr>, st'))"

text \<open>
  \<open>KeyGen\<close> returns the drones, the parameters with the public keys, the cluster head and the
  random state.
\<close>

definition KeyGen_pairs :: "'rs gmp \<Rightarrow> int \<Rightarrow> int list \<times> int list \<times> 'rs \<Rightarrow> (int list \<times> int list \<times> 'rs) result" where
  "KeyGen_pairs G i = (\<lambda>(b, d, st).
     let (bi, st1) = rand_mpz G st; (di, st2) = rand_mpz G st1 in Inr (b @ [bi], d @ [di], st2))"

definition KeyGen_uavs ::
    "'rs gmp \<Rightarrow> 'ecp2 Params \<Rightarrow> int list \<Rightarrow> int list \<Rightarrow> int \<Rightarrow> UAV list \<times> 'rs \<Rightarrow> (UAV list \<times> 'rs) result" where
  "KeyGen_uavs G pp d b j = (\<lambda>(UAVs, st).
     let (ident, st1) = rand_mpz G st in
     rbind (getUAV G pp d b ident st1) (\<lambda>(uav, st2). Inr (UAVs @ [uav], st2)))"

definition KeyGen ::
    "'rs gmp \<Rightarrow> ('big, 'ecp, 'ecp2, 'fp12, 'hash, 'rng) miracl \<Rightarrow> 'ecp2 Params \<Rightarrow> int \<Rightarrow> 'rs \<Rightarrow>
      (UAV list \<times> 'ecp2 Params \<times> UAV_h \<times> 'rs) result" where
  "KeyGen G M params alpha st =
     rbind (int_sub (pp_tm params) 1) (\<lambda>m.
     rbind (for_range 0 m (KeyGen_pairs G) ([], [], st)) (\<lambda>(b, d, st1).
     rbind (getPK G M b) (\<lambda>PK.
     let params' = params\<lparr>pp_PK := PK\<rparr> in
     rbind (for_range 0 (pp_n params') (KeyGen_uavs G params' d b) ([], st1)) (\<lambda>(UAVs, st2).
     let (ident, st3) = rand_mpz G st2 in
     Inr (UAVs, params', \<lparr>uavH_ID = ident, uavH_alpha = alpha\<rparr>, st3)))))"

section \<open>Signing and aggregation\<close>

definition Sign_round :: "'ecp2 Params \<Rightarrow> UAV \<Rightarrow> int \<Rightarrow> int \<times> int \<Rightarrow> (int \<times> int) result" where
  "Sign_round pp uav i = (\<lambda>(cj, sj).
     rbind (vec_at (uav_c1 uav) i) (\<lambda>c1.
     rbind (mpz_rem (cj * c1) (pp_q pp)) (\<lambda>cj'.
     rbind (vec_at (uav_c2 uav) i) (\<lambda>c2.
     rbind (mpz_rem (sj * c2) (pp_q pp)) (\<lambda>sj'. Inr (cj', sj'))))))"

definition Sign ::
    "'rs gmp \<Rightarrow> ('big, 'ecp, 'ecp2, 'fp12, 'hash, 'rng) miracl \<Rightarrow> 'ecp2 Params \<Rightarrow> UAV \<Rightarrow> int \<Rightarrow> int \<Rightarrow>
      'ecp parSig result" where
  "Sign G M pp uav t m =
     rbind (int_sub t 1) (\<lambda>t1.
     rbind (for_range 0 t1 (Sign_round pp uav) (1, 1)) (\<lambda>(cj, sj).
     rbind (hashToPoint G M m (pp_q pp)) (\<lambda>Hm.
     let sigma = ECP_mul G M Hm sj in
     Inr \<lparr>ps_cj = cj, ps_sig = sigma, ps_ID = uav_ID uav\<rparr>)))"

definition collectSig ::
    "'rs gmp \<Rightarrow> ('big, 'ecp, 'ecp2, 'fp12, 'hash, 'rng) miracl \<Rightarrow> 'ecp2 Params \<Rightarrow> UAV list \<Rightarrow> int \<Rightarrow> int \<Rightarrow>
      'ecp parSig list result" where
  "collectSig G M pp UAVs t m =
     for_collect t (\<lambda>i. rbind (vec_at UAVs i) (\<lambda>uav. Sign G M pp uav t m))"

definition AggSig_round ::
    "'rs gmp \<Rightarrow> ('big, 'ecp, 'ecp2, 'fp12, 'hash, 'rng) miracl \<Rightarrow> 'ecp2 Params \<Rightarrow> int \<Rightarrow> int \<Rightarrow> int \<Rightarrow>
      'ecp parSig list \<Rightarrow> int \<Rightarrow> 'ecp Sigma \<Rightarrow> 'ecp Sigma result" where
  "AggSig_round G M pp rk ge beta_e parSigs i sigma =
     rbind (vec_at parSigs i) (\<lambda>ps.
     rbind (mpz_rem (ps_cj ps * ge) (pp_q pp)) (\<lambda>aux_i.
     rbind (pow_mpz G aux_i rk (pp_q pp)) (\<lambda>aux_i'.
     let sig_i = ECP_mul G M (ps_sig ps) beta_e in
     Inr \<lparr>sg_aux = sg_aux sigma @ [aux_i'], sg_sig = sg_sig sigma @ [sig_i],
           sg_IDs = sg_IDs sigma @ [ps_ID ps]\<rparr>)))"

definition AggSig ::
    "'rs gmp \<Rightarrow> ('big, 'ecp, 'ecp2, 'fp12, 'hash, 'rng) miracl \<Rightarrow> 64 word \<Rightarrow> 'ecp parSig list \<Rightarrow>
      'ecp2 Params \<Rightarrow> UAV_h \<Rightarrow> int \<Rightarrow> ('ecp Sigma \<times> 'rs) result" where
  "AggSig G M now parSigs pp uavH PK_v =
     (let st0 = initState G now in
     rbind (pow_mpz G PK_v (uavH_alpha uavH) (pp_q pp)) (\<lambda>rk0.
     let lambda_q = pp_q pp - 1; factors = getFactors in
     rbind (hashToCoprime G M rk0 lambda_q factors) (\<lambda>rk1.
     let rk2 = invert_mpz G rk1 lambda_q in
     rbind (mpz_rem (uavH_alpha uavH * rk2) lambda_q) (\<lambda>rk.
     let (ex, st1) = rand_mpz G st0 in
     rbind (pow_mpz G (pp_g pp) ex (pp_q pp)) (\<lambda>ge.
     rbind (pow_mpz G (pp_beta pp) ex (pp_q pp)) (\<lambda>beta_e.
     rbind (for_range 0 (int (length parSigs)) (AggSig_round G M pp rk ge beta_e parSigs)
              \<lparr>sg_aux = [], sg_sig = [], sg_IDs = []\<rparr>) (\<lambda>sigma.
     Inr (sigma, st1))))))))"

section \<open>Verification\<close>

text \<open>The two overloads of \<^verbatim>\<open>getPi_0\<close>: on a vector of identities, and on a \<^verbatim>\<open>Sigma\<close>.\<close>

definition getPi_0_prodX :: "'ecp2 Params \<Rightarrow> int list \<Rightarrow> int \<Rightarrow> int \<Rightarrow> int result" where
  "getPi_0_prodX pp ID i prodX = rbind (vec_at ID i) (\<lambda>x. mpz_rem (prodX * x) (pp_q pp))"

definition getPi_0_denominator :: "'ecp2 Params \<Rightarrow> int list \<Rightarrow> int \<Rightarrow> int \<Rightarrow> int \<Rightarrow> int result" where
  "getPi_0_denominator pp ID i j denominator =
     (if j \<noteq> i then
        rbind (vec_at ID j) (\<lambda>xj.
        rbind (vec_at ID i) (\<lambda>xi.
        rbind (mpz_rem ((xj - xi) + pp_q pp) (pp_q pp)) (\<lambda>temp.
        mpz_rem (denominator * temp) (pp_q pp))))
      else Inr denominator)"

definition getPi_0 :: "'rs gmp \<Rightarrow> 'ecp2 Params \<Rightarrow> int list \<Rightarrow> int \<Rightarrow> int list result" where
  "getPi_0 G pp ID t =
     rbind (for_range 0 t (getPi_0_prodX pp ID) 1) (\<lambda>prodX.
     for_collect t (\<lambda>i.
       rbind (for_range 0 t (getPi_0_denominator pp ID i) 1) (\<lambda>denominator.
       rbind (vec_at ID i) (\<lambda>xi.
       rbind (mpz_rem (prodX * invert_mpz G xi (pp_q pp)) (pp_q pp)) (\<lambda>numerator.
       let inv_den = invert_mpz G denominator (pp_q pp) in
       mpz_rem (numerator * inv_den) (pp_q pp))))))"

definition getPi_0_Sigma_round :: "'ecp2 Params \<Rightarrow> int list \<Rightarrow> int \<Rightarrow> int \<Rightarrow> int \<times> int \<Rightarrow> (int \<times> int) result" where
  "getPi_0_Sigma_round pp IDs i j = (\<lambda>(numerator, denominator).
     (if j \<noteq> i then
        rbind (vec_at IDs j) (\<lambda>xj.
        rbind (mpz_rem (- xj + pp_q pp) (pp_q pp)) (\<lambda>temp_numerator.
        rbind (mpz_rem (numerator * temp_numerator) (pp_q pp)) (\<lambda>numerator'.
        rbind (vec_at IDs i) (\<lambda>xi.
        rbind (mpz_rem (xi - xj + pp_q pp) (pp_q pp)) (\<lambda>temp_denominator.
        rbind (mpz_rem (denominator * temp_denominator) (pp_q pp)) (\<lambda>denominator'.
        Inr (numerator', denominator')))))))
      else Inr (numerator, denominator)))"

definition getPi_0_Sigma :: "'rs gmp \<Rightarrow> 'ecp2 Params \<Rightarrow> 'ecp Sigma \<Rightarrow> int \<Rightarrow> int list result" where
  "getPi_0_Sigma G pp UAVs t =
     for_collect t (\<lambda>i.
       rbind (for_range 0 t (getPi_0_Sigma_round pp (sg_IDs UAVs) i) (1, 1)) (\<lambda>(numerator, denominator).
       let inv_den = invert_mpz G denominator (pp_q pp) in
       mpz_rem (numerator * inv_den) (pp_q pp)))"

definition Verify_k :: "'rs gmp \<Rightarrow> 'ecp2 Params \<Rightarrow> 'ecp Sigma \<Rightarrow> int list \<Rightarrow> int \<Rightarrow> int \<Rightarrow> int result" where
  "Verify_k G pp sigma Pis hash i =
     rbind (vec_at (sg_aux sigma) i) (\<lambda>aux.
     rbind (pow_mpz G aux hash (pp_q pp)) (\<lambda>temp.
     let temp' = invert_mpz G temp (pp_q pp) in
     rbind (vec_at Pis i) (\<lambda>Pi. mpz_rem (Pi * temp') (pp_q pp))))"

definition Verify_sum ::
    "'rs gmp \<Rightarrow> ('big, 'ecp, 'ecp2, 'fp12, 'hash, 'rng) miracl \<Rightarrow> 'ecp Sigma \<Rightarrow> int list \<Rightarrow> int \<Rightarrow> 'ecp \<Rightarrow>
      'ecp result" where
  "Verify_sum G M sigma k i s =
     rbind (vec_at (sg_sig sigma) i) (\<lambda>sig.
     rbind (vec_at k i) (\<lambda>ki. Inr (ECP_add M s (ECP_mul G M sig ki))))"

definition Verify ::
    "'rs gmp \<Rightarrow> ('big, 'ecp, 'ecp2, 'fp12, 'hash, 'rng) miracl \<Rightarrow> 'ecp Sigma \<Rightarrow> int \<Rightarrow> 'ecp2 Params \<Rightarrow>
      int \<Rightarrow> int \<Rightarrow> int result" where
  "Verify G M sigma sk_v pp m t =
     rbind (getPi_0 G pp (sg_IDs sigma) t) (\<lambda>Pis.
     rbind (pow_mpz G (pp_beta pp) sk_v (pp_q pp)) (\<lambda>temp.
     rbind (hashToCoprime G M temp (pp_q pp - 1) getFactors) (\<lambda>hash.
     rbind (for_collect t (Verify_k G pp sigma Pis hash)) (\<lambda>k.
     rbind (vec_at (sg_sig sigma) 0) (\<lambda>sig0.
     rbind (vec_at k 0) (\<lambda>k0.
     rbind (for_range 1 t (Verify_sum G M sigma k) (ECP_mul G M sig0 k0)) (\<lambda>s.
     let left = pairing_e M s (pp_P2 pp) in
     rbind (hashToPoint G M m (pp_q pp)) (\<lambda>Hm.
     rbind (int_sub t 2) (\<lambda>t2.
     rbind (vec_at (pp_PK pp) t2) (\<lambda>PKt.
     let right = pairing_e M Hm PKt in
     Inr (FP12_equals M left right)))))))))))"

section \<open>The demonstration run\<close>

text \<open>
  \<open>fussion\<close> takes the clock readings of \<^verbatim>\<open>Setup\<close> and \<^verbatim>\<open>AggSig\<close>, which both reseed \<^verbatim>\<open>state_gmp\<close> and so
  discard the state of its own first \<^verbatim>\<open>initState\<close>; the generator seeded by
  \<^verbatim>\<open>initRNG\<close> is never read. \<open>test\<close> counts the failing runs out of 100, with one pair of clock
  readings per run.
\<close>

definition fussion ::
    "'rs gmp \<Rightarrow> ('big, 'ecp, 'ecp2, 'fp12, 'hash, 'rng) miracl \<Rightarrow> 64 word \<Rightarrow> 64 word \<Rightarrow> int result" where
  "fussion G M now_setup now_agg =
     (let m = 123456789; n = 2; tm = 2 in
     rbind (Setup G M now_setup n tm) (\<lambda>(pp, alpha, st1).
     rbind (KeyGen G M pp alpha st1) (\<lambda>(UAVs, pp', uavH, st2).
     let t = tm div 2 + 1 in
     rbind (collectSig G M pp' UAVs t m) (\<lambda>sigmas.
     let (sk_v, st3) = rand_mpz G st2 in
     rbind (pow_mpz G (pp_g pp') sk_v (pp_q pp')) (\<lambda>PK_v.
     rbind (AggSig G M now_agg sigmas pp' uavH PK_v) (\<lambda>(sig, st4).
     Verify G M sig sk_v pp' m t))))))"

definition test_round ::
    "'rs gmp \<Rightarrow> ('big, 'ecp, 'ecp2, 'fp12, 'hash, 'rng) miracl \<Rightarrow> (int \<Rightarrow> 64 word) \<Rightarrow> (int \<Rightarrow> 64 word) \<Rightarrow>
      int \<Rightarrow> int \<Rightarrow> int result" where
  "test_round G M setup_clock agg_clock i failures =
     rbind (fussion G M (setup_clock i) (agg_clock i)) (\<lambda>pass.
     Inr (if pass \<noteq> 1 then failures + 1 else failures))"

definition test ::
    "'rs gmp \<Rightarrow> ('big, 'ecp, 'ecp2, 'fp12, 'hash, 'rng) miracl \<Rightarrow> (int \<Rightarrow> 64 word) \<Rightarrow> (int \<Rightarrow> 64 word) \<Rightarrow>
      int result" where
  "test G M setup_clock agg_clock = for_range 0 100 (test_round G M setup_clock agg_clock) 0"

end
