(* ===== verification/Fussion_Hash.thy ===== *)
theory Fussion_Hash
  imports Fussion Reference_Run
begin

text \<open>
  The search of \<^verbatim>\<open>hashToCoprime\<close> for an exponent that is invertible modulo \<open>q - 1\<close>. The twelve
  factors are the primes of \<open>q - 1\<close>, so \<^verbatim>\<open>isCoprime\<close> decides coprimality to \<open>q - 1\<close>. The step
  254760293 of the search is itself one of the factors: the search ends exactly when it does not
  divide the first hash value.
\<close>

section \<open>The primality test against the factors\<close>

abbreviation hash_step :: int where
  "hash_step \<equiv> 254760293"

lemma isCoprime_factors:
  "(\<And>f. f \<in> set factors \<Longrightarrow> 0 < f) \<Longrightarrow> isCoprime x factors = Inr (\<forall>f \<in> set factors. \<not> f dvd x)"
proof (induction factors)
  case (Cons f factors)
  have "0 < f" by (rule Cons.prems) simp
  then have "mpz_rem x f = Inr (x smod f)" "x smod f = 0 \<longleftrightarrow> f dvd x"
    by (simp_all add: smod_eq_0_iff)
  with Cons show ?case by simp
qed simp

lemma isCoprime_zero_factor: "isCoprime x (0 # factors) = Inl Division_by_zero"
  by simp

lemma set_getFactors:
  "set getFactors = {2, 3, 11, 19, 10177, 125527, 859267, 906349, 2508409, 2529403, 52437899, 254760293}"
  by (simp only: getFactors_def list.set)

lemma getFactors_prime: "f \<in> set getFactors \<Longrightarrow> is_prime f"
  by (rule order_factor_primes) (simp only: set_getFactors)

lemma getFactors_pos: "f \<in> set getFactors \<Longrightarrow> 0 < f"
  by (auto simp: set_getFactors)

lemma prod_getFactors: "prod_list getFactors * (2 ^ 31 * 906349 * 254760293) = curve_order - 1"
  by (simp add: getFactors_def curve_order_def)

lemma getFactors_dvd: "f \<in> set getFactors \<Longrightarrow> f dvd curve_order - 1"
  unfolding prod_getFactors [symmetric] by (rule dvd_mult2) (rule prod_list_dvd)

lemma order_minus_1_pos: "0 < curve_order - 1" "1 < curve_order - 1" "curve_order - 1 < 2 ^ 256"
  by (simp_all add: curve_order_def)

lemma coprime_factors_iff:
  "coprime x (curve_order - 1) \<longleftrightarrow> (\<forall>f \<in> set getFactors. \<not> f dvd x)"
proof
  assume "coprime x (curve_order - 1)"
  then show "\<forall>f \<in> set getFactors. \<not> f dvd x"
    using getFactors_dvd getFactors_prime
    by (meson coprime_common_divisor prime_not_unit(1))
next
  assume none: "\<forall>f \<in> set getFactors. \<not> f dvd x"
  show "coprime x (curve_order - 1)"
  proof (rule ccontr)
    assume "\<not> coprime x (curve_order - 1)"
    then have "gcd x (curve_order - 1) \<noteq> 1"
      by (simp add: coprime_iff_gcd_eq_1)
    moreover have "gcd x (curve_order - 1) \<noteq> 0"
      by (simp add: gcd_eq_0_iff)
    ultimately have "1 < gcd x (curve_order - 1)"
      using gcd_ge_0_int [of x "curve_order - 1"] by linarith
    then obtain p where "is_prime p" "p dvd gcd x (curve_order - 1)"
      using prime_divisor_exists by blast
    then have "p \<in> set getFactors" "p dvd x"
      using prime_dvd_order_minus_1 [of p] by (simp_all only: set_getFactors gcd_greatest_iff)
    with none show False by blast
  qed
qed

lemma isCoprime_order: "isCoprime x getFactors = Inr (coprime x (curve_order - 1))"
  by (simp add: isCoprime_factors getFactors_pos coprime_factors_iff)

section \<open>Termination of the search\<close>

text \<open>
  One more prime \<open>f\<close> can be avoided by going on by \<open>Q\<close> rounds, where \<open>Q\<close> is a product of
  the primes avoided so far.
\<close>

lemma avoid_primes:
  assumes "is_prime p" and "\<And>f. f \<in> set fs \<Longrightarrow> is_prime f \<and> f \<noteq> p" and "distinct fs"
  shows "\<exists>k::nat. \<forall>f \<in> set fs. \<not> f dvd h + int k * p"
  using assms(2,3)
proof (induction fs)
  case Nil
  then show ?case by simp
next
  case (Cons f fs)
  then obtain k where k: "\<forall>g \<in> set fs. \<not> g dvd h + int k * p" by auto
  show ?case
  proof (cases "f dvd h + int k * p")
    case False
    with k show ?thesis by auto
  next
    case True
    let ?Q = "nat (prod_list fs)"
    have primes: "is_prime f" "f \<noteq> p" "\<And>g. g \<in> set fs \<Longrightarrow> is_prime g" using Cons.prems by auto
    have pos: "0 \<le> prod_list fs" using primes(3) is_prime_pos(1)
      by (intro prod_list_nonneg) (auto intro: less_imp_le)
    have "\<not> f dvd prod_list fs"
      using prime_dvd_prod_list [OF primes(1)] prime_dvd_prime [OF primes(1)] primes(3) Cons.prems(2)
      by auto
    moreover have "\<not> f dvd p"
      using prime_dvd_prime [OF primes(1) assms(1)] primes(2) by blast
    ultimately have "\<not> f dvd prod_list fs * p"
      using prime_dvd_mult [OF primes(1)] by blast
    then have "\<not> f dvd (h + int k * p) + prod_list fs * p"
      using True by (simp add: dvd_add_right_iff)
    moreover have "\<not> g dvd (h + int k * p) + prod_list fs * p" if "g \<in> set fs" for g
    proof -
      have "g dvd prod_list fs * p"
        using that by (metis dvd_mult2 prod_list_dvd)
      with k that show ?thesis by (simp add: dvd_add_left_iff)
    qed
    ultimately have "\<forall>g \<in> set (f # fs). \<not> g dvd h + int (k + ?Q) * p"
      using pos by (simp add: algebra_simps)
    then show ?thesis by blast
  qed
qed

lemma coprime_reached:
  assumes "\<not> hash_step dvd h"
  shows "\<exists>k::nat. coprime (h + int k * hash_step) (curve_order - 1)"
proof -
  have "\<exists>k::nat. \<forall>f \<in> set (butlast getFactors). \<not> f dvd h + int k * hash_step"
  proof (rule avoid_primes)
    show "is_prime hash_step" by (rule getFactors_prime) (simp add: set_getFactors)
    show "is_prime f \<and> f \<noteq> hash_step" if "f \<in> set (butlast getFactors)" for f
    proof
      show "is_prime f" using that by (intro getFactors_prime) (rule in_set_butlastD)
      show "f \<noteq> hash_step" using that by (auto simp: getFactors_def)
    qed
    show "distinct (butlast getFactors)" by (simp add: getFactors_def)
  qed
  then obtain k :: nat where "\<forall>f \<in> set (butlast getFactors). \<not> f dvd h + int k * hash_step" ..
  moreover have "\<not> hash_step dvd h + int k * hash_step"
    using assms by (simp add: dvd_add_left_iff)
  moreover have "set getFactors = insert hash_step (set (butlast getFactors))"
    by (auto simp: getFactors_def)
  ultimately show ?thesis
    unfolding coprime_factors_iff by (metis insert_iff)
qed

lemma hashToCoprime_loop_step:
  "hashToCoprime_loop hash_step getFactors h =
    (if coprime h (curve_order - 1) then Some (Inr h)
     else hashToCoprime_loop hash_step getFactors (h + hash_step))"
  by (subst hashToCoprime_loop.simps) (simp add: isCoprime_order)

lemma hashToCoprime_loop_returns:
  assumes "coprime (h + int k * hash_step) (curve_order - 1)"
  shows "\<exists>j. j \<le> k \<and> hashToCoprime_loop hash_step getFactors h = Some (Inr (h + int j * hash_step)) \<and>
    coprime (h + int j * hash_step) (curve_order - 1) \<and>
    (\<forall>i < j. \<not> coprime (h + int i * hash_step) (curve_order - 1))"
  using assms
proof (induction k arbitrary: h)
  case 0
  then show ?case
    by (intro exI [of _ 0]) (simp add: hashToCoprime_loop_step [of h])
next
  case (Suc k)
  show ?case
  proof (cases "coprime h (curve_order - 1)")
    case True
    then show ?thesis
      by (intro exI [of _ 0]) (simp add: hashToCoprime_loop_step [of h])
  next
    case False
    have "coprime ((h + hash_step) + int k * hash_step) (curve_order - 1)"
      using Suc.prems by (simp add: algebra_simps)
    then obtain j where j: "j \<le> k"
        "hashToCoprime_loop hash_step getFactors (h + hash_step) =
           Some (Inr ((h + hash_step) + int j * hash_step))"
        "coprime ((h + hash_step) + int j * hash_step) (curve_order - 1)"
        "\<forall>i < j. \<not> coprime ((h + hash_step) + int i * hash_step) (curve_order - 1)"
      using Suc.IH by blast
    have shift: "(h + hash_step) + int i * hash_step = h + int (Suc i) * hash_step" for i
      by (simp add: algebra_simps)
    have "\<forall>i < Suc j. \<not> coprime (h + int i * hash_step) (curve_order - 1)"
      using j(4) False unfolding shift by (auto simp: less_Suc_eq_0_disj)
    with j(1-3) False show ?thesis
      unfolding shift by (intro exI [of _ "Suc j"]) (simp add: hashToCoprime_loop_step [of h])
  qed
qed

lemma hashToCoprime_loop_result:
  assumes "hashToCoprime_loop inc factors h = Some r"
  shows "(\<forall>f \<in> set factors. 0 < f) \<and> inc \<in> set factors \<longrightarrow> \<not> inc dvd h"
proof (rule hashToCoprime_loop.raw_induct [OF _ assms])
  fix loop inc factors h r
  assume IH: "\<And>inc factors h r. loop inc factors h = Some r \<Longrightarrow>
      (\<forall>f \<in> set factors. 0 < f) \<and> inc \<in> set factors \<longrightarrow> \<not> inc dvd h"
    and run: "(case isCoprime h factors of Inl e \<Rightarrow> Some (Inl e)
       | Inr c \<Rightarrow> if \<not> c then loop inc factors (h + inc) else Some (Inr h)) = Some r"
  show "(\<forall>f \<in> set factors. 0 < f) \<and> inc \<in> set factors \<longrightarrow> \<not> inc dvd h"
    using run IH [of inc factors "h + inc" r]
    by (auto simp: isCoprime_factors split: if_splits)
qed

lemma hashToCoprime_loop_diverges:
  assumes "hash_step dvd h"
  shows "hashToCoprime_loop hash_step getFactors h = None"
proof (cases "hashToCoprime_loop hash_step getFactors h")
  case (Some r)
  then have "\<not> hash_step dvd h"
    using hashToCoprime_loop_result getFactors_pos by (fastforce simp: set_getFactors)
  with assms show ?thesis by contradiction
qed simp

section \<open>hashToCoprime modulo q - 1\<close>

context fussion_libs
begin

text \<open>
  The first hash value decides: the search diverges if 254760293 divides it, and otherwise returns
  the first value of the sequence that is coprime to \<open>q - 1\<close>.
\<close>

lemma hashToCoprime_cases:
  obtains h where "hashToZp256 G M x (curve_order - 1) = Inr h" "0 \<le> h" "h < curve_order - 1"
    and "hash_step dvd h \<Longrightarrow> hashToCoprime G M x (curve_order - 1) getFactors = Inl Diverges"
    and "\<not> hash_step dvd h \<Longrightarrow>
      \<exists>j. hashToCoprime G M x (curve_order - 1) getFactors = Inr (h + int j * hash_step) \<and>
        coprime (h + int j * hash_step) (curve_order - 1) \<and>
        (\<forall>i < j. \<not> coprime (h + int i * hash_step) (curve_order - 1))"
proof -
  obtain h where h: "hashToZp256 G M x (curve_order - 1) = Inr h" "0 \<le> h" "h < curve_order - 1"
    using hashToZp256_range [OF order_minus_1_pos(1,3)] by blast
  show thesis
  proof (rule that [OF h])
    assume "hash_step dvd h"
    with h show "hashToCoprime G M x (curve_order - 1) getFactors = Inl Diverges"
      by (simp add: hashToCoprime_def hashToCoprime_loop_diverges)
  next
    assume "\<not> hash_step dvd h"
    then show "\<exists>j. hashToCoprime G M x (curve_order - 1) getFactors = Inr (h + int j * hash_step) \<and>
        coprime (h + int j * hash_step) (curve_order - 1) \<and>
        (\<forall>i < j. \<not> coprime (h + int i * hash_step) (curve_order - 1))"
      using coprime_reached [of h] hashToCoprime_loop_returns [of h] h(1)
      by (fastforce simp: hashToCoprime_def)
  qed
qed

lemma hashToCoprime_coprime:
  assumes "hashToCoprime G M x (curve_order - 1) getFactors = Inr r"
  shows "0 \<le> r \<and> coprime r (curve_order - 1)"
proof (cases rule: hashToCoprime_cases [of x])
  case (1 h)
  then have "\<not> hash_step dvd h" using assms by auto
  then obtain j where "r = h + int j * hash_step" "coprime (h + int j * hash_step) (curve_order - 1)"
    using 1(5) assms by auto
  with 1(2) show ?thesis by simp
qed

lemma hashToCoprime_diverges_iff:
  assumes "hashToZp256 G M x (curve_order - 1) = Inr h"
  shows "hashToCoprime G M x (curve_order - 1) getFactors = Inl Diverges \<longleftrightarrow> hash_step dvd h"
proof (cases rule: hashToCoprime_cases [of x])
  case (1 h')
  with assms have "h' = h" by simp
  with 1(4,5) show ?thesis by fastforce
qed

lemma hashToCoprime_returns:
  assumes "hashToZp256 G M x (curve_order - 1) = Inr h" "\<not> hash_step dvd h"
  shows "\<exists>j. hashToCoprime G M x (curve_order - 1) getFactors = Inr (h + int j * hash_step) \<and>
    coprime (h + int j * hash_step) (curve_order - 1) \<and>
    (\<forall>i < j. \<not> coprime (h + int i * hash_step) (curve_order - 1))"
proof (cases rule: hashToCoprime_cases [of x])
  case (1 h')
  with assms have "h' = h" by simp
  with 1(5) assms(2) show ?thesis by blast
qed

end

section \<open>Properties\<close>

text \<open>
  \<^verbatim>\<open>isCoprime\<close> with the twelve factors of \<^verbatim>\<open>getFactors\<close> decides whether a number is coprime to
  \<open>q - 1\<close>, for the 255-bit curve order \<open>q\<close>.
\<close>

theorem isCoprime_decides: "isCoprime x getFactors = Inr (coprime x (curve_order - 1))"
  by (rule isCoprime_order)

text \<open>
  C3. If 254760293 does not divide the hash value, \<^verbatim>\<open>hashToCoprime\<close> ends, and returns the first
  value \<open>h + j * 254760293\<close> that is coprime to \<open>q - 1\<close>.
\<close>

theorem hashToCoprime_terminates:
  assumes "fussion_libs G M V"
    and "hashToZp256 G M x (curve_order - 1) = Inr h" and "\<not> 254760293 dvd h"
  shows "\<exists>j. hashToCoprime G M x (curve_order - 1) getFactors = Inr (h + int j * 254760293) \<and>
    coprime (h + int j * 254760293) (curve_order - 1) \<and>
    (\<forall>i < j. \<not> coprime (h + int i * 254760293) (curve_order - 1))"
  by (rule fussion_libs.hashToCoprime_returns [OF assms])

theorem hashToCoprime_terminates_witness:
  "\<exists>r. hashToCoprime gmp_ref miracl_ref 5 (curve_order - 1) getFactors = Inr r \<and>
    coprime r (curve_order - 1)"
proof -
  obtain s where "s < 1000" "hashToZp256 gmp_ref miracl_ref 5 (curve_order - 1) = Inr (int (Suc s) * 2 ^ 128)"
    using hash_ref_order by blast
  from hashToCoprime_terminates [OF lref.fussion_libs_axioms this(2) hash_ref_not_dvd [OF this(1)]]
  show ?thesis by blast
qed

text \<open>
  C21. If 254760293 divides the hash value, \<^verbatim>\<open>hashToCoprime\<close> never returns: its step is one of the
  factors it tests, so every value it tries has that factor.
\<close>

theorem hashToCoprime_runs_forever:
  assumes "fussion_libs G M V"
    and "hashToZp256 G M x (curve_order - 1) = Inr h" and "254760293 dvd h"
  shows "hashToCoprime G M x (curve_order - 1) getFactors = Inl Diverges"
  using fussion_libs.hashToCoprime_diverges_iff [OF assms(1,2)] assms(3) by blast

theorem hashToCoprime_runs_forever_witness:
  "hashToCoprime gmp_ref miracl_zero 5 (curve_order - 1) getFactors = Inl Diverges"
  using hashToCoprime_runs_forever [OF lzero.fussion_libs_axioms hash_zero [OF order_minus_1_pos(1,3)]]
  by simp

end
