(* ===== verification/Interpolation.thy ===== *)
theory Interpolation
  imports Main
begin

text \<open>
  Interpolation at zero, in any field: the secret of the scheme is the value at 0 of a
  product of linear factors, and \<open>t\<close> of its values determine it when there are fewer than
  \<open>t\<close> factors. The proof goes over divided differences, so no theory of polynomials is
  needed.
\<close>

section \<open>Products of linear factors\<close>

text \<open>The share of an identity \<open>x\<close>: the product of \<open>d * x + b\<close> over the coefficient pairs.\<close>

definition lin_prod :: "('a::comm_ring_1 \<times> 'a) list \<Rightarrow> 'a \<Rightarrow> 'a" where
  "lin_prod fs x = (\<Prod>(d, b) \<leftarrow> fs. d * x + b)"

lemma lin_prod_simps [simp]:
  "lin_prod [] x = 1" "lin_prod ((d, b) # fs) x = (d * x + b) * lin_prod fs x"
  by (simp_all add: lin_prod_def)

lemma lin_prod_0: "lin_prod fs 0 = prod_list (map snd fs)"
  by (induction fs) auto

section \<open>Divided differences\<close>

definition ddiff :: "'a::field set \<Rightarrow> ('a \<Rightarrow> 'a) \<Rightarrow> 'a" where
  "ddiff A f = (\<Sum>a\<in>A. f a / (\<Prod>b\<in>A - {a}. b - a))"

lemma ddiff_shift:
  assumes "finite A" and "c \<in> A"
  shows "ddiff A (\<lambda>x. (x - c) * f x) = - ddiff (A - {c}) f"
proof -
  have summand: "(a - c) * f a / (\<Prod>b\<in>A - {a}. b - a) = - (f a / (\<Prod>b\<in>A - {c} - {a}. b - a))"
    if "a \<in> A - {c}" for a
  proof -
    have "A - {a} = insert c (A - {c} - {a})" using assms(2) that by auto
    then have "(\<Prod>b\<in>A - {a}. b - a) = (c - a) * (\<Prod>b\<in>A - {c} - {a}. b - a)"
      using assms(1) by simp
    moreover have "(a - c) * f a = (c - a) * - f a" by (simp add: algebra_simps)
    moreover have "c - a \<noteq> 0" using that by auto
    ultimately show ?thesis by simp
  qed
  have "ddiff A (\<lambda>x. (x - c) * f x) = (\<Sum>a\<in>A - {c}. (a - c) * f a / (\<Prod>b\<in>A - {a}. b - a))"
    using assms unfolding ddiff_def by (simp add: sum.remove)
  also have "\<dots> = (\<Sum>a\<in>A - {c}. - (f a / (\<Prod>b\<in>A - {c} - {a}. b - a)))"
    by (rule sum.cong) (simp_all add: summand)
  finally show ?thesis by (simp add: ddiff_def sum_negf)
qed

lemma ddiff_add: "ddiff A (\<lambda>x. f x + g x) = ddiff A f + ddiff A g"
  by (simp add: ddiff_def add_divide_distrib sum.distrib)

lemma ddiff_scale: "ddiff A (\<lambda>x. k * f x) = k * ddiff A f"
  by (simp add: ddiff_def sum_distrib_left)

text \<open>A constant has no difference over two or more nodes.\<close>

lemma ddiff_const:
  assumes "finite A" and "2 \<le> card A"
  shows "ddiff A (\<lambda>x. k) = 0"
  using assms
proof (induction "card A" arbitrary: A)
  case 0
  then show ?case by simp
next
  case (Suc n)
  obtain c where c: "c \<in> A" using Suc.prems by fastforce
  then obtain e where e: "e \<in> A" "e \<noteq> c"
    using Suc.prems by (metis card_le_Suc0_iff_eq numeral_2_eq_2 not_less_eq_eq)
  have diff: "ddiff (A - {c}) (\<lambda>x. k) = ddiff (A - {e}) (\<lambda>x. k)"
  proof (cases "card A = 2")
    case True
    then have A: "A = {c, e}"
      using Suc.prems c e by (metis card_2_iff doubleton_eq_iff insertE singletonD)
    then have "A - {c} = {e}" "A - {e} = {c}" using e by auto
    then show ?thesis by (simp add: ddiff_def)
  next
    case False
    with Suc c e show ?thesis by simp
  qed
  have "(e - c) * ddiff A (\<lambda>x. k) = ddiff A (\<lambda>x. (x - c) * k + (- 1) * ((x - e) * k))"
    by (simp add: ddiff_scale [symmetric] algebra_simps)
  also have "\<dots> = - ddiff (A - {c}) (\<lambda>x. k) + (- 1) * - ddiff (A - {e}) (\<lambda>x. k)"
    using Suc.prems c e by (simp only: ddiff_add ddiff_scale ddiff_shift)
  also have "\<dots> = 0" using diff by simp
  finally show ?case using e(2) by simp
qed

text \<open>A product of \<open>m\<close> linear factors has no difference over more than \<open>m + 1\<close> nodes.\<close>

lemma ddiff_lin_prod:
  assumes "finite A" and "length fs + 2 \<le> card A"
  shows "ddiff A (lin_prod fs) = 0"
  using assms
proof (induction fs arbitrary: A)
  case Nil
  then show ?case by (simp add: ddiff_const lin_prod_def)
next
  case (Cons df fs)
  obtain d b where df: "df = (d, b)" by (cases df)
  obtain c where c: "c \<in> A" using Cons.prems by fastforce
  have "ddiff A (lin_prod (df # fs))
      = ddiff A (\<lambda>x. d * ((x - c) * lin_prod fs x) + (d * c + b) * lin_prod fs x)"
    by (rule arg_cong [of _ _ "ddiff A"]) (simp add: df fun_eq_iff algebra_simps)
  also have "\<dots> = d * - ddiff (A - {c}) (lin_prod fs) + (d * c + b) * ddiff A (lin_prod fs)"
    using Cons.prems c by (simp only: ddiff_add ddiff_scale ddiff_shift)
  also have "\<dots> = 0"
    using Cons c by simp
  finally show ?case .
qed

section \<open>Interpolation at zero\<close>

definition lagrange0 :: "'a::field set \<Rightarrow> 'a \<Rightarrow> 'a" where
  "lagrange0 A a = (\<Prod>b\<in>A - {a}. b / (b - a))"

lemma interpolation_at_0:
  assumes "finite A" and "0 \<notin> A" and "length fs < card A"
  shows "(\<Sum>a\<in>A. lin_prod fs a * lagrange0 A a) = lin_prod fs 0"
proof -
  define P where "P = \<Prod>A"
  have P: "P \<noteq> 0" using assms(1,2) by (simp add: P_def)
  have A0: "insert 0 A - {0} = A" using assms(2) by simp
  have summand: "lin_prod fs a / (\<Prod>b\<in>insert 0 A - {a}. b - a)
      = - (lin_prod fs a * lagrange0 A a / P)" if "a \<in> A" for a
  proof -
    have a: "a \<noteq> 0" using that assms(2) by auto
    have "insert 0 A - {a} = insert 0 (A - {a})" using a by auto
    then have "(\<Prod>b\<in>insert 0 A - {a}. b - a) = (- a) * (\<Prod>b\<in>A - {a}. b - a)"
      using assms(1,2) by simp
    moreover have "P = a * \<Prod>(A - {a})"
      using assms(1) that by (simp add: P_def prod.remove)
    moreover have "lagrange0 A a = \<Prod>(A - {a}) / (\<Prod>b\<in>A - {a}. b - a)"
      by (simp add: lagrange0_def prod_dividef)
    moreover have "\<Prod>(A - {a}) \<noteq> 0" using assms(1,2) by simp
    ultimately show ?thesis using a by (simp add: field_simps)
  qed
  have "0 = ddiff (insert 0 A) (lin_prod fs)"
    using assms by (simp add: ddiff_lin_prod)
  also have "\<dots> = lin_prod fs 0 / P + (\<Sum>a\<in>A. - (lin_prod fs a * lagrange0 A a / P))"
    using assms(1,2) A0 unfolding ddiff_def
    by (simp add: summand P_def cong: sum.cong)
  also have "\<dots> = (lin_prod fs 0 - (\<Sum>a\<in>A. lin_prod fs a * lagrange0 A a)) / P"
    by (simp add: sum_negf sum_divide_distrib [symmetric] diff_divide_distrib)
  finally show ?thesis using P by simp
qed

text \<open>The form the program computes: nodes given by an injective enumeration.\<close>

lemma interpolation_indexed:
  fixes x :: "nat \<Rightarrow> 'a::field"
  assumes "inj_on x {..<n}" and "\<And>i. i < n \<Longrightarrow> x i \<noteq> 0" and "length fs < n"
  shows "(\<Sum>i<n. lin_prod fs (x i) * (\<Prod>j\<in>{..<n} - {i}. x j / (x j - x i))) = lin_prod fs 0"
proof -
  have "(\<Prod>j\<in>{..<n} - {i}. x j / (x j - x i)) = lagrange0 (x ` {..<n}) (x i)" if "i < n" for i
  proof -
    have "x ` {..<n} - {x i} = x ` ({..<n} - {i})"
      using assms(1) that by (auto simp: inj_on_def)
    moreover have "inj_on x ({..<n} - {i})" using assms(1) by (rule inj_on_subset) auto
    ultimately show ?thesis by (simp add: lagrange0_def prod.reindex)
  qed
  then have "(\<Sum>i<n. lin_prod fs (x i) * (\<Prod>j\<in>{..<n} - {i}. x j / (x j - x i)))
      = (\<Sum>a\<in>x ` {..<n}. lin_prod fs a * lagrange0 (x ` {..<n}) a)"
    unfolding sum.reindex [OF assms(1)] o_def by (intro sum.cong) simp_all
  also have "\<dots> = lin_prod fs 0"
    using assms by (intro interpolation_at_0) (auto simp: card_image)
  finally show ?thesis .
qed

end
