(* ===== verification/Fussion_Lagrange.thy ===== *)
theory Fussion_Lagrange
  imports Fussion Interpolation Reference_Run
begin

text \<open>
  The Lagrange coefficients at zero that \<^verbatim>\<open>getPi_0\<close> computes. Both overloads are read in the field
  of residues, where they are the product of \<open>x\<^sub>j / (x\<^sub>j - x\<^sub>i)\<close> over the other identities, and are
  shown to return the same vector.
\<close>

abbreviation fe :: "int \<Rightarrow> zq" where
  "fe \<equiv> of_int"

text \<open>The coefficient of the identity with index \<open>i\<close> among the first \<open>n\<close>.\<close>

definition lagrange_coeff :: "int list \<Rightarrow> nat \<Rightarrow> nat \<Rightarrow> zq" where
  "lagrange_coeff ID n i = (\<Prod>j\<in>{..<n} - {i}. fe (ID ! j) / (fe (ID ! j) - fe (ID ! i)))"

text \<open>Identities the coefficients are defined for: non-negative, non-zero and distinct in the field.\<close>

definition good_ids :: "int list \<Rightarrow> nat \<Rightarrow> bool" where
  "good_ids ID n \<longleftrightarrow> n \<le> length ID \<and> (\<forall>i < n. 0 \<le> ID ! i \<and> fe (ID ! i) \<noteq> 0) \<and>
     inj_on (\<lambda>i. fe (ID ! i)) {..<n}"

lemma good_idsD:
  assumes "good_ids ID n"
  shows "n \<le> length ID" "\<And>i. i < n \<Longrightarrow> 0 \<le> ID ! i" "\<And>i. i < n \<Longrightarrow> fe (ID ! i) \<noteq> 0"
    "\<And>i j. i < n \<Longrightarrow> j < n \<Longrightarrow> i \<noteq> j \<Longrightarrow> fe (ID ! j) - fe (ID ! i) \<noteq> 0"
  using assms by (auto simp: good_ids_def inj_on_def)

lemma fe_eq_iff: "0 \<le> x \<Longrightarrow> x < curve_order \<Longrightarrow> 0 \<le> y \<Longrightarrow> y < curve_order \<Longrightarrow> fe x = fe y \<longleftrightarrow> x = y"
  using zq_residue_eqI by blast

lemma fe_nonzero: "0 < x \<Longrightarrow> x < curve_order \<Longrightarrow> fe x \<noteq> 0"
  using zdvd_imp_le [of curve_order x] by (auto simp: of_int_zq_eq_0_iff)

lemma good_ids_distinct:
  assumes "distinct ID" and "list_all (\<lambda>x. 0 < x \<and> x < curve_order) ID" and "n = length ID"
  shows "good_ids ID n"
  using assms by (auto simp: good_ids_def list_all_length fe_nonzero fe_eq_iff less_imp_le
      inj_on_def nth_eq_iff_index_eq)

lemma interpolation_coeff:
  assumes "good_ids ID n" and "length fs < n"
  shows "(\<Sum>i<n. lin_prod fs (fe (ID ! i)) * lagrange_coeff ID n i) = lin_prod fs 0"
  unfolding lagrange_coeff_def
  using assms by (intro interpolation_indexed) (auto simp: good_ids_def)

lemma fe_smod [simp]: "fe (a smod curve_order) = fe a"
  by (simp add: zq_simps)

lemma insert_index: "i < k \<Longrightarrow> {..<Suc k} - {i} = insert k ({..<k} - {i})" "{..<Suc k} - {k} = {..<k} - {k}"
  by auto

section \<open>The loops of the first overload\<close>

lemma prodX_loop:
  assumes "pp_q pp = curve_order" and "n \<le> length ID" and "\<And>i. i < n \<Longrightarrow> 0 \<le> ID ! i"
  shows "\<exists>p. for_range 0 (int n) (getPi_0_prodX pp ID) 1 = Inr p \<and>
    0 \<le> p \<and> fe p = (\<Prod>j<n. fe (ID ! j))"
proof (rule for_range_inv [where I = "\<lambda>k p. 0 \<le> p \<and> fe p = (\<Prod>j<k. fe (ID ! j))"])
  fix k p
  assume "k < n" and "0 \<le> p \<and> fe p = (\<Prod>j<k. fe (ID ! j))"
  with assms show "\<exists>p'. getPi_0_prodX pp ID (int k) p = Inr p' \<and>
      0 \<le> p' \<and> fe p' = (\<Prod>j<Suc k. fe (ID ! j))"
    by (simp add: getPi_0_prodX_def smod_range mult.commute)
qed simp_all

lemma denominator_loop:
  assumes "pp_q pp = curve_order" and "n \<le> length ID" and "i < n"
  shows "\<exists>den. for_range 0 (int n) (getPi_0_denominator pp ID (int i)) 1 = Inr den \<and>
    fe den = (\<Prod>j\<in>{..<n} - {i}. fe (ID ! j) - fe (ID ! i))"
proof (rule for_range_inv
    [where I = "\<lambda>k den. fe den = (\<Prod>j\<in>{..<k} - {i}. fe (ID ! j) - fe (ID ! i))"])
  fix k den
  assume k: "k < n" and den: "fe den = (\<Prod>j\<in>{..<k} - {i}. fe (ID ! j) - fe (ID ! i))"
  have split: "{..<Suc k} - {i} = (if k = i then {..<k} - {i} else insert k ({..<k} - {i}))"
    by auto
  show "\<exists>den'. getPi_0_denominator pp ID (int i) (int k) den = Inr den' \<and>
      fe den' = (\<Prod>j\<in>{..<Suc k} - {i}. fe (ID ! j) - fe (ID ! i))"
    using assms k den unfolding split
    by (auto simp: getPi_0_denominator_def zq_simps mult.commute)
qed simp_all

context gmp_lib
begin

lemma getPi_0_coeffs:
  assumes "pp_q pp = curve_order" and "good_ids ID n"
  shows "\<exists>Pis. getPi_0 G pp ID (int n) = Inr Pis \<and> length Pis = n \<and>
    (\<forall>i < n. 0 \<le> Pis ! i \<and> Pis ! i < curve_order \<and> fe (Pis ! i) = lagrange_coeff ID n i)"
proof -
  note ids = good_idsD [OF assms(2)]
  obtain p where p: "for_range 0 (int n) (getPi_0_prodX pp ID) 1 = Inr p" "0 \<le> p"
      "fe p = (\<Prod>j<n. fe (ID ! j))"
    using prodX_loop [OF assms(1) ids(1,2)] by blast
  have "\<exists>x. rbind (for_range 0 (int n) (getPi_0_denominator pp ID (int i)) 1) (\<lambda>denominator.
      rbind (vec_at ID (int i)) (\<lambda>xi.
      rbind (mpz_rem (p * invert_mpz G xi (pp_q pp)) (pp_q pp)) (\<lambda>numerator.
      let inv_den = invert_mpz G denominator (pp_q pp) in
      mpz_rem (numerator * inv_den) (pp_q pp)))) = Inr x \<and>
      (0 \<le> x \<and> x < curve_order \<and> fe x = lagrange_coeff ID n i)" if i: "i < n" for i
  proof -
    obtain den where den: "for_range 0 (int n) (getPi_0_denominator pp ID (int i)) 1 = Inr den"
        "fe den = (\<Prod>j\<in>{..<n} - {i}. fe (ID ! j) - fe (ID ! i))"
      using denominator_loop [OF assms(1) ids(1) i] by blast
    have nz: "fe (ID ! i) \<noteq> 0" "fe den \<noteq> 0"
      using ids(3,4) i by (auto simp: den(2))
    let ?num = "p * invert_mpz G (ID ! i) curve_order smod curve_order"
    let ?x = "?num * invert_mpz G den curve_order smod curve_order"
    have "0 \<le> invert_mpz G (ID ! i) curve_order" "0 \<le> invert_mpz G den curve_order"
      using nz by (intro invert_mpz_inverse(1); simp add: coprime_order_iff)+
    then have range: "0 \<le> ?x" "?x < curve_order"
      using p(2) by (simp_all add: smod_nonneg)
    have "fe ?x = fe p * inverse (fe (ID ! i)) * inverse (fe den)"
      using nz by (simp add: invert_mpz_zq)
    also have "fe p = fe (ID ! i) * (\<Prod>j\<in>{..<n} - {i}. fe (ID ! j))"
      using i by (simp add: p(3) prod.remove)
    also have "fe (ID ! i) * (\<Prod>j\<in>{..<n} - {i}. fe (ID ! j)) * inverse (fe (ID ! i)) * inverse (fe den) =
        (\<Prod>j\<in>{..<n} - {i}. fe (ID ! j)) / fe den"
      using nz by (simp add: field_simps)
    finally have "fe ?x = lagrange_coeff ID n i"
      by (simp add: lagrange_coeff_def den(2) prod_dividef)
    with range den(1) i ids(1) assms(1) show ?thesis by simp
  qed
  then have "\<exists>xs. for_collect (int n) (\<lambda>i.
      rbind (for_range 0 (int n) (getPi_0_denominator pp ID i) 1) (\<lambda>denominator.
      rbind (vec_at ID i) (\<lambda>xi.
      rbind (mpz_rem (p * invert_mpz G xi (pp_q pp)) (pp_q pp)) (\<lambda>numerator.
      let inv_den = invert_mpz G denominator (pp_q pp) in
      mpz_rem (numerator * inv_den) (pp_q pp))))) = Inr xs \<and> length xs = n \<and>
      (\<forall>i < n. 0 \<le> xs ! i \<and> xs ! i < curve_order \<and> fe (xs ! i) = lagrange_coeff ID n i)"
    by (rule for_collect_inv [OF _ refl])
  with p(1) show ?thesis
    by (simp only: getPi_0_def rbind_Inr)
qed

end

section \<open>The second overload\<close>

lemma Sigma_loop:
  assumes "pp_q pp = curve_order" and "n \<le> length ID" and "i < n"
    and "\<And>j. j < n \<Longrightarrow> 0 \<le> ID ! j \<and> ID ! j \<le> curve_order"
  shows "\<exists>num den. for_range 0 (int n) (getPi_0_Sigma_round pp ID (int i)) (1, 1) = Inr (num, den) \<and>
    0 \<le> num \<and> fe num = (\<Prod>j\<in>{..<n} - {i}. - fe (ID ! j)) \<and>
    fe den = (\<Prod>j\<in>{..<n} - {i}. fe (ID ! i) - fe (ID ! j))"
proof -
  let ?I = "\<lambda>k (num, den). 0 \<le> num \<and> fe num = (\<Prod>j\<in>{..<k} - {i}. - fe (ID ! j)) \<and>
    fe den = (\<Prod>j\<in>{..<k} - {i}. fe (ID ! i) - fe (ID ! j))"
  have "\<exists>s'. getPi_0_Sigma_round pp ID (int i) (int k) s = Inr s' \<and> ?I (Suc k) s'"
    if "k < n" "?I k s" for k s
  proof -
    have split: "{..<Suc k} - {i} = (if k = i then {..<k} - {i} else insert k ({..<k} - {i}))"
      by auto
    show ?thesis
      using assms that unfolding split
      by (auto simp: getPi_0_Sigma_round_def zq_simps smod_nonneg algebra_simps)
  qed
  then have "\<exists>s'. for_range 0 (int n) (getPi_0_Sigma_round pp ID (int i)) (1, 1) = Inr s' \<and> ?I n s'"
    by (rule for_range_inv) simp_all
  then show ?thesis by auto
qed

context gmp_lib
begin

lemma getPi_0_Sigma_coeffs:
  assumes "pp_q pp = curve_order" and "good_ids (sg_IDs sg) n"
    and "\<And>j. j < n \<Longrightarrow> sg_IDs sg ! j \<le> curve_order"
  shows "\<exists>Pis. getPi_0_Sigma G pp sg (int n) = Inr Pis \<and> length Pis = n \<and>
    (\<forall>i < n. 0 \<le> Pis ! i \<and> Pis ! i < curve_order \<and> fe (Pis ! i) = lagrange_coeff (sg_IDs sg) n i)"
  unfolding getPi_0_Sigma_def
proof (rule for_collect_inv [OF _ refl])
  fix i
  assume i: "i < n"
  let ?ID = "sg_IDs sg"
  note ids = good_idsD [OF assms(2)]
  obtain num den where nd: "for_range 0 (int n) (getPi_0_Sigma_round pp ?ID (int i)) (1, 1) = Inr (num, den)"
      "0 \<le> num" "fe num = (\<Prod>j\<in>{..<n} - {i}. - fe (?ID ! j))"
      "fe den = (\<Prod>j\<in>{..<n} - {i}. fe (?ID ! i) - fe (?ID ! j))"
    using Sigma_loop [OF assms(1) ids(1) i] ids(2) assms(3) by blast
  have nz: "fe den \<noteq> 0" using ids(4) i by (auto simp: nd(4))
  let ?x = "num * invert_mpz G den curve_order smod curve_order"
  have "0 \<le> invert_mpz G den curve_order"
    using nz by (intro invert_mpz_inverse(1)) (simp_all add: coprime_order_iff)
  then have range: "0 \<le> ?x" "?x < curve_order"
    using nd(2) by (simp_all add: smod_nonneg)
  have "fe ?x = fe num / fe den"
    using nz by (simp add: invert_mpz_zq divide_inverse)
  also have "\<dots> = (\<Prod>j\<in>{..<n} - {i}. - fe (?ID ! j) / (fe (?ID ! i) - fe (?ID ! j)))"
    by (simp only: nd(3,4) prod_dividef)
  also have "\<dots> = lagrange_coeff ?ID n i"
    unfolding lagrange_coeff_def
    by (intro prod.cong refl) (metis minus_diff_eq minus_divide_divide)
  finally show "\<exists>x. rbind (for_range 0 (int n) (getPi_0_Sigma_round pp ?ID (int i)) (1, 1))
      (\<lambda>(numerator, denominator).
        let inv_den = invert_mpz G denominator (pp_q pp) in mpz_rem (numerator * inv_den) (pp_q pp)) = Inr x \<and>
      0 \<le> x \<and> x < curve_order \<and> fe x = lagrange_coeff ?ID n i"
    using range nd(1) assms(1) by simp
qed

lemma getPi_0_overloads_agree:
  assumes "pp_q pp = curve_order" and "good_ids (sg_IDs sg) n"
    and "\<And>j. j < n \<Longrightarrow> sg_IDs sg ! j \<le> curve_order"
  shows "getPi_0_Sigma G pp sg (int n) = getPi_0 G pp (sg_IDs sg) (int n)"
proof -
  obtain xs where xs: "getPi_0 G pp (sg_IDs sg) (int n) = Inr xs" "length xs = n"
      "\<And>i. i < n \<Longrightarrow> 0 \<le> xs ! i \<and> xs ! i < curve_order \<and> fe (xs ! i) = lagrange_coeff (sg_IDs sg) n i"
    using getPi_0_coeffs [OF assms(1,2)] by blast
  obtain ys where ys: "getPi_0_Sigma G pp sg (int n) = Inr ys" "length ys = n"
      "\<And>i. i < n \<Longrightarrow> 0 \<le> ys ! i \<and> ys ! i < curve_order \<and> fe (ys ! i) = lagrange_coeff (sg_IDs sg) n i"
    using getPi_0_Sigma_coeffs [OF assms] by blast
  have "ys ! i = xs ! i" if "i < n" for i
    using xs(3) [OF that] ys(3) [OF that] by (intro zq_residue_eqI) simp_all
  then have "ys = xs" using xs(2) ys(2) by (intro nth_equalityI) simp_all
  with xs(1) ys(1) show ?thesis by simp
qed

end

section \<open>Properties\<close>

text \<open>
  C4. For identities that are non-zero and pairwise distinct in the field, \<^verbatim>\<open>getPi_0\<close> returns \<open>t\<close>
  residues that interpolate at zero: for every product \<open>f\<close> of fewer than \<open>t\<close> linear factors, the
  sum of \<open>f (ID\<^sub>i)\<close> times the coefficients is \<open>f 0\<close>.
\<close>

theorem getPi_0_interpolates:
  assumes "gmp_lib G" and "pp_q pp = curve_order" and "good_ids ID n"
  shows "\<exists>Pis. getPi_0 G pp ID (int n) = Inr Pis \<and> length Pis = n \<and>
    list_all (\<lambda>x. 0 \<le> x \<and> x < curve_order) Pis \<and>
    (\<forall>fs. length fs < n \<longrightarrow> (\<Sum>i<n. lin_prod fs (fe (ID ! i)) * fe (Pis ! i)) = lin_prod fs 0)"
proof -
  obtain Pis where Pis: "getPi_0 G pp ID (int n) = Inr Pis" "length Pis = n"
      "\<And>i. i < n \<Longrightarrow> 0 \<le> Pis ! i \<and> Pis ! i < curve_order \<and> fe (Pis ! i) = lagrange_coeff ID n i"
    using gmp_lib.getPi_0_coeffs [OF assms] by blast
  have "(\<Sum>i<n. lin_prod fs (fe (ID ! i)) * fe (Pis ! i)) = lin_prod fs 0" if "length fs < n" for fs
    using interpolation_coeff [OF assms(3) that] Pis(3) by simp
  with Pis show ?thesis by (auto simp: list_all_length)
qed

lemma good_ids_small: "good_ids [1, 2, 3] 3"
  by (rule good_ids_distinct) (simp_all add: curve_order_def)

definition params_ref :: "zq Params" where
  "params_ref = \<lparr>pp_n = 3, pp_tm = 3, pp_q = curve_order, pp_P2 = 1, pp_g = 2, pp_beta = 2, pp_PK = []\<rparr>"

theorem getPi_0_interpolates_witness:
  "\<exists>Pis. getPi_0 gmp_ref params_ref [1, 2, 3] (int 3) = Inr Pis \<and> length Pis = 3 \<and>
    (\<Sum>i<3. lin_prod [(5, 7), (4, 2)] (fe ([1, 2, 3] ! i)) * fe (Pis ! i)) = lin_prod [(5, 7), (4, 2)] 0"
proof -
  have "length [(5 :: zq, 7 :: zq), (4, 2)] < 3" "pp_q params_ref = curve_order"
    by (simp_all add: params_ref_def)
  with getPi_0_interpolates [OF gref.gmp_lib_axioms this(2) good_ids_small] show ?thesis
    by blast
qed

text \<open>
  C22. The two overloads of \<^verbatim>\<open>getPi_0\<close>, with a shared numerator and with a recomputed one, return the
  same vector on such identities up to \<open>q\<close>.
\<close>

theorem getPi_0_overloads_equal:
  assumes "gmp_lib G" and "pp_q pp = curve_order" and "good_ids (sg_IDs sg) n"
    and "list_all (\<lambda>x. x \<le> curve_order) (take n (sg_IDs sg))"
  shows "getPi_0_Sigma G pp sg (int n) = getPi_0 G pp (sg_IDs sg) (int n)"
  using assms(4) good_idsD(1) [OF assms(3)]
  by (intro gmp_lib.getPi_0_overloads_agree [OF assms(1-3)]) (simp add: list_all_length)

theorem getPi_0_overloads_equal_witness:
  "getPi_0_Sigma gmp_ref params_ref \<lparr>sg_aux = [], sg_sig = [] :: zq list, sg_IDs = [1, 2, 3]\<rparr> (int 3) =
    getPi_0 gmp_ref params_ref [1, 2, 3] (int 3)"
  using getPi_0_overloads_equal [OF gref.gmp_lib_axioms, of params_ref
      "\<lparr>sg_aux = [], sg_sig = [] :: zq list, sg_IDs = [1, 2, 3]\<rparr>" 3] good_ids_small
  by (simp add: params_ref_def curve_order_def)

end
