(* ===== verification/Fussion_Scheme.thy ===== *)
theory Fussion_Scheme
  imports Fussion_Hash Fussion_Lagrange
begin

text \<open>
  What each step of the scheme promises, read in the field of residues: a share is a vector of
  ElGamal ciphertexts of the linear factors \<open>d\<^sub>i * ID + b\<^sub>i\<close>, a partial signature carries a
  ciphertext of their product, the aggregate is re-encrypted for the verifier, and the verification
  equation is interpolation at zero. The lemmas give the result of every operation on every
  argument the next one may be called with.
\<close>

section \<open>ElGamal ciphertexts of field elements\<close>

text \<open>\<open>c1\<close> and \<open>c2\<close> are residues that encrypt \<open>v\<close> under the public key \<^verbatim>\<open>beta\<close>.\<close>

definition encrypts :: "'ecp2 Params \<Rightarrow> int \<Rightarrow> int \<Rightarrow> zq \<Rightarrow> bool" where
  "encrypts pp c1 c2 v \<longleftrightarrow> 0 \<le> c1 \<and> c1 < curve_order \<and> 0 \<le> c2 \<and> c2 < curve_order \<and>
     (\<exists>u. fe c1 = fe (pp_g pp) ^ u \<and> fe c2 = fe (pp_beta pp) ^ u * v)"

lemma encrypts_one: "encrypts pp 1 1 1"
  unfolding encrypts_def by (intro conjI exI [of _ 0]) simp_all

lemma encrypts_mult:
  assumes "encrypts pp c1 c2 v" and "encrypts pp c1' c2' v'"
  shows "encrypts pp (c1 * c1' smod curve_order) (c2 * c2' smod curve_order) (v * v')"
proof -
  obtain u u' where u: "fe c1 = fe (pp_g pp) ^ u" "fe c2 = fe (pp_beta pp) ^ u * v"
      "fe c1' = fe (pp_g pp) ^ u'" "fe c2' = fe (pp_beta pp) ^ u' * v'"
    using assms by (auto simp: encrypts_def)
  have "0 \<le> c1 * c1'" "0 \<le> c2 * c2'"
    using assms by (simp_all add: encrypts_def)
  note range = this [THEN smod_range, of curve_order]
  show ?thesis
    unfolding encrypts_def
    by (intro conjI exI [of _ "u + u'"]) (simp_all add: range u power_add mult_ac)
qed

lemma encrypts_decrypt:
  assumes "encrypts pp c1 c2 v" and "fe (pp_beta pp) = fe (pp_g pp) ^ a" and "fe (pp_g pp) \<noteq> 0"
  shows "fe c2 / fe c1 ^ a = v"
proof -
  obtain u where "fe c1 = fe (pp_g pp) ^ u" "fe c2 = fe (pp_beta pp) ^ u * v"
    using assms(1) by (auto simp: encrypts_def)
  with assms(2,3) show ?thesis
    by (simp add: power_mult [symmetric] mult.commute)
qed

section \<open>Shares\<close>

text \<open>The linear factors of the polynomials, and a drone that holds their ciphertexts.\<close>

definition factors_of :: "int list \<Rightarrow> int list \<Rightarrow> (zq \<times> zq) list" where
  "factors_of d b = zip (map fe d) (map fe b)"

definition share_of :: "'ecp2 Params \<Rightarrow> int list \<Rightarrow> int list \<Rightarrow> UAV \<Rightarrow> bool" where
  "share_of pp d b uav \<longleftrightarrow> length (uav_c1 uav) = length b \<and> length (uav_c2 uav) = length b \<and>
     0 \<le> uav_ID uav \<and>
     (\<forall>i < length b. encrypts pp (uav_c1 uav ! i) (uav_c2 uav ! i)
        (fe (d ! i) * fe (uav_ID uav) + fe (b ! i)))"

lemma length_factors_of [simp]: "length (factors_of d b) = min (length d) (length b)"
  by (simp add: factors_of_def)

lemma lin_prod_append: "lin_prod (fs @ gs) x = lin_prod fs x * lin_prod gs x"
  by (simp add: lin_prod_def)

lemma lin_prod_factors_Suc:
  assumes "k < length d" and "k < length b"
  shows "lin_prod (take (Suc k) (factors_of d b)) x =
    lin_prod (take k (factors_of d b)) x * (fe (d ! k) * x + fe (b ! k))"
  using assms by (simp add: take_Suc_conv_app_nth lin_prod_append factors_of_def)

context gmp_lib
begin

lemma pow_mpz_order:
  "0 \<le> x \<Longrightarrow> \<exists>r. pow_mpz G a x curve_order = Inr r \<and> 0 \<le> r \<and> r < curve_order \<and> fe r = fe a ^ nat x"
  by (simp add: pow_mpz_eq zq_simps)

lemma getUAV_round_encrypts:
  assumes "pp_q pp = curve_order" and "k < length d" and "k < length b"
    and "0 \<le> d ! k" and "0 \<le> b ! k" and "0 \<le> ident"
  shows "\<exists>c1 c2 st'. getUAV_round G pp d b ident (int k) (c1s, c2s, st) = Inr (c1s @ [c1], c2s @ [c2], st') \<and>
    encrypts pp c1 c2 (fe (d ! k) * fe ident + fe (b ! k))"
proof -
  obtain u st' where u: "rand_mpz G st = (u, st')" by fastforce
  then have "0 \<le> u" using rand_mpz_range(1) [OF u] by simp
  obtain c1 where c1: "pow_mpz G (pp_g pp) u curve_order = Inr c1" "0 \<le> c1" "c1 < curve_order"
      "fe c1 = fe (pp_g pp) ^ nat u"
    using pow_mpz_order [OF \<open>0 \<le> u\<close>] by blast
  obtain bu where bu: "pow_mpz G (pp_beta pp) u curve_order = Inr bu" "0 \<le> bu" "bu < curve_order"
      "fe bu = fe (pp_beta pp) ^ nat u"
    using pow_mpz_order [OF \<open>0 \<le> u\<close>] by blast
  let ?f = "(d ! k * ident + b ! k) smod curve_order"
  have "0 \<le> ?f" using assms by (simp add: smod_nonneg)
  then have "encrypts pp c1 (bu * ?f smod curve_order) (fe (d ! k) * fe ident + fe (b ! k))"
    unfolding encrypts_def using c1 bu
    by (intro conjI exI [of _ "nat u"]) (simp_all add: smod_nonneg zq_simps)
  with assms c1(1) bu(1) u show ?thesis
    by (simp add: getUAV_round_def)
qed

lemma getUAV_share:
  assumes "pp_q pp = curve_order" and "length b \<le> length d" and "0 \<le> ident"
    and "list_all (\<lambda>x. 0 \<le> x) d" and "list_all (\<lambda>x. 0 \<le> x) b"
  shows "\<exists>uav st'. getUAV G pp d b ident st = Inr (uav, st') \<and> share_of pp d b uav \<and> uav_ID uav = ident"
proof -
  let ?v = "\<lambda>i. fe (d ! i) * fe ident + fe (b ! i)"
  let ?I = "\<lambda>k (c1s, c2s, st). length c1s = k \<and> length c2s = k \<and>
    (\<forall>i < k. encrypts pp (c1s ! i) (c2s ! i) (?v i))"
  have "\<exists>s'. getUAV_round G pp d b ident (int k) s = Inr s' \<and> ?I (Suc k) s'"
    if k: "k < length b" and I: "?I k s" for k s
  proof -
    obtain c1s c2s st where s: "s = (c1s, c2s, st)" by (cases s)
    have "0 \<le> d ! k" "0 \<le> b ! k" using assms(2,4,5) k by (auto simp: list_all_length)
    then obtain c1 c2 st' where r: "getUAV_round G pp d b ident (int k) s = Inr (c1s @ [c1], c2s @ [c2], st')"
        "encrypts pp c1 c2 (?v k)"
      using getUAV_round_encrypts [OF assms(1) less_le_trans [OF k assms(2)] k _ _ assms(3)] s
      by meson
    have "?I (Suc k) (c1s @ [c1], c2s @ [c2], st')"
      using I r(2) s by (auto simp: nth_append less_Suc_eq)
    with r(1) show ?thesis by blast
  qed
  then have "\<exists>s'. for_range 0 (int (length b)) (getUAV_round G pp d b ident) ([], [], st) = Inr s' \<and>
      ?I (length b) s'"
    by (rule for_range_inv) simp_all
  then show ?thesis
    using assms(3) by (auto simp: getUAV_def share_of_def)
qed

end

section \<open>Public keys\<close>

context fussion_libs
begin

lemma getPK_round_dlog:
  assumes "k < length b" and "0 \<le> b ! k" and "b ! k < 2 ^ 256" and "inG2 V A"
  shows "\<exists>A'. getPK_round G M b (int k) (A, PK) = Inr (A', PK @ [A']) \<and> inG2 V A' \<and>
    dlog2 V A' = dlog2 V A * fe (b ! k)"
  using assms by (simp add: getPK_round_def Let_def ECP2_mul_group ECP2_mul_dlog mult.commute)

lemma getPK_keys:
  assumes "b \<noteq> []" and "list_all (\<lambda>x. 0 \<le> x \<and> x < 2 ^ 256) b"
  shows "\<exists>PK. getPK G M b = Inr PK \<and> length PK = length b \<and>
    (\<forall>k < length b. inG2 V (PK ! k) \<and> dlog2 V (PK ! k) = (\<Prod>i\<le>k. fe (b ! i)))"
proof -
  let ?I = "\<lambda>k (A, PK). length PK = k \<and> inG2 V A \<and> dlog2 V A = (\<Prod>i<k. fe (b ! i)) \<and>
    (\<forall>i < k. inG2 V (PK ! i) \<and> dlog2 V (PK ! i) = (\<Prod>j\<le>i. fe (b ! j)))"
  have round: "\<exists>s'. getPK_round G M b (int k) s = Inr s' \<and> ?I (Suc k) s'"
    if k: "k < length b" and I: "?I k s" for k s
  proof -
    obtain A PK where s: "s = (A, PK)" by (cases s)
    have "0 \<le> b ! k" "b ! k < 2 ^ 256" "inG2 V A"
      using assms(2) k I s by (auto simp: list_all_length)
    then obtain A' where A': "getPK_round G M b (int k) s = Inr (A', PK @ [A'])" "inG2 V A'"
        "dlog2 V A' = dlog2 V A * fe (b ! k)"
      using getPK_round_dlog [OF k, of A PK] s by auto
    have "?I (Suc k) (A', PK @ [A'])"
      using I A'(2,3) s by (auto simp: nth_append less_Suc_eq lessThan_Suc_atMost [symmetric])
    with A'(1) show ?thesis by blast
  qed
  have I0: "?I 0 (ECP2_generator M, [])"
    using gen2 by simp
  have "0 < length b" using assms(1) by simp
  from round [OF this I0] obtain s where s: "getPK_round G M b 0 (ECP2_generator M, []) = Inr s" "?I 1 s"
    by auto
  have "\<exists>s'. for_range 1 (int (length b)) (getPK_round G M b) s = Inr s' \<and> ?I (length b) s'"
    using assms(1) s(2) by (intro for_range_inv_from [where l = 1 and I = ?I] round) (auto simp: Suc_le_eq)
  then obtain A PK where "for_range 1 (int (length b)) (getPK_round G M b) s = Inr (A, PK)"
      "?I (length b) (A, PK)"
    by auto
  with s(1) show ?thesis
    by (simp add: getPK_def)
qed

end

section \<open>Key generation\<close>

text \<open>Key material that fits together: the coefficients, the public keys and the drones' shares.\<close>

definition keys_for ::
    "('big, 'ecp, 'ecp2) meaning \<Rightarrow> 'ecp2 Params \<Rightarrow> int list \<Rightarrow> int list \<Rightarrow> UAV list \<Rightarrow> bool" where
  "keys_for V pp d b UAVs \<longleftrightarrow> length d = length b \<and> length (pp_PK pp) = length b \<and>
     (\<forall>k < length b. inG2 V (pp_PK pp ! k) \<and> dlog2 V (pp_PK pp ! k) = (\<Prod>i\<le>k. fe (b ! i))) \<and>
     list_all (\<lambda>uav. share_of pp d b uav \<and> 1 \<le> uav_ID uav \<and> uav_ID uav \<le> curve_order) UAVs"

lemma share_of_PK [simp]: "share_of (pp\<lparr>pp_PK := PK\<rparr>) d b uav = share_of pp d b uav"
  by (simp add: share_of_def encrypts_def)

context gmp_lib
begin

lemma KeyGen_pairs_loop:
  "\<exists>b d st'. for_range 0 (int k) (KeyGen_pairs G) ([], [], st) = Inr (b, d, st') \<and>
    length b = k \<and> length d = k \<and> list_all (\<lambda>x. 1 \<le> x \<and> x \<le> curve_order) b \<and>
    list_all (\<lambda>x. 1 \<le> x \<and> x \<le> curve_order) d"
proof -
  let ?I = "\<lambda>k (b, d, st). length b = k \<and> length d = k \<and>
    list_all (\<lambda>x. 1 \<le> x \<and> x \<le> curve_order) b \<and> list_all (\<lambda>x. 1 \<le> x \<and> x \<le> curve_order) d"
  have "\<exists>s'. KeyGen_pairs G (int k) s = Inr s' \<and> ?I (Suc k) s'" if "?I k s" for k s
    using that rand_mpz_range by (fastforce simp: KeyGen_pairs_def split: prod.splits)
  then have "\<exists>s'. for_range 0 (int k) (KeyGen_pairs G) ([], [], st) = Inr s' \<and> ?I k s'"
    by (intro for_range_inv [where I = ?I]) auto
  then show ?thesis by fastforce
qed

lemma KeyGen_uavs_loop:
  assumes "pp_q pp = curve_order" and "length b \<le> length d"
    and "list_all (\<lambda>x. 0 \<le> x) d" and "list_all (\<lambda>x. 0 \<le> x) b"
  shows "\<exists>UAVs st'. for_range 0 (int n) (KeyGen_uavs G pp d b) ([], st) = Inr (UAVs, st') \<and>
    length UAVs = n \<and>
    list_all (\<lambda>uav. share_of pp d b uav \<and> 1 \<le> uav_ID uav \<and> uav_ID uav \<le> curve_order) UAVs"
proof -
  let ?I = "\<lambda>k (UAVs, st). length UAVs = k \<and>
    list_all (\<lambda>uav. share_of pp d b uav \<and> 1 \<le> uav_ID uav \<and> uav_ID uav \<le> curve_order) UAVs"
  have "\<exists>s'. KeyGen_uavs G pp d b (int k) s = Inr s' \<and> ?I (Suc k) s'" if I: "?I k s" for k s
  proof -
    obtain UAVs st where s: "s = (UAVs, st)" by (cases s)
    obtain ident st1 where r: "rand_mpz G st = (ident, st1)" by fastforce
    note ident = rand_mpz_range [OF r]
    obtain uav st2 where "getUAV G pp d b ident st1 = Inr (uav, st2)" "share_of pp d b uav" "uav_ID uav = ident"
      using getUAV_share [OF assms(1,2) _ assms(3,4), of ident st1] ident by auto
    with I s r ident show ?thesis by (simp add: KeyGen_uavs_def)
  qed
  then have "\<exists>s'. for_range 0 (int n) (KeyGen_uavs G pp d b) ([], st) = Inr s' \<and> ?I n s'"
    by (intro for_range_inv [where I = ?I]) auto
  then show ?thesis by fastforce
qed

end

context fussion_libs
begin

lemma order_below: "x \<le> curve_order \<Longrightarrow> x < 2 ^ 256" "x < curve_order \<Longrightarrow> x < 2 ^ 256"
  by (simp_all add: curve_order_def)

lemma KeyGen_keys:
  assumes "pp_q pp = curve_order" and "2 \<le> pp_tm pp" and "pp_tm pp < 2 ^ 31" and "0 \<le> pp_n pp"
  shows "\<exists>UAVs PK uavH st' d b. KeyGen G M pp alpha st = Inr (UAVs, pp\<lparr>pp_PK := PK\<rparr>, uavH, st') \<and>
    uavH_alpha uavH = alpha \<and> length UAVs = nat (pp_n pp) \<and> int (length b) = pp_tm pp - 1 \<and>
    keys_for V (pp\<lparr>pp_PK := PK\<rparr>) d b UAVs"
proof -
  let ?k = "nat (pp_tm pp - 1)" and ?n = "nat (pp_n pp)"
  obtain b d st1 where bd: "for_range 0 (int ?k) (KeyGen_pairs G) ([], [], st) = Inr (b, d, st1)"
      "length b = ?k" "length d = ?k" "list_all (\<lambda>x. 1 \<le> x \<and> x \<le> curve_order) b"
      "list_all (\<lambda>x. 1 \<le> x \<and> x \<le> curve_order) d"
    using KeyGen_pairs_loop by blast
  have nonneg: "list_all (\<lambda>x. 0 \<le> x) b" "list_all (\<lambda>x. 0 \<le> x) d"
    using bd(4,5) by (auto simp: list_all_iff)
  have "list_all (\<lambda>x. 0 \<le> x \<and> x < 2 ^ 256) b"
    using bd(4) order_below(1) by (fastforce simp: list_all_iff)
  moreover have "b \<noteq> []"
    using bd(2) assms(2) by auto
  ultimately obtain PK where PK: "getPK G M b = Inr PK" "length PK = length b"
      "\<And>k. k < length b \<Longrightarrow> inG2 V (PK ! k) \<and> dlog2 V (PK ! k) = (\<Prod>i\<le>k. fe (b ! i))"
    using getPK_keys by blast
  let ?pp = "pp\<lparr>pp_PK := PK\<rparr>"
  obtain UAVs st2 where U: "for_range 0 (int ?n) (KeyGen_uavs G ?pp d b) ([], st1) = Inr (UAVs, st2)"
      "length UAVs = ?n"
      "list_all (\<lambda>uav. share_of ?pp d b uav \<and> 1 \<le> uav_ID uav \<and> uav_ID uav \<le> curve_order) UAVs"
    using KeyGen_uavs_loop [of ?pp b d ?n st1] assms(1) bd(2,3) nonneg by auto
  obtain ident st3 where r: "rand_mpz G st2 = (ident, st3)" by fastforce
  have "KeyGen G M pp alpha st = Inr (UAVs, ?pp, \<lparr>uavH_ID = ident, uavH_alpha = alpha\<rparr>, st3)"
    using bd(1) PK(1) U(1) r assms(2-4) by (simp add: KeyGen_def)
  moreover have "keys_for V ?pp d b UAVs"
    using bd(2,3) PK(2,3) U(3) by (simp add: keys_for_def)
  ultimately show ?thesis
    using U(2) bd(2) assms(2) by (intro exI [of _ UAVs] exI [of _ PK]) force
qed

lemma Setup_params:
  "\<exists>g alpha beta st'. Setup G M now n tm =
      Inr (\<lparr>pp_n = n, pp_tm = tm, pp_q = curve_order, pp_P2 = ECP2_generator M, pp_g = g,
            pp_beta = beta, pp_PK = []\<rparr>, alpha, st') \<and>
    1 \<le> g \<and> g \<le> curve_order \<and> 1 \<le> alpha \<and> alpha \<le> curve_order \<and>
    0 \<le> beta \<and> beta < curve_order \<and> fe beta = fe g ^ nat alpha"
proof -
  have q: "BIG_to_mpz G M (CURVE_Order M) = curve_order"
    using BIG_to_mpz_val [of "CURVE_Order M"] by (simp add: local.order) (simp add: curve_order_def)
  obtain g st1 where g: "rand_mpz G (initState G now) = (g, st1)" by fastforce
  obtain alpha st2 where a: "rand_mpz G st1 = (alpha, st2)" by fastforce
  have "0 \<le> alpha" using rand_mpz_range(1) [OF a] by simp
  then obtain beta where "pow_mpz G g alpha curve_order = Inr beta" "0 \<le> beta" "beta < curve_order"
      "fe beta = fe g ^ nat alpha"
    using pow_mpz_order by blast
  with g a q rand_mpz_range [OF g] rand_mpz_range [OF a] show ?thesis
    by (simp add: Setup_def)
qed

end

end
