(* ===== verification/Fussion_Sign.thy ===== *)
theory Fussion_Sign
  imports Fussion_Scheme
begin

text \<open>
  Signing and aggregation: \<^verbatim>\<open>Sign\<close> multiplies the first \<open>t - 1\<close> ciphertexts of the share and puts
  the second component into the exponent of the hashed message; \<^verbatim>\<open>AggSig\<close> rerandomises and
  re-encrypts every partial signature under a key derived from the verifier's public key.
\<close>

section \<open>Partial signatures\<close>

text \<open>A partial signature on the point \<open>Hm\<close> for the polynomial with the linear factors \<open>fs\<close>.\<close>

definition parsig_of ::
    "('big, 'ecp, 'ecp2) meaning \<Rightarrow> 'ecp2 Params \<Rightarrow> (zq \<times> zq) list \<Rightarrow> 'ecp \<Rightarrow> 'ecp parSig \<Rightarrow> bool" where
  "parsig_of V pp fs Hm ps \<longleftrightarrow> inG1 V (ps_sig ps) \<and>
     (\<exists>sj. encrypts pp (ps_cj ps) sj (lin_prod fs (fe (ps_ID ps))) \<and>
        dlog1 V (ps_sig ps) = fe sj * dlog1 V Hm)"

lemma Sign_loop:
  assumes "pp_q pp = curve_order" and "share_of pp d b uav" and "length d = length b" and "k \<le> length b"
  shows "\<exists>cj sj. for_range 0 (int k) (Sign_round pp uav) (1, 1) = Inr (cj, sj) \<and>
    encrypts pp cj sj (lin_prod (take k (factors_of d b)) (fe (uav_ID uav)))"
proof -
  let ?I = "\<lambda>k (cj, sj). encrypts pp cj sj (lin_prod (take k (factors_of d b)) (fe (uav_ID uav)))"
  have "\<exists>s'. Sign_round pp uav (int i) s = Inr s' \<and> ?I (Suc i) s'" if i: "i < k" and I: "?I i s" for i s
  proof -
    obtain cj sj where s: "s = (cj, sj)" by (cases s)
    have "encrypts pp (uav_c1 uav ! i) (uav_c2 uav ! i) (fe (d ! i) * fe (uav_ID uav) + fe (b ! i))"
      using assms(2,4) i by (simp add: share_of_def)
    with I s have "encrypts pp (cj * uav_c1 uav ! i smod curve_order) (sj * uav_c2 uav ! i smod curve_order)
        (lin_prod (take (Suc i) (factors_of d b)) (fe (uav_ID uav)))"
      using assms(3,4) i by (simp add: lin_prod_factors_Suc encrypts_mult)
    moreover have "int i < int (length (uav_c1 uav))" "int i < int (length (uav_c2 uav))"
      using assms(2,4) i by (simp_all add: share_of_def)
    ultimately show ?thesis
      using assms(1) s by (simp add: Sign_round_def)
  qed
  then have "\<exists>s'. for_range 0 (int k) (Sign_round pp uav) (1, 1) = Inr s' \<and> ?I k s'"
    by (intro for_range_inv [where I = ?I]) (auto simp: encrypts_one)
  then show ?thesis by auto
qed

context fussion_libs
begin

lemma Sign_parsig:
  assumes "pp_q pp = curve_order" and "share_of pp d b uav" and "length d = length b"
    and "1 \<le> t" and "t < 2 ^ 31" and "t - 1 \<le> int (length b)"
    and "hashToPoint G M m curve_order = Inr Hm" and "inG1 V Hm"
  shows "\<exists>ps. Sign G M pp uav t m = Inr ps \<and> ps_ID ps = uav_ID uav \<and>
    parsig_of V pp (take (nat (t - 1)) (factors_of d b)) Hm ps"
proof -
  let ?k = "nat (t - 1)"
  have k: "?k \<le> length b" using assms(6) by (simp add: nat_le_iff)
  obtain cj sj where run: "for_range 0 (int ?k) (Sign_round pp uav) (1, 1) = Inr (cj, sj)"
      and enc: "encrypts pp cj sj (lin_prod (take ?k (factors_of d b)) (fe (uav_ID uav)))"
    using Sign_loop [OF assms(1-3) k] by blast
  have sj: "0 \<le> sj" "sj < 2 ^ 256"
    using enc order_below(2) by (auto simp only: encrypts_def)
  have "Sign G M pp uav t m = Inr \<lparr>ps_cj = cj, ps_sig = ECP_mul G M Hm sj, ps_ID = uav_ID uav\<rparr>"
    using run assms(1,4,5,7) by (simp add: Sign_def)
  moreover have "dlog1 V (ECP_mul G M Hm sj) = fe sj * dlog1 V Hm"
    by (rule ECP_mul_dlog [OF assms(8) sj])
  ultimately show ?thesis
    using enc assms(8) by (auto simp: parsig_of_def ECP_mul_group)
qed

text \<open>Asking a drone for more factors than its share has reads past the end of the share.\<close>

lemma Sign_out_of_bounds:
  assumes "pp_q pp = curve_order" and "share_of pp d b uav" and "length d = length b"
    and "int (length b) + 1 < t" and "t < 2 ^ 31"
  shows "Sign G M pp uav t m = Inl Out_of_bounds"
proof -
  let ?n = "length b"
  obtain cj sj where run: "for_range 0 (int ?n) (Sign_round pp uav) (1, 1) = Inr (cj, sj)"
    using Sign_loop [OF assms(1-3), of ?n] by auto
  have "nat (t - 1) = ?n + Suc (nat (t - 1) - ?n - 1)"
    using assms(4) by simp
  then obtain j where j: "nat (t - 1) = ?n + Suc j" ..
  have "for_steps ?n 0 (Sign_round pp uav) (1, 1) = Inr (cj, sj)"
    using run by (simp add: for_range_def)
  moreover have "Sign_round pp uav (int ?n) (cj, sj) = Inl Out_of_bounds"
    using assms(2) by (simp add: Sign_round_def share_of_def)
  ultimately have "for_range 0 (t - 1) (Sign_round pp uav) (1, 1) = Inl Out_of_bounds"
    by (simp add: for_range_def j for_steps_add del: add_Suc_right)
  moreover have "int_sub t 1 = Inr (t - 1)"
    using assms(4,5) by (intro int_sub_small) simp_all
  ultimately show ?thesis
    by (simp add: Sign_def)
qed

lemma collectSig_parsigs:
  assumes "pp_q pp = curve_order" and "keys_for V pp d b UAVs"
    and "1 \<le> t" and "t < 2 ^ 31" and "t - 1 \<le> int (length b)" and "t \<le> int (length UAVs)"
    and "hashToPoint G M m curve_order = Inr Hm" and "inG1 V Hm"
  shows "\<exists>sigs. collectSig G M pp UAVs t m = Inr sigs \<and> length sigs = nat t \<and>
    (\<forall>i < nat t. ps_ID (sigs ! i) = uav_ID (UAVs ! i) \<and>
       parsig_of V pp (take (nat (t - 1)) (factors_of d b)) Hm (sigs ! i))"
  unfolding collectSig_def
proof (rule for_collect_inv)
  fix i
  assume i: "i < nat t"
  then have inside: "int i < int (length UAVs)" using assms(6) by simp
  have "share_of pp d b (UAVs ! i)" and len: "length d = length b"
    using assms(2) inside by (auto simp: keys_for_def list_all_length)
  then show "\<exists>ps. rbind (vec_at UAVs (int i)) (\<lambda>uav. Sign G M pp uav t m) = Inr ps \<and>
      ps_ID ps = uav_ID (UAVs ! i) \<and>
      parsig_of V pp (take (nat (t - 1)) (factors_of d b)) Hm ps"
    using Sign_parsig [OF assms(1) _ _ assms(3-5,7,8)] inside by simp
qed (use assms(3) in simp)

end

section \<open>Aggregation\<close>

text \<open>
  The aggregate of \<open>sigs\<close>: with the re-encryption exponent \<open>rk\<close> and the fresh randomness \<open>r\<close>, the
  \<open>i\<close>-th entries are those of the partial signature, rerandomised.
\<close>

definition aggregate_of ::
    "('big, 'ecp, 'ecp2) meaning \<Rightarrow> 'ecp2 Params \<Rightarrow> 'ecp parSig list \<Rightarrow> nat \<Rightarrow> nat \<Rightarrow> nat \<Rightarrow> 'ecp Sigma \<Rightarrow> bool" where
  "aggregate_of V pp sigs n rk r sg \<longleftrightarrow> length (sg_aux sg) = n \<and> length (sg_sig sg) = n \<and>
     sg_IDs sg = map ps_ID (take n sigs) \<and>
     (\<forall>i < n. fe (sg_aux sg ! i) = (fe (ps_cj (sigs ! i)) * fe (pp_g pp) ^ r) ^ rk \<and>
        inG1 V (sg_sig sg ! i) \<and>
        dlog1 V (sg_sig sg ! i) = fe (pp_beta pp) ^ r * dlog1 V (ps_sig (sigs ! i)))"

context fussion_libs
begin

lemma AggSig_loop:
  assumes "pp_q pp = curve_order" and "0 \<le> rk" and "fe ge = fe (pp_g pp) ^ r"
    and "0 \<le> be" and "be < curve_order" and "fe be = fe (pp_beta pp) ^ r"
    and "list_all (\<lambda>ps. inG1 V (ps_sig ps)) sigs"
  shows "\<exists>sg. for_range 0 (int (length sigs)) (AggSig_round G M pp rk ge be sigs)
      \<lparr>sg_aux = [], sg_sig = [], sg_IDs = []\<rparr> = Inr sg \<and>
    aggregate_of V pp sigs (length sigs) (nat rk) r sg"
proof (rule for_range_inv [where I = "\<lambda>k sg. aggregate_of V pp sigs k (nat rk) r sg"])
  fix k sg
  assume k: "k < length sigs" and I: "aggregate_of V pp sigs k (nat rk) r sg"
  let ?ps = "sigs ! k"
  obtain x where x: "pow_mpz G (ps_cj ?ps * ge smod curve_order) rk curve_order = Inr x"
      "fe x = (fe (ps_cj ?ps) * fe (pp_g pp) ^ r) ^ nat rk"
    using pow_mpz_order [OF assms(2), of "ps_cj ?ps * ge smod curve_order"] assms(3) by auto
  let ?sg = "\<lparr>sg_aux = sg_aux sg @ [x], sg_sig = sg_sig sg @ [ECP_mul G M (ps_sig ?ps) be],
      sg_IDs = sg_IDs sg @ [ps_ID ?ps]\<rparr>"
  have in1: "inG1 V (ps_sig ?ps)" using assms(7) k by (simp add: list_all_length)
  then have "inG1 V (ECP_mul G M (ps_sig ?ps) be)"
      "dlog1 V (ECP_mul G M (ps_sig ?ps) be) = fe (pp_beta pp) ^ r * dlog1 V (ps_sig ?ps)"
    using ECP_mul_group ECP_mul_dlog [OF in1 assms(4) order_below(2) [OF assms(5)]] assms(6) by simp_all
  with I x(2) k have "aggregate_of V pp sigs (Suc k) (nat rk) r ?sg"
    by (auto simp: aggregate_of_def nth_append less_Suc_eq take_Suc_conv_app_nth)
  with x(1) k assms(1) show "\<exists>sg'. AggSig_round G M pp rk ge be sigs (int k) sg = Inr sg' \<and>
      aggregate_of V pp sigs (Suc k) (nat rk) r sg'"
    by (simp add: AggSig_round_def)
qed (simp_all add: aggregate_of_def)

lemma AggSig_aggregate:
  assumes "pp_q pp = curve_order" and "0 \<le> uavH_alpha uavH"
    and "hashToCoprime G M (PK_v ^ nat (uavH_alpha uavH) mod curve_order) (curve_order - 1) getFactors = Inr h"
    and "list_all (\<lambda>ps. inG1 V (ps_sig ps)) sigs"
  shows "\<exists>sg st' rk r. AggSig G M now sigs pp uavH PK_v = Inr (sg, st') \<and> 0 \<le> rk \<and>
    rk * h mod (curve_order - 1) = uavH_alpha uavH mod (curve_order - 1) \<and>
    aggregate_of V pp sigs (length sigs) (nat rk) r sg"
proof -
  let ?L = "curve_order - 1" and ?a = "uavH_alpha uavH"
  have L: "1 < ?L" by (rule order_minus_1_pos(2))
  have h: "coprime h ?L" using hashToCoprime_coprime [OF assms(3)] by simp
  note inv = invert_mpz_inverse [OF L h]
  let ?rk = "?a * invert_mpz G h ?L smod ?L"
  have rk: "?rk = ?a * invert_mpz G h ?L mod ?L"
    using assms(2) inv(1) L by (intro smod_nonneg) simp_all
  have rk0: "0 \<le> ?rk" unfolding rk using L by (intro pos_mod_sign) simp
  have "?rk * h mod ?L = ?a * (invert_mpz G h ?L * h mod ?L) mod ?L"
    by (simp add: rk mod_mult_left_eq mod_mult_right_eq mult.assoc)
  then have rkh: "?rk * h mod ?L = ?a mod ?L" by (simp add: inv(3))
  obtain ex st1 where ex: "rand_mpz G (initState G now) = (ex, st1)" by fastforce
  have ex0: "0 \<le> ex" using rand_mpz_range(1) [OF ex] by simp
  obtain ge where ge: "pow_mpz G (pp_g pp) ex curve_order = Inr ge" "fe ge = fe (pp_g pp) ^ nat ex"
    using pow_mpz_order [OF ex0] by blast
  obtain be where be: "pow_mpz G (pp_beta pp) ex curve_order = Inr be" "0 \<le> be" "be < curve_order"
      "fe be = fe (pp_beta pp) ^ nat ex"
    using pow_mpz_order [OF ex0] by blast
  obtain sg where "for_range 0 (int (length sigs)) (AggSig_round G M pp ?rk ge be sigs)
      \<lparr>sg_aux = [], sg_sig = [], sg_IDs = []\<rparr> = Inr sg"
      and agg: "aggregate_of V pp sigs (length sigs) (nat ?rk) (nat ex) sg"
    using AggSig_loop [OF assms(1) rk0 ge(2) be(2-4) assms(4)] by blast
  moreover have "mpz_rem (?a * invert_mpz G h ?L) ?L = Inr ?rk"
    using L by (intro mpz_rem_nonzero) simp
  ultimately have "AggSig G M now sigs pp uavH PK_v = Inr (sg, st1)"
    using assms(1-3) ex ge(1) be(1) by (simp add: AggSig_def Let_def pow_mpz_eq)
  with rk0 rkh agg show ?thesis by blast
qed

end

end
