(* ===== verification/Fussion_Verify.thy ===== *)
theory Fussion_Verify
  imports Fussion_Sign
begin

text \<open>
  Verification. For every aggregate with enough entries, \<^verbatim>\<open>Verify\<close> decides one equation in the
  field; an aggregate made from honest partial signatures satisfies it by interpolation.
\<close>

section \<open>The value of Verify\<close>

text \<open>The exponent of the point \<^verbatim>\<open>s\<close> that \<^verbatim>\<open>Verify\<close> pairs with the generator.\<close>

definition combined_dlog :: "('big, 'ecp, 'ecp2) meaning \<Rightarrow> 'ecp Sigma \<Rightarrow> nat \<Rightarrow> nat \<Rightarrow> zq" where
  "combined_dlog V sg n h =
     (\<Sum>i<n. lagrange_coeff (sg_IDs sg) n i / fe (sg_aux sg ! i) ^ h * dlog1 V (sg_sig sg ! i))"

text \<open>An aggregate that \<^verbatim>\<open>Verify\<close> can read with threshold \<open>n\<close>.\<close>

definition well_formed_sigma :: "('big, 'ecp, 'ecp2) meaning \<Rightarrow> 'ecp Sigma \<Rightarrow> nat \<Rightarrow> bool" where
  "well_formed_sigma V sg n \<longleftrightarrow> good_ids (sg_IDs sg) n \<and> n \<le> length (sg_aux sg) \<and> n \<le> length (sg_sig sg) \<and>
     (\<forall>i < n. fe (sg_aux sg ! i) \<noteq> 0 \<and> inG1 V (sg_sig sg ! i))"

context gmp_lib
begin

lemma Verify_k_value:
  assumes "pp_q pp = curve_order" and "i < length (sg_aux sg)" and "i < length Pis"
    and "fe (sg_aux sg ! i) \<noteq> 0" and "0 \<le> Pis ! i" and "0 \<le> h"
  shows "\<exists>k. Verify_k G pp sg Pis h (int i) = Inr k \<and> 0 \<le> k \<and> k < curve_order \<and>
    fe k = fe (Pis ! i) / fe (sg_aux sg ! i) ^ nat h"
proof -
  obtain x where x: "pow_mpz G (sg_aux sg ! i) h curve_order = Inr x" "fe x = fe (sg_aux sg ! i) ^ nat h"
    using pow_mpz_order [OF assms(6)] by blast
  have nz: "fe x \<noteq> 0" using assms(4) by (simp add: x(2))
  have "0 \<le> invert_mpz G x curve_order"
    using nz by (intro invert_mpz_inverse(1)) (simp_all add: coprime_order_iff)
  then have "0 \<le> Pis ! i * invert_mpz G x curve_order" using assms(5) by simp
  note range = smod_range [OF this, of curve_order]
  have "fe (Pis ! i * invert_mpz G x curve_order smod curve_order) = fe (Pis ! i) / fe (sg_aux sg ! i) ^ nat h"
    using nz by (simp add: invert_mpz_zq x(2) [symmetric] divide_inverse)
  with range x(1) assms(1-3) show ?thesis
    by (simp add: Verify_k_def)
qed

end

context fussion_libs
begin

lemma Verify_sum_loop:
  assumes "n \<le> length (sg_sig sg)" and "length ks = n" and "1 \<le> n"
    and "\<And>i. i < n \<Longrightarrow> inG1 V (sg_sig sg ! i) \<and> 0 \<le> ks ! i \<and> ks ! i < curve_order"
  shows "\<exists>s. for_range 1 (int n) (Verify_sum G M sg ks) (ECP_mul G M (sg_sig sg ! 0) (ks ! 0)) = Inr s \<and>
    inG1 V s \<and> dlog1 V s = (\<Sum>i<n. fe (ks ! i) * dlog1 V (sg_sig sg ! i))"
proof (rule for_range_inv_from [where l = 1 and
      I = "\<lambda>k s. inG1 V s \<and> dlog1 V s = (\<Sum>i<k. fe (ks ! i) * dlog1 V (sg_sig sg ! i))"])
  have term_i: "inG1 V (ECP_mul G M (sg_sig sg ! i) (ks ! i)) \<and>
      dlog1 V (ECP_mul G M (sg_sig sg ! i) (ks ! i)) = fe (ks ! i) * dlog1 V (sg_sig sg ! i)" if "i < n" for i
    using assms(4) [OF that] ECP_mul_group ECP_mul_dlog order_below(2) by blast
  show "inG1 V (ECP_mul G M (sg_sig sg ! 0) (ks ! 0)) \<and> dlog1 V (ECP_mul G M (sg_sig sg ! 0) (ks ! 0)) =
      (\<Sum>i<1. fe (ks ! i) * dlog1 V (sg_sig sg ! i))"
    using term_i [of 0] assms(3) by simp
  fix k s
  assume "k < n" and "inG1 V s \<and> dlog1 V s = (\<Sum>i<k. fe (ks ! i) * dlog1 V (sg_sig sg ! i))"
  with term_i [of k] assms(1,2) show "\<exists>s'. Verify_sum G M sg ks (int k) s = Inr s' \<and> inG1 V s' \<and>
      dlog1 V s' = (\<Sum>i<Suc k. fe (ks ! i) * dlog1 V (sg_sig sg ! i))"
    by (simp add: Verify_sum_def add1)
qed (use assms(3) in simp_all)

lemma Verify_value:
  assumes "pp_q pp = curve_order" and "well_formed_sigma V sg n" and "2 \<le> n" and "n < 2 ^ 31"
    and "n - 2 < length (pp_PK pp)" and "inG2 V (pp_PK pp ! (n - 2))" and "inG2 V (pp_P2 pp)"
    and "0 \<le> sk_v"
    and "hashToCoprime G M (pp_beta pp ^ nat sk_v mod curve_order) (curve_order - 1) getFactors = Inr h"
    and "hashToPoint G M m curve_order = Inr Hm" and "inG1 V Hm"
  shows "Verify G M sg sk_v pp m (int n) =
    Inr (if combined_dlog V sg n (nat h) * dlog2 V (pp_P2 pp) = dlog1 V Hm * dlog2 V (pp_PK pp ! (n - 2))
         then 1 else 0)"
proof -
  have wf: "good_ids (sg_IDs sg) n" "n \<le> length (sg_aux sg)" "n \<le> length (sg_sig sg)"
      "\<And>i. i < n \<Longrightarrow> fe (sg_aux sg ! i) \<noteq> 0" "\<And>i. i < n \<Longrightarrow> inG1 V (sg_sig sg ! i)"
    using assms(2) by (auto simp: well_formed_sigma_def)
  obtain Pis where Pis: "getPi_0 G pp (sg_IDs sg) (int n) = Inr Pis" "length Pis = n"
      "\<And>i. i < n \<Longrightarrow> 0 \<le> Pis ! i \<and> fe (Pis ! i) = lagrange_coeff (sg_IDs sg) n i"
    using getPi_0_coeffs [OF assms(1) wf(1)] by blast
  have h: "0 \<le> h" using hashToCoprime_coprime [OF assms(9)] by simp
  have "\<exists>k. Verify_k G pp sg Pis h (int i) = Inr k \<and> (0 \<le> k \<and> k < curve_order \<and>
      fe k = lagrange_coeff (sg_IDs sg) n i / fe (sg_aux sg ! i) ^ nat h)" if "i < n" for i
    using Verify_k_value [OF assms(1) _ _ wf(4) _ h, of i Pis] that wf(2) Pis(2) Pis(3) [OF that] by simp
  then have "\<exists>ks. for_collect (int n) (Verify_k G pp sg Pis h) = Inr ks \<and> length ks = n \<and>
      (\<forall>i < n. 0 \<le> ks ! i \<and> ks ! i < curve_order \<and>
        fe (ks ! i) = lagrange_coeff (sg_IDs sg) n i / fe (sg_aux sg ! i) ^ nat h)"
    by (rule for_collect_inv [OF _ refl])
  then obtain ks where ks: "for_collect (int n) (Verify_k G pp sg Pis h) = Inr ks" "length ks = n"
      "\<And>i. i < n \<Longrightarrow> 0 \<le> ks ! i \<and> ks ! i < curve_order \<and>
        fe (ks ! i) = lagrange_coeff (sg_IDs sg) n i / fe (sg_aux sg ! i) ^ nat h"
    by blast
  obtain s where s: "for_range 1 (int n) (Verify_sum G M sg ks) (ECP_mul G M (sg_sig sg ! 0) (ks ! 0)) = Inr s"
      "inG1 V s" "dlog1 V s = (\<Sum>i<n. fe (ks ! i) * dlog1 V (sg_sig sg ! i))"
    using Verify_sum_loop [OF wf(3) ks(2)] assms(3) wf(5) ks(3) by auto
  have "dlog1 V s = combined_dlog V sg n (nat h)"
    unfolding s(3) combined_dlog_def using ks(3) by (intro sum.cong) simp_all
  moreover have "vec_at (sg_sig sg) 0 = Inr (sg_sig sg ! 0)" "vec_at ks 0 = Inr (ks ! 0)"
    using wf(3) ks(2) assms(3) by (auto simp: vec_at_def)
  moreover have "rbind (int_sub (int n) 2) (vec_at (pp_PK pp)) = Inr (pp_PK pp ! (n - 2))"
    using assms(3-5) by (simp add: int_sub_def int32_range_def vec_at_def nat_diff_distrib)
  moreover have "pow_mpz G (pp_beta pp) sk_v curve_order = Inr (pp_beta pp ^ nat sk_v mod curve_order)"
    using assms(8) by (simp add: pow_mpz_eq)
  ultimately show ?thesis
    using Pis(1) ks(1) s(1,2) assms(1,6-11)
    by (simp add: Verify_def Let_def pairing_e_equals rbind_assoc [symmetric])
qed

end

section \<open>Dependence on one signature\<close>

lemma lagrange_coeff_nonzero: "good_ids ID n \<Longrightarrow> i < n \<Longrightarrow> lagrange_coeff ID n i \<noteq> 0"
  using good_idsD(3,4) [of ID n] by (auto simp: lagrange_coeff_def)

lemma combined_dlog_changed:
  assumes "well_formed_sigma V sg n" and "i < n" and "dlog1 V P \<noteq> dlog1 V (sg_sig sg ! i)"
  shows "combined_dlog V (sg\<lparr>sg_sig := (sg_sig sg)[i := P]\<rparr>) n h \<noteq> combined_dlog V sg n h"
proof -
  let ?c = "\<lambda>j. lagrange_coeff (sg_IDs sg) n j / fe (sg_aux sg ! j) ^ h"
  have len: "n \<le> length (sg_sig sg)" and c: "?c i \<noteq> 0"
    using assms(1,2) lagrange_coeff_nonzero by (auto simp: well_formed_sigma_def)
  have "combined_dlog V (sg\<lparr>sg_sig := (sg_sig sg)[i := P]\<rparr>) n h =
      ?c i * dlog1 V P + (\<Sum>j\<in>{..<n} - {i}. ?c j * dlog1 V (sg_sig sg ! j))"
    unfolding combined_dlog_def using assms(2) len by (subst sum.remove [of _ i]) simp_all
  moreover have "combined_dlog V sg n h =
      ?c i * dlog1 V (sg_sig sg ! i) + (\<Sum>j\<in>{..<n} - {i}. ?c j * dlog1 V (sg_sig sg ! j))"
    unfolding combined_dlog_def using assms(2) by (subst sum.remove [of _ i]) simp_all
  ultimately show ?thesis using c assms(3) by simp
qed

context fussion_libs
begin

lemma Verify_needs_hash:
  assumes "pp_q pp = curve_order" and "0 \<le> sk_v" and "Verify G M sg sk_v pp m t = Inr r"
  obtains h where
    "hashToCoprime G M (pp_beta pp ^ nat sk_v mod curve_order) (curve_order - 1) getFactors = Inr h"
  using assms by (auto simp: Verify_def rbind_eq_Inr pow_mpz_eq)

end

section \<open>Completeness\<close>

context fussion_libs
begin

text \<open>Raising to \<open>rk\<close> and then to \<open>h\<close> raises to \<open>alpha\<close>, since \<open>rk * h\<close> is \<open>alpha\<close> modulo \<open>q - 1\<close>.\<close>

lemma reencryption_exponent:
  assumes "0 \<le> rk" and "0 \<le> h" and "0 \<le> alpha"
    and "rk * h mod (curve_order - 1) = alpha mod (curve_order - 1)" and "x \<noteq> (0 :: zq)"
  shows "(x ^ nat rk) ^ nat h = x ^ nat alpha"
proof -
  have "nat (rk * h mod (curve_order - 1)) = nat (alpha mod (curve_order - 1))"
    by (simp only: assms(4))
  then have "(nat rk * nat h) mod nat (curve_order - 1) = nat alpha mod nat (curve_order - 1)"
    using assms(1-3) order_minus_1_pos(1) by (simp add: nat_mod_distrib nat_mult_distrib)
  from zq_power_mod [OF assms(5) this] show ?thesis
    by (simp add: power_mult)
qed

lemma aggregate_entry:
  assumes "aggregate_of V pp sigs n (nat rk) r sg" and "i < n"
    and "parsig_of V pp fs Hm (sigs ! i)"
    and "0 \<le> rk" and "0 \<le> h" and "0 \<le> alpha"
    and "rk * h mod (curve_order - 1) = alpha mod (curve_order - 1)"
    and "fe (pp_beta pp) = fe (pp_g pp) ^ nat alpha" and "fe (pp_g pp) \<noteq> 0"
  shows "fe (sg_aux sg ! i) \<noteq> 0"
    and "dlog1 V (sg_sig sg ! i) / fe (sg_aux sg ! i) ^ nat h =
      lin_prod fs (fe (ps_ID (sigs ! i))) * dlog1 V Hm"
proof -
  obtain sj u where u: "fe (ps_cj (sigs ! i)) = fe (pp_g pp) ^ u"
      "fe sj = fe (pp_beta pp) ^ u * lin_prod fs (fe (ps_ID (sigs ! i)))"
      "dlog1 V (ps_sig (sigs ! i)) = fe sj * dlog1 V Hm"
    using assms(3) by (auto simp: parsig_of_def encrypts_def)
  have aux: "fe (sg_aux sg ! i) = (fe (pp_g pp) ^ (u + r)) ^ nat rk"
    and sig: "dlog1 V (sg_sig sg ! i) = fe (pp_beta pp) ^ r * dlog1 V (ps_sig (sigs ! i))"
    using assms(1,2) u(1) by (simp_all add: aggregate_of_def power_add)
  show "fe (sg_aux sg ! i) \<noteq> 0"
    using assms(9) by (simp add: aux)
  have "fe (sg_aux sg ! i) ^ nat h = (fe (pp_g pp) ^ (u + r)) ^ nat alpha"
    unfolding aux using assms(9) by (intro reencryption_exponent assms) simp
  also have "\<dots> = fe (pp_beta pp) ^ (u + r)"
    by (simp only: assms(8) power_mult [symmetric] mult.commute)
  finally have "fe (sg_aux sg ! i) ^ nat h = fe (pp_beta pp) ^ (u + r)" .
  moreover have "fe (pp_beta pp) \<noteq> 0" using assms(8,9) by simp
  ultimately show "dlog1 V (sg_sig sg ! i) / fe (sg_aux sg ! i) ^ nat h =
      lin_prod fs (fe (ps_ID (sigs ! i))) * dlog1 V Hm"
    by (simp add: sig u power_add)
qed

text \<open>
  An aggregate of \<open>n\<close> partial signatures of distinct, non-zero identities, made for the verifier
  whose secret key gives the same hash, combines to the polynomial at zero.
\<close>

lemma honest_combination:
  assumes "aggregate_of V pp sigs n (nat rk) r sg" and "length sigs = n"
    and "\<And>i. i < n \<Longrightarrow> parsig_of V pp fs Hm (sigs ! i)" and "length fs < n"
    and "good_ids (map ps_ID sigs) n"
    and "0 \<le> rk" and "0 \<le> h" and "0 \<le> alpha"
    and "rk * h mod (curve_order - 1) = alpha mod (curve_order - 1)"
    and "fe (pp_beta pp) = fe (pp_g pp) ^ nat alpha" and "fe (pp_g pp) \<noteq> 0"
  shows "well_formed_sigma V sg n" and "combined_dlog V sg n (nat h) = lin_prod fs 0 * dlog1 V Hm"
proof -
  note entry = aggregate_entry [OF assms(1) _ assms(3) assms(6-11)]
  have IDs: "sg_IDs sg = map ps_ID sigs"
    using assms(1,2) by (simp add: aggregate_of_def)
  show "well_formed_sigma V sg n"
    using assms(1,5) entry(1) IDs by (simp add: well_formed_sigma_def aggregate_of_def)
  have "combined_dlog V sg n (nat h) =
      (\<Sum>i<n. lin_prod fs (fe (sg_IDs sg ! i)) * lagrange_coeff (sg_IDs sg) n i * dlog1 V Hm)"
    unfolding combined_dlog_def
  proof (intro sum.cong refl)
    fix i
    assume "i \<in> {..<n}"
    then have i: "i < n" by simp
    then have ID: "sg_IDs sg ! i = ps_ID (sigs ! i)" using IDs assms(2) by simp
    have "c / a * x = c * (x / a)" for c a x :: zq by simp
    then show "lagrange_coeff (sg_IDs sg) n i / fe (sg_aux sg ! i) ^ nat h * dlog1 V (sg_sig sg ! i) =
        lin_prod fs (fe (sg_IDs sg ! i)) * lagrange_coeff (sg_IDs sg) n i * dlog1 V Hm"
      by (simp only: entry(2) [OF i i] ID mult_ac)
  qed
  also have "\<dots> = lin_prod fs 0 * dlog1 V Hm"
    using interpolation_coeff [OF assms(5,4)] IDs by (simp add: sum_distrib_right [symmetric])
  finally show "combined_dlog V sg n (nat h) = lin_prod fs 0 * dlog1 V Hm" .
qed

lemma lin_prod_factors_0:
  assumes "length d = length b" and "k \<le> length b"
  shows "lin_prod (take k (factors_of d b)) 0 = (\<Prod>i<k. fe (b ! i))"
  using assms(2)
proof (induction k)
  case (Suc k)
  then show ?case using assms(1) by (simp add: lin_prod_factors_Suc)
qed simp

lemma Verify_honest:
  assumes pp: "pp_q pp = curve_order" "inG2 V (pp_P2 pp)" "dlog2 V (pp_P2 pp) = 1"
      "fe (pp_beta pp) = fe (pp_g pp) ^ nat alpha" "fe (pp_g pp) \<noteq> 0" "0 \<le> alpha"
    and keys: "keys_for V pp d b UAVs" "2 \<le> n" "n < 2 ^ 31" "n \<le> length b + 1"
    and sigs: "length sigs = n" "good_ids (map ps_ID sigs) n"
      "\<And>i. i < n \<Longrightarrow> parsig_of V pp (take (n - 1) (factors_of d b)) Hm (sigs ! i)"
      "hashToPoint G M m curve_order = Inr Hm" "inG1 V Hm"
    and agg: "aggregate_of V pp sigs n (nat rk) r sg" "0 \<le> rk"
      "rk * h mod (curve_order - 1) = alpha mod (curve_order - 1)"
    and sk: "0 \<le> sk_v"
      "hashToCoprime G M (pp_beta pp ^ nat sk_v mod curve_order) (curve_order - 1) getFactors = Inr h"
  shows "Verify G M sg sk_v pp m (int n) = Inr 1"
proof -
  let ?fs = "take (n - 1) (factors_of d b)"
  have len: "length d = length b" "length (pp_PK pp) = length b"
    and PK: "\<And>k. k < length b \<Longrightarrow> inG2 V (pp_PK pp ! k) \<and> dlog2 V (pp_PK pp ! k) = (\<Prod>i\<le>k. fe (b ! i))"
    using keys(1) by (auto simp: keys_for_def)
  have h: "0 \<le> h" using hashToCoprime_coprime [OF sk(2)] by simp
  have n2: "n - 2 < length b" "{..n - 2} = {..<n - 1}"
    using keys(2,4) by auto
  have "length ?fs < n" using keys(2) by simp
  note comb = honest_combination [OF agg(1) sigs(1,3) this sigs(2) agg(2) h pp(6) agg(3) pp(4,5)]
  have "lin_prod ?fs 0 = (\<Prod>i<n - 1. fe (b ! i))"
    using keys(4) by (intro lin_prod_factors_0 len(1)) simp
  then have "combined_dlog V sg n (nat h) * dlog2 V (pp_P2 pp) = dlog1 V Hm * dlog2 V (pp_PK pp ! (n - 2))"
    using comb(2) PK [OF n2(1)] pp(3) n2(2) by (simp add: mult.commute)
  with Verify_value [OF pp(1) comb(1) keys(2,3) _ _ pp(2) sk sigs(4,5)] n2(1) PK [OF n2(1)] len(2)
  show ?thesis by simp
qed

end

end
