(* ===== verification/Fussion_Run.thy ===== *)
theory Fussion_Run
  imports Fussion_Verify
begin

text \<open>
  Whole runs of the scheme: set-up, key generation, collection of \<open>t\<close> partial signatures, aggregation
  for a verifier, verification. The lemmas say that each step of a run gives the next one what it needs.
\<close>

section \<open>From keys to an accepted signature\<close>

text \<open>Parameters as \<^verbatim>\<open>Setup\<close> makes them, with the secret exponent \<open>alpha\<close>.\<close>

definition params_for :: "('big, 'ecp, 'ecp2) meaning \<Rightarrow> 'ecp2 Params \<Rightarrow> int \<Rightarrow> bool" where
  "params_for V pp alpha \<longleftrightarrow> pp_q pp = curve_order \<and> inG2 V (pp_P2 pp) \<and> dlog2 V (pp_P2 pp) = 1 \<and>
     0 \<le> alpha \<and> 0 \<le> pp_beta pp \<and> pp_beta pp < curve_order \<and> fe (pp_beta pp) = fe (pp_g pp) ^ nat alpha"

lemma params_for_PK [simp]: "params_for V (pp\<lparr>pp_PK := PK\<rparr>) alpha = params_for V pp alpha"
  by (simp add: params_for_def)

lemma good_ids_cong:
  assumes "\<And>i. i < n \<Longrightarrow> xs ! i = ys ! i" and "good_ids ys n" and "n \<le> length xs"
  shows "good_ids xs n"
  using assms by (simp add: good_ids_def inj_on_def)

context fussion_libs
begin

lemma shared_secret:
  assumes "params_for V pp alpha" and "0 \<le> sk_v" and "PK_v = pp_g pp ^ nat sk_v mod curve_order"
  shows "PK_v ^ nat alpha mod curve_order = pp_beta pp ^ nat sk_v mod curve_order"
proof -
  have "fe (PK_v ^ nat alpha) = fe (pp_beta pp ^ nat sk_v)"
    using assms by (simp add: params_for_def zq_simps power_mult [symmetric] mult.commute)
  then show ?thesis by (simp only: of_int_zq_eq_iff)
qed

lemma signature_accepted:
  assumes pp: "params_for V pp alpha" "fe (pp_g pp) \<noteq> 0"
    and keys: "keys_for V pp d b UAVs" "2 \<le> n" "n < 2 ^ 31" "n \<le> length b + 1" "n \<le> length UAVs"
    and ids: "good_ids (map uav_ID UAVs) n"
    and alpha: "uavH_alpha uavH = alpha"
    and sk: "0 \<le> sk_v" "hashToZp256 G M (pp_beta pp ^ nat sk_v mod curve_order) (curve_order - 1) = Inr h0"
      "\<not> hash_step dvd h0"
  shows "\<exists>sigs PK_v sg st'. collectSig G M pp UAVs (int n) m = Inr sigs \<and>
    pow_mpz G (pp_g pp) sk_v (pp_q pp) = Inr PK_v \<and>
    AggSig G M now sigs pp uavH PK_v = Inr (sg, st') \<and> Verify G M sg sk_v pp m (int n) = Inr 1"
proof -
  have q: "pp_q pp = curve_order" and a: "0 \<le> alpha" using pp(1) by (simp_all add: params_for_def)
  obtain Hm where Hm: "hashToPoint G M m curve_order = Inr Hm" "inG1 V Hm"
    using hashToPoint_group [of curve_order m] curve_order_bounds by auto
  let ?fs = "take (n - 1) (factors_of d b)"
  obtain sigs where sigs: "collectSig G M pp UAVs (int n) m = Inr sigs" "length sigs = n"
      "\<And>i. i < n \<Longrightarrow> ps_ID (sigs ! i) = uav_ID (UAVs ! i) \<and> parsig_of V pp ?fs Hm (sigs ! i)"
    using collectSig_parsigs [OF q keys(1) _ _ _ _ Hm, of "int n"] keys(2-5) by (auto simp: nat_diff_distrib)
  have "map ps_ID sigs ! i = map uav_ID UAVs ! i" if "i < n" for i
    using sigs(2) sigs(3) [OF that] keys(5) that by simp
  then have ids': "good_ids (map ps_ID sigs) n"
    using good_ids_cong [OF _ ids] sigs(2) by simp
  let ?PK = "pp_g pp ^ nat sk_v mod curve_order"
  obtain h where h: "hashToCoprime G M (pp_beta pp ^ nat sk_v mod curve_order) (curve_order - 1) getFactors = Inr h"
    using hashToCoprime_returns [OF sk(2,3)] by blast
  have in1: "list_all (\<lambda>ps. inG1 V (ps_sig ps)) sigs"
    using sigs(2,3) by (simp add: list_all_length parsig_of_def)
  obtain sg st' rk r where agg: "AggSig G M now sigs pp uavH ?PK = Inr (sg, st')" "0 \<le> rk"
      "rk * h mod (curve_order - 1) = alpha mod (curve_order - 1)"
      "aggregate_of V pp sigs n (nat rk) r sg"
    using AggSig_aggregate [OF q _ _ in1, of uavH ?PK h now] shared_secret [OF pp(1) sk(1) refl] h a alpha sigs(2)
    by auto
  have "Verify G M sg sk_v pp m (int n) = Inr 1"
    using pp sigs(3) Hm agg(2-4) sk(1) h
    by (intro Verify_honest [OF q _ _ _ pp(2) a keys(1-4) sigs(2) ids' _ Hm agg(4,2,3) sk(1) h])
       (simp_all add: params_for_def)
  moreover have "pow_mpz G (pp_g pp) sk_v (pp_q pp) = Inr ?PK"
    using sk(1) by (simp add: q pow_mpz_eq)
  ultimately show ?thesis using sigs(1) agg(1) by blast
qed

lemma Setup_params_for:
  assumes "Setup G M now n tm = Inr (pp, alpha, st)"
  shows "params_for V pp alpha" "pp_n pp = n" "pp_tm pp = tm"
  using Setup_params [of now n tm] assms gen2 by (auto simp: params_for_def)

lemma run_accepted:
  assumes params: "Setup G M now n tm = Inr (pp, alpha, st1)"
    and keygen: "KeyGen G M pp alpha st1 = Inr (UAVs, pp', uavH, st2)"
    and range: "2 \<le> t" "t \<le> tm" "t \<le> n" "tm < 2 ^ 31"
    and g: "fe (pp_g pp) \<noteq> 0" and ids: "good_ids (map uav_ID UAVs) (nat t)"
    and sk: "0 \<le> sk_v" "hashToZp256 G M (pp_beta pp ^ nat sk_v mod curve_order) (curve_order - 1) = Inr h0"
      "\<not> hash_step dvd h0"
  shows "\<exists>sigs PK_v sg st'. collectSig G M pp' UAVs t m = Inr sigs \<and>
    pow_mpz G (pp_g pp') sk_v (pp_q pp') = Inr PK_v \<and>
    AggSig G M now' sigs pp' uavH PK_v = Inr (sg, st') \<and> Verify G M sg sk_v pp' m t = Inr 1"
proof -
  note pp = Setup_params_for [OF params]
  have q: "pp_q pp = curve_order" using pp(1) by (simp add: params_for_def)
  obtain PK d b where keys: "pp' = pp\<lparr>pp_PK := PK\<rparr>" "uavH_alpha uavH = alpha"
      "length UAVs = nat n" "int (length b) = tm - 1" "keys_for V pp' d b UAVs"
    using KeyGen_keys [OF q, of alpha st1] keygen pp(2,3) range by auto
  have n: "2 \<le> nat t" "nat t < 2 ^ 31" "nat t \<le> length b + 1" "nat t \<le> length UAVs" "int (nat t) = t"
    using range keys(3,4) by simp_all
  show ?thesis
    using signature_accepted [OF _ _ keys(5) n(1-4) ids keys(2) sk(1) _ sk(3), of m now'] pp(1) g sk(2) keys(1) n(5)
    by simp
qed

end

end
