(* ===== verification/Fussion_Properties.thy ===== *)
theory Fussion_Properties
  imports Fussion_Run
begin

text \<open>
  The properties of the signature scheme of \<^verbatim>\<open>src/fussion.cpp\<close>, and the run of the reference
  instance their witnesses use: with the clock reading 1 the draws are 2, 3, 4, and so on, so
  \<open>g = 2\<close>, \<open>alpha = 3\<close>, and the two drones have the identities 6 and 8.
\<close>

section \<open>A run of the reference instance\<close>

definition params_run :: "zq Params" where
  "params_run = \<lparr>pp_n = 2, pp_tm = 2, pp_q = curve_order, pp_P2 = 1, pp_g = 2, pp_beta = 8, pp_PK = []\<rparr>"

lemma order_big: "int k < curve_order" if "k \<le> 1000"
proof -
  have "int k \<le> 1000" using that by simp
  also have "\<dots> < curve_order" by (simp add: curve_order_def)
  finally show ?thesis .
qed

lemma rand_small: "k \<le> 1000 \<Longrightarrow> rand_mpz gmp_ref k = (int k + 1, Suc k)"
  using order_big by (intro rand_ref)

lemma Setup_run: "Setup gmp_ref miracl_ref 1 2 2 = Inr (params_run, 3, 3)"
proof -
  have "BIG_to_mpz gmp_ref miracl_ref curve_order = curve_order"
    using lref.BIG_to_mpz_val [of curve_order] curve_order_bounds by (simp add: meaning_ref_def)
  moreover have "CURVE_Order miracl_ref = curve_order" "ECP2_generator miracl_ref = 1"
    by (simp_all add: miracl_ref_def)
  moreover have "pow_mpz gmp_ref 2 3 curve_order = Inr 8"
    by (simp add: gref.pow_mpz_eq) (simp add: curve_order_def)
  ultimately show ?thesis
    by (simp add: Setup_def initState_ref rand_small params_run_def)
qed

lemma getUAV_run:
  assumes "k \<le> 1000" and "pp_q pp = curve_order"
  shows "\<exists>uav. getUAV gmp_ref pp [5] [4] ident k = Inr (uav, Suc k) \<and> uav_ID uav = ident"
  using assms
  by (simp add: getUAV_def getUAV_round_def for_range_first for_range_empty rand_small gref.pow_mpz_eq)

lemma KeyGen_run:
  "\<exists>u v PK uavH. KeyGen gmp_ref miracl_ref params_run 3 3 = Inr ([u, v], params_run\<lparr>pp_PK := PK\<rparr>, uavH, 10) \<and>
    uav_ID u = 6 \<and> uav_ID v = 8"
proof -
  obtain PK where PK: "getPK gmp_ref miracl_ref [4] = Inr PK"
    using lref.getPK_keys [of "[4]"] by auto
  let ?pp = "params_run\<lparr>pp_PK := PK\<rparr>"
  have q: "pp_q ?pp = curve_order" by (simp add: params_run_def)
  obtain u where u: "getUAV gmp_ref ?pp [5] [4] 6 6 = Inr (u, 7)" "uav_ID u = 6"
    using getUAV_run [OF _ q, of 6 6] by auto
  obtain v where v: "getUAV gmp_ref ?pp [5] [4] 8 8 = Inr (v, 9)" "uav_ID v = 8"
    using getUAV_run [OF _ q, of 8 8] by auto
  have "pp_tm params_run = 2" "pp_n ?pp = 2" by (simp_all add: params_run_def)
  with PK u v show ?thesis
    by (simp add: KeyGen_def KeyGen_pairs_def KeyGen_uavs_def for_range_first for_range_empty rand_small) blast
qed

lemma good_ids_run: "good_ids [6, 8] 2"
  by (rule good_ids_distinct) (simp_all add: curve_order_def)

lemma hash_run: "\<exists>h0. hashToZp256 gmp_ref miracl_ref x (curve_order - 1) = Inr h0 \<and> \<not> 254760293 dvd h0"
  using hash_ref_order [of x] hash_ref_not_dvd by fastforce

section \<open>Completeness\<close>

text \<open>
  C2. Completeness of the scheme. After \<^verbatim>\<open>Setup\<close> and \<^verbatim>\<open>KeyGen\<close> for \<open>n\<close> drones and maximal threshold
  \<open>tm\<close>, for every threshold \<open>t\<close> with \<open>2 \<le> t \<le> tm\<close> and \<open>t \<le> n\<close> and every message: if \<open>g\<close> is not zero in
  the field, the identities of the first \<open>t\<close> drones are distinct and not zero, and 254760293 does not divide
  the hash of the shared secret, then signing, aggregation and verification all return, and the
  verifier accepts.
\<close>

theorem scheme_completeness:
  assumes "fussion_libs G M V"
    and "Setup G M now n tm = Inr (pp, alpha, st1)"
    and "KeyGen G M pp alpha st1 = Inr (UAVs, pp', uavH, st2)"
    and "2 \<le> t" and "t \<le> tm" and "t \<le> n" and "tm < 2 ^ 31"
    and "fe (pp_g pp) \<noteq> 0" and "good_ids (map uav_ID UAVs) (nat t)"
    and "0 \<le> sk_v" and "hashToZp256 G M (pp_beta pp ^ nat sk_v mod curve_order) (curve_order - 1) = Inr h0"
    and "\<not> 254760293 dvd h0"
  shows "\<exists>sigs PK_v sg st'. collectSig G M pp' UAVs t m = Inr sigs \<and>
    pow_mpz G (pp_g pp') sk_v (pp_q pp') = Inr PK_v \<and>
    AggSig G M now' sigs pp' uavH PK_v = Inr (sg, st') \<and> Verify G M sg sk_v pp' m t = Inr 1"
  by (rule fussion_libs.run_accepted [OF assms])

theorem scheme_completeness_witness:
  "\<exists>UAVs pp' uavH sigs PK_v sg st'.
    KeyGen gmp_ref miracl_ref params_run 3 3 = Inr (UAVs, pp', uavH, 10) \<and>
    collectSig gmp_ref miracl_ref pp' UAVs 2 77 = Inr sigs \<and>
    pow_mpz gmp_ref (pp_g pp') 11 (pp_q pp') = Inr PK_v \<and>
    AggSig gmp_ref miracl_ref 20 sigs pp' uavH PK_v = Inr (sg, st') \<and>
    Verify gmp_ref miracl_ref sg 11 pp' 77 2 = Inr 1"
proof -
  obtain u v PK uavH where k: "KeyGen gmp_ref miracl_ref params_run 3 3 =
      Inr ([u, v], params_run\<lparr>pp_PK := PK\<rparr>, uavH, 10)" "uav_ID u = 6" "uav_ID v = 8"
    using KeyGen_run by blast
  obtain h0 where h0: "hashToZp256 gmp_ref miracl_ref (pp_beta params_run ^ nat 11 mod curve_order)
      (curve_order - 1) = Inr h0" "\<not> 254760293 dvd h0"
    using hash_run by blast
  have "fe (pp_g params_run) \<noteq> 0"
    using fe_nonzero [of 2] by (simp add: params_run_def curve_order_def)
  moreover have "good_ids (map uav_ID [u, v]) (nat 2)" using good_ids_run k(2,3) by simp
  ultimately show ?thesis
    using scheme_completeness [OF lref.fussion_libs_axioms Setup_run k(1) _ _ _ _ _ _ _ h0, of 2 77 20] k(1)
    by fastforce
qed

lemma fussion_unfold:
  assumes "Setup G M now 2 2 = Inr (pp, alpha, st1)"
    and "KeyGen G M pp alpha st1 = Inr (UAVs, pp', uavH, st2)"
    and "rand_mpz G st2 = (sk_v, st3)"
    and "collectSig G M pp' UAVs 2 123456789 = Inr sigs"
    and "pow_mpz G (pp_g pp') sk_v (pp_q pp') = Inr PK_v"
    and "AggSig G M now' sigs pp' uavH PK_v = Inr (sg, st')"
  shows "fussion G M now now' = Verify G M sg sk_v pp' 123456789 2"
  using assms by (simp add: fussion_def)

text \<open>
  The demonstration run \<^verbatim>\<open>fussion()\<close>, with two drones, threshold two and fresh keys, returns 1
  under the same conditions on its random draws.
\<close>

theorem fussion_returns_1:
  assumes "fussion_libs G M V"
    and "Setup G M now 2 2 = Inr (pp, alpha, st1)"
    and "KeyGen G M pp alpha st1 = Inr (UAVs, pp', uavH, st2)"
    and "rand_mpz G st2 = (sk_v, st3)"
    and "fe (pp_g pp) \<noteq> 0" and "good_ids (map uav_ID UAVs) 2"
    and "hashToZp256 G M (pp_beta pp ^ nat sk_v mod curve_order) (curve_order - 1) = Inr h0"
    and "\<not> 254760293 dvd h0"
  shows "fussion G M now now' = Inr 1"
proof -
  have "0 \<le> sk_v"
    using gmp_lib.rand_mpz_range(1) [OF fussion_libs.axioms(1) [OF assms(1)] assms(4)] by simp
  then obtain sigs PK_v sg st' where "collectSig G M pp' UAVs 2 123456789 = Inr sigs"
      "pow_mpz G (pp_g pp') sk_v (pp_q pp') = Inr PK_v"
      "AggSig G M now' sigs pp' uavH PK_v = Inr (sg, st')" "Verify G M sg sk_v pp' 123456789 2 = Inr 1"
    using fussion_libs.run_accepted [OF assms(1-3) _ _ _ _ assms(5) _ _ assms(7,8), of 2 123456789 now'] assms(6)
    by auto
  then show ?thesis
    using fussion_unfold [OF assms(2-4)] by metis
qed

theorem fussion_returns_1_witness: "fussion gmp_ref miracl_ref 1 20 = Inr 1"
proof -
  obtain u v PK uavH where k: "KeyGen gmp_ref miracl_ref params_run 3 3 =
      Inr ([u, v], params_run\<lparr>pp_PK := PK\<rparr>, uavH, 10)" "uav_ID u = 6" "uav_ID v = 8"
    using KeyGen_run by blast
  obtain h0 where h0: "hashToZp256 gmp_ref miracl_ref (pp_beta params_run ^ nat 11 mod curve_order)
      (curve_order - 1) = Inr h0" "\<not> 254760293 dvd h0"
    using hash_run by blast
  have r: "rand_mpz gmp_ref 10 = (11, 11)" by (simp add: rand_small)
  have g: "fe (pp_g params_run) \<noteq> 0"
    using fe_nonzero [of 2] by (simp add: params_run_def curve_order_def)
  have "good_ids (map uav_ID [u, v]) 2" using good_ids_run k(2,3) by simp
  from fussion_returns_1 [OF lref.fussion_libs_axioms Setup_run k(1) r g this h0] show ?thesis .
qed

section \<open>What the verifier decides\<close>

text \<open>
  C5. On an aggregate with \<open>n\<close> readable entries, \<^verbatim>\<open>Verify\<close> returns 1 exactly when the combination of
  the signatures' exponents with the Lagrange coefficients and the decrypted auxiliary values matches
  the public key \<^verbatim>\<open>PK[n - 2]\<close>, and 0 otherwise.
\<close>

theorem Verify_decides:
  assumes "fussion_libs G M V"
    and "pp_q pp = curve_order" and "well_formed_sigma V sg n" and "2 \<le> n" and "n < 2 ^ 31"
    and "n - 2 < length (pp_PK pp)" and "inG2 V (pp_PK pp ! (n - 2))" and "inG2 V (pp_P2 pp)"
    and "0 \<le> sk_v"
    and "hashToCoprime G M (pp_beta pp ^ nat sk_v mod curve_order) (curve_order - 1) getFactors = Inr h"
    and "hashToPoint G M m curve_order = Inr Hm" and "inG1 V Hm"
  shows "Verify G M sg sk_v pp m (int n) =
    Inr (if combined_dlog V sg n (nat h) * dlog2 V (pp_P2 pp) = dlog1 V Hm * dlog2 V (pp_PK pp ! (n - 2))
         then 1 else 0)"
  by (rule fussion_libs.Verify_value [OF assms])

definition params_key :: "zq Params" where
  "params_key = params_run\<lparr>pp_PK := [4]\<rparr>"

definition sigma_key :: "zq Sigma" where
  "sigma_key = \<lparr>sg_aux = [1, 1], sg_sig = [1, 1], sg_IDs = [6, 8]\<rparr>"

lemma sigma_key_ok: "well_formed_sigma meaning_ref sigma_key 2"
  using good_ids_run
  by (simp add: well_formed_sigma_def sigma_key_def meaning_ref_def less_Suc_eq numeral_2_eq_2)

lemma params_key_ok: "pp_q params_key = curve_order" "length (pp_PK params_key) = 1"
  by (simp_all add: params_key_def params_run_def)

lemma hash_key:
  "\<exists>h. hashToCoprime gmp_ref miracl_ref (pp_beta params_key ^ nat 11 mod curve_order) (curve_order - 1) getFactors = Inr h"
  using hash_run lref.hashToCoprime_returns by blast

lemma point_key: "\<exists>Hm. hashToPoint gmp_ref miracl_ref m curve_order = Inr Hm"
  using lref.hashToPoint_group [of curve_order m] curve_order_bounds by auto

lemma inG_ref [simp]: "inG1 meaning_ref P" "inG2 meaning_ref Q"
  by (simp_all add: meaning_ref_def)

theorem Verify_decides_witness:
  "\<exists>h Hm. hashToPoint gmp_ref miracl_ref 77 curve_order = Inr Hm \<and>
    Verify gmp_ref miracl_ref sigma_key 11 params_key 77 (int 2) =
      Inr (if combined_dlog meaning_ref sigma_key 2 (nat h) * pp_P2 params_key = Hm * 4 then 1 else 0)"
proof -
  obtain h Hm where "hashToCoprime gmp_ref miracl_ref (pp_beta params_key ^ nat 11 mod curve_order)
      (curve_order - 1) getFactors = Inr h" "hashToPoint gmp_ref miracl_ref 77 curve_order = Inr Hm"
    using hash_key point_key by blast
  with Verify_decides [OF lref.fussion_libs_axioms params_key_ok(1) sigma_key_ok _ _ _ _ _ _ this]
  show ?thesis by (auto simp: params_key_ok params_key_def meaning_ref_def)
qed

text \<open>
  C6. Replacing one signature of an accepted aggregate by a point with another exponent makes the
  verifier reject.
\<close>

theorem tampered_signature_rejected:
  assumes "fussion_libs G M V"
    and "pp_q pp = curve_order" and "well_formed_sigma V sg n" and "2 \<le> n" and "n < 2 ^ 31"
    and "n - 2 < length (pp_PK pp)" and "inG2 V (pp_PK pp ! (n - 2))" and "inG2 V (pp_P2 pp)"
    and "0 \<le> sk_v" and "dlog2 V (pp_P2 pp) \<noteq> 0"
    and "Verify G M sg sk_v pp m (int n) = Inr 1"
    and "i < n" and "inG1 V P" and "dlog1 V P \<noteq> dlog1 V (sg_sig sg ! i)"
  shows "Verify G M (sg\<lparr>sg_sig := (sg_sig sg)[i := P]\<rparr>) sk_v pp m (int n) = Inr 0"
proof -
  let ?sg = "sg\<lparr>sg_sig := (sg_sig sg)[i := P]\<rparr>"
  obtain h where h: "hashToCoprime G M (pp_beta pp ^ nat sk_v mod curve_order) (curve_order - 1) getFactors = Inr h"
    by (rule fussion_libs.Verify_needs_hash [OF assms(1,2,9,11)])
  obtain Hm where Hm: "hashToPoint G M m curve_order = Inr Hm" "inG1 V Hm"
    using fussion_libs.hashToPoint_group [OF assms(1), of curve_order m] curve_order_bounds by auto
  have wf: "well_formed_sigma V ?sg n"
    using assms(3,12,13) by (auto simp: well_formed_sigma_def nth_list_update)
  note decides = fussion_libs.Verify_value [OF assms(1,2) _ assms(4-9) h Hm]
  have "combined_dlog V ?sg n (nat h) \<noteq> combined_dlog V sg n (nat h)"
    by (rule combined_dlog_changed [OF assms(3,12,14)])
  then have "combined_dlog V ?sg n (nat h) * dlog2 V (pp_P2 pp) \<noteq>
      combined_dlog V sg n (nat h) * dlog2 V (pp_P2 pp)"
    using assms(10) by simp
  moreover have "combined_dlog V sg n (nat h) * dlog2 V (pp_P2 pp) = dlog1 V Hm * dlog2 V (pp_PK pp ! (n - 2))"
    using decides [OF assms(3)] assms(11) by (simp split: if_splits)
  ultimately have "combined_dlog V ?sg n (nat h) * dlog2 V (pp_P2 pp) \<noteq> dlog1 V Hm * dlog2 V (pp_PK pp ! (n - 2))"
    by (simp only: not_False_eq_True)
  then show ?thesis by (simp only: decides [OF wf] if_False)
qed

definition sigma_of :: "zq \<Rightarrow> zq Sigma" where
  "sigma_of x = \<lparr>sg_aux = [1, 1], sg_sig = [x, x], sg_IDs = [6, 8]\<rparr>"

lemma sigma_of_ok: "well_formed_sigma meaning_ref (sigma_of x) 2"
  using good_ids_run
  by (simp add: well_formed_sigma_def sigma_of_def meaning_ref_def less_Suc_eq numeral_2_eq_2)

lemma sigma_of_dlog: "combined_dlog meaning_ref (sigma_of x) 2 h = x"
proof -
  have "(\<Sum>i<2. lagrange_coeff [6, 8] 2 i) = 1"
    using interpolation_coeff [OF good_ids_run, of "[]"] by simp
  moreover have "combined_dlog meaning_ref (sigma_of x) 2 h = (\<Sum>i<2. lagrange_coeff [6, 8] 2 i * x)"
    unfolding combined_dlog_def
    by (intro sum.cong) (auto simp: sigma_of_def meaning_ref_def less_Suc_eq numeral_2_eq_2)
  ultimately show ?thesis by (simp add: sum_distrib_right [symmetric])
qed

lemma sigma_of_accepted:
  assumes "hashToPoint gmp_ref miracl_ref 77 curve_order = Inr Hm"
  shows "Verify gmp_ref miracl_ref (sigma_of (Hm * 4)) 11 params_key 77 (int 2) = Inr 1"
proof -
  obtain h where "hashToCoprime gmp_ref miracl_ref (pp_beta params_key ^ nat 11 mod curve_order)
      (curve_order - 1) getFactors = Inr h"
    using hash_key by blast
  from lref.Verify_value [OF params_key_ok(1) sigma_of_ok _ _ _ _ _ _ this assms] sigma_of_dlog
  show ?thesis by (simp add: params_key_ok) (simp add: meaning_ref_def params_key_def params_run_def)
qed

theorem tampered_signature_rejected_witness:
  "\<exists>sg P. Verify gmp_ref miracl_ref sg 11 params_key 77 (int 2) = Inr 1 \<and>
    Verify gmp_ref miracl_ref (sg\<lparr>sg_sig := (sg_sig sg)[0 := P]\<rparr>) 11 params_key 77 (int 2) = Inr 0"
proof -
  obtain Hm where Hm: "hashToPoint gmp_ref miracl_ref 77 curve_order = Inr Hm"
    using point_key by blast
  note ok = sigma_of_accepted [OF Hm]
  have d: "dlog2 meaning_ref (pp_P2 params_key) \<noteq> 0"
      "dlog1 meaning_ref (Hm * 4 + 1) \<noteq> dlog1 meaning_ref (sg_sig (sigma_of (Hm * 4)) ! 0)"
    by (simp_all add: meaning_ref_def params_key_def params_run_def sigma_of_def)
  from tampered_signature_rejected [OF lref.fussion_libs_axioms params_key_ok(1) sigma_of_ok _ _ _ _ _ _ d(1) ok
      _ _ d(2)] ok
  show ?thesis by (intro exI [of _ "sigma_of (Hm * 4)"] exI [of _ "Hm * 4 + 1"]) (simp add: params_key_ok)
qed

section \<open>Keys and shares\<close>

text \<open>
  C8. \<^verbatim>\<open>KeyGen\<close> returns whenever \<open>tm \<ge> 2\<close>, with \<open>n\<close> drones and key material that fits together: the public
  key of index \<open>k\<close> has the exponent \<open>b\<^sub>0 \<cdots> b\<^sub>k\<close>, and every drone holds \<open>tm - 1\<close> ciphertexts of the
  linear factors at its identity.
\<close>

theorem KeyGen_establishes_keys:
  assumes "fussion_libs G M V" and "pp_q pp = curve_order"
    and "2 \<le> pp_tm pp" and "pp_tm pp < 2 ^ 31" and "0 \<le> pp_n pp"
  shows "\<exists>UAVs PK uavH st' d b. KeyGen G M pp alpha st = Inr (UAVs, pp\<lparr>pp_PK := PK\<rparr>, uavH, st') \<and>
    uavH_alpha uavH = alpha \<and> length UAVs = nat (pp_n pp) \<and> int (length b) = pp_tm pp - 1 \<and>
    keys_for V (pp\<lparr>pp_PK := PK\<rparr>) d b UAVs"
  by (rule fussion_libs.KeyGen_keys [OF assms])

theorem KeyGen_establishes_keys_witness:
  "\<exists>UAVs PK uavH st' d b. KeyGen gmp_ref miracl_ref params_run 3 3 =
      Inr (UAVs, params_run\<lparr>pp_PK := PK\<rparr>, uavH, st') \<and> length UAVs = 2 \<and>
    keys_for meaning_ref (params_run\<lparr>pp_PK := PK\<rparr>) d b UAVs"
  using KeyGen_establishes_keys [OF lref.fussion_libs_axioms, of params_run 3 3]
  by (fastforce simp: params_run_def)

text \<open>
  The ciphertexts \<^verbatim>\<open>getUAV\<close> makes decrypt with \<open>alpha\<close> to the factors \<open>d\<^sub>i * ID + b\<^sub>i\<close> of the share.
\<close>

theorem getUAV_decrypts:
  assumes "gmp_lib G" and "pp_q pp = curve_order" and "length b \<le> length d" and "0 \<le> ident"
    and "list_all (\<lambda>x. 0 \<le> x) d" and "list_all (\<lambda>x. 0 \<le> x) b"
    and "fe (pp_beta pp) = fe (pp_g pp) ^ a" and "fe (pp_g pp) \<noteq> 0"
  shows "\<exists>uav st'. getUAV G pp d b ident st = Inr (uav, st') \<and> uav_ID uav = ident \<and>
    length (uav_c1 uav) = length b \<and> length (uav_c2 uav) = length b \<and>
    (\<forall>i < length b. fe (uav_c2 uav ! i) / fe (uav_c1 uav ! i) ^ a = fe (d ! i * ident + b ! i))"
  using gmp_lib.getUAV_share [OF assms(1-6), of st] encrypts_decrypt [OF _ assms(7,8)]
  by (fastforce simp: share_of_def)

theorem getUAV_decrypts_witness:
  "\<exists>uav. getUAV gmp_ref params_run [5] [4] 6 6 = Inr (uav, 7) \<and>
    fe (uav_c2 uav ! 0) / fe (uav_c1 uav ! 0) ^ 3 = fe (5 * 6 + 4)"
proof -
  have pp: "pp_q params_run = curve_order" "fe (pp_beta params_run) = fe (pp_g params_run) ^ 3"
    "fe (pp_g params_run) \<noteq> 0"
    using fe_nonzero [of 2] by (simp_all add: params_run_def) (simp add: curve_order_def)
  obtain u where u: "getUAV gmp_ref params_run [5] [4] 6 6 = Inr (u, 7)"
    using getUAV_run [OF _ pp(1), of 6 6] by auto
  from getUAV_decrypts [OF gref.gmp_lib_axioms pp(1) _ _ _ _ pp(2,3), of "[4]" "[5]" 6 6] u
  show ?thesis by auto
qed

section \<open>Faults\<close>

text \<open>
  C23. Asking a drone to sign with a threshold above the length of its share plus one, as the
  network handler does with any received \<open>t\<close>, reads past the end of the share.
\<close>

theorem Sign_reads_out_of_bounds:
  assumes "fussion_libs G M V" and "pp_q pp = curve_order" and "share_of pp d b uav" and "length d = length b"
    and "int (length b) + 1 < t" and "t < 2 ^ 31"
  shows "Sign G M pp uav t m = Inl Out_of_bounds"
  by (rule fussion_libs.Sign_out_of_bounds [OF assms])

theorem Sign_reads_out_of_bounds_witness:
  "\<exists>uav. share_of params_run [5] [4] uav \<and> Sign gmp_ref miracl_ref params_run uav 3 77 = Inl Out_of_bounds"
proof -
  have q: "pp_q params_run = curve_order" by (simp add: params_run_def)
  obtain uav where uav: "share_of params_run [5] [4] uav"
    using gref.getUAV_share [OF q, of "[4]" "[5]" 6 6] by auto
  from Sign_reads_out_of_bounds [OF lref.fussion_libs_axioms q uav, of 3 77] uav show ?thesis by auto
qed

text \<open>
  C24. With a maximal threshold of 1 or less, \<^verbatim>\<open>KeyGen\<close> calls \<^verbatim>\<open>getPK\<close> with no coefficients, whose
  \<^verbatim>\<open>do\<close> loop reads \<^verbatim>\<open>b[0]\<close> of an empty vector.
\<close>

theorem KeyGen_small_threshold:
  assumes "pp_tm pp \<le> 1" and "- (2 ^ 31) < pp_tm pp"
  shows "KeyGen G M pp alpha st = Inl Out_of_bounds"
  using assms
  by (simp add: KeyGen_def int_sub_def int32_range_def for_range_empty getPK_def getPK_round_def)

theorem KeyGen_small_threshold_witness:
  "KeyGen gmp_ref miracl_ref (params_run\<lparr>pp_tm := 1\<rparr>) 3 3 = Inl Out_of_bounds"
  by (rule KeyGen_small_threshold) simp_all

text \<open>
  C25. \<^verbatim>\<open>Verify\<close> does not check how many signatures it was given: with fewer identities than the
  threshold it reads past the end of the identities.
\<close>

theorem Verify_too_few_signatures:
  assumes "pp_q pp \<noteq> 0" and "int (length (sg_IDs sg)) < t"
  shows "Verify G M sg sk_v pp m t = Inl Out_of_bounds"
proof -
  let ?n = "length (sg_IDs sg)"
  let ?acc = "\<lambda>k. foldl (\<lambda>p x. p * x smod pp_q pp) 1 (take k (sg_IDs sg))"
  have "for_range 0 t (getPi_0_prodX pp (sg_IDs sg)) 1 = Inl Out_of_bounds"
    using assms
    by (intro for_range_fault [where n = ?n and acc = ?acc])
       (simp_all add: getPi_0_prodX_def take_Suc_conv_app_nth)
  then show ?thesis by (simp add: Verify_def getPi_0_def)
qed

theorem Verify_too_few_signatures_witness:
  "Verify gmp_ref miracl_ref sigma_key 11 params_key 77 3 = Inl Out_of_bounds"
  by (rule Verify_too_few_signatures) (simp_all add: params_key_ok sigma_key_def)

end
