(* ===== verification/BrpcTools.thy ===== *)
theory BrpcTools
  imports Reference_Run
begin

text \<open>
  The text codecs of \<^verbatim>\<open>src/Tools/brpcTools.cpp\<close> that carry numbers, points and vectors of them
  through the RPC messages. The encoders of vectors put a separator after or between the
  elements; the locale \<open>sep_codec\<close> states what they need of an element codec, and proves the
  round trips of the vectors once.
\<close>

section \<open>Numbers and points\<close>

definition mpz_to_str :: "'rs gmp \<Rightarrow> int \<Rightarrow> string" where
  "mpz_to_str G value = mpz_get_str G 16 value"

definition str_to_mpz :: "'rs gmp \<Rightarrow> string \<Rightarrow> int result" where
  "str_to_mpz G str = of_option Invalid_argument (mpz_set_str G str 16)"

definition ECP_to_str ::
    "'rs gmp \<Rightarrow> ('big, 'ecp, 'ecp2, 'fp12, 'hash, 'rng) miracl \<Rightarrow> 'ecp \<Rightarrow> string" where
  "ECP_to_str G M ecp = (let (sgn, x, y) = ECP_get M ecp in
     mpz_to_str G (BIG_to_mpz G M x) @ '','' @ mpz_to_str G (BIG_to_mpz G M y))"

text \<open>
  \<^verbatim>\<open>str.find\<close>: the first position of a character. \<^verbatim>\<open>str_to_ECP\<close> stores it in an \<^verbatim>\<open>int\<close>, where a
  failed search is -1: then \<^verbatim>\<open>substr(0, -1)\<close> and \<^verbatim>\<open>substr(0)\<close> are both the whole string.
\<close>

fun find_char :: "char \<Rightarrow> string \<Rightarrow> nat option" where
  "find_char c [] = None"
| "find_char c (x # xs) = (if x = c then Some 0 else map_option Suc (find_char c xs))"

definition str_to_ECP ::
    "('big, 'ecp, 'ecp2, 'fp12, 'hash, 'rng) miracl \<Rightarrow> string \<Rightarrow> 'ecp result" where
  "str_to_ECP M str =
    (let (xs, ys) = (case find_char CHR '','' str of
           None \<Rightarrow> (str, str)
         | Some pos \<Rightarrow> (take pos str, drop (pos + 1) str)) in
     rbind (str_to_BIG M xs) (\<lambda>x.
     rbind (str_to_BIG M ys) (\<lambda>y.
     Inr (fst (ECP_set M x y)))))"

text \<open>The octet buffers have a fixed size, which the library does not check when it writes.\<close>

definition ECP2_to_str ::
    "('big, 'ecp, 'ecp2, 'fp12, 'hash, 'rng) miracl \<Rightarrow> 'ecp2 \<Rightarrow> bool \<Rightarrow> string result" where
  "ECP2_to_str M ecp2 compressed =
    (let S = ECP2_toOctet M ecp2 compressed in
     if length S > 2 * 48 * 2 then Inl Out_of_bounds else Inr (concat (map hex2_upper S)))"

text \<open>The loop of both decoders from hexadecimal text to bytes.\<close>

definition hex_to_bytes :: "string \<Rightarrow> byte list result" where
  "hex_to_bytes hex_string = for_collect (int (length hex_string div 2))
     (\<lambda>i. of_option Indeterminate (sscanf_2hhx (take 2 (drop (nat (i * 2)) hex_string))))"

definition str_to_ECP2 ::
    "('big, 'ecp, 'ecp2, 'fp12, 'hash, 'rng) miracl \<Rightarrow> string \<Rightarrow> 'ecp2 result" where
  "str_to_ECP2 M hex_string =
     rbind (hex_to_bytes hex_string) (\<lambda>S. Inr (fst (ECP2_fromOctet M S)))"

definition FP12_to_str ::
    "('big, 'ecp, 'ecp2, 'fp12, 'hash, 'rng) miracl \<Rightarrow> 'fp12 \<Rightarrow> string result" where
  "FP12_to_str M fp12 =
    (let S = FP12_toOctet M fp12 in
     if length S > 24 * 48 then Inl Out_of_bounds else Inr (concat (map hex2_upper S)))"

definition str_to_FP12 ::
    "('big, 'ecp, 'ecp2, 'fp12, 'hash, 'rng) miracl \<Rightarrow> string \<Rightarrow> 'fp12 result" where
  "str_to_FP12 M hex_string =
     rbind (hex_to_bytes hex_string) (\<lambda>S. Inr (FP12_fromOctet M S))"

section \<open>Vectors\<close>

text \<open>
  The pieces both decoding loops visit: the text up to the next separator, again and again, and
  no piece after a final separator.
\<close>

function pieces :: "char \<Rightarrow> string \<Rightarrow> string list" where
  "pieces c s = (if s = [] then [] else case find_char c s of
     None \<Rightarrow> [s]
   | Some p \<Rightarrow> take p s # pieces c (drop (Suc p) s))"
  by auto
termination
  by (relation "measure (\<lambda>(c, s). length s)") auto

primrec traverse :: "('a \<Rightarrow> 'b result) \<Rightarrow> 'a list \<Rightarrow> 'b list result" where
  "traverse f [] = Inr []"
| "traverse f (x # xs) = rbind (f x) (\<lambda>y. rbind (traverse f xs) (\<lambda>ys. Inr (y # ys)))"

definition mpzArr_to_str :: "'rs gmp \<Rightarrow> int list \<Rightarrow> string" where
  "mpzArr_to_str G mpzs = concat (map (\<lambda>x. mpz_get_str G 10 x @ '','') mpzs)"

definition str_to_mpzArr :: "'rs gmp \<Rightarrow> string \<Rightarrow> int list result" where
  "str_to_mpzArr G str =
     traverse (\<lambda>item. of_option Invalid_argument (mpz_set_str G item 0)) (pieces CHR '','' str)"

text \<open>\<^verbatim>\<open>if (i != 0) oss << ";"\<close>: a separator before every element but the first.\<close>

fun join_semi :: "string list \<Rightarrow> string" where
  "join_semi [] = []"
| "join_semi [s] = s"
| "join_semi (s # t # ss) = s @ '';'' @ join_semi (t # ss)"

definition ECPArr_to_str ::
    "'rs gmp \<Rightarrow> ('big, 'ecp, 'ecp2, 'fp12, 'hash, 'rng) miracl \<Rightarrow> 'ecp list \<Rightarrow> string" where
  "ECPArr_to_str G M ecps = join_semi (map (ECP_to_str G M) ecps)"

definition str_to_ECPArr ::
    "('big, 'ecp, 'ecp2, 'fp12, 'hash, 'rng) miracl \<Rightarrow> string \<Rightarrow> 'ecp list result" where
  "str_to_ECPArr M str = traverse (str_to_ECP M) (pieces CHR '';'' str)"

definition ECP2Arr_to_str ::
    "('big, 'ecp, 'ecp2, 'fp12, 'hash, 'rng) miracl \<Rightarrow> 'ecp2 list \<Rightarrow> bool \<Rightarrow> string result" where
  "ECP2Arr_to_str M ecp2s compressed =
     rbind (traverse (\<lambda>p. ECP2_to_str M p compressed) ecp2s) (\<lambda>ss. Inr (join_semi ss))"

definition str_to_ECP2Arr ::
    "('big, 'ecp, 'ecp2, 'fp12, 'hash, 'rng) miracl \<Rightarrow> string \<Rightarrow> 'ecp2 list result" where
  "str_to_ECP2Arr M str = traverse (str_to_ECP2 M) (pieces CHR '';'' str)"

section \<open>Splitting and joining\<close>

declare pieces.simps [simp del]

lemma find_char_append: "c \<notin> set s \<Longrightarrow> find_char c (s @ c # t) = Some (length s)"
  by (induction s) auto

lemma find_char_None: "find_char c s = None \<longleftrightarrow> c \<notin> set s"
  by (induction s) auto

lemma pieces_Nil [simp]: "pieces c [] = []"
  by (simp add: pieces.simps)

lemma pieces_last: "c \<notin> set s \<Longrightarrow> s \<noteq> [] \<Longrightarrow> pieces c s = [s]"
  using find_char_None [of c s] by (simp add: pieces.simps)

lemma pieces_step: "c \<notin> set s \<Longrightarrow> pieces c (s @ c # t) = s # pieces c t"
  by (subst pieces.simps) (simp add: find_char_append)

lemma pieces_terminated:
  "list_all (\<lambda>s. c \<notin> set s) ss \<Longrightarrow> pieces c (concat (map (\<lambda>s. s @ [c]) ss)) = ss"
  by (induction ss) (simp_all add: pieces_step)

lemma pieces_join:
  "list_all (\<lambda>s. CHR '';'' \<notin> set s \<and> s \<noteq> []) ss \<Longrightarrow> pieces CHR '';'' (join_semi ss) = ss"
  by (induction ss rule: join_semi.induct) (simp_all add: pieces_last pieces_step)

lemma traverse_inv:
  assumes "\<And>x. x \<in> set xs \<Longrightarrow> \<exists>y. f x = Inr y \<and> Q x y"
  shows "\<exists>ys. traverse f xs = Inr ys \<and> list_all2 Q xs ys"
  using assms
proof (induction xs)
  case (Cons x xs)
  obtain y where "f x = Inr y" "Q x y" using Cons.prems [of x] by auto
  moreover obtain ys where "traverse f xs = Inr ys" "list_all2 Q xs ys" using Cons by auto
  ultimately show ?case by simp
qed simp

lemma traverse_map: "(\<And>x. x \<in> set xs \<Longrightarrow> f (g x) = Inr x) \<Longrightarrow> traverse f (map g xs) = Inr xs"
  by (induction xs) simp_all

lemma traverse_fault: "f x = Inl e \<Longrightarrow> (\<And>y. y \<in> set xs \<Longrightarrow> \<exists>z. f y = Inr z) \<Longrightarrow> traverse f (xs @ x # ys) = Inl e"
proof (induction xs)
  case (Cons a xs)
  then obtain z where "f a = Inr z" by auto
  with Cons show ?case by simp
qed simp

section \<open>Element codecs\<close>

text \<open>
  An element codec whose texts are not empty and do not contain the separator. \<open>ok\<close> are the
  values it is used on, and \<open>same\<close> says that decoding gave the encoded value back.
\<close>

locale sep_codec =
  fixes enc :: "'a \<Rightarrow> string result"
    and dec :: "string \<Rightarrow> 'a result"
    and ok :: "'a \<Rightarrow> bool"
    and same :: "'a \<Rightarrow> 'a \<Rightarrow> bool"
    and sep :: char
  assumes enc_text: "ok x \<Longrightarrow> \<exists>s. enc x = Inr s \<and> sep \<notin> set s \<and> s \<noteq> []"
    and dec_enc: "ok x \<Longrightarrow> enc x = Inr s \<Longrightarrow> \<exists>y. dec s = Inr y \<and> same x y"
begin

lemma encode_all:
  assumes "list_all ok xs"
  shows "\<exists>ss. traverse enc xs = Inr ss \<and> list_all (\<lambda>s. sep \<notin> set s \<and> s \<noteq> []) ss \<and>
    (\<exists>ys. traverse dec ss = Inr ys \<and> list_all2 same xs ys)"
  using assms
proof (induction xs)
  case (Cons x xs)
  then obtain s y where "enc x = Inr s" "sep \<notin> set s" "s \<noteq> []" "dec s = Inr y" "same x y"
    using enc_text [of x] dec_enc [of x] by auto
  moreover obtain ss ys where "traverse enc xs = Inr ss" "list_all (\<lambda>s. sep \<notin> set s \<and> s \<noteq> []) ss"
      "traverse dec ss = Inr ys" "list_all2 same xs ys"
    using Cons by auto
  ultimately show ?case by simp
qed simp

text \<open>Vectors written with a separator after every element, and decoded piece by piece.\<close>

lemma terminated_roundtrip:
  assumes "list_all ok xs"
  shows "\<exists>ss ys. traverse enc xs = Inr ss \<and>
    traverse dec (pieces sep (concat (map (\<lambda>s. s @ [sep]) ss))) = Inr ys \<and> list_all2 same xs ys"
proof -
  obtain ss ys where ss: "traverse enc xs = Inr ss" "list_all (\<lambda>s. sep \<notin> set s \<and> s \<noteq> []) ss"
      "traverse dec ss = Inr ys" "list_all2 same xs ys"
    using encode_all [OF assms] by blast
  moreover have "pieces sep (concat (map (\<lambda>s. s @ [sep]) ss)) = ss"
    using ss(2) by (intro pieces_terminated) (simp add: list_all_iff)
  ultimately show ?thesis by metis
qed

end

text \<open>The separator between the elements of the vectors of points is a semicolon.\<close>

locale semi_codec = sep_codec enc dec ok same "CHR '';''"
  for enc :: "'a \<Rightarrow> string result" and dec and ok and same
begin

lemma joined_roundtrip:
  assumes "list_all ok xs"
  shows "\<exists>ss ys. traverse enc xs = Inr ss \<and>
    traverse dec (pieces CHR '';'' (join_semi ss)) = Inr ys \<and> list_all2 same xs ys"
proof -
  obtain ss ys where "traverse enc xs = Inr ss" "list_all (\<lambda>s. CHR '';'' \<notin> set s \<and> s \<noteq> []) ss"
      "traverse dec ss = Inr ys" "list_all2 same xs ys"
    using encode_all [OF assms] by blast
  moreover from this(2) have "pieces CHR '';'' (join_semi ss) = ss" by (rule pieces_join)
  ultimately show ?thesis by metis
qed

end

subsection \<open>Numbers\<close>

context gmp_lib
begin

lemma str_to_mpz_to_str: "str_to_mpz G (mpz_to_str G x) = Inr x"
  by (simp add: str_to_mpz_def mpz_to_str_def get_set_str)

lemma str_to_mpz_invalid:
  "s = [] \<or> CHR '','' \<in> set s \<or> CHR '';'' \<in> set s \<Longrightarrow> str_to_mpz G s = Inl Invalid_argument"
  by (simp add: str_to_mpz_def set_str_invalid)

lemma mpz_to_str_chars:
  "CHR '','' \<notin> set (mpz_to_str G x)" "CHR '';'' \<notin> set (mpz_to_str G x)" "mpz_to_str G x \<noteq> []"
  using get_str_no_separator [of 16] get_str_nonempty [of 16] by (simp_all add: mpz_to_str_def)

end

sublocale gmp_lib \<subseteq> decimal: sep_codec "\<lambda>x. Inr (mpz_get_str G 10 x)"
    "\<lambda>s. of_option Invalid_argument (mpz_set_str G s 0)" "\<lambda>x. True" "(=)" "CHR '',''"
proof
  fix x :: int
  show "\<exists>s. Inr (mpz_get_str G 10 x) = Inr s \<and> CHR '','' \<notin> set s \<and> s \<noteq> []"
    using get_str_no_separator [of 10] get_str_nonempty [of 10] by simp
next
  fix x s
  assume "Inr (mpz_get_str G 10 x) = (Inr s :: string result)"
  then show "\<exists>y. of_option Invalid_argument (mpz_set_str G s 0) = Inr y \<and> x = y"
    using get_set_str_decimal [of x] by simp
qed

context gmp_lib
begin

lemma traverse_Inr: "traverse (\<lambda>x. Inr (f x)) xs = Inr (map f xs)"
  by (induction xs) simp_all

lemma str_to_mpzArr_to_str: "str_to_mpzArr G (mpzArr_to_str G xs) = Inr xs"
  using decimal.terminated_roundtrip [of xs]
  by (auto simp: str_to_mpzArr_def mpzArr_to_str_def traverse_Inr list.rel_eq comp_def list_all_iff)

end

subsection \<open>Points\<close>

lemma hex_to_bytes_concat: "hex_to_bytes (concat (map hex2_upper bs)) = Inr bs"
proof -
  have "for_collect (int (length bs))
      (\<lambda>i. of_option Indeterminate (sscanf_2hhx (take 2 (drop (nat (i * 2)) (concat (map hex2_upper bs)))))) =
    Inr (map (\<lambda>k. bs ! k) [0..<length bs])"
  proof (rule for_collect_map)
    fix k
    assume "k < length bs"
    then have "take 2 (drop (2 * k) (concat (map hex2_upper bs))) = hex2_upper (bs ! k)"
      by (intro take2_drop_concat) simp_all
    moreover have "nat (int k * 2) = 2 * k" by simp
    ultimately show "of_option Indeterminate
        (sscanf_2hhx (take 2 (drop (nat (int k * 2)) (concat (map hex2_upper bs))))) = Inr (bs ! k)"
      by (simp only: sscanf_2hhx_printed of_option_simps)
  qed
  then show ?thesis
    by (simp add: hex_to_bytes_def map_nth)
qed

lemma hex_concat_chars:
  "c \<in> set (concat (map hex2_upper bs)) \<Longrightarrow> is_hex c"
  using hex2_digits(2) by auto

context fussion_libs
begin

lemma coordinate_str:
  assumes "0 \<le> z" "z < 2 ^ 381"
  shows "\<exists>x. str_to_BIG M (mpz_to_str G z) = Inr x \<and> big_val V x = z"
proof -
  have s: "mpz_to_str G z = digits_in 16 (nat z)"
    using assms(1) by (simp add: mpz_to_str_def get_str_nonneg)
  have "nat z < 16 ^ Suc 95"
    using assms by (simp add: nat_less_iff)
  then have "length (digits_in 16 (nat z)) \<le> 96"
    using length_digits_in [of 16 "nat z" 95] by simp
  then obtain x where "str_to_BIG M (digits_in 16 (nat z)) = Inr x"
      "big_val V x = int (digits_val 16 (digits_in 16 (nat z)))"
    using str_to_BIG_val digits_in_digits [of 16] by fastforce
  with s assms(1) show ?thesis by simp
qed

lemma ECP_to_str_coordinates:
  assumes "inG1 V P" "dlog1 V P \<noteq> 0"
  shows "ECP_to_str G M P = mpz_to_str G (xcoord V P) @ '','' @ mpz_to_str G (ycoord V P)"
proof -
  obtain sgn x y where xy: "ECP_get M P = (sgn, x, y)" by (cases "ECP_get M P")
  have v: "big_val V x = xcoord V P" "big_val V y = ycoord V P" using get1 [OF assms xy] by auto
  have "BIG_to_mpz G M x = xcoord V P" "BIG_to_mpz G M y = ycoord V P"
    using coord1 [OF assms] v by (subst BIG_to_mpz_val; simp)+
  with xy show ?thesis by (simp add: ECP_to_str_def)
qed

lemma str_to_ECP_to_str:
  assumes "inG1 V P" "dlog1 V P \<noteq> 0"
  shows "\<exists>Q. str_to_ECP M (ECP_to_str G M P) = Inr Q \<and> inG1 V Q \<and> dlog1 V Q = dlog1 V P"
proof -
  obtain x where x: "str_to_BIG M (mpz_to_str G (xcoord V P)) = Inr x" "big_val V x = xcoord V P"
    using coordinate_str coord1(1) [OF assms] by blast
  obtain y where y: "str_to_BIG M (mpz_to_str G (ycoord V P)) = Inr y" "big_val V y = ycoord V P"
    using coordinate_str coord1(2) [OF assms] by blast
  obtain Q rc where Q: "ECP_set M x y = (Q, rc)" by fastforce
  have "str_to_ECP M (ECP_to_str G M P) = Inr Q"
    using x(1) y(1) Q find_char_append [OF mpz_to_str_chars(1)]
    by (simp add: str_to_ECP_def ECP_to_str_coordinates [OF assms])
  with set1 [OF assms x(2) y(2) Q] show ?thesis by simp
qed

lemma ECP2_to_str_compressed: "ECP2_to_str M Q True = Inr (concat (map hex2_upper (ECP2_toOctet M Q True)))"
  by (simp add: ECP2_to_str_def Let_def octet2_length)

lemma str_to_ECP2_to_str:
  assumes "inG2 V Q" "dlog2 V Q \<noteq> 0" "ECP2_to_str M Q c = Inr s"
  shows "\<exists>Q'. str_to_ECP2 M s = Inr Q' \<and> inG2 V Q' \<and> dlog2 V Q' = dlog2 V Q"
proof -
  obtain Q' rc where Q': "ECP2_fromOctet M (ECP2_toOctet M Q c) = (Q', rc)" by fastforce
  have "s = concat (map hex2_upper (ECP2_toOctet M Q c))"
    using assms(3) by (simp add: ECP2_to_str_def Let_def split: if_splits)
  with Q' octet2 [OF assms(1,2) Q'] show ?thesis
    by (simp add: str_to_ECP2_def hex_to_bytes_concat)
qed

lemma str_to_FP12_to_str: "\<exists>s. FP12_to_str M f = Inr s \<and> str_to_FP12 M s = Inr f"
  by (simp add: FP12_to_str_def str_to_FP12_def Let_def octet12_length hex_to_bytes_concat octet12)

end

sublocale fussion_libs \<subseteq> ecp: semi_codec "\<lambda>P. Inr (ECP_to_str G M P)" "str_to_ECP M"
    "\<lambda>P. inG1 V P \<and> dlog1 V P \<noteq> 0" "\<lambda>P Q. inG1 V Q \<and> dlog1 V Q = dlog1 V P"
proof
  fix P
  assume "inG1 V P \<and> dlog1 V P \<noteq> 0"
  then show "\<exists>s. Inr (ECP_to_str G M P) = Inr s \<and> CHR '';'' \<notin> set s \<and> s \<noteq> []"
    using mpz_to_str_chars by (simp add: ECP_to_str_coordinates)
next
  fix P s
  assume "inG1 V P \<and> dlog1 V P \<noteq> 0" "Inr (ECP_to_str G M P) = (Inr s :: string result)"
  then show "\<exists>Q. str_to_ECP M s = Inr Q \<and> inG1 V Q \<and> dlog1 V Q = dlog1 V P"
    using str_to_ECP_to_str by auto
qed

text \<open>Both forms of the points of \<open>G\<^sub>2\<close>, as far as they fit the buffer of \<^verbatim>\<open>ECP2_to_str\<close>.\<close>

sublocale fussion_libs \<subseteq> ecp2: semi_codec "\<lambda>Q. ECP2_to_str M Q c" "str_to_ECP2 M"
    "\<lambda>Q. (inG2 V Q \<and> dlog2 V Q \<noteq> 0) \<and> 0 < length (ECP2_toOctet M Q c) \<and> length (ECP2_toOctet M Q c) \<le> 192"
    "\<lambda>Q Q'. inG2 V Q' \<and> dlog2 V Q' = dlog2 V Q" for c
proof
  fix Q
  assume Q: "(inG2 V Q \<and> dlog2 V Q \<noteq> 0) \<and> 0 < length (ECP2_toOctet M Q c) \<and> length (ECP2_toOctet M Q c) \<le> 192"
  then have "0 < length (concat (map hex2_upper (ECP2_toOctet M Q c)))" by simp
  then show "\<exists>s. ECP2_to_str M Q c = Inr s \<and> CHR '';'' \<notin> set s \<and> s \<noteq> []"
    using Q hex_concat_chars [of "CHR '';''"] by (fastforce simp: ECP2_to_str_def Let_def simp del: length_hex2_concat)
next
  fix Q s
  assume "(inG2 V Q \<and> dlog2 V Q \<noteq> 0) \<and> 0 < length (ECP2_toOctet M Q c) \<and> length (ECP2_toOctet M Q c) \<le> 192" "ECP2_to_str M Q c = Inr s"
  then show "\<exists>Q'. str_to_ECP2 M s = Inr Q' \<and> inG2 V Q' \<and> dlog2 V Q' = dlog2 V Q"
    using str_to_ECP2_to_str by blast
qed

context fussion_libs
begin

lemma str_to_ECPArr_to_str:
  assumes "list_all (\<lambda>P. inG1 V P \<and> dlog1 V P \<noteq> 0) Ps"
  shows "\<exists>Qs. str_to_ECPArr M (ECPArr_to_str G M Ps) = Inr Qs \<and>
    list_all2 (\<lambda>P Q. inG1 V Q \<and> dlog1 V Q = dlog1 V P) Ps Qs"
  using ecp.joined_roundtrip [OF assms]
  by (auto simp: str_to_ECPArr_def ECPArr_to_str_def traverse_Inr)

lemma str_to_ECP2Arr_to_str:
  assumes "list_all (\<lambda>Q. inG2 V Q \<and> dlog2 V Q \<noteq> 0) Qs"
  shows "\<exists>s Qs'. ECP2Arr_to_str M Qs True = Inr s \<and> str_to_ECP2Arr M s = Inr Qs' \<and>
    list_all2 (\<lambda>Q Q'. inG2 V Q' \<and> dlog2 V Q' = dlog2 V Q) Qs Qs'"
  using ecp2.joined_roundtrip [of True Qs] assms
  by (auto simp: str_to_ECP2Arr_def ECP2Arr_to_str_def octet2_length)

lemma str_to_ECP2Arr_uncompressed:
  assumes "list_all (\<lambda>Q. inG2 V Q \<and> dlog2 V Q \<noteq> 0) Qs" and "list_all (\<lambda>Q. length (ECP2_toOctet M Q False) = 4 * 48) Qs"
  shows "\<exists>s Qs'. ECP2Arr_to_str M Qs False = Inr s \<and> str_to_ECP2Arr M s = Inr Qs' \<and>
    list_all2 (\<lambda>Q Q'. inG2 V Q' \<and> dlog2 V Q' = dlog2 V Q) Qs Qs'"
proof -
  have "list_all (\<lambda>Q. (inG2 V Q \<and> dlog2 V Q \<noteq> 0) \<and> 0 < length (ECP2_toOctet M Q False) \<and> length (ECP2_toOctet M Q False) \<le> 192) Qs"
    using assms by (auto simp: list_all_iff)
  from ecp2.joined_roundtrip [OF this] show ?thesis by (auto simp: str_to_ECP2Arr_def ECP2Arr_to_str_def)
qed

end

section \<open>Properties\<close>

text \<open>
  C26. A vector of integers, negative ones included, survives \<^verbatim>\<open>mpzArr_to_str\<close> and
  \<^verbatim>\<open>str_to_mpzArr\<close>.
\<close>

theorem mpzArr_roundtrip:
  assumes "gmp_lib G"
  shows "str_to_mpzArr G (mpzArr_to_str G xs) = Inr xs"
  by (rule gmp_lib.str_to_mpzArr_to_str [OF assms])

theorem mpzArr_roundtrip_witness:
  "str_to_mpzArr gmp_ref (mpzArr_to_str gmp_ref [12, -5, 0]) = Inr [12, -5, 0]"
  by (rule mpzArr_roundtrip [OF gref.gmp_lib_axioms])

text \<open>
  A vector of points of \<open>G\<^sub>1\<close> other than infinity survives \<^verbatim>\<open>ECPArr_to_str\<close> and
  \<^verbatim>\<open>str_to_ECPArr\<close>: as many points come back, each the same group element.
\<close>

theorem ECPArr_roundtrip:
  assumes "fussion_libs G M V" and "list_all (\<lambda>P. inG1 V P \<and> dlog1 V P \<noteq> 0) Ps"
  shows "\<exists>Qs. str_to_ECPArr M (ECPArr_to_str G M Ps) = Inr Qs \<and>
    list_all2 (\<lambda>P Q. inG1 V Q \<and> dlog1 V Q = dlog1 V P) Ps Qs"
  by (rule fussion_libs.str_to_ECPArr_to_str [OF assms])

theorem ECPArr_roundtrip_witness:
  "str_to_ECPArr miracl_ref (ECPArr_to_str gmp_ref miracl_ref [1, 1]) = Inr [1, 1]"
  using ECPArr_roundtrip [OF lref.fussion_libs_axioms, of "[1, 1]"]
  by (auto simp: meaning_ref_def list_all2_Cons1)

text \<open>
  C27. A vector of points of \<open>G\<^sub>2\<close> other than infinity survives \<^verbatim>\<open>ECP2Arr_to_str\<close> with compression
  and \<^verbatim>\<open>str_to_ECP2Arr\<close>.
\<close>

theorem ECP2Arr_roundtrip:
  assumes "fussion_libs G M V" and "list_all (\<lambda>Q. inG2 V Q \<and> dlog2 V Q \<noteq> 0) Qs"
  shows "\<exists>s Qs'. ECP2Arr_to_str M Qs True = Inr s \<and> str_to_ECP2Arr M s = Inr Qs' \<and>
    list_all2 (\<lambda>Q Q'. inG2 V Q' \<and> dlog2 V Q' = dlog2 V Q) Qs Qs'"
  by (rule fussion_libs.str_to_ECP2Arr_to_str [OF assms])

theorem ECP2Arr_roundtrip_witness:
  "\<exists>s. ECP2Arr_to_str miracl_ref [1, 1] True = Inr s \<and> str_to_ECP2Arr miracl_ref s = Inr [1, 1]"
  using ECP2Arr_roundtrip [OF lref.fussion_libs_axioms, of "[1, 1]"]
  by (auto simp: meaning_ref_def list_all2_Cons1)



end
