(* ===== verification/Rpc_Messages.thy ===== *)
theory Rpc_Messages
  imports BrpcTools Fussion
begin

text \<open>
  The messages of the three services (\<^verbatim>\<open>proto/TA.proto\<close>, \<^verbatim>\<open>UAV.proto\<close>, \<^verbatim>\<open>Agg.proto\<close>) as the programs
  see them through the generated accessors: a \<^verbatim>\<open>bytes\<close> field is a text, empty until it is set, and an
  \<^verbatim>\<open>int32\<close> field an integer, 0 until it is set. The RPC framework is an argument of the programs:
  what \<^verbatim>\<open>channel.Init\<close> returns for an address, what \<^verbatim>\<open>IsAskedToQuit\<close> answers, and the response to
  a call, \<open>None\<close> when \<^verbatim>\<open>cntl.Failed()\<close>.
\<close>

record UAVIDRequest =
  rq_uav_id :: string

record Parameters =
  pm_n :: int
  pm_tm :: int
  pm_q :: string
  pm_P2 :: string
  pm_g :: string
  pm_beta :: string
  pm_PK :: string

record UAVIDResponse =
  rs_params :: Parameters
  rs_cj :: string
  rs_sj :: string
  rs_M :: string
  rs_t :: int

record SignRequest =
  sq_M :: string
  sq_t :: int

record SignResponse =
  sr_cj :: string
  sr_sig :: string
  sr_ID :: string

record verifyRequest =
  vq_PK_v :: string

record verifyResponse =
  vr_auxs :: string
  vr_sigs :: string
  vr_IDs :: string

record ('req, 'resp) rpc =
  channel_Init :: "string \<Rightarrow> int"
  IsAskedToQuit :: "int \<Rightarrow> bool"
  rpc_call :: "string \<Rightarrow> 'req \<Rightarrow> 'resp option"

text \<open>
  The server side of the framework, with the return codes of \<^verbatim>\<open>AddService\<close>, \<^verbatim>\<open>str2endpoint\<close> and
  \<^verbatim>\<open>Start\<close>; \<open>ep_any\<close> is the end point of a port on any address.
\<close>

record 'ep server_api =
  AddService :: int
  str2endpoint :: "string \<Rightarrow> int \<times> 'ep"
  ep_any :: "int \<Rightarrow> 'ep"
  Start :: "'ep \<Rightarrow> int"

text \<open>
  The parameters of a response, decoded in the order in which all three clients read them; the
  statements are the same in \<^verbatim>\<open>registerUAV\<close>, \<^verbatim>\<open>getPpAndSk\<close> and \<^verbatim>\<open>getParams\<close>.
\<close>

definition decode_params ::
    "'rs gmp \<Rightarrow> ('big, 'ecp, 'ecp2, 'fp12, 'hash, 'rng) miracl \<Rightarrow> Parameters \<Rightarrow> 'ecp2 Params result" where
  "decode_params G M pm =
     rbind (str_to_mpz G (pm_q pm)) (\<lambda>q.
     rbind (str_to_mpz G (pm_g pm)) (\<lambda>g.
     rbind (str_to_mpz G (pm_beta pm)) (\<lambda>beta.
     rbind (str_to_ECP2 M (pm_P2 pm)) (\<lambda>P2.
     rbind (str_to_ECP2Arr M (pm_PK pm)) (\<lambda>PK.
     Inr \<lparr>pp_n = pm_n pm, pp_tm = pm_tm pm, pp_q = q, pp_P2 = P2, pp_g = g, pp_beta = beta, pp_PK = PK\<rparr>)))))"

end
