(* ===== verification/BrpcTA.thy ===== *)
theory BrpcTA
  imports Rpc_Messages Fussion_Run
begin

text \<open>
  The trusted authority, \<^verbatim>\<open>src/brpcTA.cpp\<close>: its global variables as a state, the initialisation,
  the registration handler and the start of the server.
\<close>

section \<open>Definitions\<close>

record ('ecp2, 'rs) TA_state =
  ta_state_gmp :: 'rs
  ta_state_TA :: 'rs
  ta_pp :: "'ecp2 Params"
  ta_sk :: int
  ta_d :: "int list"
  ta_b :: "int list"
  ta_M :: int
  ta_t :: int

text \<open>\<open>state_gmp\<close> is the random state of \<^verbatim>\<open>fussion.cpp\<close>, seeded by \<^verbatim>\<open>Setup\<close> and read by \<^verbatim>\<open>getUAV\<close>.\<close>

definition initParams ::
    "'rs gmp \<Rightarrow> ('big, 'ecp, 'ecp2, 'fp12, 'hash, 'rng) miracl \<Rightarrow> 64 word \<Rightarrow> 64 word \<Rightarrow>
      ('ecp2, 'rs) TA_state \<Rightarrow> ('ecp2, 'rs) TA_state result" where
  "initParams G M now now_setup ta =
    (let st0 = initState G now; n = 52; tm = 20 in
     rbind (Setup G M now_setup n tm) (\<lambda>(pp, sk, st_gmp).
     rbind (for_range 0 (tm - 1) (KeyGen_pairs G) (ta_b ta, ta_d ta, st0)) (\<lambda>(b, d, st1).
     rbind (getPK G M b) (\<lambda>PK.
     Inr \<lparr>ta_state_gmp = st_gmp, ta_state_TA = st1, ta_pp = pp\<lparr>pp_PK := PK\<rparr>, ta_sk = sk, ta_d = d, ta_b = b,
           ta_M = 123456789, ta_t = tm div 2 + 1\<rparr>))))"

definition isUAVh :: string where
  "isUAVh = ''6666666666666666666666666666666666666666666666666666666666666666''"

definition Register ::
    "'rs gmp \<Rightarrow> ('big, 'ecp, 'ecp2, 'fp12, 'hash, 'rng) miracl \<Rightarrow> ('ecp2, 'rs) TA_state \<Rightarrow> UAVIDRequest \<Rightarrow>
      (UAVIDResponse \<times> ('ecp2, 'rs) TA_state) result" where
  "Register G M ta request =
    (let pp = ta_pp ta in
     rbind (str_to_mpz G (rq_uav_id request)) (\<lambda>ident.
     rbind (ECP2_to_str M (pp_P2 pp) True) (\<lambda>p2.
     rbind (ECP2Arr_to_str M (pp_PK pp) True) (\<lambda>pk.
     let response = \<lparr>rs_params = \<lparr>pm_n = pp_n pp, pm_tm = pp_tm pp, pm_q = mpz_to_str G (pp_q pp), pm_P2 = p2,
                        pm_g = mpz_to_str G (pp_g pp), pm_beta = mpz_to_str G (pp_beta pp), pm_PK = pk\<rparr>,
                      rs_cj = [], rs_sj = [], rs_M = mpz_to_str G (ta_M ta), rs_t = ta_t ta\<rparr> in
     if rq_uav_id request \<noteq> isUAVh then
       rbind (getUAV G pp (ta_d ta) (ta_b ta) ident (ta_state_gmp ta)) (\<lambda>(uav, st).
       Inr (response\<lparr>rs_cj := mpzArr_to_str G (uav_c1 uav), rs_sj := mpzArr_to_str G (uav_c2 uav)\<rparr>,
            ta\<lparr>ta_state_gmp := st\<rparr>))
     else Inr (response\<lparr>rs_sj := mpz_to_str G (ta_sk ta)\<rparr>, ta)))))"

definition startServerTA :: "'ep server_api \<Rightarrow> string \<Rightarrow> int \<Rightarrow> int" where
  "startServerTA api listen_addr port_ta =
    (if AddService api \<noteq> 0 then -1
     else if listen_addr \<noteq> [] then
       (let (rc, point) = str2endpoint api listen_addr in
        if rc < 0 then -1 else if Start api point \<noteq> 0 then -1 else 1)
     else if Start api (ep_any api port_ta) \<noteq> 0 then -1 else 1)"

end
