(* ===== verification/BrpcUAV.thy ===== *)
theory BrpcUAV
  imports BrpcTA
begin

text \<open>The drone, \<^verbatim>\<open>src/brpcUAV.cpp\<close>: registration with the authority, and the signing service.\<close>

section \<open>Definitions\<close>

record ('ecp2, 'rs) UAV_state =
  uv_state_UAV :: 'rs
  uv_pp :: "'ecp2 Params"
  uv_uav :: UAV

definition sign ::
    "'rs gmp \<Rightarrow> ('big, 'ecp, 'ecp2, 'fp12, 'hash, 'rng) miracl \<Rightarrow> ('ecp2, 'rs) UAV_state \<Rightarrow> SignRequest \<Rightarrow>
      SignResponse result" where
  "sign G M uv request =
     rbind (str_to_mpz G (sq_M request)) (\<lambda>m.
     rbind (Sign G M (uv_pp uv) (uv_uav uv) (sq_t request) m) (\<lambda>sig.
     Inr \<lparr>sr_cj = mpz_to_str G (ps_cj sig), sr_sig = ECP_to_str G M (ps_sig sig), sr_ID = mpz_to_str G (ps_ID sig)\<rparr>))"

text \<open>The return value comes with the state; a failed call only logs a warning.\<close>

definition registerUAV ::
    "'rs gmp \<Rightarrow> ('big, 'ecp, 'ecp2, 'fp12, 'hash, 'rng) miracl \<Rightarrow> (UAVIDRequest, UAVIDResponse) rpc \<Rightarrow> string \<Rightarrow>
      64 word \<Rightarrow> ('ecp2, 'rs) UAV_state \<Rightarrow> (int \<times> ('ecp2, 'rs) UAV_state) result" where
  "registerUAV G M net serverTA now uv =
    (if channel_Init net serverTA \<noteq> 0 then Inr (-1, uv)
     else if \<not> IsAskedToQuit net 0 then
       (let st0 = initState G now; (ident, st1) = rand_mpz G st0; uv1 = uv\<lparr>uv_state_UAV := st1\<rparr> in
        case rpc_call net serverTA \<lparr>rq_uav_id = mpz_to_str G ident\<rparr> of
          Some response \<Rightarrow>
            rbind (decode_params G M (rs_params response)) (\<lambda>pp.
            rbind (str_to_mpzArr G (rs_cj response)) (\<lambda>c1.
            rbind (str_to_mpzArr G (rs_sj response)) (\<lambda>c2.
            Inr (1, uv1\<lparr>uv_pp := pp, uv_uav := \<lparr>uav_c1 = c1, uav_c2 = c2, uav_ID = ident\<rparr>\<rparr>))))
        | None \<Rightarrow> Inr (1, uv1))
     else Inr (1, uv))"

definition startUAVServer :: "'ep server_api \<Rightarrow> string \<Rightarrow> int \<Rightarrow> int" where
  "startUAVServer api listen_addr port_UAV =
    (if AddService api \<noteq> 0 then -1
     else if listen_addr \<noteq> [] then
       (let (rc, point) = str2endpoint api listen_addr in
        if rc < 0 then -1 else if Start api point \<noteq> 0 then -1 else 1)
     else if Start api (ep_any api port_UAV) \<noteq> 0 then -1 else 1)"

end
