(* ===== verification/BrpcAgg.thy ===== *)
theory BrpcAgg
  imports BrpcUAV
begin

text \<open>
  The cluster head, \<^verbatim>\<open>src/brpcAgg.cpp\<close>: it obtains the parameters and its key from the authority,
  collects partial signatures from the drones and serves their transformation to verifiers.
\<close>

section \<open>Definitions\<close>

record ('ecp, 'ecp2, 'rs) Agg_state =
  ag_state_gmp :: 'rs
  ag_state_Agg :: 'rs
  ag_pp :: "'ecp2 Params"
  ag_uavH :: UAV_h
  ag_M :: int
  ag_t :: int
  ag_sigmas :: "'ecp parSig list"

definition Tran ::
    "'rs gmp \<Rightarrow> ('big, 'ecp, 'ecp2, 'fp12, 'hash, 'rng) miracl \<Rightarrow> 64 word \<Rightarrow> ('ecp, 'ecp2, 'rs) Agg_state \<Rightarrow>
      verifyRequest \<Rightarrow> (verifyResponse \<times> ('ecp, 'ecp2, 'rs) Agg_state) result" where
  "Tran G M now ag request =
     rbind (str_to_mpz G (vq_PK_v request)) (\<lambda>PK_v.
     rbind (AggSig G M now (ag_sigmas ag) (ag_pp ag) (ag_uavH ag) PK_v) (\<lambda>(sig, st).
     Inr (\<lparr>vr_auxs = mpzArr_to_str G (sg_aux sig), vr_sigs = ECPArr_to_str G M (sg_sig sig),
            vr_IDs = mpzArr_to_str G (sg_IDs sig)\<rparr>, ag\<lparr>ag_state_gmp := st\<rparr>)))"

definition head_id :: int where
  "head_id = 0x6666666666666666666666666666666666666666666666666666666666666666"

definition getPpAndSk ::
    "'rs gmp \<Rightarrow> ('big, 'ecp, 'ecp2, 'fp12, 'hash, 'rng) miracl \<Rightarrow> (UAVIDRequest, UAVIDResponse) rpc \<Rightarrow> string \<Rightarrow>
      64 word \<Rightarrow> ('ecp, 'ecp2, 'rs) Agg_state \<Rightarrow> (int \<times> ('ecp, 'ecp2, 'rs) Agg_state) result" where
  "getPpAndSk G M net serverTA now ag =
    (if channel_Init net serverTA \<noteq> 0 then Inr (-1, ag)
     else if \<not> IsAskedToQuit net 0 then
       (let ag1 = ag\<lparr>ag_state_Agg := initState G now\<rparr> in
        case rpc_call net serverTA \<lparr>rq_uav_id = mpz_to_str G head_id\<rparr> of
          Some response \<Rightarrow>
            rbind (decode_params G M (rs_params response)) (\<lambda>pp.
            rbind (str_to_mpz G (rs_sj response)) (\<lambda>alpha.
            rbind (str_to_mpz G (rs_M response)) (\<lambda>m.
            Inr (1, ag1\<lparr>ag_pp := pp, ag_uavH := \<lparr>uavH_ID = head_id, uavH_alpha = alpha\<rparr>,
                        ag_M := m, ag_t := rs_t response\<rparr>))))
        | None \<Rightarrow> Inr (1, ag1))
     else Inr (1, ag))"

definition server_address :: "int \<Rightarrow> string" where
  "server_address port = ''0.0.0.0:'' @ digits_in 10 (nat port)"

definition decode_parSig ::
    "'rs gmp \<Rightarrow> ('big, 'ecp, 'ecp2, 'fp12, 'hash, 'rng) miracl \<Rightarrow> SignResponse \<Rightarrow> 'ecp parSig result" where
  "decode_parSig G M response =
     rbind (str_to_mpz G (sr_cj response)) (\<lambda>cj.
     rbind (str_to_mpz G (sr_ID response)) (\<lambda>ident.
     rbind (str_to_ECP M (sr_sig response)) (\<lambda>sig.
     Inr \<lparr>ps_cj = cj, ps_sig = sig, ps_ID = ident\<rparr>)))"

text \<open>
  The loop over the drones, from port \<^verbatim>\<open>8002 + i\<close> on with \<open>k\<close> rounds left; a failed
  \<^verbatim>\<open>channel.Init\<close> returns at once, a failed call skips the drone. \<open>now\<close> gives the clock readings.
\<close>

primrec collect_loop ::
    "'rs gmp \<Rightarrow> ('big, 'ecp, 'ecp2, 'fp12, 'hash, 'rng) miracl \<Rightarrow> (SignRequest, SignResponse) rpc \<Rightarrow> (int \<Rightarrow> 64 word) \<Rightarrow>
      nat \<Rightarrow> int \<Rightarrow> ('ecp, 'ecp2, 'rs) Agg_state \<Rightarrow> (int \<times> ('ecp, 'ecp2, 'rs) Agg_state) result" where
  "collect_loop G M net now 0 i ag = Inr (1, ag)"
| "collect_loop G M net now (Suc k) i ag =
    (let address = server_address (8002 + i) in
     if channel_Init net address \<noteq> 0 then Inr (-1, ag)
     else if \<not> IsAskedToQuit net i then
       (let ag1 = ag\<lparr>ag_state_Agg := initState G (now i)\<rparr> in
        case rpc_call net address \<lparr>sq_M = mpz_to_str G (ag_M ag), sq_t = ag_t ag\<rparr> of
          Some response \<Rightarrow>
            rbind (decode_parSig G M response) (\<lambda>sigma.
            collect_loop G M net now k (i + 1) (ag1\<lparr>ag_sigmas := ag_sigmas ag @ [sigma]\<rparr>))
        | None \<Rightarrow> collect_loop G M net now k (i + 1) ag1)
     else collect_loop G M net now k (i + 1) ag)"

definition collectParSigs ::
    "'rs gmp \<Rightarrow> ('big, 'ecp, 'ecp2, 'fp12, 'hash, 'rng) miracl \<Rightarrow> (SignRequest, SignResponse) rpc \<Rightarrow> (int \<Rightarrow> 64 word) \<Rightarrow>
      ('ecp, 'ecp2, 'rs) Agg_state \<Rightarrow> (int \<times> ('ecp, 'ecp2, 'rs) Agg_state) result" where
  "collectParSigs G M net now ag = collect_loop G M net now (nat (ag_t ag)) 0 ag"

definition startServerTran :: "'ep server_api \<Rightarrow> string \<Rightarrow> int \<Rightarrow> int" where
  "startServerTran api listen_addr port_agg =
    (if AddService api \<noteq> 0 then -1
     else if listen_addr \<noteq> [] then
       (let (rc, point) = str2endpoint api listen_addr in
        if rc < 0 then -1 else if Start api point \<noteq> 0 then -1 else 1)
     else if Start api (ep_any api port_agg) \<noteq> 0 then -1 else 1)"

end
