(* ===== verification/BrpcVerifier.thy ===== *)
theory BrpcVerifier
  imports BrpcAgg
begin

text \<open>
  The verifier, \<^verbatim>\<open>src/brpcVerifier.cpp\<close>: it obtains the parameters from the authority, asks the
  cluster head for the aggregate under a fresh key, and prints the result of \<^verbatim>\<open>Verify\<close>.
\<close>

section \<open>Definitions\<close>

record ('ecp2, 'rs) Ver_state =
  ve_state_ver :: 'rs
  ve_params :: "'ecp2 Params"
  ve_T :: int
  ve_Msg :: int

definition getParams ::
    "'rs gmp \<Rightarrow> ('big, 'ecp, 'ecp2, 'fp12, 'hash, 'rng) miracl \<Rightarrow> (UAVIDRequest, UAVIDResponse) rpc \<Rightarrow> string \<Rightarrow>
      64 word \<Rightarrow> ('ecp2, 'rs) Ver_state \<Rightarrow> (int \<times> ('ecp2, 'rs) Ver_state) result" where
  "getParams G M net serverTA now ve =
    (if channel_Init net serverTA \<noteq> 0 then Inr (-1, ve)
     else if \<not> IsAskedToQuit net 0 then
       (let st0 = initState G now; (ident, st1) = rand_mpz G st0; ve1 = ve\<lparr>ve_state_ver := st1\<rparr> in
        case rpc_call net serverTA \<lparr>rq_uav_id = mpz_to_str G ident\<rparr> of
          Some response \<Rightarrow>
            rbind (decode_params G M (rs_params response)) (\<lambda>pp.
            rbind (str_to_mpz G (rs_M response)) (\<lambda>m.
            Inr (1, ve1\<lparr>ve_params := pp, ve_T := rs_t response, ve_Msg := m\<rparr>)))
        | None \<Rightarrow> Inr (1, ve1))
     else Inr (1, ve))"

text \<open>The second component is what is printed after \<^verbatim>\<open>verify result =\<close>, if anything.\<close>

definition verifySignature ::
    "'rs gmp \<Rightarrow> ('big, 'ecp, 'ecp2, 'fp12, 'hash, 'rng) miracl \<Rightarrow> (verifyRequest, verifyResponse) rpc \<Rightarrow> string \<Rightarrow>
      64 word \<Rightarrow> ('ecp2, 'rs) Ver_state \<Rightarrow> (int \<times> int option \<times> ('ecp2, 'rs) Ver_state) result" where
  "verifySignature G M net server_agg now ve =
    (if channel_Init net server_agg \<noteq> 0 then Inr (-1, None, ve)
     else if \<not> IsAskedToQuit net 0 then
       (let st0 = initState G now; (sk_v, st1) = rand_mpz G st0; ve1 = ve\<lparr>ve_state_ver := st1\<rparr> in
        rbind (pow_mpz G (pp_g (ve_params ve)) sk_v (pp_q (ve_params ve))) (\<lambda>PK_v.
        case rpc_call net server_agg \<lparr>vq_PK_v = mpz_to_str G PK_v\<rparr> of
          Some response \<Rightarrow>
            rbind (str_to_mpzArr G (vr_auxs response)) (\<lambda>aux.
            rbind (str_to_mpzArr G (vr_IDs response)) (\<lambda>IDs.
            rbind (str_to_ECPArr M (vr_sigs response)) (\<lambda>sigs.
            rbind (Verify G M \<lparr>sg_aux = aux, sg_sig = sigs, sg_IDs = IDs\<rparr> sk_v (ve_params ve) (ve_Msg ve) (ve_T ve)) (\<lambda>res.
            Inr (1, Some res, ve1)))))
        | None \<Rightarrow> Inr (1, None, ve1)))
     else Inr (1, None, ve))"

text \<open>\<^verbatim>\<open>main\<close> ignores both return values and returns 0.\<close>

definition verifier_main ::
    "'rs gmp \<Rightarrow> ('big, 'ecp, 'ecp2, 'fp12, 'hash, 'rng) miracl \<Rightarrow> (UAVIDRequest, UAVIDResponse) rpc \<Rightarrow>
      (verifyRequest, verifyResponse) rpc \<Rightarrow> string \<Rightarrow> string \<Rightarrow> 64 word \<Rightarrow> 64 word \<Rightarrow> ('ecp2, 'rs) Ver_state \<Rightarrow>
      (int \<times> int option \<times> ('ecp2, 'rs) Ver_state) result" where
  "verifier_main G M netTA netAgg serverTA server_agg now now' ve =
     rbind (getParams G M netTA serverTA now ve) (\<lambda>(rc, ve1).
     rbind (verifySignature G M netAgg server_agg now' ve1) (\<lambda>(rc', printed, ve2).
     Inr (0, printed, ve2)))"

end
