(* ===== verification/Network_Params.thy ===== *)
theory Network_Params
  imports BrpcVerifier
begin

text \<open>
  What travels through the registration service: the parameters and shares that the authority
  encodes are the ones its clients decode. Points come back as points with the same exponent.
\<close>

section \<open>Parameters that were sent and received\<close>

definition same_params :: "('big, 'ecp, 'ecp2) meaning \<Rightarrow> 'ecp2 Params \<Rightarrow> 'ecp2 Params \<Rightarrow> bool" where
  "same_params V pp pp' \<longleftrightarrow> pp_n pp' = pp_n pp \<and> pp_tm pp' = pp_tm pp \<and> pp_q pp' = pp_q pp \<and>
     pp_g pp' = pp_g pp \<and> pp_beta pp' = pp_beta pp \<and>
     inG2 V (pp_P2 pp') \<and> dlog2 V (pp_P2 pp') = dlog2 V (pp_P2 pp) \<and>
     list_all2 (\<lambda>Q Q'. inG2 V Q' \<and> dlog2 V Q' = dlog2 V Q) (pp_PK pp) (pp_PK pp')"

lemma same_params_encrypts: "same_params V pp pp' \<Longrightarrow> encrypts pp' = encrypts pp"
  by (intro ext) (simp add: same_params_def encrypts_def)

lemma same_params_share: "same_params V pp pp' \<Longrightarrow> share_of pp' = share_of pp"
  by (intro ext) (simp add: share_of_def same_params_encrypts)

lemma same_params_parsig: "same_params V pp pp' \<Longrightarrow> parsig_of V pp' = parsig_of V pp"
  by (intro ext) (simp add: parsig_of_def same_params_encrypts)

lemma same_params_for: "same_params V pp pp' \<Longrightarrow> params_for V pp alpha \<Longrightarrow> params_for V pp' alpha"
  by (simp add: same_params_def params_for_def)

lemma same_params_keys:
  assumes "same_params V pp pp'" and "keys_for V pp d b UAVs"
  shows "keys_for V pp' d b UAVs"
  using assms same_params_share [OF assms(1)]
  by (auto simp: keys_for_def same_params_def list_all2_conv_all_nth)

section \<open>The authority\<close>

text \<open>
  The authority after its initialisation: parameters and keys that fit together, and coefficients
  that are not zero in the field, so that no public key is the point at infinity.
\<close>

definition ta_ok :: "('big, 'ecp, 'ecp2) meaning \<Rightarrow> ('ecp2, 'rs) TA_state \<Rightarrow> bool" where
  "ta_ok V ta \<longleftrightarrow> params_for V (ta_pp ta) (ta_sk ta) \<and> keys_for V (ta_pp ta) (ta_d ta) (ta_b ta) [] \<and>
     int (length (ta_b ta)) = pp_tm (ta_pp ta) - 1 \<and>
     list_all (\<lambda>x. 0 \<le> x) (ta_d ta) \<and> list_all (\<lambda>x. 0 \<le> x \<and> fe x \<noteq> 0) (ta_b ta)"

definition ta_empty :: "'ecp2 Params \<Rightarrow> 'rs \<Rightarrow> ('ecp2, 'rs) TA_state" where
  "ta_empty pp st = \<lparr>ta_state_gmp = st, ta_state_TA = st, ta_pp = pp, ta_sk = 0, ta_d = [], ta_b = [], ta_M = 0, ta_t = 0\<rparr>"

lemma digit_char_6: "digit_char 6 = CHR ''6''"
  by (simp add: digit_char_def char_of_def bit_Suc_0_iff)

context fussion_libs
begin

lemma initParams_ta:
  "\<exists>ta. initParams G M now now' (ta_empty pp0 st) = Inr ta \<and> params_for V (ta_pp ta) (ta_sk ta) \<and>
    keys_for V (ta_pp ta) (ta_d ta) (ta_b ta) [] \<and> int (length (ta_b ta)) = pp_tm (ta_pp ta) - 1 \<and>
    list_all (\<lambda>x. 1 \<le> x \<and> x \<le> curve_order) (ta_d ta) \<and> list_all (\<lambda>x. 1 \<le> x \<and> x \<le> curve_order) (ta_b ta) \<and>
    pp_n (ta_pp ta) = 52 \<and> pp_tm (ta_pp ta) = 20 \<and> ta_t ta = 11 \<and> ta_M ta = 123456789"
proof -
  obtain pp sk st1 where s: "Setup G M now' 52 20 = Inr (pp, sk, st1)"
    using Setup_params [of now' 52 20] by auto
  note pp = Setup_params_for [OF s]
  obtain b d st2 where bd: "for_range 0 (int 19) (KeyGen_pairs G) ([], [], initState G now) = Inr (b, d, st2)"
      "length b = 19" "length d = 19" "list_all (\<lambda>x. 1 \<le> x \<and> x \<le> curve_order) b"
      "list_all (\<lambda>x. 1 \<le> x \<and> x \<le> curve_order) d"
    using KeyGen_pairs_loop by blast
  have "list_all (\<lambda>x. 0 \<le> x \<and> x < 2 ^ 256) b"
    using bd(4) order_below(1) by (fastforce simp: list_all_iff)
  moreover have "b \<noteq> []" using bd(2) by auto
  ultimately obtain PK where PK: "getPK G M b = Inr PK" "length PK = length b"
      "\<And>k. k < length b \<Longrightarrow> inG2 V (PK ! k) \<and> dlog2 V (PK ! k) = (\<Prod>i\<le>k. fe (b ! i))"
    using getPK_keys by blast
  have "keys_for V (pp\<lparr>pp_PK := PK\<rparr>) d b []"
    using bd(2,3) PK(2,3) by (simp add: keys_for_def)
  with s bd PK(1) pp show ?thesis
    by (simp add: initParams_def ta_empty_def)
qed

lemma PK_nonzero:
  assumes "ta_ok V ta"
  shows "list_all (\<lambda>Q. inG2 V Q \<and> dlog2 V Q \<noteq> 0) (pp_PK (ta_pp ta))"
proof -
  have "(\<Prod>i\<le>k. fe (ta_b ta ! i)) \<noteq> 0" if "k < length (ta_b ta)" for k
    using assms that by (auto simp: ta_ok_def list_all_length)
  then show ?thesis
    using assms by (simp add: ta_ok_def keys_for_def list_all_length)
qed

text \<open>The encoded parameters decode to the same parameters.\<close>

lemma params_roundtrip:
  assumes "ta_ok V ta"
  shows "\<exists>p2 pk pp'. ECP2_to_str M (pp_P2 (ta_pp ta)) True = Inr p2 \<and>
    ECP2Arr_to_str M (pp_PK (ta_pp ta)) True = Inr pk \<and>
    decode_params G M \<lparr>pm_n = pp_n (ta_pp ta), pm_tm = pp_tm (ta_pp ta), pm_q = mpz_to_str G (pp_q (ta_pp ta)),
      pm_P2 = p2, pm_g = mpz_to_str G (pp_g (ta_pp ta)), pm_beta = mpz_to_str G (pp_beta (ta_pp ta)),
      pm_PK = pk\<rparr> = Inr pp' \<and> same_params V (ta_pp ta) pp'"
proof -
  let ?pp = "ta_pp ta"
  have P2: "inG2 V (pp_P2 ?pp)" "dlog2 V (pp_P2 ?pp) \<noteq> 0"
    using assms by (auto simp: ta_ok_def params_for_def)
  obtain p2 where p2: "ECP2_to_str M (pp_P2 ?pp) True = Inr p2"
    using ECP2_to_str_compressed by blast
  obtain P2' where P2': "str_to_ECP2 M p2 = Inr P2'" "inG2 V P2'" "dlog2 V P2' = dlog2 V (pp_P2 ?pp)"
    using str_to_ECP2_to_str [OF P2 p2] by blast
  obtain pk PK' where pk: "ECP2Arr_to_str M (pp_PK ?pp) True = Inr pk" "str_to_ECP2Arr M pk = Inr PK'"
      "list_all2 (\<lambda>Q Q'. inG2 V Q' \<and> dlog2 V Q' = dlog2 V Q) (pp_PK ?pp) PK'"
    using str_to_ECP2Arr_to_str [OF PK_nonzero [OF assms]] by blast
  show ?thesis
    using p2 P2' pk by (auto simp: decode_params_def str_to_mpz_to_str same_params_def)
qed

text \<open>A registration under an identity that is not the head's returns a share for it.\<close>

lemma Register_share:
  assumes "ta_ok V ta" and "0 \<le> ident" and "mpz_to_str G ident \<noteq> isUAVh"
  shows "\<exists>resp st uav pp'. Register G M ta \<lparr>rq_uav_id = mpz_to_str G ident\<rparr> = Inr (resp, ta\<lparr>ta_state_gmp := st\<rparr>) \<and>
    decode_params G M (rs_params resp) = Inr pp' \<and> same_params V (ta_pp ta) pp' \<and>
    str_to_mpzArr G (rs_cj resp) = Inr (uav_c1 uav) \<and> str_to_mpzArr G (rs_sj resp) = Inr (uav_c2 uav) \<and>
    uav_ID uav = ident \<and> share_of (ta_pp ta) (ta_d ta) (ta_b ta) uav \<and>
    str_to_mpz G (rs_M resp) = Inr (ta_M ta) \<and> rs_t resp = ta_t ta"
proof -
  have ok: "pp_q (ta_pp ta) = curve_order" "length (ta_b ta) \<le> length (ta_d ta)"
      "list_all (\<lambda>x. 0 \<le> x) (ta_d ta)" "list_all (\<lambda>x. 0 \<le> x) (ta_b ta)"
    using assms(1) by (auto simp: ta_ok_def params_for_def keys_for_def list_all_iff)
  obtain uav st where uav: "getUAV G (ta_pp ta) (ta_d ta) (ta_b ta) ident (ta_state_gmp ta) = Inr (uav, st)"
      "share_of (ta_pp ta) (ta_d ta) (ta_b ta) uav" "uav_ID uav = ident"
    using getUAV_share [OF ok(1,2) assms(2) ok(3,4), of "ta_state_gmp ta"] by blast
  show ?thesis
    using params_roundtrip [OF assms(1)] uav assms(3)
    by (auto simp: Register_def Let_def str_to_mpz_to_str str_to_mpzArr_to_str)
qed

text \<open>A registration under the head's identity returns the secret exponent.\<close>

lemma Register_head:
  assumes "ta_ok V ta" and "mpz_to_str G ident = isUAVh"
  shows "\<exists>resp pp'. Register G M ta \<lparr>rq_uav_id = isUAVh\<rparr> = Inr (resp, ta) \<and>
    decode_params G M (rs_params resp) = Inr pp' \<and> same_params V (ta_pp ta) pp' \<and>
    str_to_mpz G (rs_sj resp) = Inr (ta_sk ta) \<and>
    str_to_mpz G (rs_M resp) = Inr (ta_M ta) \<and> rs_t resp = ta_t ta"
  using params_roundtrip [OF assms(1)] str_to_mpz_to_str [of ident]
  by (auto simp: Register_def Let_def str_to_mpz_to_str assms(2))

lemma head_id_text: "mpz_to_str G ident = isUAVh \<longleftrightarrow> ident = head_id"
proof -
  have d: "list_all (is_digit 16) isUAVh" "isUAVh \<noteq> []"
    by (simp_all add: isUAVh_def is_digit_def digit_val_def)
  have "digits_val 16 isUAVh = nat head_id"
    by (simp add: isUAVh_def digits_val_def digit_of_def digit_val_def head_id_def)
  then have set: "mpz_set_str G isUAVh 16 = Some head_id"
    using set_str_digits [OF _ _ d(2,1)] by (simp add: head_id_def)
  have get: "mpz_set_str G (mpz_to_str G x) 16 = Some x" for x
    by (simp add: mpz_to_str_def get_set_str)
  have "mpz_to_str G head_id = isUAVh"
    by (simp add: mpz_to_str_def get_str_nonneg head_id_def isUAVh_def digits_in_step digits_in_small digit_char_6)
  with set get show ?thesis by (metis option.inject)
qed

end

end
