(* ===== verification/Network_Run.thy ===== *)
theory Network_Run
  imports Network_Params
begin

text \<open>
  The programs together: drones and cluster head register with the authority, the head collects
  partial signatures, and a verifier obtains and checks the aggregate. \<open>connect\<close> is a network that
  delivers every request to a handler; a handler that faults gives a failed call.
\<close>

section \<open>Connected programs\<close>

definition connect :: "(string \<Rightarrow> 'req \<Rightarrow> 'resp result) \<Rightarrow> ('req, 'resp) rpc" where
  "connect handler = \<lparr>channel_Init = (\<lambda>address. 0), IsAskedToQuit = (\<lambda>i. False),
     rpc_call = (\<lambda>address req. case handler address req of Inl e \<Rightarrow> None | Inr resp \<Rightarrow> Some resp)\<rparr>"

lemma connect_simps [simp]:
  "channel_Init (connect h) a = 0" "IsAskedToQuit (connect h) i = False"
  "h a req = Inr resp \<Longrightarrow> rpc_call (connect h) a req = Some resp"
  by (simp_all add: connect_def)

definition TA_handler ::
    "'rs gmp \<Rightarrow> ('big, 'ecp, 'ecp2, 'fp12, 'hash, 'rng) miracl \<Rightarrow> ('ecp2, 'rs) TA_state \<Rightarrow> string \<Rightarrow> UAVIDRequest \<Rightarrow>
      UAVIDResponse result" where
  "TA_handler G M ta address req = rbind (Register G M ta req) (\<lambda>(resp, ta'). Inr resp)"

definition Agg_handler ::
    "'rs gmp \<Rightarrow> ('big, 'ecp, 'ecp2, 'fp12, 'hash, 'rng) miracl \<Rightarrow> 64 word \<Rightarrow> ('ecp, 'ecp2, 'rs) Agg_state \<Rightarrow> string \<Rightarrow>
      verifyRequest \<Rightarrow> verifyResponse result" where
  "Agg_handler G M now ag address req = rbind (Tran G M now ag req) (\<lambda>(resp, ag'). Inr resp)"

text \<open>A drone that holds a share of the authority's keys and the authority's parameters.\<close>

definition uav_ready ::
    "('big, 'ecp, 'ecp2) meaning \<Rightarrow> ('ecp2, 'rs) TA_state \<Rightarrow> ('ecp2, 'rs) UAV_state \<Rightarrow> bool" where
  "uav_ready V ta uv \<longleftrightarrow> same_params V (ta_pp ta) (uv_pp uv) \<and> share_of (ta_pp ta) (ta_d ta) (ta_b ta) (uv_uav uv)"

text \<open>The linear factors of the polynomial for the threshold \<open>t\<close>.\<close>

definition ta_factors :: "('ecp2, 'rs) TA_state \<Rightarrow> int \<Rightarrow> (zq \<times> zq) list" where
  "ta_factors ta t = take (nat (t - 1)) (factors_of (ta_d ta) (ta_b ta))"

context fussion_libs
begin

lemma registerUAV_ready:
  assumes "ta_ok V ta" and "rand_mpz G (initState G now) = (ident, st)" and "ident \<noteq> head_id"
  shows "\<exists>uv'. registerUAV G M (connect (TA_handler G M ta)) addr now uv = Inr (1, uv') \<and>
    uav_ready V ta uv' \<and> uav_ID (uv_uav uv') = ident"
proof -
  have "0 \<le> ident" using rand_mpz_range(1) [OF assms(2)] by simp
  moreover have "mpz_to_str G ident \<noteq> isUAVh" using assms(3) head_id_text by simp
  ultimately obtain resp st' uav pp' where
    r: "Register G M ta \<lparr>rq_uav_id = mpz_to_str G ident\<rparr> = Inr (resp, ta\<lparr>ta_state_gmp := st'\<rparr>)"
      "decode_params G M (rs_params resp) = Inr pp'" "same_params V (ta_pp ta) pp'"
      "str_to_mpzArr G (rs_cj resp) = Inr (uav_c1 uav)" "str_to_mpzArr G (rs_sj resp) = Inr (uav_c2 uav)"
      "uav_ID uav = ident" "share_of (ta_pp ta) (ta_d ta) (ta_b ta) uav"
    using Register_share [OF assms(1)] by blast
  have "TA_handler G M ta addr \<lparr>rq_uav_id = mpz_to_str G ident\<rparr> = Inr resp"
    using r(1) by (simp add: TA_handler_def)
  with r(2-7) assms(2) show ?thesis
    by (simp add: registerUAV_def uav_ready_def share_of_def)
qed

lemma getPpAndSk_head:
  assumes "ta_ok V ta"
  shows "\<exists>ag'. getPpAndSk G M (connect (TA_handler G M ta)) addr now ag = Inr (1, ag') \<and>
    same_params V (ta_pp ta) (ag_pp ag') \<and> uavH_alpha (ag_uavH ag') = ta_sk ta \<and>
    ag_M ag' = ta_M ta \<and> ag_t ag' = ta_t ta \<and> ag_sigmas ag' = ag_sigmas ag"
proof -
  have id: "mpz_to_str G head_id = isUAVh" using head_id_text by simp
  obtain resp pp' where r: "Register G M ta \<lparr>rq_uav_id = isUAVh\<rparr> = Inr (resp, ta)"
      "decode_params G M (rs_params resp) = Inr pp'" "same_params V (ta_pp ta) pp'"
      "str_to_mpz G (rs_sj resp) = Inr (ta_sk ta)" "str_to_mpz G (rs_M resp) = Inr (ta_M ta)"
      "rs_t resp = ta_t ta"
    using Register_head [OF assms id] by blast
  have "TA_handler G M ta addr \<lparr>rq_uav_id = isUAVh\<rparr> = Inr resp"
    using r(1) by (simp add: TA_handler_def)
  with r(2-6) show ?thesis
    by (simp add: getPpAndSk_def id)
qed

lemma getParams_verifier:
  assumes "ta_ok V ta" and "rand_mpz G (initState G now) = (ident, st)" and "ident \<noteq> head_id"
  shows "\<exists>ve'. getParams G M (connect (TA_handler G M ta)) addr now ve = Inr (1, ve') \<and>
    same_params V (ta_pp ta) (ve_params ve') \<and> ve_T ve' = ta_t ta \<and> ve_Msg ve' = ta_M ta"
proof -
  have "0 \<le> ident" using rand_mpz_range(1) [OF assms(2)] by simp
  moreover have "mpz_to_str G ident \<noteq> isUAVh" using assms(3) head_id_text by simp
  ultimately obtain resp st' pp' where
    r: "Register G M ta \<lparr>rq_uav_id = mpz_to_str G ident\<rparr> = Inr (resp, ta\<lparr>ta_state_gmp := st'\<rparr>)"
      "decode_params G M (rs_params resp) = Inr pp'" "same_params V (ta_pp ta) pp'"
      "str_to_mpz G (rs_M resp) = Inr (ta_M ta)" "rs_t resp = ta_t ta"
    using Register_share [OF assms(1)] by blast
  have "TA_handler G M ta addr \<lparr>rq_uav_id = mpz_to_str G ident\<rparr> = Inr resp"
    using r(1) by (simp add: TA_handler_def)
  with r(2-5) assms(2) show ?thesis
    by (simp add: getParams_def)
qed

section \<open>Collecting partial signatures\<close>

text \<open>The response of a ready drone decodes to a partial signature, unless it is the point at infinity.\<close>

lemma sign_response:
  assumes "ta_ok V ta" and "fe (pp_g (ta_pp ta)) \<noteq> 0" and "uav_ready V ta uv"
    and "1 \<le> t" and "t < 2 ^ 31" and "t \<le> pp_tm (ta_pp ta)"
    and "hashToPoint G M m curve_order = Inr Hm" and "inG1 V Hm" and "dlog1 V Hm \<noteq> 0"
    and "lin_prod (ta_factors ta t) (fe (uav_ID (uv_uav uv))) \<noteq> 0"
  shows "\<exists>resp ps. sign G M uv \<lparr>sq_M = mpz_to_str G m, sq_t = t\<rparr> = Inr resp \<and> decode_parSig G M resp = Inr ps \<and>
    ps_ID ps = uav_ID (uv_uav uv) \<and> parsig_of V (ta_pp ta) (ta_factors ta t) Hm ps \<and> dlog1 V (ps_sig ps) \<noteq> 0"
proof -
  have sp: "same_params V (ta_pp ta) (uv_pp uv)" and sh: "share_of (uv_pp uv) (ta_d ta) (ta_b ta) (uv_uav uv)"
    using assms(3) by (auto simp: uav_ready_def same_params_share)
  have q: "pp_q (uv_pp uv) = curve_order" and len: "length (ta_d ta) = length (ta_b ta)"
      and b: "t - 1 \<le> int (length (ta_b ta))" and beta: "fe (pp_beta (ta_pp ta)) \<noteq> 0"
    using assms(1,2,6) sp by (auto simp: ta_ok_def params_for_def same_params_def keys_for_def)
  obtain ps where ps: "Sign G M (uv_pp uv) (uv_uav uv) t m = Inr ps" "ps_ID ps = uav_ID (uv_uav uv)"
      "parsig_of V (ta_pp ta) (ta_factors ta t) Hm ps"
    using Sign_parsig [OF q sh len assms(4,5) b assms(7,8)] same_params_parsig [OF sp] by (auto simp: ta_factors_def)
  have in1: "inG1 V (ps_sig ps)" "dlog1 V (ps_sig ps) \<noteq> 0"
    using ps(2,3) beta assms(9,10) by (auto simp: parsig_of_def encrypts_def)
  obtain S where S: "str_to_ECP M (ECP_to_str G M (ps_sig ps)) = Inr S" "inG1 V S" "dlog1 V S = dlog1 V (ps_sig ps)"
    using str_to_ECP_to_str [OF in1] by blast
  show ?thesis
    using ps S in1(2) by (auto simp: sign_def decode_parSig_def str_to_mpz_to_str parsig_of_def)
qed

end

text \<open>The drones behind their ports.\<close>

definition UAV_handler ::
    "'rs gmp \<Rightarrow> ('big, 'ecp, 'ecp2, 'fp12, 'hash, 'rng) miracl \<Rightarrow> ('ecp2, 'rs) UAV_state list \<Rightarrow> string \<Rightarrow> SignRequest \<Rightarrow>
      SignResponse result" where
  "UAV_handler G M uvs address req = (case find (\<lambda>i. server_address (8002 + int i) = address) [0..<length uvs] of
     None \<Rightarrow> Inl Out_of_range
   | Some i \<Rightarrow> sign G M (uvs ! i) req)"

lemma server_address_inj: "0 \<le> p \<Longrightarrow> 0 \<le> p' \<Longrightarrow> server_address p = server_address p' \<longleftrightarrow> p = p'"
proof
  assume nonneg: "0 \<le> p" "0 \<le> p'" and "server_address p = server_address p'"
  then have "digits_val 10 (digits_in 10 (nat p)) = digits_val 10 (digits_in 10 (nat p'))"
    by (simp add: server_address_def)
  with nonneg show "p = p'" by simp
qed simp

lemma UAV_handler_port:
  assumes "i < length uvs"
  shows "UAV_handler G M uvs (server_address (8002 + int i)) req = sign G M (uvs ! i) req"
proof -
  have "find (\<lambda>j. server_address (8002 + int j) = server_address (8002 + int i)) [0..<length uvs] = Some i"
    using assms unfolding find_Some_iff by (intro exI [of _ i]) (simp add: server_address_inj)
  then show ?thesis by (simp add: UAV_handler_def)
qed

text \<open>A list of partial signatures of the drones \<open>uvs\<close>.\<close>

definition parsigs_of ::
    "('big, 'ecp, 'ecp2) meaning \<Rightarrow> ('ecp2, 'rs) TA_state \<Rightarrow> int \<Rightarrow> 'ecp \<Rightarrow> ('ecp2, 'rs) UAV_state list \<Rightarrow>
      'ecp parSig list \<Rightarrow> bool" where
  "parsigs_of V ta t Hm uvs sigs \<longleftrightarrow> list_all2 (\<lambda>uv ps. ps_ID ps = uav_ID (uv_uav uv) \<and>
     parsig_of V (ta_pp ta) (ta_factors ta t) Hm ps \<and> dlog1 V (ps_sig ps) \<noteq> 0) uvs sigs"

context fussion_libs
begin

lemma collect_loop_parsigs:
  assumes "ta_ok V ta" and "fe (pp_g (ta_pp ta)) \<noteq> 0"
    and "1 \<le> t" and "t < 2 ^ 31" and "t \<le> pp_tm (ta_pp ta)"
    and "hashToPoint G M m curve_order = Inr Hm" and "inG1 V Hm" and "dlog1 V Hm \<noteq> 0"
    and "list_all (\<lambda>uv. uav_ready V ta uv \<and> lin_prod (ta_factors ta t) (fe (uav_ID (uv_uav uv))) \<noteq> 0) uvs"
    and "ag_M ag = m" and "ag_t ag = t" and "i + k \<le> length uvs"
  shows "\<exists>st sigs. collect_loop G M (connect (UAV_handler G M uvs)) now k (int i) ag =
      Inr (1, ag\<lparr>ag_state_Agg := st, ag_sigmas := ag_sigmas ag @ sigs\<rparr>) \<and>
    parsigs_of V ta t Hm (take k (drop i uvs)) sigs"
  using assms(10-12)
proof (induction k arbitrary: i ag)
  case 0
  show ?case
    by (intro exI [of _ "ag_state_Agg ag"] exI [of _ "[]"]) (simp add: parsigs_of_def)
next
  case (Suc k)
  let ?uv = "uvs ! i"
  have i: "i < length uvs" using Suc.prems(3) by simp
  obtain resp ps where r: "sign G M ?uv \<lparr>sq_M = mpz_to_str G m, sq_t = t\<rparr> = Inr resp"
      "decode_parSig G M resp = Inr ps" "ps_ID ps = uav_ID (uv_uav ?uv)"
      "parsig_of V (ta_pp ta) (ta_factors ta t) Hm ps" "dlog1 V (ps_sig ps) \<noteq> 0"
    using sign_response [OF assms(1,2) _ assms(3-8), of ?uv] assms(9) i by (auto simp: list_all_length)
  let ?ag = "ag\<lparr>ag_state_Agg := initState G (now (int i)), ag_sigmas := ag_sigmas ag @ [ps]\<rparr>"
  have "ag_M ?ag = m" "ag_t ?ag = t" "Suc i + k \<le> length uvs" using Suc.prems by simp_all
  from Suc.IH [OF this] obtain st sigs where IH:
      "collect_loop G M (connect (UAV_handler G M uvs)) now k (int (Suc i)) ?ag =
        Inr (1, ?ag\<lparr>ag_state_Agg := st, ag_sigmas := ag_sigmas ?ag @ sigs\<rparr>)"
      "parsigs_of V ta t Hm (take k (drop (Suc i) uvs)) sigs"
    by blast
  have "UAV_handler G M uvs (server_address (8002 + int i)) \<lparr>sq_M = mpz_to_str G m, sq_t = t\<rparr> = Inr resp"
    by (simp only: UAV_handler_port [OF i] r(1))
  then have "collect_loop G M (connect (UAV_handler G M uvs)) now (Suc k) (int i) ag =
      collect_loop G M (connect (UAV_handler G M uvs)) now k (int (Suc i)) ?ag"
    using Suc.prems(1,2) r(2) by (simp add: Let_def add.commute)
  moreover have "take (Suc k) (drop i uvs) = ?uv # take k (drop (Suc i) uvs)"
    using i by (simp add: Cons_nth_drop_Suc [symmetric])
  ultimately show ?case
    using IH r(3-5) by (intro exI [of _ st] exI [of _ "ps # sigs"]) (simp add: parsigs_of_def)
qed

lemma collectParSigs_parsigs:
  assumes "ta_ok V ta" and "fe (pp_g (ta_pp ta)) \<noteq> 0"
    and "1 \<le> t" and "t < 2 ^ 31" and "t \<le> pp_tm (ta_pp ta)"
    and "hashToPoint G M m curve_order = Inr Hm" and "inG1 V Hm" and "dlog1 V Hm \<noteq> 0"
    and "list_all (\<lambda>uv. uav_ready V ta uv \<and> lin_prod (ta_factors ta t) (fe (uav_ID (uv_uav uv))) \<noteq> 0) uvs"
    and "ag_M ag = m" and "ag_t ag = t" and "int (length uvs) = t"
  shows "\<exists>st sigs. collectParSigs G M (connect (UAV_handler G M uvs)) now ag =
      Inr (1, ag\<lparr>ag_state_Agg := st, ag_sigmas := ag_sigmas ag @ sigs\<rparr>) \<and> parsigs_of V ta t Hm uvs sigs"
proof -
  have len: "nat (ag_t ag) = length uvs" using assms(11,12) by simp
  have "\<exists>st sigs. collect_loop G M (connect (UAV_handler G M uvs)) now (length uvs) (int 0) ag =
      Inr (1, ag\<lparr>ag_state_Agg := st, ag_sigmas := ag_sigmas ag @ sigs\<rparr>) \<and>
      parsigs_of V ta t Hm (take (length uvs) (drop 0 uvs)) sigs"
    by (rule collect_loop_parsigs [OF assms(1-11)]) simp
  with len show ?thesis by (simp add: collectParSigs_def)
qed

text \<open>Decoding the three vectors of the response gives an aggregate of the same partial signatures.\<close>

lemma aggregate_received:
  assumes "aggregate_of V pp sigs n rk r sg" and "length sigs = n" and "fe (pp_beta pp) \<noteq> 0"
    and "\<And>i. i < n \<Longrightarrow> dlog1 V (ps_sig (sigs ! i)) \<noteq> 0"
  shows "\<exists>Qs. str_to_ECPArr M (ECPArr_to_str G M (sg_sig sg)) = Inr Qs \<and>
    aggregate_of V pp sigs n rk r (sg\<lparr>sg_sig := Qs\<rparr>)"
proof -
  have "list_all (\<lambda>P. inG1 V P \<and> dlog1 V P \<noteq> 0) (sg_sig sg)"
    using assms by (simp add: aggregate_of_def list_all_length)
  then obtain Qs where Qs: "str_to_ECPArr M (ECPArr_to_str G M (sg_sig sg)) = Inr Qs"
      "list_all2 (\<lambda>P Q. inG1 V Q \<and> dlog1 V Q = dlog1 V P) (sg_sig sg) Qs"
    using str_to_ECPArr_to_str by blast
  with assms(1) show ?thesis
    by (auto simp: aggregate_of_def list_all2_conv_all_nth)
qed

lemma verifySignature_accepts:
  assumes ta: "ta_ok V ta" "fe (pp_g (ta_pp ta)) \<noteq> 0"
    and t: "2 \<le> t" "t < 2 ^ 31" "t \<le> pp_tm (ta_pp ta)" "int (length uvs) = t"
    and ag: "same_params V (ta_pp ta) (ag_pp ag)" "uavH_alpha (ag_uavH ag) = ta_sk ta"
      "parsigs_of V ta t Hm uvs (ag_sigmas ag)" "good_ids (map (\<lambda>uv. uav_ID (uv_uav uv)) uvs) (nat t)"
    and ve: "same_params V (ta_pp ta) (ve_params ve)" "ve_T ve = t" "ve_Msg ve = m"
    and Hm: "hashToPoint G M m curve_order = Inr Hm" "inG1 V Hm"
    and sk: "rand_mpz G (initState G now) = (sk_v, st)"
      "hashToZp256 G M (pp_beta (ta_pp ta) ^ nat sk_v mod curve_order) (curve_order - 1) = Inr h0"
      "\<not> hash_step dvd h0"
  shows "\<exists>ve'. verifySignature G M (connect (Agg_handler G M now' ag)) addr now ve = Inr (1, Some 1, ve')"
proof -
  let ?pp = "ve_params ve" and ?n = "nat t" and ?sigs = "ag_sigmas ag"
  let ?fs = "take (nat t - 1) (factors_of (ta_d ta) (ta_b ta))"
  have pf: "params_for V ?pp (ta_sk ta)" and keys: "keys_for V ?pp (ta_d ta) (ta_b ta) []"
    using ta(1) ve(1) same_params_for same_params_keys by (auto simp: ta_ok_def)
  have eqs: "pp_q ?pp = curve_order" "pp_g ?pp = pp_g (ta_pp ta)" "pp_beta ?pp = pp_beta (ta_pp ta)"
      "pp_q (ag_pp ag) = curve_order" "pp_g (ag_pp ag) = pp_g (ta_pp ta)" "pp_beta (ag_pp ag) = pp_beta (ta_pp ta)"
      "0 \<le> ta_sk ta"
    using ag(1) ve(1) ta(1) by (auto simp: same_params_def ta_ok_def params_for_def)
  have beta: "fe (pp_beta ?pp) \<noteq> 0" using pf ta(2) eqs(2) by (simp add: params_for_def)
  have sigs: "length ?sigs = ?n" "\<And>i. i < ?n \<Longrightarrow> ps_ID (?sigs ! i) = uav_ID (uv_uav (uvs ! i)) \<and>
      parsig_of V ?pp ?fs Hm (?sigs ! i) \<and> dlog1 V (ps_sig (?sigs ! i)) \<noteq> 0"
    using ag(3) t(4) same_params_parsig [OF ve(1)]
    by (auto simp: parsigs_of_def ta_factors_def list_all2_conv_all_nth nat_diff_distrib)
  have ids: "good_ids (map ps_ID ?sigs) ?n"
    using sigs t(4) by (intro good_ids_cong [OF _ ag(4)]) simp_all
  have sk0: "0 \<le> sk_v" using rand_mpz_range(1) [OF sk(1)] by simp
  let ?PK = "pp_g ?pp ^ nat sk_v mod curve_order"
  obtain h where h: "hashToCoprime G M (pp_beta ?pp ^ nat sk_v mod curve_order) (curve_order - 1) getFactors = Inr h"
    using hashToCoprime_returns [OF sk(2,3)] eqs(3) by auto
  have in1: "list_all (\<lambda>ps. inG1 V (ps_sig ps)) ?sigs"
    using sigs by (simp add: list_all_length parsig_of_def)
  obtain sg st' rk r where agg: "AggSig G M now' ?sigs (ag_pp ag) (ag_uavH ag) ?PK = Inr (sg, st')" "0 \<le> rk"
      "rk * h mod (curve_order - 1) = ta_sk ta mod (curve_order - 1)"
      "aggregate_of V ?pp ?sigs ?n (nat rk) r sg"
    using AggSig_aggregate [OF eqs(4) _ _ in1, of "ag_uavH ag" ?PK h now'] shared_secret [OF pf sk0 refl]
      h eqs ag(2) sigs(1) by (auto simp: aggregate_of_def)
  obtain Qs where Qs: "str_to_ECPArr M (ECPArr_to_str G M (sg_sig sg)) = Inr Qs"
      "aggregate_of V ?pp ?sigs ?n (nat rk) r (sg\<lparr>sg_sig := Qs\<rparr>)"
    using aggregate_received [OF agg(4) sigs(1) beta] sigs(2) by blast
  have lens: "2 \<le> ?n" "?n < 2 ^ 31" "?n \<le> length (ta_b ta) + 1" "int ?n = t"
    using t ta(1) by (auto simp: ta_ok_def nat_le_iff)
  have ps: "parsig_of V ?pp ?fs Hm (?sigs ! i)" if "i < ?n" for i
    using sigs(2) [OF that] by blast
  have "Verify G M (sg\<lparr>sg_sig := Qs\<rparr>) sk_v ?pp m (int ?n) = Inr 1"
    using pf ta(2) eqs(2)
    by (intro Verify_honest [OF eqs(1) _ _ _ _ eqs(7) keys lens(1-3) sigs(1) ids ps Hm Qs(2) agg(2,3) sk0 h])
       (simp_all add: params_for_def)
  moreover have "Agg_handler G M now' ag addr \<lparr>vq_PK_v = mpz_to_str G ?PK\<rparr> =
      Inr \<lparr>vr_auxs = mpzArr_to_str G (sg_aux sg), vr_sigs = ECPArr_to_str G M (sg_sig sg),
        vr_IDs = mpzArr_to_str G (sg_IDs sg)\<rparr>"
    using agg(1) by (simp add: Agg_handler_def Tran_def str_to_mpz_to_str)
  moreover have "pow_mpz G (pp_g ?pp) sk_v (pp_q ?pp) = Inr ?PK"
    using sk0 eqs(1) by (simp add: pow_mpz_eq)
  moreover have "sg\<lparr>sg_sig := Qs\<rparr> = \<lparr>sg_aux = sg_aux sg, sg_sig = Qs, sg_IDs = sg_IDs sg\<rparr>" by simp
  ultimately show ?thesis
    using sk(1) Qs(1) ve(2,3) lens(4)
    by (simp add: verifySignature_def str_to_mpzArr_to_str)
qed

end

section \<open>Properties\<close>

text \<open>
  C7. Registration works end to end: a drone whose random identity is not the head's, connected to
  an authority with proper keys, returns 1 and holds the authority's parameters and a share for its
  identity, after all values went through their text forms.
\<close>

theorem registration_roundtrip:
  assumes "fussion_libs G M V" and "ta_ok V ta"
    and "rand_mpz G (initState G now) = (ident, st)" and "ident \<noteq> head_id"
  shows "\<exists>uv'. registerUAV G M (connect (TA_handler G M ta)) addr now uv = Inr (1, uv') \<and>
    same_params V (ta_pp ta) (uv_pp uv') \<and> share_of (ta_pp ta) (ta_d ta) (ta_b ta) (uv_uav uv') \<and>
    uav_ID (uv_uav uv') = ident"
  using fussion_libs.registerUAV_ready [OF assms] by (auto simp: uav_ready_def)

definition ta_ref :: "(zq, nat) TA_state" where
  "ta_ref = \<lparr>ta_state_gmp = 30, ta_state_TA = 40,
     ta_pp = \<lparr>pp_n = 2, pp_tm = 2, pp_q = curve_order, pp_P2 = 1, pp_g = 2, pp_beta = 8, pp_PK = [4]\<rparr>,
     ta_sk = 3, ta_d = [5], ta_b = [4], ta_M = 77, ta_t = 2\<rparr>"

lemma fe_small: "0 < x \<Longrightarrow> x < 1000 \<Longrightarrow> fe x \<noteq> 0"
  by (rule fe_nonzero) (simp_all add: curve_order_def)

lemma ta_ref_ok: "ta_ok meaning_ref ta_ref"
  using fe_small [of 4]
  by (simp add: ta_ok_def ta_ref_def params_for_def keys_for_def meaning_ref_def curve_order_def)

lemma rand_run: "rand_mpz gmp_ref (initState gmp_ref 5) = (6, 6)" "rand_mpz gmp_ref (initState gmp_ref 7) = (8, 8)"
  by (simp_all add: initState_ref rand_ref curve_order_def)

lemma not_head: "6 \<noteq> head_id" "8 \<noteq> head_id"
  by (simp_all add: head_id_def)

definition uv_empty :: "(zq, nat) UAV_state" where
  "uv_empty = \<lparr>uv_state_UAV = 0, uv_pp = ta_pp ta_ref, uv_uav = \<lparr>uav_c1 = [], uav_c2 = [], uav_ID = 0\<rparr>\<rparr>"

theorem registration_roundtrip_witness:
  "\<exists>uv'. registerUAV gmp_ref miracl_ref (connect (TA_handler gmp_ref miracl_ref ta_ref)) [] 5 uv_empty = Inr (1, uv') \<and>
    share_of (ta_pp ta_ref) [5] [4] (uv_uav uv') \<and> uav_ID (uv_uav uv') = 6"
  using registration_roundtrip [OF lref.fussion_libs_axioms ta_ref_ok rand_run(1) not_head(1), of "[]" uv_empty]
  by (auto simp: ta_ref_def)

text \<open>
  C1. The whole system. Cluster head and verifier fetch the parameters of an authority with
  proper keys; the head collects from \<open>t\<close> registered drones with distinct non-zero identities, where
  \<open>t\<close> is the authority's threshold and no partial signature is the point at infinity; the verifier
  asks for the aggregate under a key whose shared secret does not hash to a multiple of 254760293. Then
  every program returns 1 and the verifier prints the result 1.
\<close>

theorem network_run_accepts:
  assumes "fussion_libs G M V" and "ta_ok V ta" and "fe (pp_g (ta_pp ta)) \<noteq> 0"
    and "2 \<le> ta_t ta" and "ta_t ta < 2 ^ 31" and "ta_t ta \<le> pp_tm (ta_pp ta)" and "int (length uvs) = ta_t ta"
    and "list_all (\<lambda>uv. uav_ready V ta uv \<and>
      lin_prod (ta_factors ta (ta_t ta)) (fe (uav_ID (uv_uav uv))) \<noteq> 0) uvs"
    and "good_ids (map (\<lambda>uv. uav_ID (uv_uav uv)) uvs) (length uvs)"
    and "hashToPoint G M (ta_M ta) curve_order = Inr Hm" and "inG1 V Hm" and "dlog1 V Hm \<noteq> 0"
    and "rand_mpz G (initState G now1) = (ident, st1)" and "ident \<noteq> head_id"
    and "rand_mpz G (initState G now2) = (sk_v, st2)"
    and "hashToZp256 G M (pp_beta (ta_pp ta) ^ nat sk_v mod curve_order) (curve_order - 1) = Inr h0"
    and "\<not> 254760293 dvd h0" and "ag_sigmas ag = []"
  shows "\<exists>ag1 ag2 ve1 ve2.
    getPpAndSk G M (connect (TA_handler G M ta)) addr now ag = Inr (1, ag1) \<and>
    collectParSigs G M (connect (UAV_handler G M uvs)) clock ag1 = Inr (1, ag2) \<and>
    getParams G M (connect (TA_handler G M ta)) addr now1 ve = Inr (1, ve1) \<and>
    verifySignature G M (connect (Agg_handler G M now3 ag2)) addr2 now2 ve1 = Inr (1, Some 1, ve2)"
proof -
  obtain ag1 where ag1: "getPpAndSk G M (connect (TA_handler G M ta)) addr now ag = Inr (1, ag1)"
      "same_params V (ta_pp ta) (ag_pp ag1)" "uavH_alpha (ag_uavH ag1) = ta_sk ta"
      "ag_M ag1 = ta_M ta" "ag_t ag1 = ta_t ta" "ag_sigmas ag1 = []"
    using fussion_libs.getPpAndSk_head [OF assms(1,2), of addr now ag] assms(18) by auto
  have t1: "1 \<le> ta_t ta" using assms(4) by simp
  obtain st sigs where c: "collectParSigs G M (connect (UAV_handler G M uvs)) clock ag1 =
      Inr (1, ag1\<lparr>ag_state_Agg := st, ag_sigmas := ag_sigmas ag1 @ sigs\<rparr>)" "parsigs_of V ta (ta_t ta) Hm uvs sigs"
    using fussion_libs.collectParSigs_parsigs [OF assms(1-3) t1 assms(5,6,10-12,8) ag1(4,5) assms(7)] by blast
  let ?ag2 = "ag1\<lparr>ag_state_Agg := st, ag_sigmas := ag_sigmas ag1 @ sigs\<rparr>"
  obtain ve1 where ve1: "getParams G M (connect (TA_handler G M ta)) addr now1 ve = Inr (1, ve1)"
      "same_params V (ta_pp ta) (ve_params ve1)" "ve_T ve1 = ta_t ta" "ve_Msg ve1 = ta_M ta"
    using fussion_libs.getParams_verifier [OF assms(1,2,13,14)] by blast
  have a: "same_params V (ta_pp ta) (ag_pp ?ag2)" "uavH_alpha (ag_uavH ?ag2) = ta_sk ta"
      "parsigs_of V ta (ta_t ta) Hm uvs (ag_sigmas ?ag2)"
      "good_ids (map (\<lambda>uv. uav_ID (uv_uav uv)) uvs) (nat (ta_t ta))"
    using ag1(2,3,6) c(2) assms(9) arg_cong [OF assms(7), of nat] by simp_all
  from fussion_libs.verifySignature_accepts [OF assms(1-6,7) a ve1(2-4) assms(10,11,15-17)] ag1(1) c(1) ve1(1)
  show ?thesis by blast
qed

lemma point_ref: "\<exists>Hm. hashToPoint gmp_ref miracl_ref m curve_order = Inr Hm \<and> Hm \<noteq> 0"
proof -
  have q: "mpz_to_BIG gmp_ref miracl_ref curve_order = curve_order"
    using lref.mpz_to_BIG_val [of curve_order] curve_order_bounds by (simp add: meaning_ref_def)
  obtain s where s: "s < 1000" "hashToZp256_BIG miracl_ref (mpz_to_BIG gmp_ref miracl_ref m) curve_order =
      Inr (int (Suc s) * 2 ^ 128 mod curve_order)"
    using hash_ref_BIG by blast
  have "int (Suc s) * 2 ^ 128 \<le> 1000 * 2 ^ 128" using s(1) by (intro mult_right_mono) simp_all
  then have "fe (int (Suc s) * 2 ^ 128) \<noteq> 0"
    by (intro fe_nonzero) (simp_all add: curve_order_def)
  then have "fe (int (Suc s) * 2 ^ 128 mod curve_order) * 1 \<noteq> 0"
    by (simp only: of_int_mod_zq mult_1_right not_False_eq_True)
  with s(2) q show ?thesis
    by (simp add: hashToPoint_def hashToPoint_BIG_def miracl_ref_def)
qed

lemma uav_ref:
  "\<exists>uv. uav_ready meaning_ref ta_ref uv \<and> uav_ID (uv_uav uv) = 6"
  "\<exists>uv. uav_ready meaning_ref ta_ref uv \<and> uav_ID (uv_uav uv) = 8"
  using lref.registerUAV_ready [OF ta_ref_ok rand_run(1) not_head(1), of "[]" uv_empty]
    lref.registerUAV_ready [OF ta_ref_ok rand_run(2) not_head(2), of "[]" uv_empty] by blast+

lemma factors_ref: "lin_prod (ta_factors ta_ref 2) (fe x) = fe (5 * x + 4)"
  by (simp add: ta_factors_def ta_ref_def factors_of_def)

lemma hash_run_net: "\<exists>h0. hashToZp256 gmp_ref miracl_ref x (curve_order - 1) = Inr h0 \<and> \<not> 254760293 dvd h0"
  using hash_ref_order [of x] hash_ref_not_dvd by fastforce

definition ag_empty :: "(zq, zq, nat) Agg_state" where
  "ag_empty = \<lparr>ag_state_gmp = 0, ag_state_Agg = 0, ag_pp = ta_pp ta_ref, ag_uavH = \<lparr>uavH_ID = 0, uavH_alpha = 0\<rparr>,
     ag_M = 0, ag_t = 0, ag_sigmas = []\<rparr>"

definition ve_empty :: "(zq, nat) Ver_state" where
  "ve_empty = \<lparr>ve_state_ver = 0, ve_params = ta_pp ta_ref, ve_T = 0, ve_Msg = 0\<rparr>"

theorem network_run_accepts_witness:
  "\<exists>uvs ag1 ag2 ve1 ve2.
    getPpAndSk gmp_ref miracl_ref (connect (TA_handler gmp_ref miracl_ref ta_ref)) [] 1 ag_empty = Inr (1, ag1) \<and>
    collectParSigs gmp_ref miracl_ref (connect (UAV_handler gmp_ref miracl_ref uvs)) (\<lambda>i. 1) ag1 = Inr (1, ag2) \<and>
    getParams gmp_ref miracl_ref (connect (TA_handler gmp_ref miracl_ref ta_ref)) [] 5 ve_empty = Inr (1, ve1) \<and>
    verifySignature gmp_ref miracl_ref (connect (Agg_handler gmp_ref miracl_ref 9 ag2)) [] 7 ve1 = Inr (1, Some 1, ve2)"
proof -
  obtain u v where uv: "uav_ready meaning_ref ta_ref u" "uav_ID (uv_uav u) = 6"
      "uav_ready meaning_ref ta_ref v" "uav_ID (uv_uav v) = 8"
    using uav_ref by blast
  obtain Hm where Hm: "hashToPoint gmp_ref miracl_ref (ta_M ta_ref) curve_order = Inr Hm" "Hm \<noteq> 0"
    using point_ref by blast
  obtain h0 where h0: "hashToZp256 gmp_ref miracl_ref (pp_beta (ta_pp ta_ref) ^ nat 8 mod curve_order)
      (curve_order - 1) = Inr h0" "\<not> 254760293 dvd h0"
    using hash_run_net by blast
  have t: "ta_t ta_ref = 2" "pp_tm (ta_pp ta_ref) = 2" "fe (pp_g (ta_pp ta_ref)) \<noteq> 0"
    using fe_small [of 2] by (simp_all add: ta_ref_def)
  have "list_all (\<lambda>uv. uav_ready meaning_ref ta_ref uv \<and>
      lin_prod (ta_factors ta_ref (ta_t ta_ref)) (fe (uav_ID (uv_uav uv))) \<noteq> 0) [u, v]"
    using uv fe_small [of 34] fe_small [of 44] unfolding t(1) factors_ref by simp
  moreover have "good_ids (map (\<lambda>uv. uav_ID (uv_uav uv)) [u, v]) (length [u, v])"
    using uv(2,4) by (intro good_ids_distinct) (simp_all add: curve_order_def)
  moreover have "inG1 meaning_ref Hm" "dlog1 meaning_ref Hm \<noteq> 0"
    using Hm(2) by (simp_all add: meaning_ref_def)
  ultimately show ?thesis
    using network_run_accepts [OF lref.fussion_libs_axioms ta_ref_ok t(3) _ _ _ _ _ _ Hm(1) _ _ rand_run(1) not_head(1)
        rand_run(2) h0, of "[u, v]" ag_empty "[]" 1 "\<lambda>i. 1" ve_empty 9 "[]"] t(1,2)
    by - (rule exI [of _ "[u, v]"], auto simp: ag_empty_def)
qed

end
