(* ===== verification/Refinement.thy ===== *)
theory Refinement
  imports Cpp_Prelude
begin

text \<open>
  Data refinement of the containers: a model of the code and a specification run the same sequence
  of operations. The locale \<open>guarded_refinement\<close> asks for one operation at a time, when its arguments are in
  the range \<open>ok\<close>; its theorem \<open>guarded_run\<close> is about every sequence: the code does not fault and returns what the
  specification returns. In \<open>data_refinement\<close> all arguments are. The last section does the same for step relations.
\<close>

primrec run_ops :: "('op \<Rightarrow> 'q \<Rightarrow> ('out \<times> 'q) result) \<Rightarrow> 'op list \<Rightarrow> 'q \<Rightarrow> ('out list \<times> 'q) result" where
  "run_ops step [] q = Inr ([], q)"
| "run_ops step (x # ops) q =
     rbind (step x q) (\<lambda>(out, q1). rbind (run_ops step ops q1) (\<lambda>(outs, q2). Inr (out # outs, q2)))"

primrec run_spec :: "('op \<Rightarrow> 's \<Rightarrow> 'out \<times> 's) \<Rightarrow> 'op list \<Rightarrow> 's \<Rightarrow> 'out list \<times> 's" where
  "run_spec spec [] s = ([], s)"
| "run_spec spec (x # ops) s =
     (let (out, s1) = spec x s; (outs, s2) = run_spec spec ops s1 in (out # outs, s2))"

lemma run_ops_append:
  "run_ops step (ops @ ops') q =
     rbind (run_ops step ops q) (\<lambda>(outs, q1). rbind (run_ops step ops' q1) (\<lambda>(outs', q2). Inr (outs @ outs', q2)))"
proof (induction ops arbitrary: q)
  case Nil
  then show ?case by (cases "run_ops step ops' q") auto
next
  case (Cons x ops)
  show ?case
  proof (cases "step x q")
    case (Inr r)
    obtain out q1 where r: "r = (out, q1)" by fastforce
    show ?thesis
      by (cases "run_ops step ops q1"; cases "run_ops step ops' (snd (projr (run_ops step ops q1)))")
        (auto simp: Inr r Cons.IH)
  qed simp
qed

lemma run_spec_append:
  "run_spec spec (ops @ ops') s =
     (let (outs, s1) = run_spec spec ops s; (outs', s2) = run_spec spec ops' s1 in (outs @ outs', s2))"
  by (induction ops arbitrary: s) (simp_all add: split_beta Let_def)

locale guarded_refinement =
  fixes ok :: "'op \<Rightarrow> bool"
    and step :: "'op \<Rightarrow> 'q \<Rightarrow> ('out \<times> 'q) result"
    and spec :: "'op \<Rightarrow> 's \<Rightarrow> 'out \<times> 's"
    and rel :: "'q \<Rightarrow> 's \<Rightarrow> bool"
  assumes guarded_step: "ok x \<Longrightarrow> rel q s \<Longrightarrow> \<exists>q'. step x q = Inr (fst (spec x s), q') \<and> rel q' (snd (spec x s))"
begin

lemma guarded_run:
  "rel q s \<Longrightarrow> list_all ok ops \<Longrightarrow>
    \<exists>q'. run_ops step ops q = Inr (fst (run_spec spec ops s), q') \<and> rel q' (snd (run_spec spec ops s))"
proof (induction ops arbitrary: q s)
  case Nil
  then show ?case by simp
next
  case (Cons x ops)
  obtain q1 where q1: "step x q = Inr (fst (spec x s), q1)" "rel q1 (snd (spec x s))"
    using guarded_step [of x q s] Cons.prems by auto
  obtain q2 where "run_ops step ops q1 = Inr (fst (run_spec spec ops (snd (spec x s))), q2)"
      "rel q2 (snd (run_spec spec ops (snd (spec x s))))"
    using Cons.IH [OF q1(2)] Cons.prems(2) by auto
  with q1(1) show ?case by (simp add: split_beta Let_def)
qed

end

locale data_refinement =
  fixes step :: "'op \<Rightarrow> 'q \<Rightarrow> ('out \<times> 'q) result"
    and spec :: "'op \<Rightarrow> 's \<Rightarrow> 'out \<times> 's"
    and rel :: "'q \<Rightarrow> 's \<Rightarrow> bool"
  assumes step_refines: "rel q s \<Longrightarrow> \<exists>q'. step x q = Inr (fst (spec x s), q') \<and> rel q' (snd (spec x s))"

sublocale data_refinement < guarded_refinement "\<lambda>_. True" step spec rel
  by unfold_locales (rule step_refines)

context data_refinement
begin

lemma run_refines:
  "rel q s \<Longrightarrow> \<exists>q'. run_ops step ops q = Inr (fst (run_spec spec ops s), q') \<and> rel q' (snd (run_spec spec ops s))"
  by (rule guarded_run) (simp_all add: list_all_iff)

end

section \<open>Interleaved steps\<close>

text \<open>
  Code that runs in several threads is a labelled step relation. \<open>lts_run\<close> is a finite run with its labels; the
  specification reads the same labels, and is \<open>None\<close> on a label that it does not allow. The locale \<open>lts_simulation\<close>
  lifts the simulation of one step to every run.
\<close>

inductive lts_run :: "('s \<Rightarrow> 'e \<Rightarrow> 's \<Rightarrow> bool) \<Rightarrow> 's \<Rightarrow> 'e list \<Rightarrow> 's \<Rightarrow> bool" for step where
  lts_nil: "lts_run step s [] s"
| lts_cons: "step s e t \<Longrightarrow> lts_run step t es u \<Longrightarrow> lts_run step s (e # es) u"

primrec spec_run :: "('e \<Rightarrow> 'a \<Rightarrow> 'a option) \<Rightarrow> 'e list \<Rightarrow> 'a \<Rightarrow> 'a option" where
  "spec_run spec [] a = Some a"
| "spec_run spec (e # es) a = Option.bind (spec e a) (spec_run spec es)"

text \<open>A schedule says which thread moves next; running it gives a run of the step relation.\<close>

primrec schedule :: "('m \<Rightarrow> 's \<Rightarrow> ('e \<times> 's) option) \<Rightarrow> 'm list \<Rightarrow> 's \<Rightarrow> ('e list \<times> 's) option" where
  "schedule move [] s = Some ([], s)"
| "schedule move (m # ms) s =
     Option.bind (move m s) (\<lambda>(e, t). Option.bind (schedule move ms t) (\<lambda>(es, u). Some (e # es, u)))"

lemma schedule_run:
  assumes "\<And>m s e t. move m s = Some (e, t) \<Longrightarrow> step s e t"
  shows "schedule move ms s = Some (es, u) \<Longrightarrow> lts_run step s es u"
proof (induction ms arbitrary: s es)
  case Nil
  then show ?case by (simp add: lts_nil)
next
  case (Cons m ms)
  then obtain e t es' where "move m s = Some (e, t)" "schedule move ms t = Some (es', u)" "es = e # es'"
    by (auto simp: bind_eq_Some_conv)
  then show ?case using lts_cons [of step s e t es' u] assms Cons.IH by blast
qed

locale lts_simulation =
  fixes step :: "'s \<Rightarrow> 'e \<Rightarrow> 's \<Rightarrow> bool"
    and spec :: "'e \<Rightarrow> 'a \<Rightarrow> 'a option"
    and rel :: "'s \<Rightarrow> 'a \<Rightarrow> bool"
  assumes step_simulates: "step s e t \<Longrightarrow> rel s a \<Longrightarrow> \<exists>b. spec e a = Some b \<and> rel t b"
begin

lemma run_simulates: "lts_run step s es t \<Longrightarrow> rel s a \<Longrightarrow> \<exists>b. spec_run spec es a = Some b \<and> rel t b"
proof (induction arbitrary: a rule: lts_run.induct)
  case (lts_nil s)
  then show ?case by simp
next
  case (lts_cons s e t es u)
  then show ?case using step_simulates [OF lts_cons.hyps(1) lts_cons.prems] by fastforce
qed

end

end
