(* ===== verification/Machine_Words.thy ===== *)
theory Machine_Words
  imports Cpp_Prelude
begin

text \<open>
  Conversions between the unsigned machine words of the containers: \<^verbatim>\<open>uint32_t\<close> counters and 64-bit
  \<^verbatim>\<open>size_t\<close>. Widening keeps the value, and narrowing commutes with addition and subtraction.
\<close>

lemma unat_eq_of_nat: "unat w = n \<Longrightarrow> w = of_nat n"
  by (metis of_nat_unat ucast_id)

lemma unat_widen [simp]: "unat (ucast (w :: 32 word) :: 64 word) = unat w"
proof -
  have "unat w < 2 ^ 64" using unsigned_less [of w, where ?'a = nat] by simp
  then show ?thesis by (simp add: unsigned_ucast_eq unsigned_take_bit_eq take_bit_nat_eq_self)
qed

lemma narrow_widen [simp]: "(ucast (ucast (w :: 32 word) :: 64 word) :: 32 word) = w"
  by (metis of_nat_unat ucast_id unat_widen)

lemma narrow_of_nat: "(ucast (i :: 64 word) :: 32 word) = of_nat (unat i)"
  by simp

lemma narrow_add: "(ucast (a + b :: 64 word) :: 32 word) = ucast a + ucast b"
proof -
  have w: "(word_of_int (take_bit 64 x) :: 32 word) = word_of_int x" for x
    by (rule word_of_int_eq_iff [THEN iffD2]) simp
  have "uint (a + b) = take_bit 64 (uint a + uint b)" by (simp add: uint_word_ariths take_bit_eq_mod)
  then have "word_of_int (uint (a + b)) = (word_of_int (uint a + uint b) :: 32 word)" by (simp only: w)
  then show ?thesis by simp
qed

lemma narrow_diff: "(ucast (a - b :: 64 word) :: 32 word) = ucast a - ucast b"
  using narrow_add [of "a - b" b] by (simp add: algebra_simps)

end
