(* ===== verification/Bounded_Queue.thy ===== *)
theory Bounded_Queue
  imports Refinement Machine_Words
begin

text \<open>
  The bounded queue of \<^verbatim>\<open>libsh/butil/containers/bounded_queue.h\<close>: a ring of item slots with 32-bit
  counters. A slot is \<open>None\<close> while it is raw storage and \<open>Some x\<close> while it holds an object; \<^verbatim>\<open>_items\<close>
  is \<open>None\<close> when it is the null pointer. A pointer to an item is the index of its slot.
  \<^verbatim>\<open>DCHECK\<close> is a no-op, as in a release build. The list machine \<open>deque_spec\<close> is the contract of a
  queue with two ends, and the interpretation \<open>bq\<close> of \<open>data_refinement\<close> shows that the ring implements it.
\<close>

section \<open>Definitions\<close>

datatype StorageOwnership = OWNS_STORAGE | NOT_OWN_STORAGE

record 'a BoundedQueue =
  q_count :: "32 word"
  q_cap :: "32 word"
  q_start :: "32 word"
  q_ownership :: StorageOwnership
  q_items :: "'a option list option"

text \<open>\<^verbatim>\<open>_mod\<close> subtracts until the offset is below the capacity; with capacity 0 it does not return.\<close>

partial_function (option) mod_loop :: "32 word \<Rightarrow> 32 word \<Rightarrow> 32 word option" where
  [code]: "mod_loop off cap = (if off \<ge> cap then mod_loop (off - cap) cap else Some off)"

definition BoundedQueue_mod :: "32 word \<Rightarrow> 32 word \<Rightarrow> 32 word result" where
  "BoundedQueue_mod off cap = of_option Diverges (mod_loop off cap)"

text \<open>Reading the object in a slot, constructing one in place, and running its destructor.\<close>

definition item_at :: "'a BoundedQueue \<Rightarrow> 32 word \<Rightarrow> 'a result" where
  "item_at q i = (case q_items q of
     None \<Rightarrow> Inl Null_pointer
   | Some items \<Rightarrow> if unat i < length items then of_option Indeterminate (items ! unat i) else Inl Out_of_bounds)"

definition put_slot :: "'a BoundedQueue \<Rightarrow> 32 word \<Rightarrow> 'a option \<Rightarrow> 'a BoundedQueue result" where
  "put_slot q i v = (case q_items q of
     None \<Rightarrow> Inl Null_pointer
   | Some items \<Rightarrow> if unat i < length items then Inr (q\<lparr>q_items := Some (items[unat i := v])\<rparr>) else Inl Out_of_bounds)"

definition destroy_item :: "'a BoundedQueue \<Rightarrow> 32 word \<Rightarrow> 'a BoundedQueue result" where
  "destroy_item q i = rbind (item_at q i) (\<lambda>_. put_slot q i None)"

text \<open>
  The constructors. \<open>memsize\<close>, \<open>capacity\<close> and \<open>size_T\<close> (\<^verbatim>\<open>sizeof(T)\<close>) are 64-bit, and the capacity is
  cut to 32 bits; the product for \<^verbatim>\<open>malloc\<close> wraps. \<open>malloc_ok\<close> says whether \<^verbatim>\<open>malloc\<close> succeeds.
\<close>

definition BoundedQueue_on :: "'a option list option \<Rightarrow> 64 word \<Rightarrow> 64 word \<Rightarrow> StorageOwnership \<Rightarrow> 'a BoundedQueue" where
  "BoundedQueue_on mem memsize size_T ownership =
    \<lparr>q_count = 0, q_cap = ucast (memsize div size_T), q_start = 0, q_ownership = ownership, q_items = mem\<rparr>"

definition BoundedQueue_new :: "(64 word \<Rightarrow> bool) \<Rightarrow> 64 word \<Rightarrow> 64 word \<Rightarrow> 'a BoundedQueue" where
  "BoundedQueue_new malloc_ok size_T capacity =
    (let bytes = capacity * size_T in
     \<lparr>q_count = 0, q_cap = ucast capacity, q_start = 0, q_ownership = OWNS_STORAGE,
      q_items = (if malloc_ok bytes then Some (replicate (unat (bytes div size_T)) None) else None)\<rparr>)"

definition BoundedQueue_empty :: "'a BoundedQueue" where
  "BoundedQueue_empty = \<lparr>q_count = 0, q_cap = 0, q_start = 0, q_ownership = NOT_OWN_STORAGE, q_items = None\<rparr>"

definition BoundedQueue_push :: "'a \<Rightarrow> 'a BoundedQueue \<Rightarrow> (bool \<times> 'a BoundedQueue) result" where
  "BoundedQueue_push item q =
    (if q_count q < q_cap q then
       rbind (BoundedQueue_mod (q_start q + q_count q) (q_cap q)) (\<lambda>i.
       rbind (put_slot q i (Some item)) (\<lambda>q1.
       Inr (True, q1\<lparr>q_count := q_count q1 + 1\<rparr>)))
     else Inr (False, q))"

definition BoundedQueue_elim_push :: "'a \<Rightarrow> 'a BoundedQueue \<Rightarrow> 'a BoundedQueue result" where
  "BoundedQueue_elim_push item q =
    (if q_count q < q_cap q then
       rbind (BoundedQueue_mod (q_start q + q_count q) (q_cap q)) (\<lambda>i.
       rbind (put_slot q i (Some item)) (\<lambda>q1.
       Inr (q1\<lparr>q_count := q_count q1 + 1\<rparr>)))
     else
       rbind (item_at q (q_start q)) (\<lambda>_.
       rbind (put_slot q (q_start q) (Some item)) (\<lambda>q1.
       rbind (BoundedQueue_mod (q_start q1 + 1) (q_cap q1)) (\<lambda>s.
       Inr (q1\<lparr>q_start := s\<rparr>)))))"

text \<open>The overloads without an item construct the default value \<open>dflt\<close> and return where it is.\<close>

definition BoundedQueue_push_new :: "'a \<Rightarrow> 'a BoundedQueue \<Rightarrow> (32 word option \<times> 'a BoundedQueue) result" where
  "BoundedQueue_push_new dflt q =
    (if q_count q < q_cap q then
       (let off = q_start q + q_count q; q1 = q\<lparr>q_count := q_count q + 1\<rparr> in
        rbind (BoundedQueue_mod off (q_cap q1)) (\<lambda>i.
        rbind (put_slot q1 i (Some dflt)) (\<lambda>q2.
        Inr (Some i, q2))))
     else Inr (None, q))"

definition BoundedQueue_push_top :: "'a \<Rightarrow> 'a BoundedQueue \<Rightarrow> (bool \<times> 'a BoundedQueue) result" where
  "BoundedQueue_push_top item q =
    (if q_count q < q_cap q then
       (let s = (if q_start q \<noteq> 0 then q_start q - 1 else q_cap q - 1);
            q1 = q\<lparr>q_start := s, q_count := q_count q + 1\<rparr> in
        rbind (put_slot q1 s (Some item)) (\<lambda>q2. Inr (True, q2)))
     else Inr (False, q))"

definition BoundedQueue_push_top_new :: "'a \<Rightarrow> 'a BoundedQueue \<Rightarrow> (32 word option \<times> 'a BoundedQueue) result" where
  "BoundedQueue_push_top_new dflt q =
    (if q_count q < q_cap q then
       (let s = (if q_start q \<noteq> 0 then q_start q - 1 else q_cap q - 1);
            q1 = q\<lparr>q_start := s, q_count := q_count q + 1\<rparr> in
        rbind (put_slot q1 s (Some dflt)) (\<lambda>q2. Inr (Some s, q2)))
     else Inr (None, q))"

text \<open>The overloads of \<^verbatim>\<open>pop\<close> and \<^verbatim>\<open>pop_bottom\<close>: the second of each also copies the item out.\<close>

definition BoundedQueue_drop :: "'a BoundedQueue \<Rightarrow> (bool \<times> 'a BoundedQueue) result" where
  "BoundedQueue_drop q =
    (if q_count q \<noteq> 0 then
       (let q1 = q\<lparr>q_count := q_count q - 1\<rparr> in
        rbind (destroy_item q1 (q_start q1)) (\<lambda>q2.
        rbind (BoundedQueue_mod (q_start q2 + 1) (q_cap q2)) (\<lambda>s.
        Inr (True, q2\<lparr>q_start := s\<rparr>))))
     else Inr (False, q))"

definition BoundedQueue_pop :: "'a BoundedQueue \<Rightarrow> ('a option \<times> 'a BoundedQueue) result" where
  "BoundedQueue_pop q =
    (if q_count q \<noteq> 0 then
       (let q1 = q\<lparr>q_count := q_count q - 1\<rparr> in
        rbind (item_at q1 (q_start q1)) (\<lambda>item.
        rbind (destroy_item q1 (q_start q1)) (\<lambda>q2.
        rbind (BoundedQueue_mod (q_start q2 + 1) (q_cap q2)) (\<lambda>s.
        Inr (Some item, q2\<lparr>q_start := s\<rparr>)))))
     else Inr (None, q))"

definition BoundedQueue_drop_bottom :: "'a BoundedQueue \<Rightarrow> (bool \<times> 'a BoundedQueue) result" where
  "BoundedQueue_drop_bottom q =
    (if q_count q \<noteq> 0 then
       (let q1 = q\<lparr>q_count := q_count q - 1\<rparr> in
        rbind (BoundedQueue_mod (q_start q1 + q_count q1) (q_cap q1)) (\<lambda>i.
        rbind (destroy_item q1 i) (\<lambda>q2.
        Inr (True, q2))))
     else Inr (False, q))"

definition BoundedQueue_pop_bottom :: "'a BoundedQueue \<Rightarrow> ('a option \<times> 'a BoundedQueue) result" where
  "BoundedQueue_pop_bottom q =
    (if q_count q \<noteq> 0 then
       (let q1 = q\<lparr>q_count := q_count q - 1\<rparr> in
        rbind (BoundedQueue_mod (q_start q1 + q_count q1) (q_cap q1)) (\<lambda>i.
        rbind (item_at q1 i) (\<lambda>item.
        rbind (destroy_item q1 i) (\<lambda>q2.
        Inr (Some item, q2)))))
     else Inr (None, q))"

definition BoundedQueue_clear :: "'a BoundedQueue \<Rightarrow> 'a BoundedQueue result" where
  "BoundedQueue_clear q =
     rbind (for_range 0 (uint (q_count q))
       (\<lambda>i q. rbind (BoundedQueue_mod (q_start q + word_of_int i) (q_cap q)) (destroy_item q)) q) (\<lambda>q1.
     Inr (q1\<lparr>q_count := 0, q_start := 0\<rparr>))"

definition BoundedQueue_destroy :: "'a BoundedQueue \<Rightarrow> 'a BoundedQueue result" where
  "BoundedQueue_destroy q =
     rbind (BoundedQueue_clear q) (\<lambda>q1.
     Inr (if q_ownership q1 = OWNS_STORAGE then q1\<lparr>q_items := None\<rparr> else q1))"

definition BoundedQueue_top :: "'a BoundedQueue \<Rightarrow> 32 word option" where
  "BoundedQueue_top q = (if q_count q \<noteq> 0 then Some (q_start q) else None)"

text \<open>\<open>index\<close> is a 64-bit \<^verbatim>\<open>size_t\<close>; the sum is formed at 64 bits and cut to 32 for \<^verbatim>\<open>_mod\<close>.\<close>

definition BoundedQueue_top_at :: "64 word \<Rightarrow> 'a BoundedQueue \<Rightarrow> 32 word option result" where
  "BoundedQueue_top_at index q =
    (if index < ucast (q_count q) then
       rbind (BoundedQueue_mod (ucast (ucast (q_start q) + index :: 64 word)) (q_cap q)) (\<lambda>i. Inr (Some i))
     else Inr None)"

definition BoundedQueue_bottom :: "'a BoundedQueue \<Rightarrow> 32 word option result" where
  "BoundedQueue_bottom q =
    (if q_count q \<noteq> 0 then
       rbind (BoundedQueue_mod (q_start q + q_count q - 1) (q_cap q)) (\<lambda>i. Inr (Some i))
     else Inr None)"

definition BoundedQueue_bottom_at :: "64 word \<Rightarrow> 'a BoundedQueue \<Rightarrow> 32 word option result" where
  "BoundedQueue_bottom_at index q =
    (if index < ucast (q_count q) then
       rbind (BoundedQueue_mod (ucast (ucast (q_start q + q_count q) - index - 1 :: 64 word)) (q_cap q)) (\<lambda>i. Inr (Some i))
     else Inr None)"

definition BoundedQueue_is_empty :: "'a BoundedQueue \<Rightarrow> bool" where
  "BoundedQueue_is_empty q \<longleftrightarrow> q_count q = 0"

definition BoundedQueue_full :: "'a BoundedQueue \<Rightarrow> bool" where
  "BoundedQueue_full q \<longleftrightarrow> q_cap q = q_count q"

definition BoundedQueue_size :: "'a BoundedQueue \<Rightarrow> 64 word" where
  "BoundedQueue_size q = ucast (q_count q)"

definition BoundedQueue_capacity :: "'a BoundedQueue \<Rightarrow> 64 word" where
  "BoundedQueue_capacity q = ucast (q_cap q)"

definition BoundedQueue_max_capacity :: "64 word" where
  "BoundedQueue_max_capacity = push_bit (4 * 8) 1 - 1"

definition BoundedQueue_initialized :: "'a BoundedQueue \<Rightarrow> bool" where
  "BoundedQueue_initialized q \<longleftrightarrow> q_items q \<noteq> None"

definition BoundedQueue_swap :: "'a BoundedQueue \<Rightarrow> 'a BoundedQueue \<Rightarrow> 'a BoundedQueue \<times> 'a BoundedQueue" where
  "BoundedQueue_swap q rhs =
    (q\<lparr>q_count := q_count rhs, q_cap := q_cap rhs, q_start := q_start rhs, q_ownership := q_ownership rhs, q_items := q_items rhs\<rparr>,
     rhs\<lparr>q_count := q_count q, q_cap := q_cap q, q_start := q_start q, q_ownership := q_ownership q, q_items := q_items q\<rparr>)"

section \<open>Positions in the ring\<close>

lemma mod_loop_mod: "0 < cap \<Longrightarrow> mod_loop off cap = Some (off mod cap)"
proof (induction "unat off" arbitrary: off rule: less_induct)
  case less
  show ?case
  proof (cases "cap \<le> off")
    case True
    have "unat (off - cap) < unat off"
      using True less.prems by (simp add: unat_sub word_less_nat_alt word_le_nat_alt)
    then have "mod_loop (off - cap) cap = Some ((off - cap) mod cap)"
      using less by blast
    moreover have "(off - cap) mod cap = off mod cap"
      using True by (simp add: word_unat_eq_iff unat_mod_distrib unat_sub le_mod_geq word_le_nat_alt)
    ultimately show ?thesis using True by (subst mod_loop.simps) simp
  next
    case False
    then show ?thesis
      by (subst mod_loop.simps) (simp add: word_unat_eq_iff unat_mod_distrib word_le_nat_alt)
  qed
qed

lemma mod_loop_zero: "mod_loop off 0 = None"
proof -
  have "cap \<noteq> 0" if "mod_loop off cap = Some y" for off cap y
    by (rule mod_loop.raw_induct [where P = "\<lambda>off cap y. cap \<noteq> 0", OF _ that]) (auto split: if_splits)
  then show ?thesis by (cases "mod_loop off 0") auto
qed

text \<open>The sum of a start and an offset below a capacity of at most \<open>2\<^sup>31\<close> does not wrap.\<close>

lemma BoundedQueue_mod_ring:
  assumes "s < cap" and "k \<le> unat cap" and "unat cap \<le> 2 ^ 31"
  shows "\<exists>i. BoundedQueue_mod (s + of_nat k) cap = Inr i \<and> unat i = (unat s + k) mod unat cap"
proof -
  have "0 < cap" using assms(1) by (metis word_not_simps(1) word_neq_0_conv)
  moreover have "unat s + k < 2 ^ 32"
    using assms by (simp add: word_less_nat_alt)
  then have "unat (s + of_nat k :: 32 word) = unat s + k"
    by (simp add: unat_word_ariths unat_of_nat)
  ultimately show ?thesis
    by (auto simp: BoundedQueue_mod_def mod_loop_mod unat_mod_distrib)
qed

lemma ring_mod: "s < c \<Longrightarrow> i \<le> c \<Longrightarrow> (s + i) mod c = (if s + i < c then s + i else s + i - c)" for s :: nat
  by (auto simp: le_mod_geq)

lemma ring_inj: "s < c \<Longrightarrow> i < c \<Longrightarrow> j < c \<Longrightarrow> (s + i) mod c = (s + j) mod c \<longleftrightarrow> i = j" for s :: nat
  by (auto simp: ring_mod split: if_splits)

definition ring_slots :: "'a option list \<Rightarrow> nat \<Rightarrow> nat \<Rightarrow> 'a list \<Rightarrow> bool" where
  "ring_slots items c s xs \<longleftrightarrow>
    (\<forall>i < c. items ! ((s + i) mod c) = (if i < length xs then Some (xs ! i) else None))"

text \<open>Writing the slot at offset \<open>k\<close> changes what is read at offset \<open>k\<close> only.\<close>

lemma ring_write:
  assumes "s < c" and "k < c" and "i < c" and "c \<le> length items"
  shows "items[(s + k) mod c := v] ! ((s + i) mod c) = (if i = k then v else items ! ((s + i) mod c))"
proof -
  have "(s + k) mod c < c" using assms(1) by (intro mod_less_divisor) simp
  then have "(s + k) mod c < length items" using assms(4) by linarith
  then show ?thesis using ring_inj [OF assms(1-3)] by (auto simp: nth_list_update)
qed

lemma ring_slots_snoc:
  assumes "ring_slots items c s xs" and "s < c" and "length xs < c" and "c \<le> length items"
  shows "ring_slots (items[(s + length xs) mod c := Some x]) c s (xs @ [x])"
  using assms by (simp add: ring_slots_def ring_write nth_append less_Suc_eq)

lemma ring_slots_butlast:
  assumes "ring_slots items c s xs" and "s < c" and "xs \<noteq> []" and "length xs \<le> c" and "c \<le> length items"
  shows "ring_slots (items[(s + (length xs - 1)) mod c := None]) c s (butlast xs)"
proof -
  have "length xs - 1 < c" "0 < length xs" using assms(3,4) by (cases xs; simp)+
  then show ?thesis using assms by (auto simp: ring_slots_def ring_write nth_butlast)
qed

lemma ring_slots_tl:
  assumes "ring_slots items c s (y # ys)" and "s < c" and "length ys < c" and "c \<le> length items"
  shows "ring_slots (items[s := None]) c ((s + 1) mod c) ys"
  unfolding ring_slots_def
proof (intro allI impI)
  fix i
  assume i: "i < c"
  have e: "((s + 1) mod c + i) mod c = (s + Suc i) mod c" "s = (s + 0) mod c"
    using assms(2) by (simp_all add: mod_add_left_eq)
  show "items[s := None] ! (((s + 1) mod c + i) mod c) = (if i < length ys then Some (ys ! i) else None)"
  proof (cases "Suc i = c")
    case True
    then have "(s + Suc i) mod c = s" using assms(2) by simp
    with True assms show ?thesis unfolding e(1) by simp
  next
    case False
    with i have "Suc i < c" by simp
    then have "items[(s + 0) mod c := None] ! ((s + Suc i) mod c) = items ! ((s + Suc i) mod c)"
      using assms by (subst ring_write) simp_all
    then show ?thesis
      using assms(1) \<open>Suc i < c\<close> unfolding e(1) e(2) [symmetric] by (auto simp: ring_slots_def)
  qed
qed

lemma ring_slots_cons:
  assumes "ring_slots items c s xs" and "s < c" and "length xs < c" and "c \<le> length items"
    and s': "s' = (if s \<noteq> 0 then s - 1 else c - 1)"
  shows "ring_slots (items[s' := Some x]) c s' (x # xs)"
  unfolding ring_slots_def
proof (intro allI impI)
  fix i
  assume i: "i < c"
  have lt: "s' < c" "s' < length items" using assms(2,4) s' by auto
  show "items[s' := Some x] ! ((s' + i) mod c) = (if i < length (x # xs) then Some ((x # xs) ! i) else None)"
  proof (cases i)
    case (Suc j)
    have "(s' + Suc j) mod c = (s + j) mod c" "(s + j) mod c \<noteq> s'"
      using assms(2) s' i Suc by (auto simp: ring_mod split: if_splits)
    then show ?thesis
      using assms(1) i Suc by (auto simp: ring_slots_def)
  qed (use lt in simp)
qed

text \<open>The ring of a queue with positive capacity up to \<open>2\<^sup>31\<close> holds the items \<open>xs\<close>, from top to bottom.\<close>

definition ring_holds :: "nat \<Rightarrow> 'a BoundedQueue \<Rightarrow> 'a list \<Rightarrow> bool" where
  "ring_holds c q xs \<longleftrightarrow>
    unat (q_cap q) = c \<and> 0 < c \<and> c \<le> 2 ^ 31 \<and> unat (q_count q) = length xs \<and> length xs \<le> c \<and>
    unat (q_start q) < c \<and>
    (case q_items q of None \<Rightarrow> False | Some items \<Rightarrow> c \<le> length items \<and> ring_slots items c (unat (q_start q)) xs)"

lemma ring_holdsE:
  assumes "ring_holds c q xs"
  obtains items where "q_items q = Some items" and "c \<le> length items" and "ring_slots items c (unat (q_start q)) xs"
    and "unat (q_cap q) = c" and "0 < c" and "c \<le> 2 ^ 31" and "unat (q_count q) = length xs" and "length xs \<le> c"
    and "unat (q_start q) < c"
  using assms by (auto simp: ring_holds_def split: option.splits)

section \<open>The operations on a ring that holds a list\<close>

lemma ring_holds_length: "ring_holds c q xs \<Longrightarrow> unat (q_count q) = length xs \<and> length xs \<le> c \<and> unat (q_cap q) = c"
  by (auto simp: ring_holds_def)

lemma ring_holds_count:
  assumes "ring_holds c q xs"
  shows "q_count q < q_cap q \<longleftrightarrow> length xs < c" and "q_count q = 0 \<longleftrightarrow> xs = []" and "q_count q \<le> q_cap q"
  using ring_holds_length [OF assms] by (auto simp: word_less_nat_alt word_le_nat_alt unat_eq_zero [symmetric])

lemma ring_holds_slot:
  assumes "ring_holds c q xs" and "k \<le> c"
  shows "\<exists>i. BoundedQueue_mod (q_start q + of_nat k) (q_cap q) = Inr i \<and> unat i = (unat (q_start q) + k) mod c"
  using assms BoundedQueue_mod_ring [of "q_start q" "q_cap q" k]
  by (auto simp: ring_holds_def word_less_nat_alt)

lemma ring_holds_next:
  assumes "ring_holds c q xs"
  shows "\<exists>i. BoundedQueue_mod (q_start q + 1) (q_cap q) = Inr i \<and> unat i = (unat (q_start q) + 1) mod c"
  using ring_holds_slot [OF assms, of 1] assms by (simp add: ring_holds_def)

lemma count_add_one:
  assumes "ring_holds c q xs" and "length xs < c"
  shows "unat (q_count q + 1) = Suc (length xs)"
proof -
  have "Suc (length xs) < 2 ^ 32" using assms by (simp add: ring_holds_def)
  then show ?thesis
    using ring_holds_length [OF assms(1)] by (simp add: unat_word_ariths)
qed

lemma count_sub_one:
  assumes "ring_holds c q xs" and "xs \<noteq> []"
  shows "unat (q_count q - 1) = length xs - 1"
  using ring_holds_length [OF assms(1)] assms(2) by (simp add: unat_minus_one ring_holds_count(2) [OF assms(1)])

lemma count_of_nat: "ring_holds c q xs \<Longrightarrow> q_count q = of_nat (length xs)"
  using ring_holds_length [of c q xs] by (intro unat_eq_of_nat) simp

lemma ring_slot_less: "(k :: nat) mod c < n" if "0 < c" "c \<le> n"
  using that by (meson less_le_trans mod_less_divisor)

lemma push_ring:
  assumes h: "ring_holds c q xs"
  shows "\<exists>q'. BoundedQueue_push x q = Inr (length xs < c, q') \<and> ring_holds c q' (if length xs < c then xs @ [x] else xs)"
proof (cases "length xs < c")
  case True
  obtain items where it: "q_items q = Some items" "c \<le> length items" "ring_slots items c (unat (q_start q)) xs"
      "unat (q_start q) < c" "0 < c"
    using h by (rule ring_holdsE)
  obtain i where i: "BoundedQueue_mod (q_start q + q_count q) (q_cap q) = Inr i" "unat i = (unat (q_start q) + length xs) mod c"
    using ring_holds_slot [OF h, of "length xs"] True count_of_nat [OF h] by auto
  have "unat i < length items" unfolding i(2) using it by (intro ring_slot_less)
  moreover have "ring_slots (items[unat i := Some x]) c (unat (q_start q)) (xs @ [x])"
    unfolding i(2) using it True by (intro ring_slots_snoc)
  ultimately show ?thesis
    using True i(1) it h count_add_one [OF h True] ring_holds_count(1) [OF h]
    by (auto simp: BoundedQueue_push_def put_slot_def ring_holds_def)
next
  case False
  then show ?thesis using h ring_holds_count(1) [OF h] by (simp add: BoundedQueue_push_def)
qed

lemma push_new_ring:
  assumes h: "ring_holds c q xs"
  shows "\<exists>p q'. BoundedQueue_push_new x q = Inr (p, q') \<and> (p \<noteq> None \<longleftrightarrow> length xs < c) \<and>
    ring_holds c q' (if length xs < c then xs @ [x] else xs)"
proof -
  have "BoundedQueue_push x q = rbind (BoundedQueue_push_new x q) (\<lambda>(p, q'). Inr (p \<noteq> None, q'))"
    by (auto simp: BoundedQueue_push_new_def BoundedQueue_push_def put_slot_def Let_def rbind_def
        split: sum.splits option.splits)
  with push_ring [OF h, of x] show ?thesis
    by (auto simp: rbind_eq_Inr)
qed

lemma push_top_ring:
  assumes h: "ring_holds c q xs"
  shows "\<exists>q'. BoundedQueue_push_top x q = Inr (length xs < c, q') \<and> ring_holds c q' (if length xs < c then x # xs else xs)"
proof (cases "length xs < c")
  case True
  obtain items where it: "q_items q = Some items" "c \<le> length items" "ring_slots items c (unat (q_start q)) xs"
      "unat (q_start q) < c" "0 < c"
    using h by (rule ring_holdsE)
  define s where "s = (if q_start q \<noteq> 0 then q_start q - 1 else q_cap q - 1)"
  have "q_cap q \<noteq> 0" using it(5) ring_holds_length [OF h] by (auto simp: unat_eq_zero [symmetric])
  then have s: "unat s = (if unat (q_start q) \<noteq> 0 then unat (q_start q) - 1 else c - 1)"
    using ring_holds_length [OF h] by (auto simp: s_def unat_minus_one unat_eq_zero)
  then have "ring_slots (items[unat s := Some x]) c (unat s) (x # xs)" "unat s < c" "unat s < length items"
    using it True by (auto intro!: ring_slots_cons)
  then show ?thesis
    using True it h count_add_one [OF h True] ring_holds_count(1) [OF h]
    by (auto simp: BoundedQueue_push_top_def put_slot_def ring_holds_def s_def [symmetric])
next
  case False
  then show ?thesis using h ring_holds_count(1) [OF h] by (simp add: BoundedQueue_push_top_def)
qed

lemma push_top_new_ring:
  assumes h: "ring_holds c q xs"
  shows "\<exists>p q'. BoundedQueue_push_top_new x q = Inr (p, q') \<and> (p \<noteq> None \<longleftrightarrow> length xs < c) \<and>
    ring_holds c q' (if length xs < c then x # xs else xs)"
proof -
  have "BoundedQueue_push_top x q = rbind (BoundedQueue_push_top_new x q) (\<lambda>(p, q'). Inr (p \<noteq> None, q'))"
    by (auto simp: BoundedQueue_push_top_new_def BoundedQueue_push_top_def put_slot_def Let_def rbind_def
        split: sum.splits option.splits)
  with push_top_ring [OF h, of x] show ?thesis
    by (auto simp: rbind_eq_Inr)
qed

lemma pop_ring:
  assumes h: "ring_holds c q xs"
  shows "\<exists>q'. BoundedQueue_pop q = Inr (case xs of [] \<Rightarrow> None | x # _ \<Rightarrow> Some x, q') \<and> ring_holds c q' (tl xs)"
proof (cases xs)
  case Nil
  then show ?thesis using h ring_holds_count(2) [OF h] by (simp add: BoundedQueue_pop_def)
next
  case (Cons x ys)
  obtain items where it: "q_items q = Some items" "c \<le> length items" "ring_slots items c (unat (q_start q)) xs"
      "unat (q_start q) < c" "0 < c" "length xs \<le> c"
    using h by (rule ring_holdsE)
  obtain i where i: "BoundedQueue_mod (q_start q + 1) (q_cap q) = Inr i" "unat i = (unat (q_start q) + 1) mod c"
    using ring_holds_next [OF h] by blast
  have "items ! unat (q_start q) = Some x"
    using it(3-5) Cons by (auto simp: ring_slots_def dest!: spec [of _ 0])
  moreover have "ring_slots (items[unat (q_start q) := None]) c (unat i) ys"
    unfolding i(2) using it Cons by (intro ring_slots_tl) auto
  moreover have "unat i < c" unfolding i(2) using it(5) by (rule mod_less_divisor)
  ultimately show ?thesis
    using it h i(1) Cons ring_holds_count(2) [OF h] count_sub_one [OF h]
    by (auto simp: BoundedQueue_pop_def destroy_item_def item_at_def put_slot_def ring_holds_def)
qed

lemma drop_ring:
  assumes h: "ring_holds c q xs"
  shows "\<exists>q'. BoundedQueue_drop q = Inr (xs \<noteq> [], q') \<and> ring_holds c q' (tl xs)"
proof -
  have "BoundedQueue_drop q = rbind (BoundedQueue_pop q) (\<lambda>(x, q'). Inr (x \<noteq> None, q'))"
    by (auto simp: BoundedQueue_drop_def BoundedQueue_pop_def destroy_item_def Let_def rbind_def split: sum.splits)
  with pop_ring [OF h] show ?thesis
    by (auto split: list.splits)
qed

lemma pop_bottom_ring:
  assumes h: "ring_holds c q xs"
  shows "\<exists>q'. BoundedQueue_pop_bottom q = Inr (if xs = [] then None else Some (last xs), q') \<and> ring_holds c q' (butlast xs)"
proof (cases "xs = []")
  case True
  then show ?thesis using h ring_holds_count(2) [OF h] by (simp add: BoundedQueue_pop_bottom_def)
next
  case False
  obtain items where it: "q_items q = Some items" "c \<le> length items" "ring_slots items c (unat (q_start q)) xs"
      "unat (q_start q) < c" "0 < c" "length xs \<le> c"
    using h by (rule ring_holdsE)
  have n: "q_count q - 1 = of_nat (length xs - 1)"
    using count_sub_one [OF h False] by (rule unat_eq_of_nat)
  obtain i where i: "BoundedQueue_mod (q_start q + (q_count q - 1)) (q_cap q) = Inr i"
      "unat i = (unat (q_start q) + (length xs - 1)) mod c"
    using ring_holds_slot [OF h le_trans [OF diff_le_self it(6)], of 1] n by auto
  have "unat i < length items" unfolding i(2) using it by (intro ring_slot_less)
  moreover have "length xs - 1 < c" "length xs - 1 < length xs" using it(6) False by (cases xs; simp)+
  then have "items ! unat i = Some (last xs)"
    using it(3) False unfolding i(2) by (simp add: ring_slots_def last_conv_nth)
  moreover have "ring_slots (items[unat i := None]) c (unat (q_start q)) (butlast xs)"
    unfolding i(2) using it False by (intro ring_slots_butlast)
  ultimately show ?thesis
    using it h i(1) False ring_holds_count(2) [OF h] count_sub_one [OF h False]
    by (auto simp: BoundedQueue_pop_bottom_def destroy_item_def item_at_def put_slot_def ring_holds_def)
qed

lemma drop_bottom_ring:
  assumes h: "ring_holds c q xs"
  shows "\<exists>q'. BoundedQueue_drop_bottom q = Inr (xs \<noteq> [], q') \<and> ring_holds c q' (butlast xs)"
proof -
  have "BoundedQueue_drop_bottom q = rbind (BoundedQueue_pop_bottom q) (\<lambda>(x, q'). Inr (x \<noteq> None, q'))"
    by (auto simp: BoundedQueue_drop_bottom_def BoundedQueue_pop_bottom_def destroy_item_def Let_def rbind_def split: sum.splits)
  with pop_bottom_ring [OF h] show ?thesis
    by (auto split: if_splits)
qed

text \<open>A full ring overwrites its top item, which becomes the bottom one.\<close>

lemma elim_push_ring:
  assumes h: "ring_holds c q xs"
  shows "\<exists>q'. BoundedQueue_elim_push x q = Inr q' \<and> ring_holds c q' ((if length xs < c then xs else tl xs) @ [x])"
proof (cases "length xs < c")
  case True
  then have "BoundedQueue_elim_push x q = rbind (BoundedQueue_push x q) (\<lambda>(b, q'). Inr q')"
    using ring_holds_count(1) [OF h]
    by (auto simp: BoundedQueue_elim_push_def BoundedQueue_push_def rbind_def split: sum.splits)
  with push_ring [OF h, of x] True show ?thesis by auto
next
  case False
  obtain items where it: "q_items q = Some items" "c \<le> length items" "ring_slots items c (unat (q_start q)) xs"
      "unat (q_start q) < c" "0 < c" "length xs \<le> c"
    using h by (rule ring_holdsE)
  obtain y ys where xs: "xs = y # ys" using False it(5) by (cases xs) auto
  obtain i where i: "BoundedQueue_mod (q_start q + 1) (q_cap q) = Inr i" "unat i = (unat (q_start q) + 1) mod c"
    using ring_holds_next [OF h] by blast
  have lt: "unat i < c" unfolding i(2) using it(5) by (rule mod_less_divisor)
  have len: "length ys = c - 1" using xs False it(6) by simp
  have "(unat (q_start q) + 1 + (c - 1)) mod c = unat (q_start q)"
    using it(4,5) by simp
  then have wrap: "(unat i + length ys) mod c = unat (q_start q)"
    unfolding i(2) len by (simp only: mod_add_left_eq)
  have "ring_slots (items[unat (q_start q) := None]) c (unat i) ys"
    unfolding i(2) using it xs by (intro ring_slots_tl) auto
  from ring_slots_snoc [OF this lt, of x, unfolded wrap]
  have "ring_slots (items[unat (q_start q) := Some x]) c (unat i) (ys @ [x])"
    using len it(2,5) by simp
  moreover have "items ! unat (q_start q) = Some y"
    using it(3-5) xs by (auto simp: ring_slots_def dest!: spec [of _ 0])
  ultimately show ?thesis
    using it h i(1) False xs lt ring_holds_count(1) [OF h]
    by (auto simp: BoundedQueue_elim_push_def item_at_def put_slot_def ring_holds_def)
qed

text \<open>The pointers that \<^verbatim>\<open>top\<close> and \<^verbatim>\<open>bottom\<close> return point to the items counted from either end.\<close>

lemma item_at_ring:
  assumes h: "ring_holds c q xs" and "k < length xs" and "unat i = (unat (q_start q) + k) mod c"
  shows "item_at q i = Inr (xs ! k)"
proof -
  obtain items where it: "q_items q = Some items" "c \<le> length items" "ring_slots items c (unat (q_start q)) xs"
      "0 < c" "length xs \<le> c"
    using h by (rule ring_holdsE)
  have "unat i < length items" unfolding assms(3) using it by (intro ring_slot_less)
  then show ?thesis
    using it assms(2,3) by (simp add: item_at_def ring_slots_def)
qed

lemma top_at_ring:
  assumes h: "ring_holds c q xs"
  shows "\<exists>p. BoundedQueue_top_at k q = Inr p \<and>
    (if unat k < length xs then p \<noteq> None \<and> item_at q (the p) = Inr (xs ! unat k) else p = None)"
proof (cases "unat k < length xs")
  case True
  have "unat k \<le> c" using True ring_holds_length [OF h] by simp
  then obtain i where i: "BoundedQueue_mod (q_start q + of_nat (unat k)) (q_cap q) = Inr i"
      "unat i = (unat (q_start q) + unat k) mod c"
    using ring_holds_slot [OF h] by blast
  have "ucast (ucast (q_start q) + k) = q_start q + of_nat (unat k)"
    unfolding narrow_add by simp
  then show ?thesis
    using True i(1) item_at_ring [OF h True i(2)] ring_holds_length [OF h]
    by (simp add: BoundedQueue_top_at_def word_less_nat_alt)
qed (use ring_holds_length [OF h] in \<open>simp add: BoundedQueue_top_at_def word_less_nat_alt\<close>)

lemma bottom_at_ring:
  assumes h: "ring_holds c q xs"
  shows "\<exists>p. BoundedQueue_bottom_at k q = Inr p \<and>
    (if unat k < length xs then p \<noteq> None \<and> item_at q (the p) = Inr (rev xs ! unat k) else p = None)"
proof (cases "unat k < length xs")
  case True
  define j where "j = length xs - Suc (unat k)"
  have j: "j < length xs" "j \<le> c" "length xs = j + unat k + 1"
    using True conjunct1 [OF conjunct2 [OF ring_holds_length [OF h]]] unfolding j_def by linarith+
  then obtain i where i: "BoundedQueue_mod (q_start q + of_nat j) (q_cap q) = Inr i"
      "unat i = (unat (q_start q) + j) mod c"
    using ring_holds_slot [OF h] by blast
  have "(ucast (ucast (q_start q + q_count q) - k - 1) :: 32 word) = q_start q + q_count q - of_nat (unat k) - 1"
    unfolding narrow_diff by simp
  also have "\<dots> = q_start q + of_nat j"
    unfolding count_of_nat [OF h] j(3) by simp
  finally show ?thesis
    using True i(1) item_at_ring [OF h j(1) i(2)] ring_holds_length [OF h]
    by (simp add: BoundedQueue_bottom_at_def word_less_nat_alt rev_nth j_def)
qed (use ring_holds_length [OF h] in \<open>simp add: BoundedQueue_bottom_at_def word_less_nat_alt\<close>)

lemma top_bottom_0:
  "BoundedQueue_top_at 0 q = rbind (Inr (BoundedQueue_top q)) (\<lambda>p. if p = None then Inr None else
     rbind (BoundedQueue_mod (q_start q) (q_cap q)) (\<lambda>i. Inr (Some i)))"
  "BoundedQueue_bottom_at 0 q = BoundedQueue_bottom q"
  by (simp_all add: BoundedQueue_top_at_def BoundedQueue_top_def BoundedQueue_bottom_at_def BoundedQueue_bottom_def
      narrow_diff word_less_nat_alt unat_gt_0)

lemma ring_onto: "s < c \<Longrightarrow> i < c \<Longrightarrow> \<exists>k < c. (s + k) mod c = i" for s :: nat
  by (rule exI [of _ "(i + (c - s)) mod c"]) (simp add: mod_add_right_eq)

lemma clear_round:
  assumes h: "ring_holds c q xs" and k: "k < length xs"
    and I: "c \<le> length its" "\<forall>i < c. its ! ((unat (q_start q) + i) mod c) = (if k \<le> i \<and> i < length xs then Some (xs ! i) else None)"
  shows "\<exists>its'. rbind (BoundedQueue_mod (q_start q + of_nat k) (q_cap q)) (destroy_item (q\<lparr>q_items := Some its\<rparr>)) =
      Inr (q\<lparr>q_items := Some its'\<rparr>) \<and> c \<le> length its' \<and>
    (\<forall>i < c. its' ! ((unat (q_start q) + i) mod c) = (if Suc k \<le> i \<and> i < length xs then Some (xs ! i) else None))"
proof -
  have c: "unat (q_start q) < c" "0 < c" "k < c" using h k by (auto simp: ring_holds_def)
  obtain i where i: "BoundedQueue_mod (q_start q + of_nat k) (q_cap q) = Inr i" "unat i = (unat (q_start q) + k) mod c"
    using ring_holds_slot [OF h less_imp_le [OF c(3)]] by blast
  have "unat i < length its" unfolding i(2) using c(2) I(1) by (rule ring_slot_less)
  moreover have "its ! unat i = Some (xs ! k)" unfolding i(2) using I(2) c(3) k by simp
  moreover have "its[unat i := None] ! ((unat (q_start q) + j) mod c) = (if Suc k \<le> j \<and> j < length xs then Some (xs ! j) else None)"
    if "j < c" for j
    unfolding i(2) ring_write [OF c(1,3) that I(1)] using I(2) that by auto
  ultimately show ?thesis
    using i(1) I(1) by (auto simp: destroy_item_def item_at_def put_slot_def)
qed

lemma clear_ring:
  assumes h: "ring_holds c q xs"
  shows "\<exists>q'. BoundedQueue_clear q = Inr q' \<and> ring_holds c q' []"
proof -
  obtain items where it: "q_items q = Some items" "c \<le> length items" "ring_slots items c (unat (q_start q)) xs"
      "unat (q_start q) < c" "0 < c"
    using h by (rule ring_holdsE)
  define I where "I k q' \<longleftrightarrow> (\<exists>its. q' = q\<lparr>q_items := Some its\<rparr> \<and> c \<le> length its \<and>
    (\<forall>i < c. its ! ((unat (q_start q) + i) mod c) = (if k \<le> i \<and> i < length xs then Some (xs ! i) else None)))" for k q'
  have "\<exists>q'. for_range 0 (uint (q_count q)) (\<lambda>i q. rbind (BoundedQueue_mod (q_start q + word_of_int i) (q_cap q)) (destroy_item q)) q = Inr q' \<and>
      I (length xs) q'"
  proof (rule for_range_inv)
    show "I 0 q" using it(1-3) by (auto simp: I_def ring_slots_def intro!: exI [of _ items])
    show "uint (q_count q) = int (length xs)" using ring_holds_length [OF h] by (metis of_nat_unat uint_nat)
    show "\<exists>s'. rbind (BoundedQueue_mod (q_start s + word_of_int (int k)) (q_cap s)) (destroy_item s) = Inr s' \<and> I (Suc k) s'"
      if "k < length xs" "I k s" for k s
      using that clear_round [OF h that(1)] by (fastforce simp: I_def)
  qed
  then obtain its where its: "for_range 0 (uint (q_count q)) (\<lambda>i q. rbind (BoundedQueue_mod (q_start q + word_of_int i) (q_cap q)) (destroy_item q)) q =
      Inr (q\<lparr>q_items := Some its\<rparr>)" "c \<le> length its" "\<forall>i < c. its ! ((unat (q_start q) + i) mod c) = None"
    by (fastforce simp: I_def)
  have "ring_slots its c 0 []"
    using its(3) ring_onto [OF it(4)] by (fastforce simp: ring_slots_def)
  then show ?thesis
    using h its(1,2) by (auto simp: BoundedQueue_clear_def ring_holds_def)
qed

text \<open>The destructor of a queue that owns its storage leaves no object behind.\<close>

lemma destroy_ring:
  assumes "ring_holds c q xs"
  shows "\<exists>q'. BoundedQueue_destroy q = Inr q' \<and>
    (if q_ownership q' = OWNS_STORAGE then q_items q' = None else ring_holds c q' [])"
proof -
  obtain q1 where "BoundedQueue_clear q = Inr q1" "ring_holds c q1 []"
    using clear_ring [OF assms] by blast
  then show ?thesis
    by (intro exI [of _ "if q_ownership q1 = OWNS_STORAGE then q1\<lparr>q_items := None\<rparr> else q1"])
      (simp add: BoundedQueue_destroy_def)
qed

lemma allocated_slots:
  fixes capacity size_T :: "64 word"
  assumes "0 < unat size_T" and "unat capacity * unat size_T < 2 ^ 64"
  shows "unat (capacity * size_T div size_T) = unat capacity"
proof -
  have "unat (capacity * size_T) = unat capacity * unat size_T"
    using assms(2) by (simp add: unat_word_ariths)
  then show ?thesis using assms(1) by (simp add: unat_div_distrib)
qed

lemma narrow_capacity:
  fixes capacity :: "64 word"
  assumes "capacity \<le> BoundedQueue_max_capacity"
  shows "unat (ucast capacity :: 32 word) = unat capacity"
  using assms by (simp add: BoundedQueue_max_capacity_def word_le_nat_alt unsigned_ucast_eq unsigned_take_bit_eq take_bit_nat_eq_self)

lemma BoundedQueue_new_holds:
  assumes "malloc_ok (capacity * size_T)" and "0 < unat capacity" and "unat capacity \<le> 2 ^ 31" and "0 < unat size_T"
    and "unat capacity * unat size_T < 2 ^ 64"
  shows "ring_holds (unat capacity) (BoundedQueue_new malloc_ok size_T capacity) []"
proof -
  have "capacity \<le> BoundedQueue_max_capacity"
    using assms(3) by (simp add: BoundedQueue_max_capacity_def word_le_nat_alt)
  then show ?thesis
    using assms(1-3) allocated_slots [OF assms(4,5)]
    by (simp add: ring_holds_def BoundedQueue_new_def Let_def ring_slots_def narrow_capacity)
qed

section \<open>The queue refines a list of bounded length\<close>

datatype 'a deque_op =
    Push 'a | Push_top 'a | Elim_push 'a | Drop | Pop | Drop_bottom | Pop_bottom | Clear
  | Top_at "64 word" | Bottom_at "64 word"

datatype 'a deque_out = Done bool | Item "'a option"

text \<open>What a caller sees of each operation; \<^verbatim>\<open>top\<close> and \<^verbatim>\<open>bottom\<close> are followed by a read through the pointer.\<close>

definition deref :: "'a BoundedQueue \<Rightarrow> 32 word option \<Rightarrow> 'a deque_out result" where
  "deref q p = (case p of None \<Rightarrow> Inr (Item None) | Some i \<Rightarrow> rbind (item_at q i) (\<lambda>x. Inr (Item (Some x))))"

fun BoundedQueue_op :: "'a deque_op \<Rightarrow> 'a BoundedQueue \<Rightarrow> ('a deque_out \<times> 'a BoundedQueue) result" where
  "BoundedQueue_op (Push x) q = rbind (BoundedQueue_push x q) (\<lambda>(b, q1). Inr (Done b, q1))"
| "BoundedQueue_op (Push_top x) q = rbind (BoundedQueue_push_top x q) (\<lambda>(b, q1). Inr (Done b, q1))"
| "BoundedQueue_op (Elim_push x) q = rbind (BoundedQueue_elim_push x q) (\<lambda>q1. Inr (Done True, q1))"
| "BoundedQueue_op Drop q = rbind (BoundedQueue_drop q) (\<lambda>(b, q1). Inr (Done b, q1))"
| "BoundedQueue_op Pop q = rbind (BoundedQueue_pop q) (\<lambda>(x, q1). Inr (Item x, q1))"
| "BoundedQueue_op Drop_bottom q = rbind (BoundedQueue_drop_bottom q) (\<lambda>(b, q1). Inr (Done b, q1))"
| "BoundedQueue_op Pop_bottom q = rbind (BoundedQueue_pop_bottom q) (\<lambda>(x, q1). Inr (Item x, q1))"
| "BoundedQueue_op Clear q = rbind (BoundedQueue_clear q) (\<lambda>q1. Inr (Done True, q1))"
| "BoundedQueue_op (Top_at k) q =
     rbind (BoundedQueue_top_at k q) (\<lambda>p. rbind (deref q p) (\<lambda>out. Inr (out, q)))"
| "BoundedQueue_op (Bottom_at k) q =
     rbind (BoundedQueue_bottom_at k q) (\<lambda>p. rbind (deref q p) (\<lambda>out. Inr (out, q)))"

fun deque_spec :: "nat \<Rightarrow> 'a deque_op \<Rightarrow> 'a list \<Rightarrow> 'a deque_out \<times> 'a list" where
  "deque_spec c (Push x) xs = (Done (length xs < c), if length xs < c then xs @ [x] else xs)"
| "deque_spec c (Push_top x) xs = (Done (length xs < c), if length xs < c then x # xs else xs)"
| "deque_spec c (Elim_push x) xs = (Done True, (if length xs < c then xs else tl xs) @ [x])"
| "deque_spec c Drop xs = (Done (xs \<noteq> []), tl xs)"
| "deque_spec c Pop xs = (Item (case xs of [] \<Rightarrow> None | x # _ \<Rightarrow> Some x), tl xs)"
| "deque_spec c Drop_bottom xs = (Done (xs \<noteq> []), butlast xs)"
| "deque_spec c Pop_bottom xs = (Item (if xs = [] then None else Some (last xs)), butlast xs)"
| "deque_spec c Clear xs = (Done True, [])"
| "deque_spec c (Top_at k) xs = (Item (if unat k < length xs then Some (xs ! unat k) else None), xs)"
| "deque_spec c (Bottom_at k) xs = (Item (if unat k < length xs then Some (rev xs ! unat k) else None), xs)"

interpretation bq: data_refinement BoundedQueue_op "deque_spec c" "ring_holds c" for c :: nat
proof
  fix q :: "'a BoundedQueue" and xs x
  assume h: "ring_holds c q xs"
  show "\<exists>q'. BoundedQueue_op x q = Inr (fst (deque_spec c x xs), q') \<and> ring_holds c q' (snd (deque_spec c x xs))"
  proof (cases x)
    case (Push a) then show ?thesis using push_ring [OF h, of a] by auto
  next
    case (Push_top a) then show ?thesis using push_top_ring [OF h, of a] by auto
  next
    case (Elim_push a) then show ?thesis using elim_push_ring [OF h, of a] by auto
  next
    case Drop then show ?thesis using drop_ring [OF h] by auto
  next
    case Pop then show ?thesis using pop_ring [OF h] by auto
  next
    case Drop_bottom then show ?thesis using drop_bottom_ring [OF h] by auto
  next
    case Pop_bottom then show ?thesis using pop_bottom_ring [OF h] by auto
  next
    case Clear then show ?thesis using clear_ring [OF h] by auto
  next
    case (Top_at k) then show ?thesis using h top_at_ring [OF h, of k] by (auto simp: deref_def)
  next
    case (Bottom_at k) then show ?thesis using h bottom_at_ring [OF h, of k] by (auto simp: deref_def)
  qed
qed

section \<open>Capacities above \<open>2\<^sup>31\<close>\<close>

text \<open>The ring after a push at the top and \<open>k\<close> pushes, while the sum of start and count does not wrap.\<close>

definition large_ring :: "32 word \<Rightarrow> 'a \<Rightarrow> 'a \<Rightarrow> nat \<Rightarrow> 'a BoundedQueue" where
  "large_ring cap z x k =
    \<lparr>q_count = of_nat (Suc k), q_cap = cap, q_start = cap - 1, q_ownership = OWNS_STORAGE,
     q_items = Some (replicate k (Some x) @ replicate (unat cap - 1 - k) None @ [Some z])\<rparr>"

lemma BoundedQueue_mod_unat: "0 < cap \<Longrightarrow> BoundedQueue_mod off cap = Inr (off mod cap)"
  by (simp add: BoundedQueue_mod_def mod_loop_mod)

text \<open>A large capacity, with the number of pushes after which the sum wraps.\<close>

lemma large_cap:
  fixes cap :: "32 word"
  assumes "2 ^ 31 < unat cap"
  shows "0 < cap" and "unat (cap - 1) = unat cap - 1" and "unat cap < 2 ^ 32" and "2 ^ 32 - unat cap < 2 ^ 31"
proof -
  show "0 < cap" using assms by (auto simp: word_less_nat_alt)
  then show "unat (cap - 1) = unat cap - 1" by (simp add: unat_minus_one word_gt_0)
  show "unat cap < 2 ^ 32" using unsigned_less [of cap, where ?'a = nat] by simp
  show "2 ^ 32 - unat cap < 2 ^ 31" using assms by simp
qed

lemma large_count:
  assumes "2 ^ 31 < unat cap" and "k \<le> 2 ^ 32 - unat cap"
  shows "unat (of_nat (Suc k) :: 32 word) = Suc k" and "(of_nat (Suc k) :: 32 word) < cap"
  using assms large_cap(4) [OF assms(1)] by (simp_all add: word_less_nat_alt unat_of_nat del: of_nat_Suc)

lemma large_offset:
  fixes cap :: "32 word"
  assumes "2 ^ 31 < unat cap" and "k \<le> 2 ^ 32 - unat cap"
  shows "unat (cap - 1 + of_nat (Suc k)) = (if k < 2 ^ 32 - unat cap then unat cap + k else 0)"
proof -
  have "unat (cap - 1 + of_nat (Suc k)) = (unat cap - 1 + Suc k) mod 2 ^ 32"
    unfolding unat_word_ariths(1) large_cap(2) [OF assms(1)] large_count(1) [OF assms] by simp
  moreover have "unat cap - 1 + Suc k = unat cap + k" using assms(1) by simp
  ultimately show ?thesis using assms large_cap(3) [OF assms(1)] by auto
qed

lemma large_slot:
  fixes cap :: "32 word"
  assumes "2 ^ 31 < unat cap" and "k \<le> 2 ^ 32 - unat cap"
  shows "unat ((cap - 1 + of_nat (Suc k)) mod cap) = (if k < 2 ^ 32 - unat cap then k else 0)"
  using assms large_cap(4) [OF assms(1)] unfolding unat_mod_distrib large_offset [OF assms] by simp

lemma large_push_top:
  fixes z :: 'a
  assumes "2 ^ 31 < unat cap"
  shows "BoundedQueue_push_top z \<lparr>q_count = 0, q_cap = cap, q_start = 0, q_ownership = OWNS_STORAGE, q_items = Some (replicate (unat cap) None)\<rparr> =
    Inr (True, large_ring cap z x 0)"
proof -
  have "unat cap = Suc (unat cap - 1)" using assms by simp
  then have "replicate (unat cap) None = replicate (unat cap - 1) None @ [None :: 'a option]" by (metis replicate_Suc replicate_append_same)
  then have "(replicate (unat cap) None)[unat cap - 1 := Some z] = replicate (unat cap - 1) None @ [Some z]"
    by (simp add: list_update_append)
  then show ?thesis
    using large_cap [OF assms] by (simp add: BoundedQueue_push_top_def put_slot_def large_ring_def)
qed

text \<open>One more push, before the sum wraps and when it does.\<close>

lemma large_push:
  assumes "2 ^ 31 < unat cap" and "k < 2 ^ 32 - unat cap"
  shows "BoundedQueue_push x (large_ring cap z x k) = Inr (True, large_ring cap z x (Suc k))"
proof -
  have "unat cap - 1 - k = Suc (unat cap - 1 - Suc k)" using assms large_cap(4) [OF assms(1)] by simp
  then have "(replicate k (Some x) @ replicate (unat cap - 1 - k) None @ [Some z])[k := Some x] =
      replicate (Suc k) (Some x) @ replicate (unat cap - 1 - Suc k) None @ [Some z]"
    by (simp add: list_update_append replicate_append_same)
  then show ?thesis
    using large_slot [OF assms(1), of k] large_count(2) [OF assms(1), of k] large_cap(1) [OF assms(1)] assms(2)
    by (simp add: BoundedQueue_push_def BoundedQueue_mod_unat put_slot_def large_ring_def del: replicate_Suc)
qed

lemma large_push_wraps:
  assumes "2 ^ 31 < unat cap"
  defines "n \<equiv> 2 ^ 32 - unat cap"
  shows "BoundedQueue_push y (large_ring cap z x n) = Inr (True, (large_ring cap z x n)
    \<lparr>q_count := of_nat (Suc (Suc n)), q_items := Some (Some y # replicate (n - 1) (Some x) @ replicate (unat cap - 1 - n) None @ [Some z])\<rparr>)"
proof -
  have "0 < n" using large_cap(3) [OF assms(1)] by (simp add: n_def)
  then have "(replicate n (Some x) @ replicate (unat cap - 1 - n) None @ [Some z])[0 := Some y] =
      Some y # replicate (n - 1) (Some x) @ replicate (unat cap - 1 - n) None @ [Some z]"
    by (cases n) simp_all
  then show ?thesis
    using large_slot [OF assms(1), of n] large_count(2) [OF assms(1), of n] large_cap(1) [OF assms(1)]
    by (simp add: BoundedQueue_push_def BoundedQueue_mod_unat put_slot_def large_ring_def n_def)
qed

text \<open>The operations that show it, run by the code and by the specification.\<close>

definition wrapping_ops :: "nat \<Rightarrow> 'a \<Rightarrow> 'a \<Rightarrow> 'a \<Rightarrow> 'a deque_op list" where
  "wrapping_ops n z x y = [Push_top z] @ replicate n (Push x) @ [Push y, Top_at 1]"

lemma large_pushes:
  assumes "2 ^ 31 < unat cap"
  shows "k + j \<le> 2 ^ 32 - unat cap \<Longrightarrow>
    run_ops BoundedQueue_op (replicate k (Push x)) (large_ring cap z x j) = Inr (replicate k (Done True), large_ring cap z x (k + j))"
proof (induction k arbitrary: j)
  case (Suc k)
  then show ?case using large_push [OF assms, of j x z] Suc.IH [of "Suc j"] by simp
qed simp

lemma large_run:
  assumes "2 ^ 31 < unat cap"
  defines "n \<equiv> 2 ^ 32 - unat cap"
  shows "\<exists>q. run_ops BoundedQueue_op (wrapping_ops n z x y)
      \<lparr>q_count = 0, q_cap = cap, q_start = 0, q_ownership = OWNS_STORAGE, q_items = Some (replicate (unat cap) None)\<rparr> =
    Inr (replicate (n + 2) (Done True) @ [Item (Some y)], q)"
proof -
  define q where "q = (large_ring cap z x n)\<lparr>q_count := of_nat (Suc (Suc n)),
    q_items := Some (Some y # replicate (n - 1) (Some x) @ replicate (unat cap - 1 - n) None @ [Some z])\<rparr>"
  have "Suc (Suc n) < 2 ^ 32" using large_cap [OF assms(1)] assms(1) by (simp add: n_def)
  then have count: "unat (q_count q) = Suc (Suc n)" by (simp add: q_def unat_of_nat del: of_nat_Suc)
  have "BoundedQueue_mod cap cap = Inr 0" using BoundedQueue_mod_unat [OF large_cap(1) [OF assms(1)]] by simp
  then have "BoundedQueue_top_at 1 q = Inr (Some 0)"
    using count by (simp add: BoundedQueue_top_at_def word_less_nat_alt narrow_add) (simp add: q_def large_ring_def)
  moreover have "deref q (Some 0) = Inr (Item (Some y))" by (simp add: deref_def item_at_def q_def)
  moreover have "BoundedQueue_push y (large_ring cap z x n) = Inr (True, q)"
    unfolding q_def n_def by (rule large_push_wraps [OF assms(1)])
  moreover have "run_ops BoundedQueue_op (replicate n (Push x)) (large_ring cap z x 0) = Inr (replicate n (Done True), large_ring cap z x n)"
    using large_pushes [OF assms(1), of n 0 x z] by (simp add: n_def)
  ultimately show ?thesis
    using large_push_top [OF assms(1), of z x] by (simp add: wrapping_ops_def run_ops_append replicate_append_same)
qed

lemma spec_pushes:
  "length xs + k \<le> c \<Longrightarrow> run_spec (deque_spec c) (replicate k (Push x)) xs = (replicate k (Done True), xs @ replicate k x)"
  by (induction k arbitrary: xs) simp_all

lemma large_spec:
  fixes cap :: "32 word"
  assumes "2 ^ 31 < unat cap"
  defines "n \<equiv> 2 ^ 32 - unat cap"
  shows "fst (run_spec (deque_spec (unat cap)) (wrapping_ops n z x y) []) = replicate (n + 2) (Done True) @ [Item (Some x)]"
proof -
  have "Suc (Suc n) \<le> unat cap" "0 < n" using large_cap [OF assms(1)] assms(1) by (simp_all add: n_def)
  then show ?thesis
    by (simp add: wrapping_ops_def run_spec_append spec_pushes nth_append replicate_append_same)
qed

section \<open>Properties\<close>

text \<open>
  C13. A queue made with a positive capacity up to \<open>2\<^sup>31\<close>, whose storage was allocated, behaves under every
  sequence of operations like a list of at most that many items: no operation faults, and each
  returns what it returns on the list.
\<close>

theorem BoundedQueue_refines_list:
  assumes "malloc_ok (capacity * size_T)" and "0 < unat capacity" and "unat capacity \<le> 2 ^ 31" and "0 < unat size_T"
    and "unat capacity * unat size_T < 2 ^ 64"
  shows "\<exists>q. run_ops BoundedQueue_op ops (BoundedQueue_new malloc_ok size_T capacity) =
    Inr (fst (run_spec (deque_spec (unat capacity)) ops []), q)"
  using bq.run_refines [OF BoundedQueue_new_holds [where malloc_ok = malloc_ok, OF assms], of ops] by blast

theorem BoundedQueue_refines_list_witness:
  "\<exists>q. run_ops BoundedQueue_op [Push 1, Push 2, Push (3 :: int), Elim_push 4, Pop, Pop_bottom, Pop]
      (BoundedQueue_new (\<lambda>bytes. bytes \<le> 64) 8 2) =
    Inr ([Done True, Done True, Done False, Done True, Item (Some 2), Item (Some 4), Item None], q)"
  using BoundedQueue_refines_list [of "\<lambda>bytes. bytes \<le> 64" 2 8
      "[Push 1, Push 2, Push (3 :: int), Elim_push 4, Pop, Pop_bottom, Pop]"] by simp

text \<open>
  C29. Above a capacity of \<open>2\<^sup>31\<close>, which \<^verbatim>\<open>max_capacity\<close> allows, the queue loses items. On a new queue of capacity \<open>c\<close>, push one item
  at the top, then \<open>2\<^sup>32 - c\<close> items \<open>x\<close> and one item \<open>y\<close>. All pushes report success, as they should, but the 32-bit sum
  of start and count wraps at the last one, which overwrites the first \<open>x\<close>: the second item from the top is \<open>y\<close>, where a queue has \<open>x\<close>.
\<close>

theorem BoundedQueue_overwrites_item:
  fixes x y z :: 'a
  assumes "malloc_ok (capacity * size_T)" and "2 ^ 31 < unat capacity" and "capacity \<le> BoundedQueue_max_capacity" and "0 < unat size_T"
    and "unat capacity * unat size_T < 2 ^ 64" and n: "n = 2 ^ 32 - unat capacity"
  shows "(\<exists>q. run_ops BoundedQueue_op (wrapping_ops n z x y) (BoundedQueue_new malloc_ok size_T capacity) =
        Inr (replicate (n + 2) (Done True) @ [Item (Some y)], q)) \<and>
    fst (run_spec (deque_spec (unat capacity)) (wrapping_ops n z x y) []) = replicate (n + 2) (Done True) @ [Item (Some x)]"
proof
  define cap :: "32 word" where "cap = ucast capacity"
  have c: "unat cap = unat capacity" "2 ^ 31 < unat cap" and n': "n = 2 ^ 32 - unat cap"
    using narrow_capacity [OF assms(3)] assms(2) n by (simp_all add: cap_def)
  have "BoundedQueue_new malloc_ok size_T capacity =
      \<lparr>q_count = 0, q_cap = cap, q_start = 0, q_ownership = OWNS_STORAGE, q_items = Some (replicate (unat cap) (None :: 'a option))\<rparr>"
    using assms(1) allocated_slots [OF assms(4,5)] by (simp add: BoundedQueue_new_def Let_def cap_def [symmetric] c(1))
  then show "\<exists>q. run_ops BoundedQueue_op (wrapping_ops n z x y) (BoundedQueue_new malloc_ok size_T capacity) =
      Inr (replicate (n + 2) (Done True) @ [Item (Some y)], q)"
    using large_run [OF c(2), of z x y] by (simp add: n')
  show "fst (run_spec (deque_spec (unat capacity)) (wrapping_ops n z x y) []) = replicate (n + 2) (Done True) @ [Item (Some x)]"
    using large_spec [OF c(2), of z x y] by (simp add: n' c(1))
qed

theorem BoundedQueue_overwrites_item_witness:
  "(\<exists>q. run_ops BoundedQueue_op [Push_top 1, Push 2, Push (3 :: int), Top_at 1] (BoundedQueue_new (\<lambda>_. True) 4 0xFFFFFFFF) =
      Inr ([Done True, Done True, Done True, Item (Some 3)], q)) \<and>
    fst (run_spec (deque_spec 0xFFFFFFFF) [Push_top 1, Push 2, Push 3, Top_at 1] []) =
      [Done True, Done True, Done True, Item (Some (2 :: int))]"
  using BoundedQueue_overwrites_item [of "\<lambda>_. True" "0xFFFFFFFF" 4 1 1 2 3]
  by (simp add: wrapping_ops_def BoundedQueue_max_capacity_def)

end
