(* ===== verification/Linked_List.thy ===== *)
theory Linked_List
  imports Cpp_Prelude
begin

text \<open>
  The intrusive doubly linked list of \<^verbatim>\<open>libsh/butil/containers/linked_list.h\<close>. The nodes live in a
  heap of their two link fields, and the operations assign them in the order of the code, so that
  nodes may coincide. A list is a circle through its root node; \<open>linked h ps\<close> says that successive nodes of
  \<open>ps\<close> are linked in both directions.
\<close>

section \<open>Definitions\<close>

record 'p link_heap =
  link_previous :: "'p \<Rightarrow> 'p"
  link_next :: "'p \<Rightarrow> 'p"

definition set_next :: "'p \<Rightarrow> 'p \<Rightarrow> 'p link_heap \<Rightarrow> 'p link_heap" where
  "set_next p v h = h\<lparr>link_next := (link_next h)(p := v)\<rparr>"

definition set_previous :: "'p \<Rightarrow> 'p \<Rightarrow> 'p link_heap \<Rightarrow> 'p link_heap" where
  "set_previous p v h = h\<lparr>link_previous := (link_previous h)(p := v)\<rparr>"

text \<open>The default constructor, which is also the one of \<^verbatim>\<open>LinkedList\<close> on its root, and the one with two arguments.\<close>

definition LinkNode :: "'p \<Rightarrow> 'p link_heap \<Rightarrow> 'p link_heap" where
  "LinkNode this h = set_next this this (set_previous this this h)"

definition LinkNode_between :: "'p \<Rightarrow> 'p \<Rightarrow> 'p \<Rightarrow> 'p link_heap \<Rightarrow> 'p link_heap" where
  "LinkNode_between this prev nxt h = set_next this nxt (set_previous this prev h)"

definition InsertBefore :: "'p \<Rightarrow> 'p \<Rightarrow> 'p link_heap \<Rightarrow> 'p link_heap" where
  "InsertBefore this e h0 =
    (let h1 = set_next this e h0;
         h2 = set_previous this (link_previous h1 e) h1;
         h3 = set_next (link_previous h2 e) this h2 in
     set_previous e this h3)"

definition InsertBeforeAsList :: "'p \<Rightarrow> 'p \<Rightarrow> 'p link_heap \<Rightarrow> 'p link_heap" where
  "InsertBeforeAsList this e h0 =
    (let prev = link_previous h0 this;
         h1 = set_next prev e h0;
         h2 = set_previous this (link_previous h1 e) h1;
         h3 = set_next (link_previous h2 e) this h2 in
     set_previous e prev h3)"

definition InsertAfter :: "'p \<Rightarrow> 'p \<Rightarrow> 'p link_heap \<Rightarrow> 'p link_heap" where
  "InsertAfter this e h0 =
    (let h1 = set_next this (link_next h0 e) h0;
         h2 = set_previous this e h1;
         h3 = set_previous (link_next h2 e) this h2 in
     set_next e this h3)"

definition InsertAfterAsList :: "'p \<Rightarrow> 'p \<Rightarrow> 'p link_heap \<Rightarrow> 'p link_heap" where
  "InsertAfterAsList this e h0 =
    (let prev = link_previous h0 this;
         h1 = set_next prev (link_next h0 e) h0;
         h2 = set_previous this e h1;
         h3 = set_previous (link_next h2 e) prev h2 in
     set_next e this h3)"

definition RemoveFromList :: "'p \<Rightarrow> 'p link_heap \<Rightarrow> 'p link_heap" where
  "RemoveFromList this h0 =
    (let h1 = set_next (link_previous h0 this) (link_next h0 this) h0;
         h2 = set_previous (link_next h1 this) (link_previous h1 this) h1;
         h3 = set_next this this h2 in
     set_previous this this h3)"

definition LinkedList_Append :: "'p \<Rightarrow> 'p \<Rightarrow> 'p link_heap \<Rightarrow> 'p link_heap" where
  "LinkedList_Append root e h = InsertBefore e root h"

definition LinkedList_Prepend :: "'p \<Rightarrow> 'p \<Rightarrow> 'p link_heap \<Rightarrow> 'p link_heap" where
  "LinkedList_Prepend root e h = InsertAfter e root h"

definition LinkedList_head :: "'p \<Rightarrow> 'p link_heap \<Rightarrow> 'p" where
  "LinkedList_head root h = link_next h root"

definition LinkedList_tail :: "'p \<Rightarrow> 'p link_heap \<Rightarrow> 'p" where
  "LinkedList_tail root h = link_previous h root"

definition LinkedList_end :: "'p \<Rightarrow> 'p" where
  "LinkedList_end root = root"

definition LinkedList_empty :: "'p \<Rightarrow> 'p link_heap \<Rightarrow> bool" where
  "LinkedList_empty root h \<longleftrightarrow> LinkedList_head root h = LinkedList_end root"

section \<open>Linked nodes\<close>

named_theorems link_defs \<open>the operations as assignments to the link fields\<close>

declare set_next_def [link_defs] set_previous_def [link_defs] LinkNode_def [link_defs]
  InsertBefore_def [link_defs] InsertBeforeAsList_def [link_defs] InsertAfter_def [link_defs]
  InsertAfterAsList_def [link_defs] RemoveFromList_def [link_defs]

fun linked :: "'p link_heap \<Rightarrow> 'p list \<Rightarrow> bool" where
  "linked h (x # y # zs) \<longleftrightarrow> link_next h x = y \<and> link_previous h y = x \<and> linked h (y # zs)"
| "linked h zs \<longleftrightarrow> True"

lemma linked_append: "linked h (xs @ y # ys) \<longleftrightarrow> linked h (xs @ [y]) \<and> linked h (y # ys)"
proof (induction xs)
  case (Cons x xs)
  then show ?case by (cases xs) auto
qed simp

text \<open>Only the forward links of all nodes but the last matter, and the backward links of all but the first.\<close>

lemma linked_cong:
  assumes "\<And>p. p \<in> set (butlast ps) \<Longrightarrow> link_next h' p = link_next h p"
    and "\<And>p. p \<in> set (tl ps) \<Longrightarrow> link_previous h' p = link_previous h p"
  shows "linked h' ps = linked h ps"
  using assms by (induction h ps rule: linked.induct) auto

text \<open>
  A list with a root is a circle through the root; \<open>circle_holds\<close> is the same without a root, for the
  operations that insert a circle as a list.
\<close>

definition list_holds :: "'p link_heap \<Rightarrow> 'p \<Rightarrow> 'p list \<Rightarrow> bool" where
  "list_holds h root xs \<longleftrightarrow> distinct (root # xs) \<and> linked h (root # xs @ [root])"

definition circle_holds :: "'p link_heap \<Rightarrow> 'p list \<Rightarrow> bool" where
  "circle_holds h zs \<longleftrightarrow> zs \<noteq> [] \<and> distinct zs \<and> linked h (zs @ [hd zs])"

text \<open>All insertions are the same four assignments around the gap between \<open>a\<close> and \<open>b\<close>.\<close>

definition splice_in :: "'p \<Rightarrow> 'p list \<Rightarrow> 'p \<Rightarrow> 'p link_heap \<Rightarrow> 'p link_heap" where
  "splice_in a zs b h =
     set_previous b (last zs) (set_next (last zs) b (set_previous (hd zs) a (set_next a (hd zs) h)))"

lemma distinct_butlast_last: "distinct zs \<Longrightarrow> zs \<noteq> [] \<Longrightarrow> last zs \<notin> set (butlast zs)"
  by (metis append_butlast_last_id distinct_butlast not_distinct_conv_prefix)

lemma linked_join: "zs \<noteq> [] \<Longrightarrow> linked h (zs @ b # B) \<longleftrightarrow>
    linked h zs \<and> link_next h (last zs) = b \<and> link_previous h b = last zs \<and> linked h (b # B)"
proof -
  assume "zs \<noteq> []"
  then obtain Y y where zs: "zs = Y @ [y]" by (cases zs rule: rev_cases) auto
  show ?thesis using linked_append [of h Y y "b # B"] by (simp add: zs)
qed

lemma splice_in_holds:
  assumes L: "list_holds h root (xs @ ys)" and zs: "zs \<noteq> []" "distinct zs" "linked h zs"
    and disj: "set zs \<inter> set (root # xs @ ys) = {}"
  shows "list_holds (splice_in (last (root # xs)) zs (hd (ys @ [root])) h) root (xs @ zs @ ys)"
proof -
  define P a where "P = root # xs" and "a = last P"
  obtain b B where B: "ys @ [root] = b # B" by (cases ys) auto
  define h' where "h' = splice_in a zs b h"
  have P: "P \<noteq> []" "distinct P" "a \<in> set P" "tl P = xs" "a \<notin> set (butlast P)"
    using L by (auto simp: list_holds_def P_def a_def distinct_butlast_last)
  have ys: "butlast (b # B) = ys" using B by (metis butlast_snoc)
  have sep: "set P \<inter> set ys = {}" "set zs \<inter> set P = {}" "set zs \<inter> set ys = {}"
    and b: "b \<notin> set xs" "b \<notin> set B" "b \<notin> set zs" "set B \<subseteq> insert root (set ys)"
    using L B disj by (cases ys; auto simp: list_holds_def P_def)+
  have z: "hd zs \<in> set zs" "last zs \<in> set zs" "last zs \<notin> set (butlast zs)" "hd zs \<notin> set (tl zs)"
    using zs by (simp_all add: distinct_butlast_last) (cases zs; simp)
  have n: "link_next h' = (link_next h)(a := hd zs, last zs := b)"
    and p: "link_previous h' = (link_previous h)(hd zs := a, b := last zs)"
    by (simp_all add: h'_def splice_in_def link_defs)
  have "root # (xs @ ys) @ [root] = P @ b # B" by (simp add: P_def B)
  then have old: "linked h P" "linked h (b # B)"
    using L linked_join [OF P(1), of h b B] by (simp_all add: list_holds_def)
  have "linked h' P"
    using old(1) sep P b(1) z
    by (subst linked_cong [of P h' h]) (auto simp: n p dest: in_set_butlastD list.set_sel(2) [OF P(1)])
  moreover have "linked h' zs"
    using zs(3) sep P(3) z b(3) by (subst linked_cong [of zs h' h]) (auto simp: n p dest: in_set_butlastD list.set_sel(2) [OF zs(1)])
  moreover have "linked h' (b # B)"
  proof (subst linked_cong [of "b # B" h' h])
    show "link_next h' q = link_next h q" if "q \<in> set (butlast (b # B))" for q
      using that sep P(3) z(2) unfolding ys by (auto simp: n)
    show "link_previous h' q = link_previous h q" if "q \<in> set (tl (b # B))" for q
      using that sep(2,3) z(1) b(2,4) by (auto simp: p P_def)
  qed (rule old(2))
  moreover have "link_next h' a = hd zs" "link_previous h' (hd zs) = a" "link_next h' (last zs) = b" "link_previous h' b = last zs"
    using sep P(3) z b(3) by (auto simp: n p)
  ultimately have "linked h' (P @ zs @ b # B)"
    using zs(1) P(1) linked_join [OF P(1), of h' "hd zs" "tl zs @ b # B"] linked_join [OF zs(1), of h' b B]
    by (cases zs) (simp_all add: a_def)
  moreover have "root # (xs @ zs @ ys) @ [root] = P @ zs @ b # B" by (simp add: P_def B)
  moreover have "distinct (root # xs @ zs @ ys)"
    using L zs(2) disj by (auto simp: list_holds_def)
  ultimately show ?thesis
    unfolding list_holds_def h'_def a_def P_def B by simp
qed

section \<open>The operations\<close>

lemma list_holds_ends:
  assumes "list_holds h root (xs @ ys)"
  shows "link_previous h (hd (ys @ [root])) = last (root # xs)" and "link_next h (last (root # xs)) = hd (ys @ [root])"
proof -
  obtain b B where B: "ys @ [root] = b # B" by (cases ys) auto
  have "linked h ((root # xs) @ b # B)" using assms B by (simp add: list_holds_def)
  then show "link_previous h (hd (ys @ [root])) = last (root # xs)" "link_next h (last (root # xs)) = hd (ys @ [root])"
    by (subst (asm) linked_join; simp add: B)+
qed

lemma ends_in_list: "last (root # xs) \<in> set (root # xs @ ys)" "hd (ys @ [root]) \<in> set (root # xs @ ys)"
  by (cases xs rule: rev_cases; simp) (cases ys; simp)

lemma InsertBefore_splice:
  "this \<noteq> e \<Longrightarrow> this \<noteq> link_previous h e \<Longrightarrow> InsertBefore this e h = splice_in (link_previous h e) [this] e h"
  by (cases h) (auto simp: link_defs splice_in_def Let_def fun_eq_iff)

lemma InsertAfter_splice:
  "this \<noteq> e \<Longrightarrow> this \<noteq> link_next h e \<Longrightarrow> InsertAfter this e h = splice_in e [this] (link_next h e) h"
  by (cases h) (auto simp: link_defs splice_in_def Let_def fun_eq_iff)

lemma InsertBeforeAsList_splice:
  assumes "zs \<noteq> []" and "e \<notin> set zs" and "link_previous h e \<notin> set zs" and "link_previous h (hd zs) = last zs"
  shows "InsertBeforeAsList (hd zs) e h = splice_in (link_previous h e) zs e h"
proof -
  have "hd zs \<noteq> e" "last zs \<noteq> e" "hd zs \<noteq> link_previous h e" "last zs \<noteq> link_previous h e"
    using assms(1-3) by (metis hd_in_set, metis last_in_set, metis hd_in_set, metis last_in_set)
  then show ?thesis
    using assms(4) by (cases h) (auto simp: link_defs splice_in_def Let_def fun_eq_iff)
qed

lemma InsertAfterAsList_splice:
  assumes "zs \<noteq> []" and "e \<notin> set zs" and "link_next h e \<notin> set zs" and "link_previous h (hd zs) = last zs"
  shows "InsertAfterAsList (hd zs) e h = splice_in e zs (link_next h e) h"
proof -
  have "hd zs \<noteq> e" "last zs \<noteq> e" "hd zs \<noteq> link_next h e" "last zs \<noteq> link_next h e"
    using assms(1-3) by (metis hd_in_set, metis last_in_set, metis hd_in_set, metis last_in_set)
  then show ?thesis
    using assms(4) by (cases h) (auto simp: link_defs splice_in_def Let_def fun_eq_iff)
qed

lemma gap_not_in:
  assumes "list_holds h root (xs @ ys)" and "set zs \<inter> set (root # xs @ ys) = {}"
  shows "hd (ys @ [root]) \<notin> set zs" and "last (root # xs) \<notin> set zs"
    and "link_previous h (hd (ys @ [root])) \<notin> set zs" and "link_next h (last (root # xs)) \<notin> set zs"
  using assms(2) ends_in_list [where root = root and xs = xs and ys = ys] list_holds_ends [OF assms(1)] by auto

lemma InsertBefore_holds:
  assumes "list_holds h root (xs @ ys)" and "this \<notin> set (root # xs @ ys)"
  shows "list_holds (InsertBefore this (hd (ys @ [root])) h) root (xs @ this # ys)"
proof -
  have d: "set [this] \<inter> set (root # xs @ ys) = {}" using assms(2) by auto
  have "InsertBefore this (hd (ys @ [root])) h = splice_in (last (root # xs)) [this] (hd (ys @ [root])) h"
    using InsertBefore_splice [of this "hd (ys @ [root])" h] gap_not_in [OF assms(1) d] list_holds_ends [OF assms(1)]
    by (metis list.set_intros(1))
  with splice_in_holds [OF assms(1) _ _ _ d] show ?thesis by simp
qed

lemma InsertAfter_holds:
  assumes "list_holds h root (xs @ ys)" and "this \<notin> set (root # xs @ ys)"
  shows "list_holds (InsertAfter this (last (root # xs)) h) root (xs @ this # ys)"
proof -
  have d: "set [this] \<inter> set (root # xs @ ys) = {}" using assms(2) by auto
  have "InsertAfter this (last (root # xs)) h = splice_in (last (root # xs)) [this] (hd (ys @ [root])) h"
    using InsertAfter_splice [of this "last (root # xs)" h] gap_not_in [OF assms(1) d] list_holds_ends [OF assms(1)]
    by (metis list.set_intros(1))
  with splice_in_holds [OF assms(1) _ _ _ d] show ?thesis by simp
qed

lemma circle_ends:
  assumes "circle_holds h zs"
  shows "zs \<noteq> []" and "distinct zs" and "linked h zs" and "link_previous h (hd zs) = last zs"
  using assms by (auto simp: circle_holds_def linked_join)

lemma InsertBeforeAsList_holds:
  assumes "list_holds h root (xs @ ys)" and "circle_holds h zs" and "set zs \<inter> set (root # xs @ ys) = {}"
  shows "list_holds (InsertBeforeAsList (hd zs) (hd (ys @ [root])) h) root (xs @ zs @ ys)"
  using splice_in_holds [OF assms(1) circle_ends(1-3) [OF assms(2)] assms(3)] gap_not_in [OF assms(1,3)]
    InsertBeforeAsList_splice [OF circle_ends(1) [OF assms(2)] _ _ circle_ends(4) [OF assms(2)]] list_holds_ends [OF assms(1)]
  by simp

lemma InsertAfterAsList_holds:
  assumes "list_holds h root (xs @ ys)" and "circle_holds h zs" and "set zs \<inter> set (root # xs @ ys) = {}"
  shows "list_holds (InsertAfterAsList (hd zs) (last (root # xs)) h) root (xs @ zs @ ys)"
  using splice_in_holds [OF assms(1) circle_ends(1-3) [OF assms(2)] assms(3)] gap_not_in [OF assms(1,3)]
    InsertAfterAsList_splice [OF circle_ends(1) [OF assms(2)] _ _ circle_ends(4) [OF assms(2)]] list_holds_ends [OF assms(1)]
  by simp

text \<open>Removal closes the gap and leaves the node as a circle of its own.\<close>

lemma RemoveFromList_holds:
  assumes L: "list_holds h root (xs @ this # ys)"
  shows "list_holds (RemoveFromList this h) root (xs @ ys) \<and> circle_holds (RemoveFromList this h) [this]"
proof -
  define P a where "P = root # xs" and "a = last P"
  obtain b B where B: "ys @ [root] = b # B" by (cases ys) auto
  define h' where "h' = RemoveFromList this h"
  have P: "P \<noteq> []" "a \<in> set P" "tl P = xs" "a \<notin> set (butlast P)"
    using L by (auto simp: list_holds_def P_def a_def distinct_butlast_last)
  have ys: "butlast (b # B) = ys" using B by (metis butlast_snoc)
  have sep: "set P \<inter> set ys = {}" "this \<notin> set P" "this \<notin> set ys" "this \<noteq> b"
    and b: "b \<notin> set xs" "b \<notin> set B" "set B \<subseteq> insert root (set ys)"
    using L B by (cases ys; auto simp: list_holds_def P_def)+
  have "root # (xs @ this # ys) @ [root] = P @ this # b # B" by (simp add: P_def B)
  then have old: "linked h P" "link_next h a = this" "link_previous h this = a" "link_next h this = b"
      "link_previous h b = this" "linked h (b # B)"
    using L linked_join [OF P(1), of h this "b # B"] by (simp_all add: list_holds_def a_def)
  have n: "link_next h' = (link_next h)(a := b, this := this)" and p: "link_previous h' = (link_previous h)(b := a, this := this)"
    using old(2-5) sep(2,4) P(2) by (auto simp: h'_def link_defs Let_def)
  have "linked h' P"
    using old(1) sep P b(1) by (subst linked_cong [of P h' h]) (auto simp: n p dest: in_set_butlastD list.set_sel(2) [OF P(1)])
  moreover have "linked h' (b # B)"
  proof (subst linked_cong [of "b # B" h' h])
    show "link_next h' q = link_next h q" if "q \<in> set (butlast (b # B))" for q
      using that sep P(2) unfolding ys by (auto simp: n)
    show "link_previous h' q = link_previous h q" if "q \<in> set (tl (b # B))" for q
      using that sep(2,3) b(2,3) by (auto simp: p P_def)
  qed (rule old(6))
  moreover have "link_next h' a = b" "link_previous h' b = a"
    using sep(2,4) P(2) by (auto simp: n p)
  ultimately have "linked h' (P @ b # B)"
    using linked_join [OF P(1), of h' b B] by (simp add: a_def)
  then have "list_holds h' root (xs @ ys)"
    using L by (simp add: list_holds_def P_def B)
  then show ?thesis
    by (simp add: h'_def [symmetric] circle_holds_def n p)
qed

lemma LinkNode_holds: "list_holds (LinkNode root h) root []"
  by (simp add: list_holds_def link_defs)

text \<open>\<^verbatim>\<open>head\<close>, \<^verbatim>\<open>tail\<close> and \<^verbatim>\<open>empty\<close> read the ends; the root stands for both ends of an empty list.\<close>

lemma LinkedList_ends:
  assumes "list_holds h root xs"
  shows "LinkedList_head root h = hd (xs @ [root]) \<and> LinkedList_tail root h = last (root # xs) \<and>
    (LinkedList_empty root h \<longleftrightarrow> xs = [])"
  using list_holds_ends(2) [of h root "[]" xs] list_holds_ends(1) [of h root xs "[]"] assms
  by (cases xs) (auto simp: LinkedList_head_def LinkedList_tail_def LinkedList_empty_def LinkedList_end_def list_holds_def)

section \<open>Properties\<close>

text \<open>
  C15. The operations of the list do what they say on the sequence of its nodes: a new node goes
  before or after any node, or to either end; a whole circle of nodes goes before or after any node; a
  removed node is alone again. No other node changes its place.
\<close>

theorem LinkedList_operations:
  assumes "list_holds h root (xs @ ys)" and "this \<notin> set (root # xs @ ys)"
    and "circle_holds h zs" and "set zs \<inter> set (root # xs @ ys) = {}"
  shows "list_holds (InsertBefore this (hd (ys @ [root])) h) root (xs @ this # ys) \<and>
    list_holds (InsertAfter this (last (root # xs)) h) root (xs @ this # ys) \<and>
    list_holds (LinkedList_Append root this h) root (xs @ ys @ [this]) \<and>
    list_holds (LinkedList_Prepend root this h) root (this # xs @ ys) \<and>
    list_holds (InsertBeforeAsList (hd zs) (hd (ys @ [root])) h) root (xs @ zs @ ys) \<and>
    list_holds (InsertAfterAsList (hd zs) (last (root # xs)) h) root (xs @ zs @ ys) \<and>
    (xs = [] \<or> list_holds (RemoveFromList (last xs) h) root (butlast xs @ ys) \<and>
      circle_holds (RemoveFromList (last xs) h) [last xs])"
proof -
  have "list_holds (LinkedList_Append root this h) root (xs @ ys @ [this])"
    using InsertBefore_holds [of h root "xs @ ys" "[]" this] assms(1,2) by (simp add: LinkedList_Append_def)
  moreover have "list_holds (LinkedList_Prepend root this h) root (this # xs @ ys)"
    using InsertAfter_holds [of h root "[]" "xs @ ys" this] assms(1,2) by (simp add: LinkedList_Prepend_def)
  moreover have "xs = [] \<or> list_holds (RemoveFromList (last xs) h) root (butlast xs @ ys) \<and>
      circle_holds (RemoveFromList (last xs) h) [last xs]"
    using RemoveFromList_holds [of h root "butlast xs" "last xs" ys] assms(1)
    by (cases xs rule: rev_cases) simp_all
  ultimately show ?thesis
    using InsertBefore_holds [OF assms(1,2)] InsertAfter_holds [OF assms(1,2)]
      InsertBeforeAsList_holds [OF assms(1,3,4)] InsertAfterAsList_holds [OF assms(1,3,4)] by blast
qed

definition heap_example :: "nat link_heap" where
  "heap_example = InsertBefore 5 4 (LinkNode 4 (LinkedList_Append 0 2 (LinkedList_Append 0 1
     (LinkNode 0 \<lparr>link_previous = (\<lambda>p. p), link_next = (\<lambda>p. p)\<rparr>))))"

theorem LinkedList_operations_witness:
  "list_holds (RemoveFromList 1 heap_example) 0 [2] \<and>
   list_holds (InsertBefore 3 2 heap_example) 0 [1, 3, 2] \<and> list_holds (InsertBeforeAsList 4 2 heap_example) 0 [1, 4, 5, 2]"
proof -
  have "list_holds heap_example 0 ([1] @ [2])" "circle_holds heap_example [4, 5]"
    by (simp_all add: heap_example_def list_holds_def circle_holds_def link_defs LinkedList_Append_def Let_def)
  then show ?thesis
    using LinkedList_operations [of heap_example 0 "[1]" "[2]" 3 "[4, 5]"] by simp
qed

end
