(* ===== verification/MRU_Cache.thy ===== *)
theory MRU_Cache
  imports Refinement "HOL-Library.Multiset"
begin

text \<open>
  The cache of \<^verbatim>\<open>libsh/butil/containers/mru_cache.h\<close>. The \<^verbatim>\<open>std::list\<close> is a sequence of nodes with an
  identity, which is what an iterator holds, \<open>None\<close> standing for \<^verbatim>\<open>end()\<close>; the index is a finite map as an
  association list without duplicates. The payloads handed to the deletor are recorded in order.
  \<^verbatim>\<open>size_type\<close> is a natural number: no list has \<open>2\<^sup>64\<close> nodes.
\<close>

section \<open>Definitions\<close>

record ('k, 'v) MRUCache =
  mru_ordering :: "(nat \<times> 'k \<times> 'v) list"
  mru_index :: "('k \<times> nat) list"
  mru_max_size :: nat
  mru_deleted :: "'v list"
  mru_fresh :: nat

definition MRUCache_new :: "nat \<Rightarrow> ('k, 'v) MRUCache" where
  "MRUCache_new max_size = \<lparr>mru_ordering = [], mru_index = [], mru_max_size = max_size, mru_deleted = [], mru_fresh = 0\<rparr>"

text \<open>The iterators of \<^verbatim>\<open>std::list\<close>: the node after one, and the node before one or before the end.\<close>

fun iter_next :: "(nat \<times> 'a) list \<Rightarrow> nat \<Rightarrow> nat option" where
  "iter_next ((i, x) # ns) j = (if i = j then (case ns of [] \<Rightarrow> None | (i', _) # _ \<Rightarrow> Some i') else iter_next ns j)"
| "iter_next [] j = None"

fun iter_prev :: "(nat \<times> 'a) list \<Rightarrow> nat option \<Rightarrow> nat option" where
  "iter_prev [] j = None"
| "iter_prev [(i, x)] j = (if j = None then Some i else None)"
| "iter_prev ((i, x) # (i', y) # ns) j = (if j = Some i' then Some i else iter_prev ((i', y) # ns) j)"

definition iter_begin :: "(nat \<times> 'a) list \<Rightarrow> nat option" where
  "iter_begin ns = (case ns of [] \<Rightarrow> None | (i, _) # _ \<Rightarrow> Some i)"

definition MRUCache_Erase :: "nat option \<Rightarrow> ('k, 'v) MRUCache \<Rightarrow> (nat option \<times> ('k, 'v) MRUCache) result" where
  "MRUCache_Erase pos q = (case pos of
     None \<Rightarrow> Inl Out_of_bounds
   | Some i \<Rightarrow> rbind (of_option Out_of_bounds (map_of (mru_ordering q) i)) (\<lambda>(key, payload).
       Inr (iter_next (mru_ordering q) i,
            q\<lparr>mru_deleted := mru_deleted q @ [payload],
              mru_index := filter (\<lambda>(k, _). k \<noteq> key) (mru_index q),
              mru_ordering := filter (\<lambda>(j, _). j \<noteq> i) (mru_ordering q)\<rparr>)))"

text \<open>A reverse iterator is given by its base, the node after the one it refers to.\<close>

definition MRUCache_Erase_reverse :: "nat option \<Rightarrow> ('k, 'v) MRUCache \<Rightarrow> (nat option \<times> ('k, 'v) MRUCache) result" where
  "MRUCache_Erase_reverse base q = MRUCache_Erase (iter_prev (mru_ordering q) base) q"

definition MRUCache_size :: "('k, 'v) MRUCache \<Rightarrow> nat" where
  "MRUCache_size q = length (mru_index q)"

primrec shrink_loop :: "nat \<Rightarrow> ('k, 'v) MRUCache \<Rightarrow> ('k, 'v) MRUCache result" where
  "shrink_loop 0 q = Inr q"
| "shrink_loop (Suc n) q = rbind (MRUCache_Erase_reverse None q) (\<lambda>(_, q1). shrink_loop n q1)"

definition MRUCache_ShrinkToSize :: "nat \<Rightarrow> ('k, 'v) MRUCache \<Rightarrow> ('k, 'v) MRUCache result" where
  "MRUCache_ShrinkToSize new_size q = shrink_loop (MRUCache_size q - new_size) q"

text \<open>\<^verbatim>\<open>std::map::insert\<close> keeps an entry that is already there.\<close>

definition index_insert :: "'k \<Rightarrow> nat \<Rightarrow> ('k \<times> nat) list \<Rightarrow> ('k \<times> nat) list" where
  "index_insert key i index = (if map_of index key = None then (key, i) # index else index)"

definition MRUCache_Put :: "'k \<Rightarrow> 'v \<Rightarrow> ('k, 'v) MRUCache \<Rightarrow> (nat option \<times> ('k, 'v) MRUCache) result" where
  "MRUCache_Put key payload q =
     rbind (case map_of (mru_index q) key of
        Some i \<Rightarrow> rbind (MRUCache_Erase (Some i) q) (\<lambda>(_, q1). Inr q1)
      | None \<Rightarrow> if mru_max_size q \<noteq> 0 then MRUCache_ShrinkToSize (mru_max_size q - 1) q else Inr q) (\<lambda>q1.
     let i = mru_fresh q1;
         q2 = q1\<lparr>mru_fresh := Suc i, mru_ordering := (i, key, payload) # mru_ordering q1\<rparr>;
         q3 = q2\<lparr>mru_index := index_insert key i (mru_index q2)\<rparr> in
     Inr (iter_begin (mru_ordering q3), q3))"

text \<open>\<^verbatim>\<open>splice\<close> moves a node to the front; the node keeps its identity.\<close>

definition MRUCache_Get :: "'k \<Rightarrow> ('k, 'v) MRUCache \<Rightarrow> (nat option \<times> ('k, 'v) MRUCache) result" where
  "MRUCache_Get key q = (case map_of (mru_index q) key of
     None \<Rightarrow> Inr (None, q)
   | Some i \<Rightarrow> rbind (of_option Out_of_bounds (map_of (mru_ordering q) i)) (\<lambda>node.
       let q1 = q\<lparr>mru_ordering := (i, node) # filter (\<lambda>(j, _). j \<noteq> i) (mru_ordering q)\<rparr> in
       Inr (iter_begin (mru_ordering q1), q1)))"

definition MRUCache_Peek :: "'k \<Rightarrow> ('k, 'v) MRUCache \<Rightarrow> nat option" where
  "MRUCache_Peek key q = map_of (mru_index q) key"

definition MRUCache_Clear :: "('k, 'v) MRUCache \<Rightarrow> ('k, 'v) MRUCache" where
  "MRUCache_Clear q =
     q\<lparr>mru_deleted := mru_deleted q @ map (\<lambda>(i, key, payload). payload) (mru_ordering q),
       mru_index := [], mru_ordering := []\<rparr>"

definition MRUCache_is_empty :: "('k, 'v) MRUCache \<Rightarrow> bool" where
  "MRUCache_is_empty q \<longleftrightarrow> mru_ordering q = []"

text \<open>The loop of the destructor, \<^verbatim>\<open>while (i != end()) i = Erase(i)\<close>, for as many rounds as there are nodes.\<close>

primrec destroy_loop :: "nat \<Rightarrow> nat option \<Rightarrow> ('k, 'v) MRUCache \<Rightarrow> ('k, 'v) MRUCache result" where
  "destroy_loop 0 pos q = (if pos = None then Inr q else Inl Diverges)"
| "destroy_loop (Suc n) pos q =
     (if pos = None then Inr q else rbind (MRUCache_Erase pos q) (\<lambda>(pos1, q1). destroy_loop n pos1 q1))"

definition MRUCache_destroy :: "('k, 'v) MRUCache \<Rightarrow> ('k, 'v) MRUCache result" where
  "MRUCache_destroy q = destroy_loop (length (mru_ordering q)) (iter_begin (mru_ordering q)) q"

section \<open>The invariant\<close>

text \<open>
  The cache holds the entries \<open>xs\<close>, most recent first, and has deleted \<open>dels\<close>: node identities are distinct and
  below the next one, keys are distinct, and the index finds for each key the node that has it.
\<close>

fun mru_holds :: "nat \<Rightarrow> ('k, 'v) MRUCache \<Rightarrow> ('k \<times> 'v) list \<times> 'v list \<Rightarrow> bool" where
  "mru_holds m q (xs, dels) \<longleftrightarrow>
    mru_max_size q = m \<and> map snd (mru_ordering q) = xs \<and> mru_deleted q = dels \<and>
    distinct (map fst (mru_ordering q)) \<and> (\<forall>i \<in> fst ` set (mru_ordering q). i < mru_fresh q) \<and>
    distinct (map fst xs) \<and> distinct (map fst (mru_index q)) \<and>
    map_of (mru_index q) = map_of (map (\<lambda>(i, k, v). (k, i)) (mru_ordering q))"

lemma map_of_filter_key: "map_of (filter (\<lambda>(k, _). k \<noteq> key) al) = (map_of al)(key := None)"
  by (induction al) (auto simp: fun_eq_iff)

lemma map_of_remove: "map_of A k = None \<Longrightarrow> map_of B k = None \<Longrightarrow> (map_of (A @ (k, i) # B))(k := None) = map_of (A @ B)"
  by (auto simp: fun_eq_iff map_add_def split: option.splits)

lemma distinct_filter_key: "distinct (map fst al) \<Longrightarrow> distinct (map fst (filter P al))"
  by (induction al) auto

lemma filter_absent: "i \<notin> fst ` set A \<Longrightarrow> filter (\<lambda>(j, _). j \<noteq> i) A = A"
  by (induction A) auto

lemma filter_node: "distinct (map fst (A @ (i, x) # B)) \<Longrightarrow> filter (\<lambda>(j, _). j \<noteq> i) (A @ (i, x) # B) = A @ B"
  by (simp add: filter_absent)

lemma map_of_node: "distinct (map fst (A @ (i, x) # B)) \<Longrightarrow> map_of (A @ (i, x) # B) i = Some x"
  by (auto simp: map_add_def map_of_eq_None_iff split: option.splits dest: map_of_SomeD intro: rev_image_eqI)

lemma iter_next_node: "distinct (map fst (A @ (i, x) # B)) \<Longrightarrow> iter_next (A @ (i, x) # B) i = iter_begin B"
  by (induction A) (auto simp: iter_begin_def split: list.splits)

lemma iter_prev_last: "iter_prev (A @ [(i, x)]) None = Some i"
  by (induction A "None :: nat option" rule: iter_prev.induct) auto

lemma map_of_keys: "map_of (map (\<lambda>(i, k, v). (k, i)) ns) k = None \<longleftrightarrow> k \<notin> (\<lambda>x. fst (snd x)) ` set ns"
  by (induction ns) auto

lemma mru_holds_index:
  assumes "mru_holds m q (xs, dels)"
  shows "map_of (mru_index q) k = None \<longleftrightarrow> k \<notin> fst ` set xs"
    and "MRUCache_size q = length xs"
proof -
  show "map_of (mru_index q) k = None \<longleftrightarrow> k \<notin> fst ` set xs" for k
    using assms by (clarsimp simp: map_of_keys image_image)
  then have "fst ` set (mru_index q) = fst ` set xs"
    unfolding map_of_eq_None_iff by blast
  then have "card (set (map fst (mru_index q))) = card (set (map fst xs))" by simp
  moreover have "distinct (map fst (mru_index q))" "distinct (map fst xs)" using assms by auto
  ultimately have "length (map fst (mru_index q)) = length (map fst xs)" by (simp only: distinct_card)
  then show "MRUCache_size q = length xs" by (simp add: MRUCache_size_def)
qed

lemma mru_holds_find:
  assumes "mru_holds m q (xs, dels)" and "map_of (mru_index q) k = Some i"
  shows "\<exists>A v B. mru_ordering q = A @ (i, k, v) # B"
proof -
  have "(k, i) \<in> set (map (\<lambda>(i, k, v). (k, i)) (mru_ordering q))"
    using assms by (auto dest: map_of_SomeD)
  then have "\<exists>v. (i, k, v) \<in> set (mru_ordering q)" by auto
  then show ?thesis by (meson split_list)
qed

text \<open>Erasing a node of the ordering.\<close>

lemma Erase_node:
  assumes h: "mru_holds m q (xs, dels)" and o: "mru_ordering q = A @ (i, k, v) # B"
  shows "\<exists>q'. MRUCache_Erase (Some i) q = Inr (iter_begin B, q') \<and> mru_ordering q' = A @ B \<and>
    mru_holds m q' (map snd A @ map snd B, dels @ [v])"
proof -
  have d: "distinct (map fst (A @ (i, k, v) # B))" using h o by simp
  have dk: "distinct (map fst (map snd (A @ (i, k, v) # B)))" using h o by auto
  have keys: "k \<notin> (\<lambda>x. fst (snd x)) ` set A" "k \<notin> (\<lambda>x. fst (snd x)) ` set B"
    using dk by (simp_all add: image_image)
  define q' where "q' = q\<lparr>mru_deleted := mru_deleted q @ [v], mru_index := filter (\<lambda>(k', _). k' \<noteq> k) (mru_index q),
      mru_ordering := A @ B\<rparr>"
  have "MRUCache_Erase (Some i) q = Inr (iter_begin B, q')"
    using map_of_node [OF d] filter_node [OF d] iter_next_node [OF d]
    by (simp add: MRUCache_Erase_def q'_def o del: map_of_append filter_append)
  moreover have "map_of (mru_index q') = map_of (map (\<lambda>(i, k, v). (k, i)) (A @ B))"
    using h o map_of_remove [OF keys [folded map_of_keys], of i] by (simp add: q'_def map_of_filter_key)
  then have "mru_holds m q' (map snd A @ map snd B, dels @ [v])"
    using h o by (simp add: q'_def distinct_filter_key dk [simplified])
  ultimately show ?thesis by (auto simp: q'_def)
qed

lemma Erase_reverse_last:
  assumes h: "mru_holds m q (xs, dels)" and "xs \<noteq> []"
  shows "\<exists>p q'. MRUCache_Erase_reverse None q = Inr (p, q') \<and> mru_holds m q' (butlast xs, dels @ [snd (last xs)])"
proof -
  obtain A i k v where o: "mru_ordering q = A @ [(i, k, v)]"
    using assms by (cases "mru_ordering q" rule: rev_cases) auto
  show ?thesis
    using Erase_node [OF h o] h o by (auto simp: MRUCache_Erase_reverse_def iter_prev_last)
qed

lemma shrink_loop_holds:
  "mru_holds m q (xs, dels) \<Longrightarrow> n \<le> length xs \<Longrightarrow>
    \<exists>q'. shrink_loop n q = Inr q' \<and>
      mru_holds m q' (take (length xs - n) xs, dels @ rev (map snd (drop (length xs - n) xs)))"
proof (induction n arbitrary: q xs dels)
  case (Suc n)
  obtain ys y where xs: "xs = ys @ [y]" using Suc.prems(2) by (cases xs rule: rev_cases) auto
  obtain p q1 where q1: "MRUCache_Erase_reverse None q = Inr (p, q1)" "mru_holds m q1 (ys, dels @ [snd y])"
    using Erase_reverse_last [OF Suc.prems(1)] xs by auto
  show ?case
    using Suc.IH [OF q1(2)] Suc.prems(2) q1(1) by (simp add: xs)
qed simp

lemma ShrinkToSize_holds:
  assumes "mru_holds m q (xs, dels)"
  shows "\<exists>q'. MRUCache_ShrinkToSize n q = Inr q' \<and> mru_holds m q' (take n xs, dels @ rev (map snd (drop n xs)))"
  using shrink_loop_holds [OF assms, of "length xs - n"] mru_holds_index(2) [OF assms]
  by (cases "n \<le> length xs") (simp_all add: MRUCache_ShrinkToSize_def)

text \<open>A new node at the front, for a key that is not in the cache.\<close>

lemma push_front_holds:
  assumes h: "mru_holds m q (xs, dels)" and k: "k \<notin> fst ` set xs"
  shows "mru_holds m (q\<lparr>mru_fresh := Suc (mru_fresh q), mru_ordering := (mru_fresh q, k, v) # mru_ordering q,
      mru_index := index_insert k (mru_fresh q) (mru_index q)\<rparr>) ((k, v) # xs, dels)"
proof -
  have "map_of (mru_index q) k = None" using mru_holds_index(1) [OF h] k by simp
  moreover have "k \<notin> fst ` set (mru_index q)" using calculation by (simp add: map_of_eq_None_iff)
  moreover have "mru_fresh q \<notin> fst ` set (mru_ordering q)" using h by auto
  ultimately show ?thesis
    using h k by (simp add: index_insert_def less_Suc_eq)
qed

text \<open>The entry of a key and the rest.\<close>

lemma entry_split:
  assumes h: "mru_holds m q (xs, dels)" and k: "map_of (mru_index q) k = Some i"
  obtains A v B where "mru_ordering q = A @ (i, k, v) # B" and "map_of xs k = Some v"
    and "filter (\<lambda>(k', _). k' \<noteq> k) xs = map snd A @ map snd B"
proof -
  obtain A v B where o: "mru_ordering q = A @ (i, k, v) # B" using mru_holds_find [OF h k] by blast
  have xs: "xs = map snd A @ (k, v) # map snd B" and d: "distinct (map fst xs)" using h o by auto
  have "k \<notin> fst ` set (map snd A)" "k \<notin> fst ` set (map snd B)"
    using d unfolding xs by (simp_all add: image_image)
  then have "filter (\<lambda>(k', _). k' \<noteq> k) xs = map snd A @ map snd B" "map_of xs k = Some v"
    unfolding xs by (simp_all add: filter_absent map_add_def map_of_eq_None_iff [THEN iffD2])
  with o that show thesis by blast
qed

section \<open>The operations\<close>

text \<open>What the cache promises, on the entries and the deleted payloads; \<open>m = 0\<close> means no limit.\<close>

datatype ('k, 'v) mru_op = Mru_Put 'k 'v | Mru_Get 'k | Mru_Peek 'k | Mru_Erase 'k | Mru_Shrink nat | Mru_Clear | Mru_Size

datatype 'v mru_out = Payload "'v option" | Count nat

fun mru_spec :: "nat \<Rightarrow> ('k, 'v) mru_op \<Rightarrow> ('k \<times> 'v) list \<times> 'v list \<Rightarrow> 'v mru_out \<times> ('k \<times> 'v) list \<times> 'v list" where
  "mru_spec m (Mru_Put k v) (xs, dels) = (case map_of xs k of
     Some w \<Rightarrow> (Payload (Some v), (k, v) # filter (\<lambda>(k', _). k' \<noteq> k) xs, dels @ [w])
   | None \<Rightarrow> if m = 0 then (Payload (Some v), (k, v) # xs, dels)
       else (Payload (Some v), (k, v) # take (m - 1) xs, dels @ rev (map snd (drop (m - 1) xs))))"
| "mru_spec m (Mru_Get k) (xs, dels) = (case map_of xs k of
     Some v \<Rightarrow> (Payload (Some v), (k, v) # filter (\<lambda>(k', _). k' \<noteq> k) xs, dels)
   | None \<Rightarrow> (Payload None, xs, dels))"
| "mru_spec m (Mru_Peek k) (xs, dels) = (Payload (map_of xs k), xs, dels)"
| "mru_spec m (Mru_Erase k) (xs, dels) = (case map_of xs k of
     Some v \<Rightarrow> (Payload (Some v), filter (\<lambda>(k', _). k' \<noteq> k) xs, dels @ [v])
   | None \<Rightarrow> (Payload None, xs, dels))"
| "mru_spec m (Mru_Shrink n) (xs, dels) = (Count (min n (length xs)), take n xs, dels @ rev (map snd (drop n xs)))"
| "mru_spec m Mru_Clear (xs, dels) = (Count 0, [], dels @ map snd xs)"
| "mru_spec m Mru_Size (xs, dels) = (Count (length xs), xs, dels)"

text \<open>A caller's use of the operations: a returned iterator is read, and a key is erased through \<^verbatim>\<open>Peek\<close>.\<close>

definition read_iter :: "nat option \<Rightarrow> ('k, 'v) MRUCache \<Rightarrow> 'v mru_out result" where
  "read_iter pos q = (case pos of
     None \<Rightarrow> Inr (Payload None)
   | Some i \<Rightarrow> rbind (of_option Out_of_bounds (map_of (mru_ordering q) i)) (\<lambda>(key, payload). Inr (Payload (Some payload))))"

fun MRUCache_op :: "('k, 'v) mru_op \<Rightarrow> ('k, 'v) MRUCache \<Rightarrow> ('v mru_out \<times> ('k, 'v) MRUCache) result" where
  "MRUCache_op (Mru_Put k v) q = rbind (MRUCache_Put k v q) (\<lambda>(p, q1). rbind (read_iter p q1) (\<lambda>out. Inr (out, q1)))"
| "MRUCache_op (Mru_Get k) q = rbind (MRUCache_Get k q) (\<lambda>(p, q1). rbind (read_iter p q1) (\<lambda>out. Inr (out, q1)))"
| "MRUCache_op (Mru_Peek k) q = rbind (read_iter (MRUCache_Peek k q) q) (\<lambda>out. Inr (out, q))"
| "MRUCache_op (Mru_Erase k) q = (if MRUCache_Peek k q = None then Inr (Payload None, q) else
     rbind (read_iter (MRUCache_Peek k q) q) (\<lambda>out.
     rbind (MRUCache_Erase (MRUCache_Peek k q) q) (\<lambda>(_, q1). Inr (out, q1))))"
| "MRUCache_op (Mru_Shrink n) q = rbind (MRUCache_ShrinkToSize n q) (\<lambda>q1. Inr (Count (MRUCache_size q1), q1))"
| "MRUCache_op Mru_Clear q = (let q1 = MRUCache_Clear q in Inr (Count (MRUCache_size q1), q1))"
| "MRUCache_op Mru_Size q = Inr (Count (MRUCache_size q), q)"

lemma read_front: "read_iter (iter_begin (mru_ordering q)) q = Inr (Payload (Some v))"
  if "mru_ordering q = (i, k, v) # B"
  using that by (simp add: read_iter_def iter_begin_def)

lemma Put_holds:
  assumes h: "mru_holds m q (xs, dels)"
  shows "\<exists>q'. MRUCache_op (Mru_Put k v) q = Inr (fst (mru_spec m (Mru_Put k v) (xs, dels)), q') \<and>
    mru_holds m q' (snd (mru_spec m (Mru_Put k v) (xs, dels)))"
proof -
  define s where "s = snd (mru_spec m (Mru_Put k v) (xs, dels))"
  obtain ys es where s: "s = ((k, v) # ys, es)" "fst (mru_spec m (Mru_Put k v) (xs, dels)) = Payload (Some v)"
    by (cases "map_of xs k"; cases "m = 0") (auto simp: s_def)
  have "\<exists>q1. (case map_of (mru_index q) k of
        Some i \<Rightarrow> rbind (MRUCache_Erase (Some i) q) (\<lambda>(_, q1). Inr q1)
      | None \<Rightarrow> if mru_max_size q \<noteq> 0 then MRUCache_ShrinkToSize (mru_max_size q - 1) q else Inr q) = Inr q1 \<and>
      mru_holds m q1 (ys, es) \<and> k \<notin> fst ` set ys"
  proof (cases "map_of (mru_index q) k")
    case None
    then have k: "k \<notin> fst ` set xs" using mru_holds_index(1) [OF h] by simp
    then have "map_of xs k = None" by (simp add: map_of_eq_None_iff)
    then have ys: "ys = (if m = 0 then xs else take (m - 1) xs)"
        "es = (if m = 0 then dels else dels @ rev (map snd (drop (m - 1) xs)))"
      using s(1) by (auto simp: s_def split: if_splits)
    have "k \<notin> fst ` set ys" "mru_max_size q = m"
      using k h set_take_subset [of "m - 1" xs] by (auto simp: ys(1))
    then show ?thesis
      using None h k ys ShrinkToSize_holds [OF h, of "m - 1"] by (auto simp del: mru_holds.simps)
  next
    case (Some i)
    obtain A w B where o: "mru_ordering q = A @ (i, k, w) # B" "map_of xs k = Some w"
        "filter (\<lambda>(k', _). k' \<noteq> k) xs = map snd A @ map snd B"
      using entry_split [OF h Some] by blast
    then have ys: "ys = filter (\<lambda>(k', _). k' \<noteq> k) xs" "es = dels @ [w]" using s(1) by (auto simp: s_def)
    obtain q1 where "MRUCache_Erase (Some i) q = Inr (iter_begin B, q1)" "mru_holds m q1 (ys, es)"
      using Erase_node [OF h o(1)] unfolding ys o(3) by blast
    moreover have "k \<notin> fst ` set ys" unfolding ys(1) by auto
    ultimately show ?thesis using Some by (simp del: mru_holds.simps)
  qed
  then obtain q1 where q1: "MRUCache_Put k v q = (let i = mru_fresh q1;
         q2 = q1\<lparr>mru_fresh := Suc i, mru_ordering := (i, k, v) # mru_ordering q1\<rparr>;
         q3 = q2\<lparr>mru_index := index_insert k i (mru_index q2)\<rparr> in Inr (iter_begin (mru_ordering q3), q3))"
      "mru_holds m q1 (ys, es)" "k \<notin> fst ` set ys"
    by (auto simp: MRUCache_Put_def)
  show ?thesis
    using q1(1) push_front_holds [OF q1(2,3), of v] s
    by (simp add: Let_def s_def [symmetric] read_iter_def iter_begin_def del: mru_holds.simps mru_spec.simps)
qed

lemma Get_holds:
  assumes h: "mru_holds m q (xs, dels)"
  shows "\<exists>q'. MRUCache_op (Mru_Get k) q = Inr (fst (mru_spec m (Mru_Get k) (xs, dels)), q') \<and>
    mru_holds m q' (snd (mru_spec m (Mru_Get k) (xs, dels)))"
proof (cases "map_of (mru_index q) k")
  case None
  then have "map_of xs k = None" using mru_holds_index(1) [OF h] by (simp add: map_of_eq_None_iff)
  with None h show ?thesis by (simp add: MRUCache_Get_def read_iter_def)
next
  case (Some i)
  obtain A v B where o: "mru_ordering q = A @ (i, k, v) # B" "map_of xs k = Some v"
      "filter (\<lambda>(k', _). k' \<noteq> k) xs = map snd A @ map snd B"
    using entry_split [OF h Some] by blast
  have d: "distinct (map fst (A @ (i, k, v) # B))" and dk: "distinct (map fst (map snd (A @ (i, k, v) # B)))"
    using h o(1) by auto
  define q' where "q' = q\<lparr>mru_ordering := (i, k, v) # A @ B\<rparr>"
  have "MRUCache_op (Mru_Get k) q = Inr (Payload (Some v), q')"
    using Some o(1) map_of_node [OF d] filter_node [OF d]
    by (simp add: MRUCache_Get_def read_iter_def iter_begin_def q'_def del: map_of_append filter_append)
  moreover have keys: "map_of (map (\<lambda>(i, k, v). (k, i)) A) k = None"
    using dk by (simp add: map_of_keys image_image)
  then have "map_of (map (\<lambda>(i, k, v). (k, i)) (A @ (i, k, v) # B)) = map_of (map (\<lambda>(i, k, v). (k, i)) ((i, k, v) # A @ B))"
    by (auto simp: fun_eq_iff map_add_def split: option.splits)
  then have "mru_holds m q' ((k, v) # map snd A @ map snd B, dels)"
    using h o(1) d [simplified] dk [simplified] by (simp add: q'_def image_image)
  ultimately show ?thesis using o(2,3) by simp
qed

lemma Peek_read:
  assumes h: "mru_holds m q (xs, dels)"
  shows "read_iter (MRUCache_Peek k q) q = Inr (Payload (map_of xs k))"
proof (cases "map_of (mru_index q) k")
  case None
  then have "map_of xs k = None" using mru_holds_index(1) [OF h] by (simp add: map_of_eq_None_iff)
  with None show ?thesis by (simp add: MRUCache_Peek_def read_iter_def)
next
  case (Some i)
  obtain A v B where o: "mru_ordering q = A @ (i, k, v) # B" "map_of xs k = Some v"
    using entry_split [OF h Some] by blast
  have "map_of (mru_ordering q) i = Some (k, v)"
    unfolding o(1) using h o(1) by (intro map_of_node) auto
  with Some o(2) show ?thesis by (simp add: MRUCache_Peek_def read_iter_def)
qed

lemma Erase_holds:
  assumes h: "mru_holds m q (xs, dels)"
  shows "\<exists>q'. MRUCache_op (Mru_Erase k) q = Inr (fst (mru_spec m (Mru_Erase k) (xs, dels)), q') \<and>
    mru_holds m q' (snd (mru_spec m (Mru_Erase k) (xs, dels)))"
proof (cases "map_of (mru_index q) k")
  case None
  then have "map_of xs k = None" using mru_holds_index(1) [OF h] by (simp add: map_of_eq_None_iff)
  with None h show ?thesis by (simp add: MRUCache_Peek_def)
next
  case (Some i)
  obtain A v B where o: "mru_ordering q = A @ (i, k, v) # B" "map_of xs k = Some v"
      "filter (\<lambda>(k', _). k' \<noteq> k) xs = map snd A @ map snd B"
    using entry_split [OF h Some] by blast
  then show ?thesis
    using Some Erase_node [OF h o(1)] Peek_read [OF h, of k] by (auto simp: MRUCache_Peek_def)
qed

lemma Clear_holds: "mru_holds m q (xs, dels) \<Longrightarrow> mru_holds m (MRUCache_Clear q) ([], dels @ map snd xs)"
  by (auto simp: MRUCache_Clear_def)

lemma destroy_loop_holds:
  "mru_holds m q (xs, dels) \<Longrightarrow> \<exists>q'. destroy_loop (length xs) (iter_begin (mru_ordering q)) q = Inr q' \<and>
    mru_holds m q' ([], dels @ map snd xs)"
proof (induction xs arbitrary: q dels)
  case Nil
  then show ?case by (simp add: iter_begin_def)
next
  case (Cons x xs)
  obtain i k v B where o: "mru_ordering q = [] @ (i, k, v) # B" "x = (k, v)" "xs = map snd B"
    using Cons.prems by (cases "mru_ordering q") auto
  obtain q1 where q1: "MRUCache_Erase (Some i) q = Inr (iter_begin B, q1)" "mru_ordering q1 = B" "mru_holds m q1 (xs, dels @ [v])"
    using Erase_node [OF Cons.prems o(1)] o(3) by auto
  show ?case
    using Cons.IH [OF q1(3)] q1(1,2) o by (simp add: iter_begin_def del: mru_holds.simps)
qed

interpretation mru: data_refinement MRUCache_op "mru_spec m" "mru_holds m" for m :: nat
proof
  fix q :: "('k, 'v) MRUCache" and s x
  assume "mru_holds m q s"
  then obtain xs dels where s: "s = (xs, dels)" and h: "mru_holds m q (xs, dels)" by (cases s) auto
  show "\<exists>q'. MRUCache_op x q = Inr (fst (mru_spec m x s), q') \<and> mru_holds m q' (snd (mru_spec m x s))"
  proof (cases x)
    case (Mru_Put k v) show ?thesis unfolding s Mru_Put by (rule Put_holds [OF h])
  next
    case (Mru_Get k) show ?thesis unfolding s Mru_Get by (rule Get_holds [OF h])
  next
    case (Mru_Peek k) then show ?thesis using h Peek_read [OF h, of k] by (simp add: s)
  next
    case (Mru_Erase k) show ?thesis unfolding s Mru_Erase by (rule Erase_holds [OF h])
  next
    case (Mru_Shrink n)
    obtain q' where "MRUCache_ShrinkToSize n q = Inr q'" "mru_holds m q' (take n xs, dels @ rev (map snd (drop n xs)))"
      using ShrinkToSize_holds [OF h] by blast
    then show ?thesis
      using mru_holds_index(2) [of m q'] by (simp add: s Mru_Shrink min.commute del: mru_holds.simps)
  next
    case Mru_Clear
    then show ?thesis
      using Clear_holds [OF h] mru_holds_index(2) [OF Clear_holds [OF h]] by (simp add: s Let_def del: mru_holds.simps)
  next
    case Mru_Size then show ?thesis using h mru_holds_index(2) [OF h] by (simp add: s del: mru_holds.simps)
  qed
qed

section \<open>Properties\<close>

lemma MRUCache_new_holds: "mru_holds m (MRUCache_new m) ([], [])"
  by (simp add: MRUCache_new_def)

text \<open>
  C14. Under every sequence of operations a new cache behaves like a list of entries in order of
  use, cut to its maximal size when an entry is added: no operation faults, each returns the same
  payloads and sizes, and the same payloads are deleted in the same order.
\<close>

theorem MRUCache_refines_entries:
  "\<exists>q. run_ops MRUCache_op ops (MRUCache_new m) = Inr (fst (run_spec (mru_spec m) ops ([], [])), q) \<and>
    mru_deleted q = snd (snd (run_spec (mru_spec m) ops ([], []))) \<and>
    map snd (mru_ordering q) = fst (snd (run_spec (mru_spec m) ops ([], [])))"
proof -
  obtain q where q: "run_ops MRUCache_op ops (MRUCache_new m) = Inr (fst (run_spec (mru_spec m) ops ([], [])), q)"
      "mru_holds m q (snd (run_spec (mru_spec m) ops ([], [])))"
    using mru.run_refines [OF MRUCache_new_holds] by blast
  then show ?thesis by (cases "snd (run_spec (mru_spec m) ops ([], []))") auto
qed

text \<open>The payloads that a sequence of operations puts into the cache.\<close>

fun puts :: "('k, 'v) mru_op list \<Rightarrow> 'v list" where
  "puts [] = []"
| "puts (Mru_Put k v # ops) = v # puts ops"
| "puts (_ # ops) = puts ops"

lemma mset_entry:
  "distinct (map fst xs) \<Longrightarrow> map_of xs k = Some w \<Longrightarrow>
    mset (map snd xs) = add_mset w (mset (map snd (filter (\<lambda>(k', _). k' \<noteq> k) xs)))"
proof (induction xs)
  case (Cons x xs)
  obtain k' v where x: "x = (k', v)" by (cases x)
  show ?case
  proof (cases "k' = k")
    case True
    with Cons.prems have "filter (\<lambda>(k', _). k' \<noteq> k) xs = xs" by (simp add: x filter_absent)
    with True Cons.prems show ?thesis unfolding x filter.simps by simp
  next
    case False
    with Cons show ?thesis by (simp add: x)
  qed
qed simp

lemma mset_take_drop: "mset (map snd (take n xs)) + mset (map snd (drop n xs)) = mset (map snd xs)"
  by (metis append_take_drop_id map_append mset_append)

lemma length_entry:
  assumes "map_of xs k = Some w"
  shows "length (filter (\<lambda>(k', _). k' \<noteq> k) xs) < length xs"
  by (rule length_filter_less [OF map_of_SomeD [OF assms]]) simp

lemma mru_spec_owns:
  assumes "distinct (map fst xs)" and "m = 0 \<or> length xs \<le> m" and "mru_spec m x (xs, dels) = (out, ys, es)"
  shows "mset (map snd ys) + mset es = mset (map snd xs) + mset dels + mset (puts [x]) \<and> (m = 0 \<or> length ys \<le> m)"
proof (cases x)
  case (Mru_Put k v)
  show ?thesis
  proof (cases "map_of xs k")
    case None
    then show ?thesis
      using assms(2,3) Mru_Put mset_take_drop [of "m - 1" xs] by (auto simp del: mset_map split: if_splits)
  next
    case (Some w)
    then show ?thesis
      using assms(2,3) Mru_Put mset_entry [OF assms(1) Some] length_entry [OF Some] by (auto simp del: mset_map mset_filter)
  qed
next
  case (Mru_Get k)
  show ?thesis
  proof (cases "map_of xs k")
    case (Some w)
    then show ?thesis
      using assms(2,3) Mru_Get mset_entry [OF assms(1) Some] length_entry [OF Some] by (auto simp del: mset_map mset_filter)
  qed (use assms(2,3) Mru_Get in auto)
next
  case (Mru_Erase k)
  show ?thesis
  proof (cases "map_of xs k")
    case (Some w)
    then show ?thesis
      using assms(2,3) Mru_Erase mset_entry [OF assms(1) Some] length_entry [OF Some] by (auto simp del: mset_map mset_filter)
  qed (use assms(2,3) Mru_Erase in auto)
next
  case (Mru_Shrink n)
  then show ?thesis
    using assms mset_take_drop [of n xs] by (auto simp del: mset_map)
qed (use assms in auto)

lemma puts_Cons: "puts (x # ops) = puts [x] @ puts ops"
  by (cases x) simp_all

lemma run_spec_owns:
  "mru_holds m q s \<Longrightarrow> m = 0 \<or> length (fst s) \<le> m \<Longrightarrow> snd (run_spec (mru_spec m) ops s) = (ys, es) \<Longrightarrow>
    mset (map snd ys) + mset es = mset (map snd (fst s)) + mset (snd s) + mset (puts ops) \<and> (m = 0 \<or> length ys \<le> m)"
proof (induction ops arbitrary: q s)
  case (Cons x ops)
  obtain xs dels where s: "s = (xs, dels)" by (cases s)
  obtain out xs1 dels1 where one: "mru_spec m x (xs, dels) = (out, xs1, dels1)" by (cases "mru_spec m x (xs, dels)")
  obtain q1 where q1: "mru_holds m q1 (xs1, dels1)"
    using mru.step_refines [OF Cons.prems(1), of x] one s by auto
  have "distinct (map fst xs)" using Cons.prems(1) s by simp
  then have o: "mset (map snd xs1) + mset dels1 = mset (map snd xs) + mset dels + mset (puts [x])" "m = 0 \<or> length xs1 \<le> m"
    using mru_spec_owns [OF _ _ one] Cons.prems(2) s by auto
  then show ?case
    using Cons.IH [OF q1] Cons.prems(3) one s puts_Cons [of x ops] by (auto simp: split_beta Let_def ac_simps)
qed simp

text \<open>
  C30. No payload is leaked or deleted twice: after any sequence of operations and the
  destructor, the deletor was called exactly once for each payload that was put into the cache. Before that the
  cache never held more than its maximal size, if it has one.
\<close>

theorem MRUCache_deletes_once:
  "\<exists>outs q q'. run_ops MRUCache_op ops (MRUCache_new m) = Inr (outs, q) \<and> MRUCache_destroy q = Inr q' \<and>
    (m = 0 \<or> MRUCache_size q \<le> m) \<and> mset (mru_deleted q') = mset (puts ops)"
proof -
  obtain ys es where t: "snd (run_spec (mru_spec m) ops ([], [])) = (ys, es)" by fastforce
  obtain q where q: "run_ops MRUCache_op ops (MRUCache_new m) = Inr (fst (run_spec (mru_spec m) ops ([], [])), q)"
      "mru_holds m q (ys, es)"
    using mru.run_refines [OF MRUCache_new_holds, of ops m] t by (auto simp del: mru_holds.simps)
  obtain q' where q': "MRUCache_destroy q = Inr q'" "mru_holds m q' ([], es @ map snd ys)"
    using destroy_loop_holds [OF q(2)] q(2) by (auto simp: MRUCache_destroy_def simp del: mru_holds.simps)
      (metis length_map mru_holds.simps)
  have "mset (map snd ys) + mset es = mset (puts ops)" "m = 0 \<or> length ys \<le> m"
    using run_spec_owns [OF MRUCache_new_holds _ t] by auto
  then show ?thesis
    using q q' mru_holds_index(2) [OF q(2)] by (auto simp: add.commute)
qed

end
