(* ===== verification/Safe_Conversions.thy ===== *)
theory Safe_Conversions
  imports Cpp_Prelude
begin

text \<open>
  The range checks of \<^verbatim>\<open>libsh/butil/numerics/safe_conversions_impl.h\<close> and \<^verbatim>\<open>safe_conversions.h\<close> for the
  integer types. A template argument is a description of an integer type, by its size in bytes and its
  signedness, and a value of the type is an integer in its range. Conversions are modulo the width.
  The floating-point types are not modelled: \<^verbatim>\<open>is_iec559\<close> is false.
\<close>

section \<open>Integer types\<close>

record num_type =
  nt_size :: nat
  nt_signed :: bool

definition num_types :: "num_type list" where
  "num_types = [\<lparr>nt_size = 1, nt_signed = True\<rparr>, \<lparr>nt_size = 1, nt_signed = False\<rparr>,
     \<lparr>nt_size = 2, nt_signed = True\<rparr>, \<lparr>nt_size = 2, nt_signed = False\<rparr>,
     \<lparr>nt_size = 4, nt_signed = True\<rparr>, \<lparr>nt_size = 4, nt_signed = False\<rparr>,
     \<lparr>nt_size = 8, nt_signed = True\<rparr>, \<lparr>nt_size = 8, nt_signed = False\<rparr>]"

definition int_type :: num_type where
  "int_type = \<lparr>nt_size = 4, nt_signed = True\<rparr>"

definition nt_width :: "num_type \<Rightarrow> nat" where
  "nt_width t = 8 * nt_size t"

definition nt_min :: "num_type \<Rightarrow> int" where
  "nt_min t = (if nt_signed t then - (2 ^ (nt_width t - 1)) else 0)"

definition nt_max :: "num_type \<Rightarrow> int" where
  "nt_max t = (if nt_signed t then 2 ^ (nt_width t - 1) - 1 else 2 ^ nt_width t - 1)"

definition in_range :: "num_type \<Rightarrow> int \<Rightarrow> bool" where
  "in_range t v \<longleftrightarrow> nt_min t \<le> v \<and> v \<le> nt_max t"

definition static_cast :: "num_type \<Rightarrow> int \<Rightarrow> int" where
  "static_cast t v = (if nt_signed t then (v + 2 ^ (nt_width t - 1)) mod 2 ^ nt_width t - 2 ^ (nt_width t - 1)
     else v mod 2 ^ nt_width t)"

section \<open>Range checks\<close>

definition MaxExponent :: "num_type \<Rightarrow> nat" where
  "MaxExponent t = nt_size t * 8 + 1 - (if nt_signed t then 1 else 0)"

datatype NumericRangeRepresentation = NUMERIC_RANGE_NOT_CONTAINED | NUMERIC_RANGE_CONTAINED

definition StaticDstRangeRelationToSrcRange :: "num_type \<Rightarrow> num_type \<Rightarrow> NumericRangeRepresentation" where
  "StaticDstRangeRelationToSrcRange dst src =
    (if nt_signed dst = nt_signed src then
       (if MaxExponent dst \<ge> MaxExponent src then NUMERIC_RANGE_CONTAINED else NUMERIC_RANGE_NOT_CONTAINED)
     else if nt_signed dst then
       (if MaxExponent dst > MaxExponent src then NUMERIC_RANGE_CONTAINED else NUMERIC_RANGE_NOT_CONTAINED)
     else NUMERIC_RANGE_NOT_CONTAINED)"

datatype RangeConstraint = RANGE_VALID | RANGE_UNDERFLOW | RANGE_OVERFLOW | RANGE_INVALID

text \<open>The enumerators are 0, 1, 2 and 3, and validities are joined by \<^verbatim>\<open>|\<close> on these numbers.\<close>

fun range_or :: "RangeConstraint \<Rightarrow> RangeConstraint \<Rightarrow> RangeConstraint" where
  "range_or RANGE_VALID b = b"
| "range_or a RANGE_VALID = a"
| "range_or a b = (if a = b then a else RANGE_INVALID)"

definition GetRangeConstraint :: "bool \<Rightarrow> bool \<Rightarrow> RangeConstraint" where
  "GetRangeConstraint is_in_upper_bound is_in_lower_bound =
     range_or (if is_in_upper_bound then RANGE_VALID else RANGE_OVERFLOW)
              (if is_in_lower_bound then RANGE_VALID else RANGE_UNDERFLOW)"

text \<open>The five specialisations of \<^verbatim>\<open>DstRangeRelationToSrcRangeImpl\<close>.\<close>

definition DstRangeRelationToSrcRange :: "num_type \<Rightarrow> num_type \<Rightarrow> int \<Rightarrow> RangeConstraint" where
  "DstRangeRelationToSrcRange dst src value =
    (if StaticDstRangeRelationToSrcRange dst src = NUMERIC_RANGE_CONTAINED then RANGE_VALID
     else if nt_signed dst \<and> nt_signed src then GetRangeConstraint (value \<le> nt_max dst) (value \<ge> nt_min dst)
     else if \<not> nt_signed dst \<and> \<not> nt_signed src then GetRangeConstraint (value \<le> nt_max dst) True
     else if nt_signed dst then
       (if nt_size dst > nt_size src then RANGE_VALID
        else GetRangeConstraint (value \<le> static_cast src (nt_max dst)) True)
     else
       (if MaxExponent dst \<ge> MaxExponent src then GetRangeConstraint True (value \<ge> static_cast src 0)
        else GetRangeConstraint (value \<le> static_cast src (nt_max dst)) (value \<ge> static_cast src 0)))"

definition IsValueInRangeForNumericType :: "num_type \<Rightarrow> num_type \<Rightarrow> int \<Rightarrow> bool" where
  "IsValueInRangeForNumericType dst src value \<longleftrightarrow> DstRangeRelationToSrcRange dst src value = RANGE_VALID"

definition checked_cast :: "num_type \<Rightarrow> num_type \<Rightarrow> int \<Rightarrow> int result" where
  "checked_cast dst src value =
    (if IsValueInRangeForNumericType dst src value then Inr (static_cast dst value) else Inl Check_failed)"

definition saturated_cast :: "num_type \<Rightarrow> num_type \<Rightarrow> int \<Rightarrow> int result" where
  "saturated_cast dst src value = (case DstRangeRelationToSrcRange dst src value of
     RANGE_VALID \<Rightarrow> Inr (static_cast dst value)
   | RANGE_UNDERFLOW \<Rightarrow> Inr (nt_min dst)
   | RANGE_OVERFLOW \<Rightarrow> Inr (nt_max dst)
   | RANGE_INVALID \<Rightarrow> Inl Check_failed)"

section \<open>Properties\<close>

named_theorems num_simps \<open>ranges of the integer types\<close>

declare nt_width_def [num_simps] nt_min_def [num_simps] nt_max_def [num_simps] in_range_def [num_simps]

lemma range_or_valid [simp]: "range_or a b = RANGE_VALID \<longleftrightarrow> a = RANGE_VALID \<and> b = RANGE_VALID"
  by (cases a; cases b) auto

lemma range_or_valid_right [simp]: "range_or a RANGE_VALID = a"
  by (cases a) auto

text \<open>The eight types, as cases for proofs by computation.\<close>

lemma num_types_cases:
  assumes "t \<in> set num_types"
  obtains s where "t = \<lparr>nt_size = 1, nt_signed = s\<rparr>" | s where "t = \<lparr>nt_size = 2, nt_signed = s\<rparr>"
    | s where "t = \<lparr>nt_size = 4, nt_signed = s\<rparr>" | s where "t = \<lparr>nt_size = 8, nt_signed = s\<rparr>"
  using assms by (auto simp: num_types_def)

lemma static_cast_in_range: "t \<in> set num_types \<Longrightarrow> in_range t v \<Longrightarrow> static_cast t v = v"
  by (erule num_types_cases) (auto simp: static_cast_def num_simps split: if_splits)

text \<open>The check classifies a value of the source type against the range of the destination.\<close>

lemma DstRange_classifies:
  assumes "dst \<in> set num_types" and "src \<in> set num_types" and "in_range src v"
  shows "DstRangeRelationToSrcRange dst src v =
    (if v < nt_min dst then RANGE_UNDERFLOW else if v > nt_max dst then RANGE_OVERFLOW else RANGE_VALID)"
  using assms(3)
  by (cases rule: num_types_cases [OF assms(1)]; cases rule: num_types_cases [OF assms(2)])
    (auto simp: DstRangeRelationToSrcRange_def StaticDstRangeRelationToSrcRange_def MaxExponent_def GetRangeConstraint_def
      static_cast_def num_simps split: if_splits)

text \<open>
  C31. For all integer types and every value of the source type: the check accepts exactly the values
  that the destination type has, \<^verbatim>\<open>checked_cast\<close> returns those unchanged and aborts on the others, and
  \<^verbatim>\<open>saturated_cast\<close> returns the nearest value of the destination type.
\<close>

theorem conversions_correct:
  assumes "dst \<in> set num_types" and "src \<in> set num_types" and "in_range src v"
  shows "(IsValueInRangeForNumericType dst src v \<longleftrightarrow> in_range dst v) \<and>
    checked_cast dst src v = (if in_range dst v then Inr v else Inl Check_failed) \<and>
    saturated_cast dst src v = Inr (max (nt_min dst) (min v (nt_max dst)))"
proof -
  have "nt_min dst \<le> nt_max dst"
    by (cases rule: num_types_cases [OF assms(1)]) (auto simp: num_simps)
  then show ?thesis
    using DstRange_classifies [OF assms] static_cast_in_range [OF assms(1)]
    by (auto simp: IsValueInRangeForNumericType_def checked_cast_def saturated_cast_def in_range_def)
qed

theorem conversions_correct_witness:
  "saturated_cast \<lparr>nt_size = 1, nt_signed = True\<rparr> \<lparr>nt_size = 4, nt_signed = False\<rparr> 300 = Inr 127 \<and>
   checked_cast \<lparr>nt_size = 1, nt_signed = False\<rparr> \<lparr>nt_size = 4, nt_signed = True\<rparr> (-1) = Inl Check_failed"
  using conversions_correct [of "\<lparr>nt_size = 1, nt_signed = True\<rparr>" "\<lparr>nt_size = 4, nt_signed = False\<rparr>" 300]
    conversions_correct [of "\<lparr>nt_size = 1, nt_signed = False\<rparr>" "\<lparr>nt_size = 4, nt_signed = True\<rparr>" "-1"]
  by (simp add: num_types_def num_simps)

end
