(* ===== verification/Safe_Math.thy ===== *)
theory Safe_Math
  imports Safe_Conversions
begin

text \<open>
  The checked integer arithmetic of \<^verbatim>\<open>libsh/butil/numerics/safe_math_impl.h\<close> and \<^verbatim>\<open>safe_math.h\<close>. The
  arithmetic on unsigned types wraps; an operation on a signed type of at least the size of \<^verbatim>\<open>int\<close>
  that leaves its range is the fault \<open>Signed_overflow\<close>, and a zero divisor the fault \<open>Division_by_zero\<close>. Narrower types
  are promoted to \<^verbatim>\<open>int\<close> by the language, and back where the code converts.
\<close>

unbundle bit_operations_syntax

section \<open>Checked operations on values\<close>

definition UnsignedIntegerForSize :: "num_type \<Rightarrow> num_type" where
  "UnsignedIntegerForSize t = \<lparr>nt_size = nt_size t, nt_signed = False\<rparr>"

definition SignedIntegerForSize :: "num_type \<Rightarrow> num_type" where
  "SignedIntegerForSize t = \<lparr>nt_size = nt_size t, nt_signed = True\<rparr>"

definition TwiceWiderInteger :: "num_type \<Rightarrow> num_type" where
  "TwiceWiderInteger t = \<lparr>nt_size = nt_size t * 2, nt_signed = nt_signed t\<rparr>"

definition PositionOfSignBit :: "num_type \<Rightarrow> nat" where
  "PositionOfSignBit t = 8 * nt_size t - 1"

definition HasSignBit :: "num_type \<Rightarrow> int \<Rightarrow> bool" where
  "HasSignBit t x \<longleftrightarrow> drop_bit (PositionOfSignBit t) (static_cast (UnsignedIntegerForSize t) x) \<noteq> 0"

definition BinaryComplement :: "num_type \<Rightarrow> int \<Rightarrow> int" where
  "BinaryComplement t x = static_cast t (NOT x)"

text \<open>The type of an expression over values of a type: \<^verbatim>\<open>int\<close> if it is narrower.\<close>

definition promoted :: "num_type \<Rightarrow> num_type" where
  "promoted t = (if nt_size t < nt_size int_type then int_type else t)"

text \<open>A signed result that the promoted type does not have is undefined; then it is converted back.\<close>

definition arith_result :: "num_type \<Rightarrow> int \<Rightarrow> int result" where
  "arith_result t v =
    (if nt_signed (promoted t) \<and> \<not> in_range (promoted t) v then Inl Signed_overflow else Inr (static_cast t v))"

definition CheckedAdd :: "num_type \<Rightarrow> int \<Rightarrow> int \<Rightarrow> int \<times> RangeConstraint" where
  "CheckedAdd t x y =
    (let u = UnsignedIntegerForSize t; ux = static_cast u x; uy = static_cast u y; uresult = static_cast u (ux + uy);
         validity =
           (if nt_signed t then
              (if HasSignBit (promoted u) (BinaryComplement (promoted u) ((uresult XOR ux) AND (uresult XOR uy))) then RANGE_VALID
               else if HasSignBit u uresult then RANGE_OVERFLOW else RANGE_UNDERFLOW)
            else if BinaryComplement t x \<ge> y then RANGE_VALID else RANGE_OVERFLOW) in
     (static_cast t uresult, validity))"

definition CheckedSub :: "num_type \<Rightarrow> int \<Rightarrow> int \<Rightarrow> int \<times> RangeConstraint" where
  "CheckedSub t x y =
    (let u = UnsignedIntegerForSize t; ux = static_cast u x; uy = static_cast u y; uresult = static_cast u (ux - uy);
         validity =
           (if nt_signed t then
              (if HasSignBit (promoted u) (BinaryComplement (promoted u) ((uresult XOR ux) AND (ux XOR uy))) then RANGE_VALID
               else if HasSignBit u uresult then RANGE_OVERFLOW else RANGE_UNDERFLOW)
            else if x \<ge> y then RANGE_VALID else RANGE_UNDERFLOW) in
     (static_cast t uresult, validity))"

text \<open>C++ division truncates; \<^verbatim>\<open>std::numeric_limits<T>::min() / x\<close> and the like trap on a zero divisor.\<close>

definition int_div :: "int \<Rightarrow> int \<Rightarrow> int result" where
  "int_div a b = (if b = 0 then Inl Division_by_zero else Inr (a sdiv b))"

text \<open>The three overloads: through a type twice as wide, 64-bit signed, and 64-bit unsigned.\<close>

definition CheckedMul_wide :: "num_type \<Rightarrow> int \<Rightarrow> int \<Rightarrow> int \<times> RangeConstraint" where
  "CheckedMul_wide t x y =
    (let w = TwiceWiderInteger t; tmp = static_cast w (static_cast w x * static_cast w y) in
     (static_cast t tmp, DstRangeRelationToSrcRange t w tmp))"

definition CheckedMul_signed64 :: "num_type \<Rightarrow> int \<Rightarrow> int \<Rightarrow> RangeConstraint \<Rightarrow> (int \<times> RangeConstraint) result" where
  "CheckedMul_signed64 t x y validity0 =
    (if \<not> (x \<noteq> 0 \<or> y \<noteq> 0) then Inr (0, validity0)
     else
       rbind (if x > 0 then
           (if y > 0 then rbind (int_div (nt_max t) y) (\<lambda>q. Inr (if x \<le> q then RANGE_VALID else RANGE_OVERFLOW))
            else rbind (int_div (nt_min t) x) (\<lambda>q. Inr (if y \<ge> q then RANGE_VALID else RANGE_UNDERFLOW)))
         else
           (if y > 0 then rbind (int_div (nt_min t) y) (\<lambda>q. Inr (if x \<ge> q then RANGE_VALID else RANGE_UNDERFLOW))
            else rbind (int_div (nt_max t) x) (\<lambda>q. Inr (if y \<ge> q then RANGE_VALID else RANGE_OVERFLOW)))) (\<lambda>validity.
       rbind (arith_result t (x * y)) (\<lambda>v. Inr (v, validity))))"

definition CheckedMul_unsigned64 :: "num_type \<Rightarrow> int \<Rightarrow> int \<Rightarrow> int \<times> RangeConstraint" where
  "CheckedMul_unsigned64 t x y =
    (static_cast t (x * y), if y = 0 \<or> x \<le> nt_max t sdiv y then RANGE_VALID else RANGE_OVERFLOW)"

definition CheckedMul :: "num_type \<Rightarrow> int \<Rightarrow> int \<Rightarrow> RangeConstraint \<Rightarrow> (int \<times> RangeConstraint) result" where
  "CheckedMul t x y validity0 =
    (if nt_size t * 2 \<le> 8 then Inr (CheckedMul_wide t x y)
     else if nt_signed t then CheckedMul_signed64 t x y validity0
     else Inr (CheckedMul_unsigned64 t x y))"

definition CheckedDiv :: "num_type \<Rightarrow> int \<Rightarrow> int \<Rightarrow> (int \<times> RangeConstraint) result" where
  "CheckedDiv t x y =
    (if nt_signed t \<and> x = nt_min t \<and> y = -1 then Inr (nt_min t, RANGE_OVERFLOW)
     else rbind (int_div x y) (\<lambda>q. Inr (static_cast t q, RANGE_VALID)))"

definition CheckedMod_signed :: "num_type \<Rightarrow> int \<Rightarrow> int \<Rightarrow> (int \<times> RangeConstraint) result" where
  "CheckedMod_signed t x y =
    (let validity = (if y > 0 then RANGE_VALID else RANGE_INVALID) in
     if y = 0 then Inl Division_by_zero
     else if x = nt_min (promoted t) \<and> y = -1 then Inl Signed_overflow
     else Inr (static_cast t (x smod y), validity))"

definition CheckedMod_unsigned :: "num_type \<Rightarrow> int \<Rightarrow> int \<Rightarrow> (int \<times> RangeConstraint) result" where
  "CheckedMod_unsigned t x y = (if y = 0 then Inl Division_by_zero else Inr (static_cast t (x smod y), RANGE_VALID))"

definition CheckedMod :: "num_type \<Rightarrow> int \<Rightarrow> int \<Rightarrow> (int \<times> RangeConstraint) result" where
  "CheckedMod t x y = (if nt_signed t then CheckedMod_signed t x y else CheckedMod_unsigned t x y)"

definition CheckedNeg_signed :: "num_type \<Rightarrow> int \<Rightarrow> (int \<times> RangeConstraint) result" where
  "CheckedNeg_signed t v =
    (let validity = (if v \<noteq> nt_min t then RANGE_VALID else RANGE_OVERFLOW) in
     rbind (arith_result t (- v)) (\<lambda>r. Inr (r, validity)))"

definition CheckedNeg_unsigned :: "num_type \<Rightarrow> int \<Rightarrow> (int \<times> RangeConstraint) result" where
  "CheckedNeg_unsigned t v =
    (let validity = (if v \<noteq> 0 then RANGE_UNDERFLOW else RANGE_VALID); s = SignedIntegerForSize t in
     rbind (arith_result s (- static_cast s v)) (\<lambda>r. Inr (static_cast t r, validity)))"

definition CheckedNeg :: "num_type \<Rightarrow> int \<Rightarrow> (int \<times> RangeConstraint) result" where
  "CheckedNeg t v = (if nt_signed t then CheckedNeg_signed t v else CheckedNeg_unsigned t v)"

definition CheckedAbs_signed :: "num_type \<Rightarrow> int \<Rightarrow> (int \<times> RangeConstraint) result" where
  "CheckedAbs_signed t v =
    (let validity = (if v \<noteq> nt_min t then RANGE_VALID else RANGE_OVERFLOW) in
     rbind (arith_result t \<bar>v\<bar>) (\<lambda>r. Inr (r, validity)))"

definition CheckedAbs_unsigned :: "num_type \<Rightarrow> int \<Rightarrow> (int \<times> RangeConstraint) result" where
  "CheckedAbs_unsigned t v = Inr (v, RANGE_VALID)"

definition CheckedAbs :: "num_type \<Rightarrow> int \<Rightarrow> (int \<times> RangeConstraint) result" where
  "CheckedAbs t v = (if nt_signed t then CheckedAbs_signed t v else CheckedAbs_unsigned t v)"

section \<open>Checked numbers\<close>

text \<open>
  A \<^verbatim>\<open>CheckedNumeric<T>\<close> is its \<^verbatim>\<open>CheckedNumericState<T>\<close>: the value and the validity, here together with
  the type.
\<close>

record CheckedNumeric =
  cn_type :: num_type
  cn_value :: int
  cn_validity :: RangeConstraint

definition CheckedNumeric_default :: "num_type \<Rightarrow> CheckedNumeric" where
  "CheckedNumeric_default t = \<lparr>cn_type = t, cn_value = 0, cn_validity = RANGE_VALID\<rparr>"

definition CheckedNumeric_with :: "num_type \<Rightarrow> num_type \<Rightarrow> int \<Rightarrow> RangeConstraint \<Rightarrow> CheckedNumeric" where
  "CheckedNumeric_with t src v validity =
     \<lparr>cn_type = t, cn_value = static_cast t v, cn_validity = range_or validity (DstRangeRelationToSrcRange t src v)\<rparr>"

definition CheckedNumeric_of :: "num_type \<Rightarrow> num_type \<Rightarrow> int \<Rightarrow> CheckedNumeric" where
  "CheckedNumeric_of t src v = \<lparr>cn_type = t, cn_value = static_cast t v, cn_validity = DstRangeRelationToSrcRange t src v\<rparr>"

text \<open>\<^verbatim>\<open>cast\<close>: the identity at the same type, else the converting copy constructor.\<close>

definition CheckedNumeric_cast :: "num_type \<Rightarrow> CheckedNumeric \<Rightarrow> CheckedNumeric" where
  "CheckedNumeric_cast t a = (if cn_type a = t then a else CheckedNumeric_with t (cn_type a) (cn_value a) (cn_validity a))"

definition IsValid :: "CheckedNumeric \<Rightarrow> bool" where
  "IsValid a \<longleftrightarrow> cn_validity a = RANGE_VALID"

definition ValueOrDie :: "CheckedNumeric \<Rightarrow> int result" where
  "ValueOrDie a = (if IsValid a then Inr (cn_value a) else Inl Check_failed)"

definition ValueOrDefault :: "int \<Rightarrow> CheckedNumeric \<Rightarrow> int" where
  "ValueOrDefault default_value a = (if IsValid a then cn_value a else default_value)"

definition CheckedNumeric_neg :: "CheckedNumeric \<Rightarrow> CheckedNumeric result" where
  "CheckedNumeric_neg a =
     rbind (CheckedNeg (cn_type a) (cn_value a)) (\<lambda>(v, validity).
     Inr (CheckedNumeric_with (cn_type a) (cn_type a) v (range_or (cn_validity a) validity)))"

definition CheckedNumeric_Abs :: "CheckedNumeric \<Rightarrow> CheckedNumeric result" where
  "CheckedNumeric_Abs a =
     rbind (CheckedAbs (cn_type a) (cn_value a)) (\<lambda>(v, validity).
     Inr (CheckedNumeric_with (cn_type a) (cn_type a) v (range_or (cn_validity a) validity)))"

section \<open>The arithmetic operators\<close>

definition ArithmeticPromotion :: "num_type \<Rightarrow> num_type \<Rightarrow> num_type" where
  "ArithmeticPromotion lhs rhs =
    (if MaxExponent lhs > MaxExponent rhs then (if MaxExponent lhs > MaxExponent int_type then lhs else int_type)
     else if MaxExponent rhs > MaxExponent int_type then rhs else int_type)"

definition IsIntegerArithmeticSafe :: "num_type \<Rightarrow> num_type \<Rightarrow> num_type \<Rightarrow> bool" where
  "IsIntegerArithmeticSafe t lhs rhs \<longleftrightarrow>
     StaticDstRangeRelationToSrcRange t lhs = NUMERIC_RANGE_CONTAINED \<and> nt_size t \<ge> 2 * nt_size lhs \<and>
     StaticDstRangeRelationToSrcRange t rhs \<noteq> NUMERIC_RANGE_CONTAINED \<and> nt_size t \<ge> 2 * nt_size rhs"

datatype arith = Add | Sub | Mul | Div | Mod

fun Checked_op :: "arith \<Rightarrow> num_type \<Rightarrow> int \<Rightarrow> int \<Rightarrow> (int \<times> RangeConstraint) result" where
  "Checked_op Add t x y = Inr (CheckedAdd t x y)"
| "Checked_op Sub t x y = Inr (CheckedSub t x y)"
| "Checked_op Mul t x y = CheckedMul t x y RANGE_VALID"
| "Checked_op Div t x y = CheckedDiv t x y"
| "Checked_op Mod t x y = CheckedMod t x y"

text \<open>The plain operator at the promoted type, for the path without checks.\<close>

fun raw_op :: "arith \<Rightarrow> num_type \<Rightarrow> int \<Rightarrow> int \<Rightarrow> int result" where
  "raw_op Add t x y = arith_result t (x + y)"
| "raw_op Sub t x y = arith_result t (x - y)"
| "raw_op Mul t x y = arith_result t (x * y)"
| "raw_op Div t x y = rbind (int_div x y) (arith_result t)"
| "raw_op Mod t x y = (if y = 0 then Inl Division_by_zero else arith_result t (x smod y))"

text \<open>Both operands of type \<open>T\<close>. The checked result is stored in a variable of type \<open>T\<close>.\<close>

definition operator_same :: "arith \<Rightarrow> CheckedNumeric \<Rightarrow> CheckedNumeric \<Rightarrow> CheckedNumeric result" where
  "operator_same f lhs rhs =
    (let T = cn_type lhs; P = ArithmeticPromotion T T in
     if IsIntegerArithmeticSafe P T T then
       rbind (raw_op f P (cn_value lhs) (cn_value rhs)) (\<lambda>v.
       Inr (CheckedNumeric_with P P v (range_or (cn_validity rhs) (cn_validity lhs))))
     else
       rbind (Checked_op f P (static_cast P (cn_value lhs)) (static_cast P (cn_value rhs))) (\<lambda>(v, validity).
       let result = static_cast T v in
       Inr (CheckedNumeric_with P T result (range_or (range_or validity (cn_validity lhs)) (cn_validity rhs)))))"

text \<open>Operands of different types are converted to the promoted type first.\<close>

definition operator_mixed :: "arith \<Rightarrow> CheckedNumeric \<Rightarrow> CheckedNumeric \<Rightarrow> CheckedNumeric result" where
  "operator_mixed f lhs rhs =
    (let P = ArithmeticPromotion (cn_type rhs) (cn_type lhs) in
     if IsIntegerArithmeticSafe P (cn_type rhs) (cn_type lhs) then
       rbind (raw_op f P (cn_value lhs) (cn_value rhs)) (\<lambda>v.
       Inr (CheckedNumeric_with P P v (range_or (cn_validity rhs) (cn_validity lhs))))
     else operator_same f (CheckedNumeric_cast P lhs) (CheckedNumeric_cast P rhs))"

definition operator_checked :: "arith \<Rightarrow> CheckedNumeric \<Rightarrow> CheckedNumeric \<Rightarrow> CheckedNumeric result" where
  "operator_checked f lhs rhs = (if cn_type lhs = cn_type rhs then operator_same f lhs rhs else operator_mixed f lhs rhs)"

definition operator_right :: "arith \<Rightarrow> CheckedNumeric \<Rightarrow> num_type \<Rightarrow> int \<Rightarrow> CheckedNumeric result" where
  "operator_right f lhs src rhs =
    (let P = ArithmeticPromotion (cn_type lhs) src in
     if IsIntegerArithmeticSafe P (cn_type lhs) src then
       rbind (raw_op f P (cn_value lhs) rhs) (\<lambda>v. Inr (CheckedNumeric_with P P v (cn_validity lhs)))
     else operator_same f (CheckedNumeric_cast P lhs) (CheckedNumeric_of P src rhs))"

definition operator_left :: "arith \<Rightarrow> num_type \<Rightarrow> int \<Rightarrow> CheckedNumeric \<Rightarrow> CheckedNumeric result" where
  "operator_left f src lhs rhs =
    (let P = ArithmeticPromotion (cn_type rhs) src in
     if IsIntegerArithmeticSafe P (cn_type rhs) src then
       rbind (raw_op f P lhs (cn_value rhs)) (\<lambda>v. Inr (CheckedNumeric_with P P v (cn_validity rhs)))
     else operator_same f (CheckedNumeric_of P src lhs) (CheckedNumeric_cast P rhs))"

definition operator_assign :: "arith \<Rightarrow> CheckedNumeric \<Rightarrow> num_type \<Rightarrow> int \<Rightarrow> CheckedNumeric result" where
  "operator_assign f this src rhs =
     rbind (operator_checked f this (CheckedNumeric_of src src rhs)) (\<lambda>a. Inr (CheckedNumeric_cast (cn_type this) a))"

definition operator_increment :: "CheckedNumeric \<Rightarrow> CheckedNumeric result" where
  "operator_increment this = operator_assign Add this int_type 1"

definition operator_decrement :: "CheckedNumeric \<Rightarrow> CheckedNumeric result" where
  "operator_decrement this = operator_assign Sub this int_type 1"

section \<open>Correctness of the checked operations\<close>

lemma mod_window:
  "0 \<le> v \<Longrightarrow> v < W \<Longrightarrow> v mod W = v"
  "- W \<le> v \<Longrightarrow> v < 0 \<Longrightarrow> v mod W = v + W"
  "W \<le> v \<Longrightarrow> v < 2 * W \<Longrightarrow> v mod W = v - W" for v W :: int
proof -
  show "v mod W = v" if "0 \<le> v" "v < W" using that by simp
  show "v mod W = v + W" if "- W \<le> v" "v < 0"
    using that mod_pos_pos_trivial [of "v + W" W] by simp
  show "v mod W = v - W" if "W \<le> v" "v < 2 * W"
    using that mod_pos_pos_trivial [of "v - W" W] by simp
qed

lemma HasSignBit_bit: "0 < nt_size t \<Longrightarrow> HasSignBit t x \<longleftrightarrow> bit x (nt_width t - 1)"
proof -
  assume "0 < nt_size t"
  then have "nt_width t - (nt_width t - 1) = 1" by (simp add: nt_width_def)
  then have "drop_bit (nt_width t - 1) (take_bit (nt_width t) x) = of_bool (bit x (nt_width t - 1))"
    unfolding drop_bit_take_bit by (simp add: take_bit_eq_mod mod_2_eq_odd bit_iff_odd_drop_bit)
  then show ?thesis
    by (simp add: HasSignBit_def PositionOfSignBit_def static_cast_def UnsignedIntegerForSize_def nt_width_def take_bit_eq_mod)
qed

lemma bit_top: "0 \<le> r \<Longrightarrow> r < 2 * 2 ^ n \<Longrightarrow> bit r n \<longleftrightarrow> 2 ^ n \<le> r" for r :: int
proof -
  assume r: "0 \<le> r" "r < 2 * 2 ^ n"
  show ?thesis
  proof (cases "2 ^ n \<le> r")
    case True
    with r have "r div 2 ^ n = 1" by (intro int_div_pos_eq [of _ _ _ "r - 2 ^ n"]) auto
    with True show ?thesis by (simp add: bit_iff_odd)
  qed (use r in \<open>simp add: bit_iff_odd\<close>)
qed

text \<open>What a check should say of the exact result, and the types at which the operations are used.\<close>

definition range_of :: "num_type \<Rightarrow> int \<Rightarrow> RangeConstraint" where
  "range_of t v = (if v < nt_min t then RANGE_UNDERFLOW else if v > nt_max t then RANGE_OVERFLOW else RANGE_VALID)"

definition wide_types :: "num_type list" where
  "wide_types = filter (\<lambda>t. nt_size t \<ge> 4) num_types"

lemma wide_typesD:
  assumes "t \<in> set wide_types"
  shows "t \<in> set num_types" and "promoted t = t" and "promoted (UnsignedIntegerForSize t) = UnsignedIntegerForSize t"
    and "0 < nt_size t" and "nt_width t = Suc (nt_width t - 1)"
  using assms by (auto simp: wide_types_def num_types_def promoted_def UnsignedIntegerForSize_def int_type_def nt_width_def)

lemma range_of_valid [simp]: "range_of t v = RANGE_VALID \<longleftrightarrow> in_range t v"
  by (auto simp: range_of_def in_range_def)

lemma static_cast_mod: "static_cast t (v mod 2 ^ nt_width t) = static_cast t v"
  by (simp add: static_cast_def mod_add_left_eq)

text \<open>The sign bits of the wrapped operands and of the wrapped result.\<close>

lemma sign_bit_of:
  fixes x :: int
  assumes "nt_width t = Suc n" and "- (2 * 2 ^ n) \<le> x" and "x < 2 * 2 ^ n"
  shows "bit (x mod 2 ^ nt_width t) n \<longleftrightarrow> - (2 ^ n) \<le> x \<and> x < 0 \<or> 2 ^ n \<le> x"
proof -
  have W: "2 ^ nt_width t = 2 * (2 :: int) ^ n" using assms(1) by simp
  have "bit (x mod (2 * 2 ^ n)) n \<longleftrightarrow> 2 ^ n \<le> x mod (2 * 2 ^ n)"
    by (rule bit_top) (simp_all add: pos_mod_bound)
  also have "\<dots> \<longleftrightarrow> - (2 ^ n) \<le> x \<and> x < 0 \<or> 2 ^ n \<le> x"
    using assms(2,3) mod_window(1) [of x "2 * 2 ^ n"] mod_window(2) [of "2 * 2 ^ n" x]
    by (cases "0 \<le> x") auto
  finally show ?thesis unfolding W .
qed

lemma signed_check:
  assumes t: "t \<in> set wide_types" and n: "nt_width t = Suc n"
  shows "bit (BinaryComplement (UnsignedIntegerForSize t) v) n \<longleftrightarrow> \<not> bit v n"
    and "HasSignBit (UnsignedIntegerForSize t) v \<longleftrightarrow> bit v n"
proof -
  have u: "nt_width (UnsignedIntegerForSize t) = Suc n" "0 < nt_size (UnsignedIntegerForSize t)"
    using n wide_typesD(4) [OF t] by (simp_all add: UnsignedIntegerForSize_def nt_width_def)
  show "HasSignBit (UnsignedIntegerForSize t) v \<longleftrightarrow> bit v n"
    using HasSignBit_bit [OF u(2)] u(1) by simp
  have "BinaryComplement (UnsignedIntegerForSize t) v = take_bit (Suc n) (NOT v)"
    by (simp add: BinaryComplement_def static_cast_def u(1) take_bit_eq_mod) (simp add: UnsignedIntegerForSize_def)
  then show "bit (BinaryComplement (UnsignedIntegerForSize t) v) n \<longleftrightarrow> \<not> bit v n"
    by (simp add: bit_simps)
qed

lemma CheckedAdd_correct:
  assumes t: "t \<in> set wide_types" and x: "in_range t x" and y: "in_range t y"
  shows "CheckedAdd t x y = (static_cast t (x + y), range_of t (x + y))"
proof -
  obtain n where n: "nt_width t = Suc n" using wide_typesD(5) [OF t] by blast
  have u: "static_cast (UnsignedIntegerForSize t) v = v mod 2 ^ nt_width t" for v
    by (simp add: static_cast_def UnsignedIntegerForSize_def nt_width_def)
  show ?thesis
  proof (cases "nt_signed t")
    case True
    then have b: "- (2 ^ n) \<le> x" "x < 2 ^ n" "- (2 ^ n) \<le> y" "y < 2 ^ n"
      using x y n by (auto simp: num_simps)
    have r: "range_of t (x + y) = (if x + y < - (2 ^ n) then RANGE_UNDERFLOW else if x + y \<ge> 2 ^ n then RANGE_OVERFLOW else RANGE_VALID)"
      using True n by (auto simp: range_of_def num_simps)
    have bits: "bit (x mod 2 ^ nt_width t) n \<longleftrightarrow> x < 0" "bit (y mod 2 ^ nt_width t) n \<longleftrightarrow> y < 0"
        "bit ((x + y) mod 2 ^ nt_width t) n \<longleftrightarrow> - (2 ^ n) \<le> x + y \<and> x + y < 0 \<or> 2 ^ n \<le> x + y"
      using b by (subst sign_bit_of [OF n]; linarith)+
    have "CheckedAdd t x y = (static_cast t (x + y),
        if \<not> (bit ((x + y) mod 2 ^ nt_width t) n \<noteq> bit (x mod 2 ^ nt_width t) n \<and>
               bit ((x + y) mod 2 ^ nt_width t) n \<noteq> bit (y mod 2 ^ nt_width t) n) then RANGE_VALID
        else if bit ((x + y) mod 2 ^ nt_width t) n then RANGE_OVERFLOW else RANGE_UNDERFLOW)"
      using True by (simp add: CheckedAdd_def Let_def u wide_typesD(3) [OF t] signed_check [OF t n] bit_simps mod_add_eq static_cast_mod)
    then show ?thesis
      using b unfolding bits r by auto
  next
    case False
    then have b: "0 \<le> x" "x < 2 ^ nt_width t" "0 \<le> y" "y < 2 ^ nt_width t"
      using x y by (auto simp: num_simps)
    have "BinaryComplement t x = 2 ^ nt_width t - 1 - x"
      using False b mod_window(2) [of "2 ^ nt_width t" "- x - 1"] by (simp add: BinaryComplement_def static_cast_def not_int_def)
    then show ?thesis
      using False b by (auto simp: CheckedAdd_def Let_def u mod_add_eq static_cast_mod range_of_def nt_min_def nt_max_def)
  qed
qed

lemma CheckedSub_correct:
  assumes t: "t \<in> set wide_types" and x: "in_range t x" and y: "in_range t y"
  shows "CheckedSub t x y = (static_cast t (x - y), range_of t (x - y))"
proof -
  obtain n where n: "nt_width t = Suc n" using wide_typesD(5) [OF t] by blast
  have u: "static_cast (UnsignedIntegerForSize t) v = v mod 2 ^ nt_width t" for v
    by (simp add: static_cast_def UnsignedIntegerForSize_def nt_width_def)
  show ?thesis
  proof (cases "nt_signed t")
    case True
    then have b: "- (2 ^ n) \<le> x" "x < 2 ^ n" "- (2 ^ n) \<le> y" "y < 2 ^ n"
      using x y n by (auto simp: num_simps)
    have r: "range_of t (x - y) = (if x - y < - (2 ^ n) then RANGE_UNDERFLOW else if x - y \<ge> 2 ^ n then RANGE_OVERFLOW else RANGE_VALID)"
      using True n by (auto simp: range_of_def num_simps)
    have bits: "bit (x mod 2 ^ nt_width t) n \<longleftrightarrow> x < 0" "bit (y mod 2 ^ nt_width t) n \<longleftrightarrow> y < 0"
        "bit ((x - y) mod 2 ^ nt_width t) n \<longleftrightarrow> - (2 ^ n) \<le> x - y \<and> x - y < 0 \<or> 2 ^ n \<le> x - y"
      using b by (subst sign_bit_of [OF n]; linarith)+
    have "CheckedSub t x y = (static_cast t (x - y),
        if \<not> (bit ((x - y) mod 2 ^ nt_width t) n \<noteq> bit (x mod 2 ^ nt_width t) n \<and>
               bit (x mod 2 ^ nt_width t) n \<noteq> bit (y mod 2 ^ nt_width t) n) then RANGE_VALID
        else if bit ((x - y) mod 2 ^ nt_width t) n then RANGE_OVERFLOW else RANGE_UNDERFLOW)"
      using True by (simp add: CheckedSub_def Let_def u wide_typesD(3) [OF t] signed_check [OF t n] bit_simps mod_diff_eq static_cast_mod)
    then show ?thesis
      using b unfolding bits r by auto
  next
    case False
    then have "0 \<le> x" "x < 2 ^ nt_width t" "0 \<le> y" "y < 2 ^ nt_width t"
      using x y by (auto simp: num_simps)
    then show ?thesis
      using False by (auto simp: CheckedSub_def Let_def u mod_diff_eq static_cast_mod range_of_def nt_min_def nt_max_def)
  qed
qed

text \<open>Multiplication through a type twice as wide, where the product is exact.\<close>

lemma product_bound:
  fixes x y :: int
  assumes "\<bar>x\<bar> \<le> a" and "\<bar>y\<bar> \<le> b"
  shows "\<bar>x * y\<bar> \<le> a * b"
proof -
  have "0 \<le> a" using assms(1) by linarith
  then show ?thesis unfolding abs_mult using assms by (intro mult_mono) auto
qed

lemma CheckedMul_wide_correct:
  assumes t: "t \<in> set wide_types" "nt_size t * 2 \<le> 8" and x: "in_range t x" and y: "in_range t y"
  shows "CheckedMul_wide t x y = (static_cast t (x * y), range_of t (x * y))"
proof -
  define w where "w = TwiceWiderInteger t"
  have w: "w \<in> set num_types" "t \<in> set num_types"
    using t by (auto simp: wide_types_def num_types_def w_def TwiceWiderInteger_def)
  have xy: "in_range w x" "in_range w y" "in_range w (x * y)"
  proof -
    show "in_range w x" "in_range w y"
      using t x y by (auto simp: wide_types_def num_types_def w_def TwiceWiderInteger_def num_simps)
    show "in_range w (x * y)"
    proof (cases "nt_signed t")
      case True
      then have "\<bar>x\<bar> \<le> 2 ^ 31" "\<bar>y\<bar> \<le> 2 ^ 31"
        using t x y by (auto simp: wide_types_def num_types_def num_simps)
      from product_bound [OF this] True t show ?thesis
        by (auto simp: wide_types_def num_types_def w_def TwiceWiderInteger_def num_simps)
    next
      case False
      then have "\<bar>x\<bar> \<le> 2 ^ 32 - 1" "\<bar>y\<bar> \<le> 2 ^ 32 - 1" "0 \<le> x * y"
        using t x y by (auto simp: wide_types_def num_types_def num_simps)
      from product_bound [OF this(1,2)] this(3) False t show ?thesis
        by (auto simp: wide_types_def num_types_def w_def TwiceWiderInteger_def num_simps)
    qed
  qed
  then show ?thesis
    using DstRange_classifies [OF w(2,1) xy(3)]
    by (simp add: CheckedMul_wide_def w_def [symmetric] Let_def static_cast_in_range [OF w(1)] range_of_def)
qed

lemma le_div_iff: "0 < y \<Longrightarrow> x \<le> a div y \<longleftrightarrow> x * y \<le> a" for a x y :: int
proof
  assume y: "0 < y" and "x \<le> a div y"
  then have "x * y \<le> a div y * y" by simp
  also have "\<dots> \<le> a" using y by (metis div_mult_mod_eq le_add_same_cancel1 pos_mod_sign)
  finally show "x * y \<le> a" .
next
  assume y: "0 < y" and "x * y \<le> a"
  then have "x * y div y \<le> a div y" by (intro zdiv_mono1)
  with y show "x \<le> a div y" by simp
qed

lemma CheckedMul_unsigned64_correct:
  assumes "\<not> nt_signed t" and "in_range t x" and "in_range t y"
  shows "CheckedMul_unsigned64 t x y = (static_cast t (x * y), range_of t (x * y))"
proof -
  have "0 \<le> x" "0 \<le> y" "0 \<le> nt_max t" using assms by (auto simp: num_simps)
  moreover have "y = 0 \<or> x \<le> nt_max t sdiv y \<longleftrightarrow> x * y \<le> nt_max t"
    using calculation le_div_iff [of y x "nt_max t"]
    by (cases "y = 0") (auto simp: signed_divide_int_def sgn_if)
  moreover have "\<not> x * y < 0" using calculation by (simp add: not_less)
  ultimately show ?thesis
    using assms(1) by (simp add: CheckedMul_unsigned64_def range_of_def nt_min_def)
qed

lemma CheckedMul_correct:
  assumes "t \<in> set wide_types" and "nt_signed t \<longrightarrow> nt_size t = 4" and "in_range t x" and "in_range t y"
  shows "CheckedMul t x y v = Inr (static_cast t (x * y), range_of t (x * y))"
proof (cases "nt_size t * 2 \<le> 8")
  case True
  then show ?thesis using CheckedMul_wide_correct [OF assms(1) True assms(3,4)] by (simp add: CheckedMul_def)
next
  case False
  then show ?thesis
    using assms CheckedMul_unsigned64_correct [of t x y] by (auto simp: CheckedMul_def)
qed

text \<open>
  The 64-bit signed overload: right on products that fit, undefined on all others, because it multiplies
  after the check too; and it divides by zero when \<open>x\<close> is zero and \<open>y\<close> negative.
\<close>

lemma sdiv_bound:
  fixes x y :: int
  shows "0 < x \<Longrightarrow> 0 < y \<Longrightarrow> x * y \<le> a \<Longrightarrow> x \<le> a sdiv y"
    and "0 < x \<Longrightarrow> y \<le> 0 \<Longrightarrow> a \<le> x * y \<Longrightarrow> a < 0 \<Longrightarrow> a sdiv x \<le> y"
    and "x < 0 \<Longrightarrow> y \<le> 0 \<Longrightarrow> x * y \<le> a \<Longrightarrow> 0 < a \<Longrightarrow> a sdiv x \<le> y"
proof -
  show "x \<le> a sdiv y" if "0 < x" "0 < y" "x * y \<le> a"
  proof -
    have "0 < x * y" using that by simp
    with that have "0 < a" by linarith
    with that le_div_iff [of y x a] show ?thesis by (simp add: signed_divide_int_def sgn_if)
  qed
  show "a sdiv x \<le> y" if "0 < x" "y \<le> 0" "a \<le> x * y" "a < 0"
    using that le_div_iff [of x "- y" "- a"] by (simp add: signed_divide_int_def sgn_if mult.commute)
  show "a sdiv x \<le> y" if "x < 0" "y \<le> 0" "x * y \<le> a" "0 < a"
    using that le_div_iff [of "- x" "- y" a] by (simp add: signed_divide_int_def sgn_if mult.commute)
qed

lemma CheckedMul_signed64_correct:
  assumes t: "t \<in> set wide_types" "nt_signed t" and x: "in_range t x" and y: "in_range t y"
  shows "CheckedMul_signed64 t x y RANGE_VALID =
    (if x = 0 \<and> y < 0 then Inl Division_by_zero
     else if in_range t (x * y) then Inr (x * y, RANGE_VALID) else Inl Signed_overflow)"
proof -
  have m: "nt_min t < 0" "0 < nt_max t"
    using t by (auto simp: wide_types_def num_types_def num_simps)
  have a: "arith_result t v = (if in_range t v then Inr v else Inl Signed_overflow)" for v
    using t wide_typesD(1,2) [OF t(1)] by (auto simp: arith_result_def static_cast_in_range)
  consider "x = 0" "y = 0" | "x = 0" "y < 0" | "x = 0" "0 < y" | "0 < x" "0 < y" | "0 < x" "y \<le> 0" | "x < 0" "0 < y" | "x < 0" "y \<le> 0"
    by linarith
  then show ?thesis
  proof cases
    case 3
    then show ?thesis using m x sdiv_bound(2) [of y 0 "nt_min t"] by (simp add: CheckedMul_signed64_def a int_div_def)
  next
    case 4
    then show ?thesis using m sdiv_bound(1) [of x y "nt_max t"] by (auto simp: CheckedMul_signed64_def a int_div_def in_range_def)
  next
    case 5
    then show ?thesis using m sdiv_bound(2) [of x y "nt_min t"] by (auto simp: CheckedMul_signed64_def a int_div_def in_range_def)
  next
    case 6
    then show ?thesis using m sdiv_bound(2) [of y x "nt_min t"]
      by (auto simp: CheckedMul_signed64_def a int_div_def in_range_def mult.commute)
  next
    case 7
    then show ?thesis using m sdiv_bound(3) [of x y "nt_max t"] by (auto simp: CheckedMul_signed64_def a int_div_def in_range_def)
  qed (use m in \<open>auto simp: CheckedMul_signed64_def a int_div_def in_range_def\<close>)
qed

text \<open>Division is exact but for the one quotient that does not fit.\<close>

lemma CheckedDiv_correct:
  assumes t: "t \<in> set wide_types" and x: "in_range t x" and y: "in_range t y" "y \<noteq> 0"
  shows "CheckedDiv t x y = Inr (static_cast t (x sdiv y), range_of t (x sdiv y))"
proof (cases "nt_signed t \<and> x = nt_min t \<and> y = -1")
  case True
  then have "x sdiv y = - nt_min t" by (simp add: signed_divide_int_def sgn_if nt_min_def)
  then show ?thesis
    using t True by (auto simp: CheckedDiv_def wide_types_def num_types_def static_cast_def range_of_def num_simps)
next
  case False
  have "1 \<le> \<bar>y\<bar>" using y(2) by simp
  then have q: "\<bar>x sdiv y\<bar> = \<bar>x\<bar> div \<bar>y\<bar>" "\<bar>x\<bar> div \<bar>y\<bar> \<le> \<bar>x\<bar>"
    using y(2) zdiv_mono2 [of "\<bar>x\<bar>" 1 "\<bar>y\<bar>"]
    by (cases "x = 0"; simp add: signed_divide_int_def abs_mult abs_sgn_eq pos_imp_zdiv_nonneg_iff)+
  have "in_range t (x sdiv y)"
  proof (cases "nt_signed t")
    case signed: True
    define H where "H = - nt_min t"
    have H: "0 < H" "nt_max t = H - 1" "- H \<le> x" "x < H"
      using signed x by (auto simp: H_def num_simps)
    have "x sdiv y < H"
    proof (cases "x = - H \<and> y < 0")
      case True
      then have "y \<le> - 2" using False signed H_def by auto
      then have "\<bar>x\<bar> div \<bar>y\<bar> \<le> \<bar>x\<bar> div 2" by (intro zdiv_mono2) auto
      with True H(1) q(1) show ?thesis by simp
    next
      case neg: False
      show ?thesis
      proof (cases "x = - H")
        case True
        then have "x sdiv y \<le> 0" using neg H(1) y(2) by (simp add: signed_divide_int_def sgn_if pos_imp_zdiv_nonneg_iff)
        with H(1) show ?thesis by linarith
      qed (use q H in linarith)
    qed
    then show ?thesis using q H unfolding in_range_def H_def [symmetric] by (simp add: H_def)
  next
    case False
    then have "0 \<le> x" "0 \<le> y" using x y by (auto simp: num_simps)
    then have "0 \<le> x sdiv y" using y(2) by (simp add: signed_divide_int_def sgn_if pos_imp_zdiv_nonneg_iff)
    then show ?thesis using False x q \<open>0 \<le> x\<close> by (auto simp: in_range_def nt_min_def)
  qed
  then show ?thesis
    using False y by (auto simp: CheckedDiv_def int_div_def range_of_def in_range_def)
qed

section \<open>Correctness of the operators\<close>

lemma static_cast_range: "t \<in> set num_types \<Longrightarrow> in_range t (static_cast t v)"
  by (erule num_types_cases) (auto simp: static_cast_def num_simps)

text \<open>Facts about the finitely many types, by computation.\<close>

lemma promotion_table:
  "list_all (\<lambda>a. list_all (\<lambda>b. List.member wide_types (ArithmeticPromotion a b)) num_types) num_types"
  "list_all (\<lambda>t. ArithmeticPromotion t t = t) wide_types"
  "list_all (\<lambda>a. list_all (\<lambda>b. \<not> IsIntegerArithmeticSafe (ArithmeticPromotion a b) a b) num_types) num_types"
  by code_simp+

lemma ArithmeticPromotion_wide:
  "a \<in> set num_types \<Longrightarrow> b \<in> set num_types \<Longrightarrow> ArithmeticPromotion a b \<in> set wide_types"
  "t \<in> set wide_types \<Longrightarrow> ArithmeticPromotion t t = t"
  using promotion_table(1,2) by (auto simp: list_all_iff)

text \<open>The path without checks is never taken: its condition asks that the second type is not contained.\<close>

lemma fast_path_never:
  "a \<in> set num_types \<Longrightarrow> b \<in> set num_types \<Longrightarrow> \<not> IsIntegerArithmeticSafe (ArithmeticPromotion a b) a b"
  using promotion_table(3) by (auto simp: list_all_iff)

fun exact :: "arith \<Rightarrow> int \<Rightarrow> int \<Rightarrow> int" where
  "exact Add x y = x + y"
| "exact Sub x y = x - y"
| "exact Mul x y = x * y"
| "exact Div x y = x sdiv y"
| "exact Mod x y = x smod y"

text \<open>The operations and types at which the checked operation is right on all operands.\<close>

definition total_op :: "arith \<Rightarrow> num_type \<Rightarrow> bool" where
  "total_op f t \<longleftrightarrow> f = Add \<or> f = Sub \<or> f = Mul \<and> \<not> (nt_signed t \<and> nt_size t = 8)"

lemma Checked_op_correct:
  assumes "t \<in> set wide_types" and "total_op f t" and "in_range t x" and "in_range t y"
  shows "Checked_op f t x y = Inr (static_cast t (exact f x y), range_of t (exact f x y))"
proof (cases "f = Mul")
  case True
  then have "nt_signed t \<longrightarrow> nt_size t = 4"
    using assms(1,2) by (auto simp: total_op_def wide_types_def num_types_def)
  with True assms CheckedMul_correct show ?thesis by simp
qed (use assms in \<open>auto simp: total_op_def CheckedAdd_correct CheckedSub_correct\<close>)

lemma DstRange_same: "DstRangeRelationToSrcRange t t v = RANGE_VALID"
  by (simp add: DstRangeRelationToSrcRange_def StaticDstRangeRelationToSrcRange_def)

text \<open>A checked number whose value is in the range of its type; all constructors and operators make such numbers.\<close>

definition cn_wf :: "CheckedNumeric \<Rightarrow> bool" where
  "cn_wf a \<longleftrightarrow> cn_type a \<in> set num_types \<and> in_range (cn_type a) (cn_value a)"

lemma operator_same_correct:
  assumes "cn_wf a" and "cn_wf b" and "cn_type a = t" and "cn_type b = t" and t: "t \<in> set wide_types" and "total_op f t"
  shows "\<exists>r. operator_same f a b = Inr r \<and> cn_wf r \<and> cn_type r = t \<and>
    (IsValid r \<longleftrightarrow> IsValid a \<and> IsValid b \<and> in_range t (exact f (cn_value a) (cn_value b))) \<and>
    (IsValid r \<longrightarrow> cn_value r = exact f (cn_value a) (cn_value b))"
proof -
  define v where "v = exact f (cn_value a) (cn_value b)"
  have n: "t \<in> set num_types" by (rule wide_typesD(1) [OF t])
  have p: "ArithmeticPromotion t t = t" "\<not> IsIntegerArithmeticSafe t t t"
    using ArithmeticPromotion_wide(2) [OF t] fast_path_never [OF n n] by simp_all
  have "operator_same f a b = Inr (CheckedNumeric_with t t (static_cast t (static_cast t v))
      (range_or (range_or (range_of t v) (cn_validity a)) (cn_validity b)))"
    using assms Checked_op_correct [OF t assms(6)] p
    by (simp add: operator_same_def Let_def cn_wf_def static_cast_in_range [OF n] v_def)
  then show ?thesis
    using n static_cast_range [OF n] static_cast_in_range [OF n, of v]
    by (auto simp: CheckedNumeric_with_def static_cast_in_range [OF n] DstRange_same IsValid_def cn_wf_def v_def)
qed

lemma CheckedNumeric_cast_correct:
  assumes "cn_wf a" and "t \<in> set num_types"
  shows "cn_wf (CheckedNumeric_cast t a)" and "cn_type (CheckedNumeric_cast t a) = t"
    and "IsValid (CheckedNumeric_cast t a) \<longleftrightarrow> IsValid a \<and> in_range t (cn_value a)"
    and "in_range t (cn_value a) \<Longrightarrow> cn_value (CheckedNumeric_cast t a) = cn_value a"
  using assms DstRange_classifies [OF assms(2), of "cn_type a" "cn_value a"] static_cast_range [OF assms(2)]
    static_cast_in_range [OF assms(2)]
  by (auto simp: CheckedNumeric_cast_def CheckedNumeric_with_def cn_wf_def IsValid_def in_range_def)

text \<open>
  C32. Checked addition, subtraction and multiplication of numbers of any two integer types, but not
  of one type narrower than \<^verbatim>\<open>int\<close> and not the 64-bit signed multiplication: the operator returns, and the result is valid
  exactly when both operands are valid, their values and the exact result are values of the
  promoted type; then its value is the exact result.
\<close>

theorem checked_arithmetic_exact:
  assumes "cn_wf a" and "cn_wf b" and P: "P = ArithmeticPromotion (cn_type b) (cn_type a)"
    and "cn_type a = cn_type b \<longrightarrow> cn_type a \<in> set wide_types" and "total_op f P"
  shows "\<exists>r. operator_checked f a b = Inr r \<and> cn_wf r \<and> cn_type r = P \<and>
    (IsValid r \<longleftrightarrow> IsValid a \<and> IsValid b \<and> in_range P (cn_value a) \<and> in_range P (cn_value b) \<and>
      in_range P (exact f (cn_value a) (cn_value b))) \<and>
    (IsValid r \<longrightarrow> cn_value r = exact f (cn_value a) (cn_value b))"
proof (cases "cn_type a = cn_type b")
  case True
  then have w: "P = cn_type a" "P \<in> set wide_types" using assms(4) ArithmeticPromotion_wide(2) by (simp_all add: P)
  have "in_range P (cn_value a)" "in_range P (cn_value b)"
    using assms(1,2) True by (simp_all add: cn_wf_def w(1))
  then show ?thesis
    using operator_same_correct [OF assms(1,2) w(1) [symmetric] _ w(2) assms(5)] True w(1)
    unfolding operator_checked_def by simp
next
  case False
  have t: "cn_type a \<in> set num_types" "cn_type b \<in> set num_types" using assms(1,2) by (auto simp: cn_wf_def)
  have w: "P \<in> set wide_types" "P \<in> set num_types" using ArithmeticPromotion_wide(1) [OF t(2,1)] wide_typesD(1) P by auto
  note a = CheckedNumeric_cast_correct [OF assms(1) w(2)] and b = CheckedNumeric_cast_correct [OF assms(2) w(2)]
  have "operator_checked f a b = operator_same f (CheckedNumeric_cast P a) (CheckedNumeric_cast P b)"
    using False fast_path_never [OF t(2,1)] by (simp add: operator_checked_def operator_mixed_def P Let_def)
  moreover obtain r where "operator_same f (CheckedNumeric_cast P a) (CheckedNumeric_cast P b) = Inr r" "cn_wf r" "cn_type r = P"
      "IsValid r \<longleftrightarrow> IsValid (CheckedNumeric_cast P a) \<and> IsValid (CheckedNumeric_cast P b) \<and>
        in_range P (exact f (cn_value (CheckedNumeric_cast P a)) (cn_value (CheckedNumeric_cast P b)))"
      "IsValid r \<longrightarrow> cn_value r = exact f (cn_value (CheckedNumeric_cast P a)) (cn_value (CheckedNumeric_cast P b))"
    using operator_same_correct [OF a(1) b(1) a(2) b(2) w(1) assms(5)] by blast
  ultimately show ?thesis
    using a(3,4) b(3,4) by (intro exI [of _ r]) auto
qed

theorem checked_arithmetic_exact_witness:
  "\<exists>r. operator_checked Sub \<lparr>cn_type = \<lparr>nt_size = 4, nt_signed = False\<rparr>, cn_value = 5, cn_validity = RANGE_VALID\<rparr>
       \<lparr>cn_type = \<lparr>nt_size = 1, nt_signed = True\<rparr>, cn_value = 7, cn_validity = RANGE_VALID\<rparr> = Inr r \<and> \<not> IsValid r"
  using checked_arithmetic_exact [of "\<lparr>cn_type = \<lparr>nt_size = 4, nt_signed = False\<rparr>, cn_value = 5, cn_validity = RANGE_VALID\<rparr>"
      "\<lparr>cn_type = \<lparr>nt_size = 1, nt_signed = True\<rparr>, cn_value = 7, cn_validity = RANGE_VALID\<rparr>" "\<lparr>nt_size = 4, nt_signed = False\<rparr>" Sub]
  by (auto simp: cn_wf_def num_types_def num_simps ArithmeticPromotion_def MaxExponent_def int_type_def total_op_def)

text \<open>
  C33. Two valid numbers of one type narrower than \<^verbatim>\<open>int\<close>: the sum of the operator is always valid, although
  its value is the exact sum wrapped to the narrow type.
\<close>

theorem narrow_addition_wraps:
  assumes "cn_wf a" and "cn_wf b" and "cn_type b = cn_type a" and "nt_size (cn_type a) < 4" and "IsValid a" and "IsValid b"
  shows "\<exists>r. operator_checked Add a b = Inr r \<and> IsValid r \<and> cn_type r = int_type \<and>
    cn_value r = static_cast (cn_type a) (cn_value a + cn_value b)"
proof -
  define t x y where "t = cn_type a" and "x = cn_value a" and "y = cn_value b"
  have n: "t \<in> set num_types" "nt_size t < 4" and i: "int_type \<in> set wide_types" "int_type \<in> set num_types"
    using assms by (auto simp: cn_wf_def t_def wide_types_def num_types_def int_type_def)
  have p: "ArithmeticPromotion t t = int_type" "StaticDstRangeRelationToSrcRange int_type t = NUMERIC_RANGE_CONTAINED"
    using n by (auto simp: num_types_def ArithmeticPromotion_def MaxExponent_def int_type_def StaticDstRangeRelationToSrcRange_def)
  have "in_range t x" "in_range t y" using assms by (auto simp: cn_wf_def t_def x_def y_def)
  then have r: "in_range int_type x" "in_range int_type y" "in_range int_type (x + y)" "in_range int_type (static_cast t (x + y))"
    using n static_cast_range [OF n(1), of "x + y"] by (auto simp: num_types_def num_simps int_type_def)
  have "operator_checked Add a b = Inr (CheckedNumeric_with int_type t (static_cast t (x + y)) RANGE_VALID)"
    using assms(3,5,6) fast_path_never [OF n(1) n(1)] CheckedAdd_correct [OF i(1) r(1,2)] r
    by (simp add: operator_checked_def operator_same_def Let_def p IsValid_def t_def [symmetric] x_def [symmetric] y_def [symmetric]
        static_cast_in_range [OF i(2)] range_of_valid [THEN iffD2])
  then show ?thesis
    using r(4) p(2) by (auto simp: CheckedNumeric_with_def IsValid_def DstRangeRelationToSrcRange_def static_cast_in_range [OF i(2)]
        t_def [symmetric] x_def [symmetric] y_def [symmetric])
qed

theorem narrow_addition_wraps_witness:
  "\<exists>r. operator_checked Add \<lparr>cn_type = \<lparr>nt_size = 1, nt_signed = True\<rparr>, cn_value = 100, cn_validity = RANGE_VALID\<rparr>
      \<lparr>cn_type = \<lparr>nt_size = 1, nt_signed = True\<rparr>, cn_value = 100, cn_validity = RANGE_VALID\<rparr> = Inr r \<and>
    IsValid r \<and> ValueOrDie r = Inr (- 56)"
  using narrow_addition_wraps [of "\<lparr>cn_type = \<lparr>nt_size = 1, nt_signed = True\<rparr>, cn_value = 100, cn_validity = RANGE_VALID\<rparr>"
      "\<lparr>cn_type = \<lparr>nt_size = 1, nt_signed = True\<rparr>, cn_value = 100, cn_validity = RANGE_VALID\<rparr>"]
  by (auto simp: cn_wf_def num_types_def num_simps IsValid_def ValueOrDie_def static_cast_def)

text \<open>
  C34. The multiplication of 64-bit signed values: right on products that fit, an undefined product
  on those that do not, since the product is formed whatever the check says, and a division by zero
  for a zero first and a negative second factor, which the test for zero lets through.
\<close>

theorem CheckedMul_64:
  assumes "t = \<lparr>nt_size = 8, nt_signed = True\<rparr>" and "in_range t x" and "in_range t y"
  shows "CheckedMul t x y RANGE_VALID =
    (if x = 0 \<and> y < 0 then Inl Division_by_zero
     else if in_range t (x * y) then Inr (x * y, RANGE_VALID) else Inl Signed_overflow)"
  using CheckedMul_signed64_correct [of t x y] assms
  by (simp add: CheckedMul_def wide_types_def num_types_def)

theorem CheckedMul_64_witness:
  "CheckedMul \<lparr>nt_size = 8, nt_signed = True\<rparr> 0 (- 1) RANGE_VALID = Inl Division_by_zero"
  using CheckedMul_64 [of "\<lparr>nt_size = 8, nt_signed = True\<rparr>" 0 "- 1"] by (simp add: num_simps)

end
