(* ===== verification/String_Splitter.thy ===== *)
theory String_Splitter
  imports Cpp_Prelude
begin

text \<open>
  The string splitters of \<^verbatim>\<open>libsh/butil/string_splitter.h\<close> and \<^verbatim>\<open>string_splitter_inl.h\<close>. The memory the input
  lies in is a list of characters, a C string with its final null character; a pointer into it is
  an index, \<open>None\<close> the null pointer, and reading outside the memory is the fault \<open>Out_of_bounds\<close>. The two
  classes differ only in what a separator is, which is an argument of the shared loops.
  The conversions to floating-point numbers are not modelled.
\<close>

section \<open>Definitions\<close>

datatype EmptyFieldAction = SKIP_EMPTY_FIELD | ALLOW_EMPTY_FIELD

record Splitter =
  sp_mem :: string
  sp_head :: "nat option"
  sp_tail :: "nat option"
  sp_str_tail :: "nat option"
  sp_action :: EmptyFieldAction

definition NUL :: char where
  "NUL = CHR 0x00"

definition char_at :: "string \<Rightarrow> nat \<Rightarrow> char result" where
  "char_at mem p = (if p < length mem then Inr (mem ! p) else Inl Out_of_bounds)"

definition not_end :: "Splitter \<Rightarrow> nat \<Rightarrow> bool result" where
  "not_end s p = (case sp_str_tail s of
     None \<Rightarrow> rbind (char_at (sp_mem s) p) (\<lambda>c. Inr (c \<noteq> NUL))
   | Some e \<Rightarrow> Inr (p \<noteq> e))"

text \<open>
  \<^verbatim>\<open>for (; test(*p) && not_end(p); ++p) {}\<close>: the character is read before the end is tested.
\<close>

function scan :: "(char \<Rightarrow> bool) \<Rightarrow> Splitter \<Rightarrow> nat \<Rightarrow> nat result" where
  "scan test s p =
    (if p < length (sp_mem s) then
       if test (sp_mem s ! p) then
         (case not_end s p of Inl e \<Rightarrow> Inl e | Inr b \<Rightarrow> if b then scan test s (Suc p) else Inr p)
       else Inr p
     else Inl Out_of_bounds)"
  by auto
termination
  by (relation "measure (\<lambda>(test, s, p). length (sp_mem s) - p)") auto

definition splitter_init :: "(char \<Rightarrow> bool) \<Rightarrow> Splitter \<Rightarrow> Splitter result" where
  "splitter_init is_sep s = (case sp_head s of
     None \<Rightarrow> Inr (s\<lparr>sp_tail := None\<rparr>)
   | Some h \<Rightarrow>
       rbind (if sp_action s = SKIP_EMPTY_FIELD then scan is_sep s h else Inr h) (\<lambda>h1.
       rbind (scan (\<lambda>c. \<not> is_sep c) s h1) (\<lambda>t.
       Inr (s\<lparr>sp_head := Some h1, sp_tail := Some t\<rparr>))))"

definition splitter_next :: "(char \<Rightarrow> bool) \<Rightarrow> Splitter \<Rightarrow> Splitter result" where
  "splitter_next is_sep s = (case sp_tail s of
     None \<Rightarrow> Inr s
   | Some t \<Rightarrow>
       rbind (not_end s t) (\<lambda>more.
       rbind (if more then (if sp_action s = SKIP_EMPTY_FIELD then scan is_sep s (Suc t) else Inr (Suc t)) else Inr t) (\<lambda>h.
       rbind (scan (\<lambda>c. \<not> is_sep c) s h) (\<lambda>t1.
       Inr (s\<lparr>sp_head := Some h, sp_tail := Some t1\<rparr>)))))"

text \<open>The conversion to \<^verbatim>\<open>const void*\<close>, which a loop over the fields tests.\<close>

definition splitter_valid :: "Splitter \<Rightarrow> bool result" where
  "splitter_valid s = (case sp_head s of None \<Rightarrow> Inr False | Some h \<Rightarrow> not_end s h)"

definition splitter_length :: "Splitter \<Rightarrow> nat" where
  "splitter_length s = the (sp_tail s) - the (sp_head s)"

definition splitter_field :: "Splitter \<Rightarrow> string" where
  "splitter_field s = take (splitter_length s) (drop (the (sp_head s)) (sp_mem s))"

definition StringSplitter :: "string \<Rightarrow> nat option \<Rightarrow> nat option \<Rightarrow> char \<Rightarrow> EmptyFieldAction \<Rightarrow> Splitter result" where
  "StringSplitter mem str_begin str_end sep action =
     splitter_init (\<lambda>c. sep = c) \<lparr>sp_mem = mem, sp_head = str_begin, sp_tail = None, sp_str_tail = str_end, sp_action = action\<rparr>"

definition StringSplitter_next :: "char \<Rightarrow> Splitter \<Rightarrow> Splitter result" where
  "StringSplitter_next sep s = splitter_next (\<lambda>c. sep = c) s"

fun is_sep :: "string \<Rightarrow> char \<Rightarrow> bool" where
  "is_sep [] c = False"
| "is_sep (p # seps) c = (if c = p then True else is_sep seps c)"

definition StringMultiSplitter :: "string \<Rightarrow> nat option \<Rightarrow> nat option \<Rightarrow> string \<Rightarrow> EmptyFieldAction \<Rightarrow> Splitter result" where
  "StringMultiSplitter mem str_begin str_end seps action =
     splitter_init (is_sep seps) \<lparr>sp_mem = mem, sp_head = str_begin, sp_tail = None, sp_str_tail = str_end, sp_action = action\<rparr>"

definition StringMultiSplitter_next :: "string \<Rightarrow> Splitter \<Rightarrow> Splitter result" where
  "StringMultiSplitter_next seps s = splitter_next (is_sep seps) s"

text \<open>\<^verbatim>\<open>for (StringSplitter s(...); s; ++s)\<close>: the fields a loop sees, for at most the given number of rounds.\<close>

primrec split_loop :: "(Splitter \<Rightarrow> Splitter result) \<Rightarrow> nat \<Rightarrow> Splitter \<Rightarrow> string list result" where
  "split_loop next_field 0 s = Inl Diverges"
| "split_loop next_field (Suc n) s =
     rbind (splitter_valid s) (\<lambda>b. if b then
       rbind (next_field s) (\<lambda>s1. rbind (split_loop next_field n s1) (\<lambda>fs. Inr (splitter_field s # fs)))
     else Inr [])"

section \<open>Conversions\<close>

text \<open>
  \<^verbatim>\<open>strtol\<close> and \<^verbatim>\<open>strtoul\<close> in base 10: white space, a sign, digits; the end is the start when there is no
  digit. Both saturate, and \<^verbatim>\<open>strtoul\<close> negates modulo \<open>2\<^sup>64\<close>. They read up to the first character that does not
  belong to the number, which must be in the memory.
\<close>

definition isspace :: "char \<Rightarrow> bool" where
  "isspace c \<longleftrightarrow> c \<in> {CHR 0x20, CHR 0x09, CHR 0x0A, CHR 0x0B, CHR 0x0C, CHR 0x0D}"

definition isdigit :: "char \<Rightarrow> bool" where
  "isdigit c \<longleftrightarrow> 48 \<le> (of_char c :: int) \<and> of_char c \<le> (57 :: int)"

definition decimal :: "string \<Rightarrow> int" where
  "decimal ds = foldl (\<lambda>v c. 10 * v + (of_char c - 48)) 0 ds"

definition strto :: "string \<Rightarrow> nat \<Rightarrow> (bool \<times> int \<times> nat) result" where
  "strto mem p =
    (let p1 = p + length (takeWhile isspace (drop p mem)) in
     rbind (char_at mem p1) (\<lambda>c.
     let neg = (c = CHR ''-''); p2 = (if neg \<or> c = CHR ''+'' then Suc p1 else p1);
         ds = takeWhile isdigit (drop p2 mem); p3 = p2 + length ds in
     rbind (char_at mem p3) (\<lambda>_.
     Inr (neg, decimal ds, if ds = [] then p else p3))))"

definition strtol :: "string \<Rightarrow> nat \<Rightarrow> (int \<times> nat) result" where
  "strtol mem p = rbind (strto mem p) (\<lambda>(neg, v, e).
     Inr (max (- (2 ^ 63)) (min (2 ^ 63 - 1) (if neg then - v else v)), e))"

definition strtoul :: "string \<Rightarrow> nat \<Rightarrow> (int \<times> nat) result" where
  "strtoul mem p = rbind (strto mem p) (\<lambda>(neg, v, e).
     Inr (if v > 2 ^ 64 - 1 then 2 ^ 64 - 1 else if neg then (- v) mod 2 ^ 64 else v, e))"

definition to_long :: "Splitter \<Rightarrow> (int \<times> int) result" where
  "to_long s = rbind (strtol (sp_mem s) (the (sp_head s))) (\<lambda>(v, endptr).
     Inr (if endptr = the (sp_head s) + splitter_length s then 0 else -1, v))"

definition to_ulong :: "Splitter \<Rightarrow> (int \<times> int) result" where
  "to_ulong s = rbind (strtoul (sp_mem s) (the (sp_head s))) (\<lambda>(v, endptr).
     Inr (if endptr = the (sp_head s) + splitter_length s then 0 else -1, v))"

text \<open>The narrower conversions return the value they store, if they store one.\<close>

definition to_int8 :: "Splitter \<Rightarrow> (int \<times> int option) result" where
  "to_int8 s = rbind (to_long s) (\<lambda>(rc, v).
     Inr (if rc = 0 \<and> v \<ge> -128 \<and> v \<le> 127 then (0, Some v) else (-1, None)))"

definition to_uint8 :: "Splitter \<Rightarrow> (int \<times> int option) result" where
  "to_uint8 s = rbind (to_ulong s) (\<lambda>(rc, v).
     Inr (if rc = 0 \<and> v \<le> 255 then (0, Some v) else (-1, None)))"

definition to_int :: "Splitter \<Rightarrow> (int \<times> int option) result" where
  "to_int s = rbind (to_long s) (\<lambda>(rc, v).
     Inr (if rc = 0 \<and> v \<ge> - (2 ^ 31) \<and> v \<le> 2 ^ 31 - 1 then (0, Some v) else (-1, None)))"

definition to_uint :: "Splitter \<Rightarrow> (int \<times> int option) result" where
  "to_uint s = rbind (to_ulong s) (\<lambda>(rc, v).
     Inr (if rc = 0 \<and> v \<le> 2 ^ 32 - 1 then (0, Some v) else (-1, None)))"

section \<open>The fields of a text\<close>

text \<open>
  The reference: a text cut at its separators, without a field after a final separator.
\<close>

fun fields :: "(char \<Rightarrow> bool) \<Rightarrow> string \<Rightarrow> string list" where
  "fields P [] = []"
| "fields P (c # cs) = (if P c then [] # fields P cs else case fields P cs of [] \<Rightarrow> [[c]] | f # fs \<Rightarrow> (c # f) # fs)"

lemma fields_first:
  "r \<noteq> [] \<Longrightarrow> fields P r = takeWhile (\<lambda>c. \<not> P c) r # fields P (drop (Suc (length (takeWhile (\<lambda>c. \<not> P c) r))) r)"
proof (induction r)
  case (Cons c r)
  then show ?case by (cases "r = []") auto
qed simp

lemma fields_skip: "filter (\<lambda>f. f \<noteq> []) (fields P r) = filter (\<lambda>f. f \<noteq> []) (fields P (dropWhile P r))"
  by (induction r) auto

text \<open>The input starts at \<open>b\<close> and ends at \<open>e\<close>, and the character at \<open>e\<close> is in the memory.\<close>

definition input_ends :: "Splitter \<Rightarrow> nat \<Rightarrow> nat \<Rightarrow> bool" where
  "input_ends s b e \<longleftrightarrow> b \<le> e \<and> e < length (sp_mem s) \<and> (case sp_str_tail s of
     Some e' \<Rightarrow> e' = e
   | None \<Rightarrow> sp_mem s ! e = NUL \<and> (\<forall>i. b \<le> i \<and> i < e \<longrightarrow> sp_mem s ! i \<noteq> NUL))"

definition region :: "Splitter \<Rightarrow> nat \<Rightarrow> nat \<Rightarrow> string" where
  "region s e p = take (e - p) (drop p (sp_mem s))"

lemma not_end_input: "input_ends s b e \<Longrightarrow> b \<le> p \<Longrightarrow> p \<le> e \<Longrightarrow> not_end s p = Inr (p \<noteq> e)"
  by (cases "p = e") (auto simp: input_ends_def not_end_def char_at_def split: option.splits)

lemma region_simps:
  "region s e e = []"
  "p < e \<Longrightarrow> e < length (sp_mem s) \<Longrightarrow> region s e p = sp_mem s ! p # region s e (Suc p)"
  "drop k (region s e p) = region s e (p + k)"
  "length (region s e p) = min (e - p) (length (sp_mem s) - p)"
  by (auto simp: region_def Cons_nth_drop_Suc [symmetric] take_Cons' drop_take add.commute)

declare scan.simps [simp del]

lemma scan_input:
  assumes "input_ends s b e"
  shows "b \<le> p \<Longrightarrow> p \<le> e \<Longrightarrow> scan test s p = Inr (p + length (takeWhile test (region s e p)))"
proof (induction "e - p" arbitrary: p)
  case 0
  then have "p = e" by simp
  then show ?case
    using assms not_end_input [OF assms, of e] by (simp add: scan.simps region_simps input_ends_def)
next
  case (Suc n)
  then have "p < e" by simp
  moreover have "e < length (sp_mem s)" using assms by (simp add: input_ends_def)
  ultimately show ?case
    using Suc not_end_input [OF assms, of p] Suc.hyps(1) [of "Suc p"]
    by (subst scan.simps) (simp add: region_simps(2))
qed

lemma scan_bound:
  assumes "p \<le> e"
  shows "p + length (takeWhile test (region s e p)) \<le> e"
proof -
  have "length (region s e p) \<le> e - p" by (simp add: region_simps(4))
  with length_takeWhile_le [of test "region s e p"] assms show ?thesis by linarith
qed

text \<open>Only head and tail change.\<close>

lemma input_ends_cong:
  "input_ends (s\<lparr>sp_head := h, sp_tail := t\<rparr>) b e = input_ends s b e"
  "region (s\<lparr>sp_head := h, sp_tail := t\<rparr>) = region s"
  "not_end (s\<lparr>sp_head := h, sp_tail := t\<rparr>) = not_end s"
  by (auto simp: input_ends_def region_def not_end_def fun_eq_iff split: option.splits)

text \<open>A splitter that stands at a field: its tail is the end of the field.\<close>

definition at_field :: "(char \<Rightarrow> bool) \<Rightarrow> Splitter \<Rightarrow> nat \<Rightarrow> nat \<Rightarrow> nat \<Rightarrow> bool" where
  "at_field P s b e h \<longleftrightarrow> input_ends s b e \<and> b \<le> h \<and> h \<le> e \<and> sp_head s = Some h \<and>
     sp_tail s = Some (h + length (takeWhile (\<lambda>c. \<not> P c) (region s e h)))"

lemma at_field_reads:
  assumes "at_field P s b e h"
  shows "splitter_valid s = Inr (h \<noteq> e)" and "splitter_field s = takeWhile (\<lambda>c. \<not> P c) (region s e h)"
proof -
  have i: "input_ends s b e" "b \<le> h" "h \<le> e" using assms by (auto simp: at_field_def)
  show "splitter_valid s = Inr (h \<noteq> e)"
    using assms not_end_input [OF i] by (simp add: splitter_valid_def at_field_def)
  define n where "n = length (takeWhile (\<lambda>c. \<not> P c) (region s e h))"
  have "n \<le> e - h" using scan_bound [OF i(3), of "\<lambda>c. \<not> P c" s] unfolding n_def by linarith
  then have "take n (region s e h) = take n (drop h (sp_mem s))"
    by (simp add: region_def)
  moreover have "take n (region s e h) = takeWhile (\<lambda>c. \<not> P c) (region s e h)"
    unfolding n_def by (rule takeWhile_eq_take [symmetric])
  moreover have "splitter_field s = take n (drop h (sp_mem s))"
    using assms by (simp add: splitter_field_def splitter_length_def at_field_def n_def)
  ultimately show "splitter_field s = takeWhile (\<lambda>c. \<not> P c) (region s e h)" by simp
qed

lemma at_field_next:
  assumes h: "at_field P s b e h"
  shows "\<exists>s' h'. splitter_next P s = Inr s' \<and> at_field P s' b e h' \<and> sp_action s' = sp_action s \<and> region s' = region s \<and> h' \<le> e \<and>
    (let t = h + length (takeWhile (\<lambda>c. \<not> P c) (region s e h)) in
     if t = e then h' = e
     else if sp_action s = SKIP_EMPTY_FIELD then h' = Suc t + length (takeWhile P (region s e (Suc t))) else h' = Suc t)"
proof -
  define t where "t = h + length (takeWhile (\<lambda>c. \<not> P c) (region s e h))"
  have i: "input_ends s b e" "b \<le> h" "h \<le> e" "sp_tail s = Some t" using h by (auto simp: at_field_def t_def)
  have t: "b \<le> t" "t \<le> e" using i scan_bound [OF i(3)] by (auto simp: t_def)
  define h' where "h' = (if t = e then e
    else if sp_action s = SKIP_EMPTY_FIELD then Suc t + length (takeWhile P (region s e (Suc t))) else Suc t)"
  have h': "b \<le> h'" "h' \<le> e" using t scan_bound [of "Suc t" e P s] by (auto simp: h'_def)
  have move: "(if t \<noteq> e then if sp_action s = SKIP_EMPTY_FIELD then scan P s (Suc t) else Inr (Suc t) else Inr t) = Inr h'"
    using t scan_input [OF i(1), of "Suc t" P] by (auto simp: h'_def)
  have "splitter_next P s = Inr (s\<lparr>sp_head := Some h', sp_tail := Some (h' + length (takeWhile (\<lambda>c. \<not> P c) (region s e h')))\<rparr>)"
    using i(4) move not_end_input [OF i(1) t] scan_input [OF i(1) h'] by (simp add: splitter_next_def)
  moreover have "at_field P (s\<lparr>sp_head := Some h', sp_tail := Some (h' + length (takeWhile (\<lambda>c. \<not> P c) (region s e h')))\<rparr>) b e h'"
    using i(1) h' by (simp add: at_field_def input_ends_cong)
  ultimately show ?thesis
    using h'(2) by (auto simp: input_ends_cong t_def [symmetric] Let_def h'_def intro!: exI [of _ h'])
qed

text \<open>The loop over the fields of an input returns all of them, and only the non-empty ones when asked to skip.\<close>

definition wanted :: "EmptyFieldAction \<Rightarrow> string list \<Rightarrow> string list" where
  "wanted action fs = (if action = SKIP_EMPTY_FIELD then filter (\<lambda>f. f \<noteq> []) fs else fs)"

lemma region_takeWhile:
  assumes "input_ends s b e" and "p < e"
  shows "region s e p \<noteq> []"
    and "drop (Suc (length (takeWhile test (region s e p)))) (region s e p) = region s e (Suc (p + length (takeWhile test (region s e p))))"
  using assms by (simp_all add: region_simps(2,3) input_ends_def)

lemma split_loop_fields:
  "at_field P s b e h \<Longrightarrow> e - h < n \<Longrightarrow> sp_action s = SKIP_EMPTY_FIELD \<longrightarrow> h = e \<or> \<not> P (hd (region s e h)) \<Longrightarrow>
    split_loop (splitter_next P) n s = Inr (wanted (sp_action s) (fields P (region s e h)))"
proof (induction n arbitrary: s h)
  case (Suc n)
  define t where "t = h + length (takeWhile (\<lambda>c. \<not> P c) (region s e h))"
  have i: "input_ends s b e" "h \<le> e" using Suc.prems(1) by (auto simp: at_field_def)
  obtain s' h' where s': "splitter_next P s = Inr s'" "at_field P s' b e h'" "sp_action s' = sp_action s" "region s' = region s"
      "if t = e then h' = e
       else if sp_action s = SKIP_EMPTY_FIELD then h' = Suc t + length (takeWhile P (region s e (Suc t))) else h' = Suc t"
    using at_field_next [OF Suc.prems(1)] unfolding t_def [symmetric] Let_def by blast
  show ?case
  proof (cases "h = e")
    case True
    then show ?thesis
      using at_field_reads(1) [OF Suc.prems(1)] by (simp add: region_simps(1) wanted_def)
  next
    case False
    then have he: "h < e" using i(2) by simp
    have t: "h \<le> t" "t \<le> e" using scan_bound [OF i(2)] by (simp_all add: t_def)
    have "h < h'" using s'(5) t he by (auto split: if_splits)
    then have n: "e - h' < n" using Suc.prems(2) he by linarith
    have skipped: "region s e h' = dropWhile P (region s e (Suc t))" if "t \<noteq> e" "sp_action s = SKIP_EMPTY_FIELD"
      using s'(5) that region_simps(3) [of _ s e "Suc t"] by (simp add: dropWhile_eq_drop add.commute)
    have "h' = e \<or> \<not> P (hd (region s e h'))" if a: "sp_action s = SKIP_EMPTY_FIELD"
    proof (cases "t = e \<or> h' = e")
      case False
      then have "h' < e" using s'(2) by (auto simp: at_field_def)
      then have "dropWhile P (region s e (Suc t)) \<noteq> []"
        using skipped a False region_takeWhile(1) [OF i(1)] by metis
      then show ?thesis using skipped a False hd_dropWhile by metis
    qed (use s'(5) in auto)
    then have "split_loop (splitter_next P) n s' = Inr (wanted (sp_action s) (fields P (region s e h')))"
      using Suc.IH [OF s'(2) n] s'(3,4) by simp
    moreover have "wanted (sp_action s) (fields P (region s e (Suc t))) = wanted (sp_action s) (fields P (region s e h'))"
      using s'(5) skipped fields_skip [of P "region s e (Suc t)"]
      by (cases "t = e") (auto simp: wanted_def region_def)
    moreover have "fields P (region s e h) = takeWhile (\<lambda>c. \<not> P c) (region s e h) # fields P (region s e (Suc t))"
      using fields_first [OF region_takeWhile(1) [OF i(1) he], of P] region_takeWhile(2) [OF i(1) he]
      by (simp add: t_def)
    moreover have "takeWhile (\<lambda>c. \<not> P c) (region s e h) \<noteq> []" if "sp_action s = SKIP_EMPTY_FIELD"
      using Suc.prems(3) that False region_takeWhile(1) [OF i(1) he] by (cases "region s e h") auto
    ultimately show ?thesis
      using s'(1) False at_field_reads [OF Suc.prems(1)] by (auto simp: wanted_def)
  qed
qed simp

lemma splitter_init_field:
  assumes i: "input_ends s b e" and "sp_head s = Some b"
  shows "\<exists>s' h. splitter_init P s = Inr s' \<and> at_field P s' b e h \<and> sp_action s' = sp_action s \<and>
    wanted (sp_action s) (fields P (region s' e h)) = wanted (sp_action s) (fields P (region s e b)) \<and>
    (sp_action s = SKIP_EMPTY_FIELD \<longrightarrow> h = e \<or> \<not> P (hd (region s' e h)))"
proof -
  define h where "h = (if sp_action s = SKIP_EMPTY_FIELD then b + length (takeWhile P (region s e b)) else b)"
  have be: "b \<le> e" using i by (simp add: input_ends_def)
  then have h: "b \<le> h" "h \<le> e" using scan_bound [OF be] by (auto simp: h_def)
  define s' where "s' = s\<lparr>sp_head := Some h, sp_tail := Some (h + length (takeWhile (\<lambda>c. \<not> P c) (region s e h)))\<rparr>"
  have "(if sp_action s = SKIP_EMPTY_FIELD then scan P s b else Inr b) = Inr h"
    using scan_input [OF i order_refl be] by (simp add: h_def)
  then have "splitter_init P s = Inr s'"
    using assms(2) scan_input [OF i h] by (simp add: splitter_init_def s'_def)
  moreover have "at_field P s' b e h" "region s' = region s"
    using i h by (simp_all add: at_field_def input_ends_cong s'_def)
  moreover have skipped: "region s e h = dropWhile P (region s e b)" if "sp_action s = SKIP_EMPTY_FIELD"
    using that region_simps(3) [of _ s e b] by (simp add: h_def dropWhile_eq_drop add.commute)
  moreover have "h = e \<or> \<not> P (hd (region s e h))" if "sp_action s = SKIP_EMPTY_FIELD"
  proof (cases "h = e")
    case False
    then have "dropWhile P (region s e b) \<noteq> []"
      using skipped that region_takeWhile(1) [OF i, of h] h by (metis le_neq_implies_less)
    then show ?thesis using skipped that hd_dropWhile by metis
  qed simp
  moreover have "wanted (sp_action s) (fields P (region s e h)) = wanted (sp_action s) (fields P (region s e b))"
    using skipped fields_skip [of P "region s e b"] by (auto simp: wanted_def h_def)
  moreover have "sp_action s' = sp_action s" by (simp add: s'_def)
  ultimately show ?thesis
    by (intro exI [of _ s'] exI [of _ h]) simp
qed

lemma split_all_fields:
  assumes "mem = text @ c # rest" and "str_end = Some (length text) \<or> str_end = None \<and> c = NUL \<and> NUL \<notin> set text"
  shows "\<exists>s. splitter_init P \<lparr>sp_mem = mem, sp_head = Some 0, sp_tail = None, sp_str_tail = str_end, sp_action = action\<rparr> = Inr s \<and>
    split_loop (splitter_next P) (length text + 1) s = Inr (wanted action (fields P text))"
proof -
  define s0 where "s0 = \<lparr>sp_mem = mem, sp_head = Some 0, sp_tail = None, sp_str_tail = str_end, sp_action = action\<rparr>"
  have "input_ends s0 0 (length text)"
    using assms by (auto simp: input_ends_def s0_def nth_append) (metis nth_mem)
  moreover have "region s0 (length text) 0 = text" "sp_head s0 = Some 0" "sp_action s0 = action"
    using assms(1) by (simp_all add: region_def s0_def)
  ultimately obtain s' h where "splitter_init P s0 = Inr s'" "at_field P s' 0 (length text) h" "sp_action s' = action"
      "wanted action (fields P (region s' (length text) h)) = wanted action (fields P text)"
      "action = SKIP_EMPTY_FIELD \<longrightarrow> h = length text \<or> \<not> P (hd (region s' (length text) h))"
    using splitter_init_field [of s0 0 "length text" P] by auto
  then show ?thesis
    using split_loop_fields [of P s' 0 "length text" h "length text + 1"] by (simp add: s0_def)
qed

lemma is_sep_set: "is_sep seps = (\<lambda>c. c \<in> set seps)"
proof
  show "is_sep seps c \<longleftrightarrow> c \<in> set seps" for c by (induction seps) auto
qed

section \<open>Reading numbers\<close>

lemma digit_not_space: "isdigit c \<Longrightarrow> \<not> isspace c \<and> c \<noteq> CHR ''-'' \<and> c \<noteq> CHR ''+''"
  by (auto simp: isdigit_def isspace_def)

lemma strto_digits:
  assumes "mem = pre @ ds @ x # rest" and "ds \<noteq> []" and "list_all isdigit ds" and "\<not> isdigit x"
  shows "strto mem (length pre) = Inr (False, decimal ds, length pre + length ds)"
proof -
  have tw: "takeWhile isdigit (ds @ x # rest) = ds"
    using assms(3,4) by (simp add: takeWhile_append2 list_all_iff)
  obtain d ds' where ds: "ds = d # ds'" using assms(2) by (cases ds) auto
  then have d: "isdigit d" using assms(3) by simp
  show ?thesis
    using assms(1) tw digit_not_space [OF d] by (simp add: strto_def char_at_def ds Let_def nth_append)
qed

text \<open>A field of digits converts to its value when the type has it.\<close>

lemma to_int_digits:
  assumes "sp_mem s = pre @ ds @ x # rest" and "ds \<noteq> []" and "list_all isdigit ds" and "\<not> isdigit x"
    and "sp_head s = Some (length pre)" and "sp_tail s = Some (length pre + length ds)" and "0 \<le> decimal ds"
  shows "to_int s = Inr (if decimal ds < 2 ^ 31 then (0, Some (decimal ds)) else (-1, None))"
    and "to_uint s = Inr (if decimal ds < 2 ^ 32 then (0, Some (decimal ds)) else (-1, None))"
  using strto_digits [OF assms(1-4)] assms(5-7)
  by (auto simp: to_int_def to_uint_def to_long_def to_ulong_def strtol_def strtoul_def splitter_length_def)

text \<open>An empty field before a separator that is no space, sign or digit converts to 0 without an error.\<close>

lemma to_int_empty:
  assumes "sp_mem s = pre @ x # rest" and "\<not> isspace x" and "x \<noteq> CHR ''-''" and "x \<noteq> CHR ''+''" and "\<not> isdigit x"
    and "sp_head s = Some (length pre)" and "sp_tail s = Some (length pre)"
  shows "to_int s = Inr (0, Some 0)"
  using assms by (simp add: to_int_def to_long_def strtol_def strto_def char_at_def splitter_length_def decimal_def Let_def)

section \<open>Properties\<close>

text \<open>
  C35. Looping over a splitter visits the fields of the text, cut at the separators, without a field
  after a final separator and, by default, without empty fields; this holds for null-terminated strings and
  for ranges whose end can be read, and for one separator as for a set of them.
\<close>

theorem splitters_visit_fields:
  assumes "mem = text @ c # rest" and "str_end = Some (length text) \<or> str_end = None \<and> c = NUL \<and> NUL \<notin> set text"
  shows "rbind (StringSplitter mem (Some 0) str_end sep action) (split_loop (StringSplitter_next sep) (length text + 1)) =
      Inr (wanted action (fields (\<lambda>c. c = sep) text)) \<and>
    rbind (StringMultiSplitter mem (Some 0) str_end seps action) (split_loop (StringMultiSplitter_next seps) (length text + 1)) =
      Inr (wanted action (fields (\<lambda>c. c \<in> set seps) text))"
proof -
  have "(\<lambda>c. sep = c) = (\<lambda>c. c = sep)" by auto
  then show ?thesis
    using split_all_fields [OF assms, of "\<lambda>c. c = sep" action] split_all_fields [OF assms, of "\<lambda>c. c \<in> set seps" action]
    unfolding StringSplitter_def StringMultiSplitter_def StringSplitter_next_def [abs_def] StringMultiSplitter_next_def [abs_def] is_sep_set
    by (auto simp del: split_loop.simps)
qed

theorem splitters_visit_fields_witness:
  "rbind (StringSplitter (''ab,,c,'' @ [NUL]) (Some 0) None CHR '','' SKIP_EMPTY_FIELD) (split_loop (StringSplitter_next CHR '','') 7) =
    Inr [''ab'', ''c'']"
  using splitters_visit_fields [of "''ab,,c,'' @ [NUL]" "''ab,,c,''" NUL "[]" None "CHR '',''" SKIP_EMPTY_FIELD "[]"]
  by (simp add: wanted_def NUL_def eval_nat_numeral)

text \<open>
  C36. The splitter reads a character before it tests for the end: on a range without separator
  whose end is the end of the memory, as a string piece may have, the constructor reads past it.
\<close>

theorem splitter_reads_past_end:
  assumes "sep \<notin> set text"
  shows "StringSplitter text (Some 0) (Some (length text)) sep action = Inl Out_of_bounds"
proof -
  define s where "s = \<lparr>sp_mem = text, sp_head = Some 0, sp_tail = None, sp_str_tail = Some (length text), sp_action = action\<rparr>"
  have tail: "scan (\<lambda>c. \<not> sep = c) s p = Inl Out_of_bounds" if "p \<le> length text" for p
    using that
  proof (induction "length text - p" arbitrary: p)
    case (Suc n)
    then have "text ! p \<noteq> sep" using assms by (metis nth_mem zero_less_Suc zero_less_diff)
    then show ?case
      using Suc by (subst scan.simps) (auto simp: s_def not_end_def)
  qed (subst scan.simps, simp add: s_def)
  have "scan (\<lambda>c. sep = c) s 0 = (if text = [] then Inl Out_of_bounds else Inr 0)"
    using assms by (subst scan.simps) (cases "text"; auto simp: s_def)
  then show ?thesis
    using tail [of 0] by (cases "text = []") (auto simp: StringSplitter_def splitter_init_def s_def)
qed

theorem splitter_reads_past_end_witness:
  "StringSplitter ''abc'' (Some 0) (Some 3) CHR '','' SKIP_EMPTY_FIELD = Inl Out_of_bounds"
  using splitter_reads_past_end [of "CHR '',''" "''abc''" SKIP_EMPTY_FIELD] by (simp add: eval_nat_numeral)

end
