(* ===== verification/Socket_Server.thy ===== *)
theory Socket_Server
  imports Cpp_Prelude
begin

text \<open>
  The socket demonstrations \<^verbatim>\<open>else/server.cpp\<close> and \<^verbatim>\<open>else/client.cpp\<close>. The results of the system calls
  are arguments: the single-client programs get the data of their successive reads, \<open>None\<close> for a failed
  read and the empty list for a closed connection, and end waiting when there are no more. The threaded
  server is a step relation over its slots, with the results of the calls in the labels.
\<close>

section \<open>The single-client server and the client\<close>

type_synonym bytes = "8 word list"

datatype sock_event = Request bytes | Written int bytes | Closed int

record os_results =
  os_socket :: int
  os_bind :: int
  os_listen :: int
  os_accept :: int
  os_connect :: int
  os_reads :: "bytes option list"

text \<open>\<^verbatim>\<open>printf\<close> with \<^verbatim>\<open>%s\<close> on the buffer of 1024 bytes, which is zero after the bytes read.\<close>

definition buffer_string :: "bytes \<Rightarrow> bytes result" where
  "buffer_string bs = (if 1024 \<le> length bs \<and> 0 \<notin> set bs then Inl Out_of_bounds else Inr (takeWhile (\<lambda>b. b \<noteq> 0) bs))"

definition hello_client :: bytes where
  "hello_client = map of_char ''hello client'' @ [0]"

text \<open>The loop of \<^verbatim>\<open>socket()\<close>; the returned value is \<open>None\<close> while it waits for data.\<close>

fun serve_loop :: "int \<Rightarrow> int \<Rightarrow> bytes option list \<Rightarrow> (int option \<times> sock_event list) result" where
  "serve_loop serv_sock clnt_sock [] = Inr (None, [])"
| "serve_loop serv_sock clnt_sock (None # reads) = Inr (Some 0, [Closed clnt_sock, Closed serv_sock])"
| "serve_loop serv_sock clnt_sock (Some bs # reads) =
    (if bs = [] then Inr (Some 0, [Closed clnt_sock, Closed serv_sock])
     else rbind (buffer_string bs) (\<lambda>text.
       rbind (serve_loop serv_sock clnt_sock reads) (\<lambda>(rc, evs).
       Inr (rc, Request text # Written clnt_sock hello_client # evs))))"

definition socket1 :: "os_results \<Rightarrow> (int option \<times> sock_event list) result" where
  "socket1 os =
    (if os_socket os = -1 then Inr (Some (-1), [])
     else if os_bind os = -1 then Inr (Some (-1), [])
     else if os_listen os = -1 then Inr (Some (-1), [])
     else if os_accept os = -1 then Inr (Some (-1), [])
     else serve_loop (os_socket os) (os_accept os) (os_reads os))"

fun decimal_digits :: "nat \<Rightarrow> string" where
  "decimal_digits n = (if n < 10 then [char_of (48 + n)] else decimal_digits (n div 10) @ [char_of (48 + n mod 10)])"

definition client_message :: "nat \<Rightarrow> bytes" where
  "client_message number = map of_char (''hello, server, I am client '' @ decimal_digits number) @ [0]"

fun client_loop :: "int \<Rightarrow> nat \<Rightarrow> bytes option list \<Rightarrow> (int option \<times> sock_event list) result" where
  "client_loop clt_sock number [] = Inr (None, [Written clt_sock (client_message number)])"
| "client_loop clt_sock number (None # reads) = Inr (Some (-1), [Written clt_sock (client_message number)])"
| "client_loop clt_sock number (Some bs # reads) =
    (if bs = [] then Inr (Some 0, [Written clt_sock (client_message number)])
     else rbind (buffer_string bs) (\<lambda>text.
       rbind (client_loop clt_sock (Suc number) reads) (\<lambda>(rc, evs).
       Inr (rc, Written clt_sock (client_message number) # Request text # evs))))"

definition client :: "os_results \<Rightarrow> (int option \<times> sock_event list) result" where
  "client os = (if os_connect os = -1 then Inr (Some 1, []) else client_loop (os_socket os) 0 (os_reads os))"

section \<open>The threaded server\<close>

text \<open>
  The thread of a connection echoes the text in its buffer, which is not initialised: without a null
  character among the bytes read, \<^verbatim>\<open>strlen\<close> runs into bytes that were not written.
\<close>

definition working_echo :: "bytes \<Rightarrow> bytes result" where
  "working_echo bs =
    (if 0 \<in> set bs then Inr (takeWhile (\<lambda>b. b \<noteq> 0) bs @ [0])
     else if length bs < 1024 then Inl Indeterminate else Inl Out_of_bounds)"

definition max_infos :: nat where
  "max_infos = 128"

datatype main_pc = Scanning nat | Accepting nat | Exited

text \<open>The listening descriptor; \<^verbatim>\<open>infos\<close> by the descriptors of its slots; the slots with a running thread; the open connections.\<close>

record server =
  srv_fd :: int
  srv_slots :: "int list"
  srv_main :: main_pc
  srv_workers :: "nat set"
  srv_open :: "int set"

definition socket2_init :: "os_results \<Rightarrow> server option" where
  "socket2_init os =
    (if os_socket os = -1 \<or> os_bind os = -1 \<or> os_listen os = -1 then None
     else Some \<lparr>srv_fd = os_socket os, srv_slots = replicate max_infos (-1), srv_main = Scanning 0, srv_workers = {}, srv_open = {}\<rparr>)"

datatype srv_label = Scan | Accepted int | Accept_failed | Echoed nat bytes | Finished nat

text \<open>
  The main thread scans for a slot without descriptor. At the last slot it sleeps and looks at the
  same slot again, since \<^verbatim>\<open>i--\<close> only undoes the \<^verbatim>\<open>++i\<close> of the loop. A new descriptor is not one that is open.
  The thread of a slot clears its descriptor when the client has gone, and does not close it.
  Creating a thread succeeds; storing the descriptor and creating the thread are one step, since no other thread looks at
  the slot in between. A run has no echo of a text without null character, whose effect is undefined.
\<close>

inductive srv_step :: "server \<Rightarrow> srv_label \<Rightarrow> server \<Rightarrow> bool" where
  scan_free: "srv_main s = Scanning i \<Longrightarrow> i < max_infos \<Longrightarrow> srv_slots s ! i = -1 \<Longrightarrow>
    srv_step s Scan (s\<lparr>srv_main := Accepting i\<rparr>)"
| scan_busy: "srv_main s = Scanning i \<Longrightarrow> i < max_infos - 1 \<Longrightarrow> srv_slots s ! i \<noteq> -1 \<Longrightarrow>
    srv_step s Scan (s\<lparr>srv_main := Scanning (Suc i)\<rparr>)"
| scan_last: "srv_main s = Scanning i \<Longrightarrow> i = max_infos - 1 \<Longrightarrow> srv_slots s ! i \<noteq> -1 \<Longrightarrow>
    srv_step s Scan (s\<lparr>srv_main := Scanning i\<rparr>)"
| accept_ok: "srv_main s = Accepting i \<Longrightarrow> connfd \<noteq> -1 \<Longrightarrow> connfd \<noteq> srv_fd s \<Longrightarrow> connfd \<notin> srv_open s \<Longrightarrow>
    srv_step s (Accepted connfd)
      (s\<lparr>srv_slots := (srv_slots s)[i := connfd], srv_main := Scanning 0, srv_workers := insert i (srv_workers s),
         srv_open := insert connfd (srv_open s)\<rparr>)"
| accept_failed: "srv_main s = Accepting i \<Longrightarrow> srv_step s Accept_failed (s\<lparr>srv_main := Exited\<rparr>)"
| worker_echo: "srv_main s \<noteq> Exited \<Longrightarrow> i \<in> srv_workers s \<Longrightarrow> length bs \<le> 1024 \<Longrightarrow> working_echo bs = Inr out \<Longrightarrow>
    srv_step s (Echoed i out) s"
| worker_done: "srv_main s \<noteq> Exited \<Longrightarrow> i \<in> srv_workers s \<Longrightarrow>
    srv_step s (Finished i) (s\<lparr>srv_slots := (srv_slots s)[i := -1], srv_workers := srv_workers s - {i}\<rparr>)"

inductive srv_run :: "server \<Rightarrow> srv_label list \<Rightarrow> server \<Rightarrow> bool" where
  run_nil: "srv_run s [] s"
| run_snoc: "srv_run s ls s' \<Longrightarrow> srv_step s' l s'' \<Longrightarrow> srv_run s (ls @ [l]) s''"

inductive_cases srv_stepE: "srv_step s l s'"

section \<open>The invariant of the threaded server\<close>

text \<open>
  A slot has a descriptor exactly while a thread serves it, no two slots have the same one, and none has that of
  the listening socket.
\<close>

definition srv_inv :: "server \<Rightarrow> bool" where
  "srv_inv s \<longleftrightarrow> length (srv_slots s) = max_infos \<and>
     (\<forall>i. i \<in> srv_workers s \<longleftrightarrow> i < max_infos \<and> srv_slots s ! i \<noteq> -1) \<and>
     (\<forall>i \<in> srv_workers s. srv_slots s ! i \<in> srv_open s) \<and>
     inj_on (\<lambda>i. srv_slots s ! i) (srv_workers s) \<and> srv_fd s \<notin> srv_open s \<and>
     (case srv_main s of Scanning i \<Rightarrow> i < max_infos | Accepting i \<Rightarrow> i < max_infos \<and> srv_slots s ! i = -1 | Exited \<Rightarrow> True)"

lemma srv_inv_step: "srv_step s l s' \<Longrightarrow> srv_inv s \<Longrightarrow> srv_inv s'"
proof (induction rule: srv_step.induct)
  case (accept_ok s i connfd)
  then show ?case
    by (auto simp: srv_inv_def nth_list_update inj_on_def max_infos_def)
next
  case (worker_done s i)
  then show ?case
    by (auto simp: srv_inv_def nth_list_update inj_on_def split: main_pc.splits)
qed (auto simp: srv_inv_def max_infos_def)

lemma srv_inv_init: "socket2_init os = Some s \<Longrightarrow> srv_inv s"
  by (auto simp: socket2_init_def srv_inv_def max_infos_def split: if_splits)

lemma srv_run_trans: "srv_run t ls' u \<Longrightarrow> srv_run s ls t \<Longrightarrow> srv_run s (ls @ ls') u"
proof (induction rule: srv_run.induct)
  case (run_snoc t ls' u l v)
  then have "srv_run s ((ls @ ls') @ [l]) v" by (blast intro: srv_run.run_snoc)
  then show ?case by simp
qed simp

text \<open>The state after \<open>k\<close> connections, whose descriptors follow that of the listening socket.\<close>

definition desc :: "int \<Rightarrow> nat \<Rightarrow> int" where
  "desc fd i = max 0 fd + 1 + int i"

lemma desc_simps [simp]: "desc fd i \<noteq> -1" "desc fd i \<noteq> fd" "fd \<noteq> desc fd i" "desc fd i = desc fd j \<longleftrightarrow> i = j"
  by (auto simp: desc_def max_def)

lemma desc_image [simp]: "desc fd i \<in> desc fd ` A \<longleftrightarrow> i \<in> A"
  by (auto simp: image_iff)

definition filled :: "int \<Rightarrow> nat \<Rightarrow> main_pc \<Rightarrow> server" where
  "filled fd k pc = \<lparr>srv_fd = fd, srv_slots = map (desc fd) [0..<k] @ replicate (max_infos - k) (-1), srv_main = pc, srv_workers = {..<k},
     srv_open = desc fd ` {..<k}\<rparr>"

lemma filled_slot: "i < k \<Longrightarrow> srv_slots (filled fd k pc) ! i = desc fd i" "i = k \<Longrightarrow> k < max_infos \<Longrightarrow> srv_slots (filled fd k pc) ! i = -1"
  by (simp_all add: filled_def nth_append)

lemma filled_init: "socket2_init os = Some s0 \<Longrightarrow> s0 = filled (os_socket os) 0 (Scanning 0)"
  by (auto simp: socket2_init_def filled_def split: if_splits)

lemma filled_scan: "j \<le> k \<Longrightarrow> j < max_infos \<Longrightarrow> \<exists>ls. srv_run (filled fd k (Scanning 0)) ls (filled fd k (Scanning j))"
proof (induction j)
  case 0
  then show ?case by (blast intro: run_nil)
next
  case (Suc j)
  then obtain ls where "srv_run (filled fd k (Scanning 0)) ls (filled fd k (Scanning j))" by auto
  moreover have "srv_step (filled fd k (Scanning j)) Scan (filled fd k (Scanning (Suc j)))"
    using scan_busy [of "filled fd k (Scanning j)" j] Suc.prems filled_slot(1) [of j k fd "Scanning j"] by (simp add: filled_def)
  ultimately show ?case by (blast intro: run_snoc)
qed

lemma filled_reach: "k \<le> max_infos \<Longrightarrow> \<exists>ls. srv_run (filled fd 0 (Scanning 0)) ls (filled fd k (Scanning 0))"
proof (induction k)
  case 0
  then show ?case by (blast intro: run_nil)
next
  case (Suc k)
  then obtain ls1 where ls1: "srv_run (filled fd 0 (Scanning 0)) ls1 (filled fd k (Scanning 0))" by auto
  obtain ls2 where ls2: "srv_run (filled fd k (Scanning 0)) ls2 (filled fd k (Scanning k))"
    using filled_scan [of k k] Suc.prems by auto
  have s1: "srv_step (filled fd k (Scanning k)) Scan (filled fd k (Accepting k))"
    using scan_free [of "filled fd k (Scanning k)" k] Suc.prems filled_slot(2) [of k k fd "Scanning k"] by (simp add: filled_def)
  have "(map (desc fd) [0..<k] @ replicate (max_infos - k) (-1))[k := desc fd k] =
      map (desc fd) [0..<Suc k] @ replicate (max_infos - Suc k) (-1)"
    using Suc.prems by (simp add: list_update_append Suc_diff_Suc [symmetric])
  then have s2: "srv_step (filled fd k (Accepting k)) (Accepted (desc fd k)) (filled fd (Suc k) (Scanning 0))"
    using accept_ok [of "filled fd k (Accepting k)" k "desc fd k"] by (simp add: filled_def lessThan_Suc)
  show ?case
    using run_snoc [OF run_snoc [OF srv_run_trans [OF ls2 ls1] s1] s2] by blast
qed

text \<open>The main thread is at the last slot, all slots were taken, and the threads of the first \<open>j\<close> slots have ended.\<close>

definition freed :: "int \<Rightarrow> nat \<Rightarrow> server" where
  "freed fd j = \<lparr>srv_fd = fd, srv_slots = replicate j (-1) @ map (desc fd) [j..<max_infos], srv_main = Scanning (max_infos - 1),
     srv_workers = {j..<max_infos}, srv_open = desc fd ` {..<max_infos}\<rparr>"

lemma freed_reach: "j < max_infos \<Longrightarrow> \<exists>ls. srv_run (filled fd 0 (Scanning 0)) ls (freed fd j)"
proof (induction j)
  case 0
  have "filled fd max_infos (Scanning (max_infos - 1)) = freed fd 0" by (simp add: filled_def freed_def lessThan_atLeast0)
  then show ?case
    using filled_reach [of max_infos fd] filled_scan [of "max_infos - 1" max_infos fd] srv_run_trans
    by (metis diff_le_self diff_less le_refl max_infos_def zero_less_numeral zero_less_one)
next
  case (Suc j)
  have "[j..<max_infos] = j # [Suc j..<max_infos]" using Suc.prems by (simp add: upt_conv_Cons)
  then have "(replicate j (-1) @ map (desc fd) [j..<max_infos])[j := -1] = replicate (Suc j) (-1) @ map (desc fd) [Suc j..<max_infos]"
    by (simp add: list_update_append replicate_append_same del: upt_Suc)
  moreover have "{j..<max_infos} - {j} = {Suc j..<max_infos}" by auto
  ultimately have "srv_step (freed fd j) (Finished j) (freed fd (Suc j))"
    using worker_done [of "freed fd j" j] Suc.prems by (simp add: freed_def del: replicate_Suc)
  then show ?case using Suc run_snoc by (meson Suc_lessD)
qed

text \<open>While its last slot is busy, the main thread that has come there stays.\<close>

lemma stays_at_last:
  "srv_run s ls s' \<Longrightarrow> srv_main s = Scanning (max_infos - 1) \<Longrightarrow> srv_slots s ! (max_infos - 1) \<noteq> -1 \<Longrightarrow>
    length (srv_slots s) = max_infos \<Longrightarrow> Finished (max_infos - 1) \<notin> set ls \<Longrightarrow>
    srv_main s' = Scanning (max_infos - 1) \<and> srv_slots s' ! (max_infos - 1) \<noteq> -1 \<and> length (srv_slots s') = max_infos \<and>
    (\<forall>fd. Accepted fd \<notin> set ls)"
proof (induction rule: srv_run.induct)
  case (run_snoc s ls s' l s'')
  then have I: "srv_main s' = Scanning (max_infos - 1)" "srv_slots s' ! (max_infos - 1) \<noteq> -1" "length (srv_slots s') = max_infos"
      "\<forall>fd. Accepted fd \<notin> set ls" "l \<noteq> Finished (max_infos - 1)"
    by auto
  from run_snoc.hyps(2) show ?case
    by (cases rule: srv_stepE) (use I in \<open>auto simp: nth_list_update max_infos_def\<close>)
qed simp

text \<open>When the thread of the last slot ends as well, the main thread takes that slot for the next connection.\<close>

lemma freed_resumes: "\<exists>s'. srv_run (freed fd (max_infos - 1)) [Finished (max_infos - 1), Scan, Accepted (desc fd max_infos)] s'"
proof -
  define s where "s = freed fd (max_infos - 1)"
  define t where "t = s\<lparr>srv_slots := (srv_slots s)[max_infos - 1 := -1], srv_workers := srv_workers s - {max_infos - 1}\<rparr>"
  have "srv_step s (Finished (max_infos - 1)) t"
    unfolding t_def by (rule worker_done) (simp_all add: s_def freed_def max_infos_def)
  moreover have "srv_step t Scan (t\<lparr>srv_main := Accepting (max_infos - 1)\<rparr>)"
    by (rule scan_free) (simp_all add: t_def s_def freed_def max_infos_def)
  moreover have "\<exists>u. srv_step (t\<lparr>srv_main := Accepting (max_infos - 1)\<rparr>) (Accepted (desc fd max_infos)) u"
    by (rule exI, rule accept_ok) (simp_all add: t_def s_def freed_def)
  ultimately show ?thesis
    unfolding s_def using run_snoc [OF run_snoc [OF run_snoc [OF run_nil]]] by fastforce
qed

section \<open>Properties\<close>

text \<open>
  C37. In every state of the threaded server a slot has a descriptor exactly while a thread serves
  it, no two threads have the same descriptor and none that of the listening socket, and the slot the main thread waits on is free. All accepted
  descriptors are still open: none is ever closed.
\<close>

theorem socket2_invariant:
  assumes "socket2_init os = Some s0" and "srv_run s0 ls s"
  shows "srv_inv s \<and> srv_open s = {fd. Accepted fd \<in> set ls}"
  using assms(2,1)
proof (induction rule: srv_run.induct)
  case (run_nil s)
  then show ?case using srv_inv_init [OF run_nil] by (auto simp: socket2_init_def split: if_splits)
next
  case (run_snoc s0 ls s' l s'')
  then have "srv_inv s''" using srv_inv_step by blast
  moreover from run_snoc.hyps(2) have "srv_open s'' = srv_open s' \<union> {fd. Accepted fd = l}"
    by (cases rule: srv_stepE) auto
  ultimately show ?case using run_snoc by auto
qed

theorem socket2_invariant_witness:
  "\<exists>s. socket2_init \<lparr>os_socket = 3, os_bind = 0, os_listen = 0, os_accept = 4, os_connect = 0, os_reads = []\<rparr> = Some (filled 3 0 (Scanning 0)) \<and>
    srv_run (filled 3 0 (Scanning 0)) [Scan, Accepted 4] s \<and> srv_inv s \<and> srv_open s = {4}"
proof -
  define s where "s = (filled 3 0 (Scanning 0))\<lparr>srv_slots := (srv_slots (filled 3 0 (Scanning 0)))[0 := 4], srv_workers := {0}, srv_open := {4}\<rparr>"
  have i: "socket2_init \<lparr>os_socket = 3, os_bind = 0, os_listen = 0, os_accept = 4, os_connect = 0, os_reads = []\<rparr> = Some (filled 3 0 (Scanning 0))"
    by (simp add: socket2_init_def filled_def)
  have "srv_step (filled 3 0 (Scanning 0)) Scan (filled 3 0 (Accepting 0))"
    using scan_free [of "filled 3 0 (Scanning 0)" 0] filled_slot(2) [of 0 0 3 "Scanning 0"] by (simp add: filled_def max_infos_def)
  moreover have "srv_step (filled 3 0 (Accepting 0)) (Accepted 4) s"
    using accept_ok [of "filled 3 0 (Accepting 0)" 0 4] by (simp add: filled_def s_def)
  ultimately have "srv_run (filled 3 0 (Scanning 0)) [Scan, Accepted 4] s"
    using run_snoc [OF run_snoc [OF run_nil]] by fastforce
  then show ?thesis
    using i socket2_invariant [OF i] by auto
qed

text \<open>
  C38. The threaded server can starve its clients. It reaches a state in which 127 of its 128 slots are free and only the
  thread of the last slot runs. From there, whatever happens before that thread ends, the main thread is still
  looking at the last slot, its next step looks there again, and no connection is accepted. When the thread has ended, a connection can
  be accepted.
\<close>

theorem socket2_starves:
  assumes "socket2_init os = Some s0"
  shows "\<exists>ls s. srv_run s0 ls s \<and> srv_workers s = {max_infos - 1} \<and> (\<forall>i < max_infos - 1. srv_slots s ! i = -1) \<and>
    (\<forall>ls' s'. srv_run s ls' s' \<and> Finished (max_infos - 1) \<notin> set ls' \<longrightarrow>
       srv_main s' = Scanning (max_infos - 1) \<and> srv_step s' Scan s' \<and> (\<forall>fd. Accepted fd \<notin> set ls')) \<and>
    (\<exists>fd s'. srv_run s [Finished (max_infos - 1), Scan, Accepted fd] s')"
proof -
  define s where "s = freed (os_socket os) (max_infos - 1)"
  obtain ls where "srv_run s0 ls s"
    using freed_reach [of "max_infos - 1" "os_socket os"] filled_init [OF assms] by (auto simp: s_def max_infos_def)
  moreover have s: "srv_main s = Scanning (max_infos - 1)" "srv_slots s ! (max_infos - 1) \<noteq> -1" "length (srv_slots s) = max_infos"
      "srv_workers s = {max_infos - 1}" "\<forall>i < max_infos - 1. srv_slots s ! i = -1"
    by (auto simp: s_def freed_def max_infos_def nth_append)
  moreover have "srv_main s' = Scanning (max_infos - 1) \<and> srv_step s' Scan s' \<and> (\<forall>fd. Accepted fd \<notin> set ls')"
    if "srv_run s ls' s'" "Finished (max_infos - 1) \<notin> set ls'" for ls' s'
  proof -
    note I = stays_at_last [OF that(1) s(1-3) that(2)]
    then have "s'\<lparr>srv_main := Scanning (max_infos - 1)\<rparr> = s'" by (cases s') simp
    then show ?thesis using I scan_last [of s' "max_infos - 1"] by metis
  qed
  moreover have "\<exists>fd s'. srv_run s [Finished (max_infos - 1), Scan, Accepted fd] s'"
    unfolding s_def using freed_resumes by blast
  ultimately show ?thesis by blast
qed

theorem socket2_starves_witness:
  "\<exists>ls s. srv_run (filled 3 0 (Scanning 0)) ls s \<and> srv_workers s = {127} \<and> (\<forall>i < 127. srv_slots s ! i = -1) \<and>
    (\<forall>ls' s'. srv_run s ls' s' \<and> Finished 127 \<notin> set ls' \<longrightarrow>
       srv_main s' = Scanning 127 \<and> srv_step s' Scan s' \<and> (\<forall>fd. Accepted fd \<notin> set ls')) \<and>
    (\<exists>fd s'. srv_run s [Finished 127, Scan, Accepted fd] s')"
  using socket2_starves [of "\<lparr>os_socket = 3, os_bind = 0, os_listen = 0, os_accept = 4, os_connect = 0, os_reads = []\<rparr>" "filled 3 0 (Scanning 0)"]
  by (simp add: socket2_init_def filled_def max_infos_def)

end
