(* ===== verification/Bit_Array.thy ===== *)
theory Bit_Array
  imports Cpp_Prelude
begin

text \<open>
  The bit arrays of \<^verbatim>\<open>libsh/butil/bit_array.h\<close>: arrays of 64-bit words, addressed by bit. Indices are
  natural numbers below \<open>2\<^sup>64\<close>; an access outside the array is \<open>Out_of_bounds\<close>. What \<^verbatim>\<open>malloc\<close> finds in
  the memory it returns is an argument.
\<close>

section \<open>Definitions\<close>

unbundle bit_operations_syntax

type_synonym bit_array = "64 word list"

definition BIT_ARRAY_LEN :: "nat \<Rightarrow> nat" where
  "BIT_ARRAY_LEN nbit = (nbit + 63) mod 2 ^ 64 div 64 * 8"

definition bit_array_malloc :: "(nat \<Rightarrow> bool) \<Rightarrow> (nat \<Rightarrow> 64 word) \<Rightarrow> nat \<Rightarrow> bit_array option" where
  "bit_array_malloc malloc_ok garbage nbit =
    (if nbit = 0 then None
     else if malloc_ok (BIT_ARRAY_LEN nbit) then Some (map garbage [0..<BIT_ARRAY_LEN nbit div 8]) else None)"

definition word_at :: "bit_array \<Rightarrow> nat \<Rightarrow> 64 word result" where
  "word_at array off = (if off < length array then Inr (array ! off) else Inl Out_of_bounds)"

definition bit_array_clear :: "bit_array \<Rightarrow> nat \<Rightarrow> bit_array result" where
  "bit_array_clear array nbit =
    (let off = nbit div 64; last = off * 64 in
     if length array < off then Inl Out_of_bounds
     else let array1 = replicate off 0 @ drop off array in
       if last \<noteq> nbit then rbind (word_at array1 off) (\<lambda>w. Inr (array1[off := w AND NOT (push_bit (nbit - last) 1 - 1)]))
       else Inr array1)"

definition bit_array_set :: "bit_array \<Rightarrow> nat \<Rightarrow> bit_array result" where
  "bit_array_set array i =
    (let off = i div 64 in rbind (word_at array off) (\<lambda>w. Inr (array[off := w OR push_bit (i - off * 64) 1])))"

definition bit_array_unset :: "bit_array \<Rightarrow> nat \<Rightarrow> bit_array result" where
  "bit_array_unset array i =
    (let off = i div 64 in rbind (word_at array off) (\<lambda>w. Inr (array[off := w AND NOT (push_bit (i - off * 64) 1)])))"

definition bit_array_get :: "bit_array \<Rightarrow> nat \<Rightarrow> 64 word result" where
  "bit_array_get array i =
    (let off = i div 64 in rbind (word_at array off) (\<lambda>w. Inr (w AND push_bit (i - off * 64) 1)))"

text \<open>\<^verbatim>\<open>__builtin_ctzl\<close> of a word that is not 0: the position of its lowest bit.\<close>

definition builtin_ctzl :: "64 word \<Rightarrow> nat" where
  "builtin_ctzl w = length (takeWhile (\<lambda>i. \<not> bit w i) [0..<64])"

text \<open>The loop over whole words, for \<open>n\<close> words from word \<open>i\<close>.\<close>

primrec first1_words :: "bit_array \<Rightarrow> nat \<Rightarrow> nat \<Rightarrow> nat option result" where
  "first1_words array 0 i = Inr None"
| "first1_words array (Suc n) i = rbind (word_at array i) (\<lambda>w.
     if w \<noteq> 0 then Inr (Some (i * 64 + builtin_ctzl w)) else first1_words array n (i + 1))"

definition first1_tail :: "bit_array \<Rightarrow> nat \<Rightarrow> nat \<Rightarrow> nat result" where
  "first1_tail array off1 end_bit =
    (let off2 = end_bit div 64; last = off2 * 64 in
     rbind (first1_words array (off2 - off1) off1) (\<lambda>r. case r of
       Some j \<Rightarrow> Inr j
     | None \<Rightarrow> if last \<noteq> end_bit
               then rbind (word_at array off2) (\<lambda>w. if w \<noteq> 0 then Inr (min (last + builtin_ctzl w) end_bit) else Inr end_bit)
               else Inr end_bit))"

definition bit_array_first1 :: "bit_array \<Rightarrow> nat \<Rightarrow> nat \<Rightarrow> nat result" where
  "bit_array_first1 array begin_bit end_bit =
    (let off1 = begin_bit div 64; first = off1 * 64 in
     if first \<noteq> begin_bit
     then rbind (word_at array off1) (\<lambda>w.
       let v = w AND NOT (push_bit (begin_bit - first) 1 - 1) in
       if v \<noteq> 0 then Inr (min (first + builtin_ctzl v) end_bit) else first1_tail array (off1 + 1) end_bit)
     else first1_tail array off1 end_bit)"

section \<open>Bits\<close>

text \<open>Bit \<open>i\<close> of an array.\<close>

definition abit :: "bit_array \<Rightarrow> nat \<Rightarrow> bool" where
  "abit array i = bit (array ! (i div 64)) (i mod 64)"

lemma bit_index: "i - i div 64 * 64 = i mod (64 :: nat)" "i div 64 * 64 \<le> (i :: nat)"
  by (simp_all add: minus_div_mult_eq_mod)

lemma abit_list_update:
  "off < length array \<Longrightarrow> abit (array[off := w]) j = (if j div 64 = off then bit w (j mod 64) else abit array j)"
  by (simp add: abit_def nth_list_update)

lemma div_mod_eq: "(i :: nat) div 64 = j div 64 \<Longrightarrow> i mod 64 = j mod 64 \<Longrightarrow> i = j"
  by (metis div_mult_mod_eq)

lemma bit_array_set_abit:
  assumes "i div 64 < length array"
  shows "\<exists>array'. bit_array_set array i = Inr array' \<and> length array' = length array \<and>
    (\<forall>j. j div 64 < length array \<longrightarrow> abit array' j = (j = i \<or> abit array j))"
  using assms
  by (auto simp: bit_array_set_def word_at_def bit_index abit_list_update bit_simps Let_def simp flip: abit_def dest: div_mod_eq)
    (simp_all add: abit_def)

lemma bit_array_unset_abit:
  assumes "i div 64 < length array"
  shows "\<exists>array'. bit_array_unset array i = Inr array' \<and> length array' = length array \<and>
    (\<forall>j. j div 64 < length array \<longrightarrow> abit array' j = (j \<noteq> i \<and> abit array j))"
  using assms
  by (auto simp: bit_array_unset_def word_at_def bit_index abit_list_update bit_simps Let_def simp flip: abit_def dest: div_mod_eq)
    (simp_all add: abit_def)

text \<open>\<^verbatim>\<open>(1 << n) - 1\<close> is the mask of the bits below \<open>n\<close>.\<close>

lemma bit_low_mask: "n < 64 \<Longrightarrow> bit (2 ^ n - 1 :: 64 word) j \<longleftrightarrow> j < n"
proof -
  assume "n < 64"
  moreover have "(2 ^ n - 1 :: 64 word) = mask n" by (simp add: mask_eq_decr_exp)
  ultimately show ?thesis by (auto simp: bit_mask_iff)
qed

lemma bit_array_clear_abit:
  assumes "nbit \<le> 64 * length array"
  shows "\<exists>array'. bit_array_clear array nbit = Inr array' \<and> length array' = length array \<and>
    (\<forall>j. j div 64 < length array \<longrightarrow> abit array' j = (nbit \<le> j \<and> abit array j))"
proof -
  define off where "off = nbit div 64"
  define array1 where "array1 = replicate off 0 @ drop off array"
  have off: "off \<le> length array" using assms by (simp add: off_def)
  have len: "length array1 = length array" using off by (simp add: array1_def)
  have a1: "abit array1 j = (off \<le> j div 64 \<and> abit array j)" if "j div 64 < length array" for j
    using that off by (simp add: abit_def array1_def nth_append)
  show ?thesis
  proof (cases "off * 64 = nbit")
    case True
    then have "off \<le> j div 64 \<longleftrightarrow> nbit \<le> j" for j by auto
    with True a1 len off show ?thesis by (auto simp: bit_array_clear_def Let_def off_def [symmetric] array1_def [symmetric])
  next
    case False
    have lt: "off < length array" using False off assms by (cases "off = length array") (auto simp: off_def)
    have m: "nbit - off * 64 = nbit mod 64" by (simp add: off_def bit_index)
    have "abit (array1[off := array1 ! off AND NOT (push_bit (nbit mod 64) 1 - 1)]) j = (nbit \<le> j \<and> abit array j)"
      if j: "j div 64 < length array" for j
    proof (cases "j div 64 = off")
      case True
      then have "nbit \<le> j \<longleftrightarrow> nbit mod 64 \<le> j mod 64" unfolding off_def
        by (metis add_le_cancel_left div_mult_mod_eq)
      with True j len lt a1 [OF j] show ?thesis
        by (auto simp: abit_list_update bit_simps bit_low_mask) (auto simp: abit_def)
    next
      case False
      moreover have "off < j div 64 \<Longrightarrow> nbit \<le> j" unfolding off_def by (metis div_le_mono linorder_not_le nat_le_linear)
      moreover have "nbit \<le> j \<Longrightarrow> off \<le> j div 64" unfolding off_def by (rule div_le_mono)
      ultimately show ?thesis using j len lt a1 [OF j] by (auto simp: abit_list_update)
    qed
    with False len lt show ?thesis
      by (auto simp: bit_array_clear_def Let_def off_def [symmetric] array1_def [symmetric] word_at_def m)
  qed
qed

text \<open>The lowest bit of a word.\<close>

lemma builtin_ctzl_least:
  assumes "w \<noteq> 0"
  shows "builtin_ctzl w < 64" "bit w (builtin_ctzl w)" "i < builtin_ctzl w \<Longrightarrow> \<not> bit w i"
proof -
  let ?t = "takeWhile (\<lambda>i. \<not> bit w i) [0..<64]"
  have "\<exists>i < 64. bit w i" using assms bit_word_eqI [of w 0] by auto
  then have "?t \<noteq> [0..<64]" by (metis atLeastLessThan_iff atLeastLessThan_upt le0 takeWhile_eq_all_conv)
  then have lt: "length ?t < length [0 :: nat..<64]"
    by (metis length_takeWhile_le order_le_imp_less_or_eq takeWhile_eq_take take_all order_refl)
  then show "builtin_ctzl w < 64" by (simp add: builtin_ctzl_def)
  show "bit w (builtin_ctzl w)" using nth_length_takeWhile [OF lt] lt by (simp add: builtin_ctzl_def)
  show "\<not> bit w i" if "i < builtin_ctzl w"
  proof -
    have "?t ! i \<in> set ?t" using that by (simp add: builtin_ctzl_def)
    moreover have "?t ! i = i" using that lt by (simp add: builtin_ctzl_def takeWhile_nth)
    ultimately show ?thesis using set_takeWhileD by metis
  qed
qed

section \<open>The first bit of a range\<close>

text \<open>\<open>r\<close> is the first bit of the array from \<open>lo\<close> on, or \<open>hi\<close> if there is none before it.\<close>

definition is_first1 :: "bit_array \<Rightarrow> nat \<Rightarrow> nat \<Rightarrow> nat \<Rightarrow> bool" where
  "is_first1 array lo hi r \<longleftrightarrow> lo \<le> r \<and> r \<le> hi \<and> (r < hi \<longrightarrow> abit array r) \<and> (\<forall>j. lo \<le> j \<and> j < r \<longrightarrow> \<not> abit array j)"

lemma is_first1_skip: "is_first1 array mid hi r \<Longrightarrow> lo \<le> mid \<Longrightarrow> (\<And>j. lo \<le> j \<Longrightarrow> j < mid \<Longrightarrow> \<not> abit array j) \<Longrightarrow> is_first1 array lo hi r"
  unfolding is_first1_def by (meson le_trans not_le)

lemma is_first1_unique: "is_first1 array lo hi r \<Longrightarrow> is_first1 array lo hi r' \<Longrightarrow> r = r'"
  unfolding is_first1_def by (metis linorder_neqE_nat order_less_le_trans)

text \<open>A word of the array, in which the bits below \<open>m\<close> are masked out, gives the first bit in it.\<close>

lemma word_first1:
  assumes "v = array ! off AND NOT (2 ^ m - 1)" and "v \<noteq> 0" and "m < 64" and "off * 64 + m \<le> hi"
  shows "is_first1 array (off * 64 + m) hi (min (off * 64 + builtin_ctzl v) hi)"
proof -
  note c = builtin_ctzl_least [OF assms(2)]
  have b: "bit v i \<longleftrightarrow> bit (array ! off) i \<and> m \<le> i" if "i < 64" for i
    using assms(3) that by (auto simp: assms(1) bit_simps bit_low_mask)
  have "m \<le> builtin_ctzl v" "abit array (off * 64 + builtin_ctzl v)"
    using b c(1,2) by (auto simp: abit_def)
  moreover have "\<not> abit array j" if "off * 64 + m \<le> j" "j < off * 64 + builtin_ctzl v" for j
  proof -
    have "j div 64 = off" using that c(1) by (intro div_nat_eqI) simp_all
    then have j: "j = off * 64 + j mod 64" using div_mult_mod_eq [of j 64] by simp
    then show ?thesis using c(3) [of "j mod 64"] b [of "j mod 64"] that \<open>j div 64 = off\<close> by (auto simp: abit_def)
  qed
  ultimately show ?thesis using assms(4) by (auto simp: is_first1_def min_def)
qed

lemma word_no_first1:
  assumes "array ! off AND NOT (2 ^ m - 1) = 0" and "m < 64" and "off * 64 + m \<le> j" and "j < off * 64 + 64"
  shows "\<not> abit array j"
proof -
  have d: "j div 64 = off" using assms(3,4) by (intro div_nat_eqI) simp_all
  then have j: "j = off * 64 + j mod 64" using div_mult_mod_eq [of j 64] by simp
  have "\<not> bit (array ! off AND NOT (2 ^ m - 1)) (j mod 64)" using assms(1) by simp
  then show ?thesis using j assms(2,3) by (simp add: abit_def d bit_simps bit_low_mask)
qed

lemmas word_first1_all = word_first1 [where m = 0, simplified] word_no_first1 [where m = 0, simplified]

lemma first1_words_first1:
  "off + n \<le> length array \<Longrightarrow> \<exists>r. first1_words array n off = Inr r \<and>
    (case r of Some j \<Rightarrow> is_first1 array (off * 64) ((off + n) * 64) j \<and> j < (off + n) * 64 | None \<Rightarrow> \<forall>j. off * 64 \<le> j \<and> j < (off + n) * 64 \<longrightarrow> \<not> abit array j)"
proof (induction n arbitrary: off)
  case (Suc n)
  have at: "word_at array off = Inr (array ! off)" using Suc.prems by (simp add: word_at_def)
  show ?case
  proof (cases "array ! off = 0")
    case False
    have "builtin_ctzl (array ! off) < 64" using builtin_ctzl_least [OF False] by simp
    then have "min (off * 64 + builtin_ctzl (array ! off)) ((off + Suc n) * 64) = off * 64 + builtin_ctzl (array ! off)"
      by simp
    then show ?thesis
      using word_first1_all(1) [of _ array off "(off + Suc n) * 64"] False at \<open>builtin_ctzl (array ! off) < 64\<close> by auto
  next
    case True
    then have none: "\<not> abit array j" if "off * 64 \<le> j" "j < (off + 1) * 64" for j
      using word_first1_all(2) [of array off j] that by simp
    obtain r where r: "first1_words array n (off + 1) = Inr r"
        "case r of Some j \<Rightarrow> is_first1 array ((off + 1) * 64) ((off + 1 + n) * 64) j \<and> j < (off + 1 + n) * 64
          | None \<Rightarrow> \<forall>j. (off + 1) * 64 \<le> j \<and> j < (off + 1 + n) * 64 \<longrightarrow> \<not> abit array j"
      using Suc.IH [of "off + 1"] Suc.prems by auto
    have "case r of Some j \<Rightarrow> is_first1 array (off * 64) ((off + Suc n) * 64) j \<and> j < (off + Suc n) * 64
          | None \<Rightarrow> \<forall>j. off * 64 \<le> j \<and> j < (off + Suc n) * 64 \<longrightarrow> \<not> abit array j"
    proof (cases r)
      case None
      then show ?thesis using r(2) none by (auto simp: not_le algebra_simps) (metis not_le)
    next
      case (Some j)
      then show ?thesis using r(2) is_first1_skip [where lo = "off * 64" and mid = "(off + 1) * 64"] none by simp
    qed
    then show ?thesis using r(1) True at by simp
  qed
qed auto

lemma first1_tail_first1:
  assumes "off1 * 64 \<le> hi" and "hi \<le> 64 * length array"
  shows "\<exists>r. first1_tail array off1 hi = Inr r \<and> is_first1 array (off1 * 64) hi r"
proof -
  define off2 where "off2 = hi div 64"
  have off: "off1 \<le> off2" "off1 + (off2 - off1) = off2" "off2 \<le> length array" "off2 * 64 \<le> hi" "hi < off2 * 64 + 64"
    using assms by (simp_all add: off2_def div_le_mono [of "off1 * 64" hi 64, simplified])
  obtain r where r: "first1_words array (off2 - off1) off1 = Inr r"
      "case r of Some j \<Rightarrow> is_first1 array (off1 * 64) (off2 * 64) j \<and> j < off2 * 64 | None \<Rightarrow> \<forall>j. off1 * 64 \<le> j \<and> j < off2 * 64 \<longrightarrow> \<not> abit array j"
    using first1_words_first1 [of off1 "off2 - off1" array] off(3) unfolding off(2) by blast
  show ?thesis
  proof (cases r)
    case (Some j)
    then have "is_first1 array (off1 * 64) hi j" using r(2) off(4) by (auto simp: is_first1_def)
    then show ?thesis using Some r(1) by (simp add: first1_tail_def Let_def off2_def [symmetric])
  next
    case None
    then have skip: "is_first1 array (off2 * 64) hi k \<Longrightarrow> is_first1 array (off1 * 64) hi k" for k
      using r(2) is_first1_skip [where lo = "off1 * 64" and mid = "off2 * 64"] off(1) by auto
    show ?thesis
    proof (cases "off2 * 64 = hi")
      case True
      then have "is_first1 array (off2 * 64) hi hi" by (auto simp: is_first1_def)
      then show ?thesis using None r(1) True skip by (simp add: first1_tail_def Let_def off2_def [symmetric])
    next
      case False
      then have "off2 < length array" using off assms(2) by (cases "off2 = length array") auto
      moreover have "is_first1 array (off2 * 64) hi (if array ! off2 \<noteq> 0 then min (off2 * 64 + builtin_ctzl (array ! off2)) hi else hi)"
        using word_first1_all(1) [of "array ! off2" array off2 hi] word_first1_all(2) [of array off2] off(4,5) 
        by (auto simp: is_first1_def)
      ultimately show ?thesis
        using None r(1) False skip by (auto simp: first1_tail_def Let_def off2_def [symmetric] word_at_def)
    qed
  qed
qed

text \<open>
  The search goes wrong when it starts inside the word in which the range ends, finds no bit from there to the end of that
  word, and there is a bit before the start: the last test looks at the whole word again.
\<close>

definition first1_wrong :: "bit_array \<Rightarrow> nat \<Rightarrow> nat \<Rightarrow> bool" where
  "first1_wrong array lo hi \<longleftrightarrow> lo mod 64 \<noteq> 0 \<and> lo div 64 = hi div 64 \<and>
    (\<exists>j. lo div 64 * 64 \<le> j \<and> j < lo \<and> abit array j) \<and> (\<forall>j. lo \<le> j \<and> j < lo div 64 * 64 + 64 \<longrightarrow> \<not> abit array j)"

lemma first1_tail_same_word:
  assumes "lo mod 64 \<noteq> 0" and "lo div 64 = hi div 64" and "lo \<le> hi" and "hi div 64 < length array"
    and none: "\<forall>j. lo \<le> j \<and> j < lo div 64 * 64 + 64 \<longrightarrow> \<not> abit array j"
  shows "\<exists>r. first1_tail array (lo div 64 + 1) hi = Inr r \<and>
    (if first1_wrong array lo hi then is_first1 array (lo div 64 * 64) lo r \<and> r < lo else is_first1 array lo hi r)"
proof (cases "array ! (hi div 64) = 0")
  case True
  then have "\<not> abit array j" if "j div 64 = hi div 64" for j using that by (simp add: abit_def)
  moreover have "j div 64 = hi div 64" if "lo div 64 * 64 \<le> j" "j < lo" for j
    using that assms(2) by (intro div_nat_eqI) auto
  ultimately have "\<not> first1_wrong array lo hi" by (auto simp: first1_wrong_def)
  moreover have "is_first1 array lo hi hi" using none assms(2,3) by (auto simp: is_first1_def)
  ultimately show ?thesis using True assms by (auto simp: first1_tail_def word_at_def Let_def)
next
  case False
  let ?c = "lo div 64 * 64 + builtin_ctzl (array ! (lo div 64))"
  note c = builtin_ctzl_least [OF False]
  have "?c mod 64 = builtin_ctzl (array ! (lo div 64))" "?c div 64 = lo div 64" using c(1) assms(2) by simp_all
  then have b: "abit array ?c" using c(2) assms(2) by (simp add: abit_def)
  then have lt: "?c < lo" using none c(1) assms(2) by (metis add_less_cancel_left not_le)
  then have w: "first1_wrong array lo hi" using b none assms(1,2) by (auto simp: first1_wrong_def)
  have "is_first1 array (lo div 64 * 64) lo ?c"
    using word_first1_all(1) [of "array ! (lo div 64)" array "lo div 64" lo] False lt assms(2) by simp
  moreover have "hi div 64 * 64 \<noteq> hi" using assms(1-3) by (metis assms(2) bit_index(2) le_antisym mod_mult_self2_is_0)
  ultimately show ?thesis using False lt w assms by (auto simp: first1_tail_def word_at_def Let_def)
qed

lemma bit_array_first1_general:
  assumes "lo \<le> hi" and "hi \<le> 64 * length array"
  shows "\<exists>r. bit_array_first1 array lo hi = Inr r \<and>
    (if first1_wrong array lo hi then is_first1 array (lo div 64 * 64) lo r \<and> r < lo else is_first1 array lo hi r)"
proof (cases "lo mod 64 = 0")
  case True
  then have "lo div 64 * 64 = lo" by auto
  then show ?thesis using first1_tail_first1 [of "lo div 64" hi array] assms True by (auto simp: bit_array_first1_def Let_def first1_wrong_def)
next
  case False
  let ?m = "lo mod 64"
  let ?v = "array ! (lo div 64) AND NOT (2 ^ ?m - 1)"
  have ne: "lo div 64 * 64 \<noteq> lo" using False by (metis mod_mult_self2_is_0)
  have in_range: "lo div 64 < length array" using assms ne by (cases "lo div 64 = length array") auto
  have m: "?m < 64" "lo div 64 * 64 + ?m = lo" by simp_all
  show ?thesis
  proof (cases "?v = 0")
    case False
    then have f: "is_first1 array lo hi (min (lo div 64 * 64 + builtin_ctzl ?v) hi)"
      using word_first1 [OF refl False m(1), of hi] m(2) assms(1) by simp
    have "is_first1 array lo (lo div 64 * 64 + 64) (lo div 64 * 64 + builtin_ctzl ?v)" "builtin_ctzl ?v < 64"
      using word_first1 [OF refl False m(1), of "lo div 64 * 64 + 64"] m builtin_ctzl_least(1) [OF False] by simp_all
    then have "\<not> first1_wrong array lo hi" by (auto simp: first1_wrong_def is_first1_def)
    then show ?thesis using f False ne in_range by (auto simp: bit_array_first1_def Let_def word_at_def bit_index)
  next
    case True
    have none: "\<forall>j. lo \<le> j \<and> j < lo div 64 * 64 + 64 \<longrightarrow> \<not> abit array j"
      using word_no_first1 [OF True m(1)] m(2) by simp
    have start: "bit_array_first1 array lo hi = first1_tail array (lo div 64 + 1) hi"
      using True ne in_range by (simp add: bit_array_first1_def Let_def word_at_def bit_index)
    show ?thesis
    proof (cases "lo div 64 = hi div 64")
      case True
      then show ?thesis using first1_tail_same_word [OF \<open>lo mod 64 \<noteq> 0\<close> True assms(1) _ none] in_range start by simp
    next
      case False
      then have le: "(lo div 64 + 1) * 64 \<le> hi" using div_le_mono [OF assms(1), of 64]
          mult_le_mono1 [of "lo div 64 + 1" "hi div 64" 64] bit_index(2) [of hi] by linarith
      obtain r where "first1_tail array (lo div 64 + 1) hi = Inr r" "is_first1 array ((lo div 64 + 1) * 64) hi r"
        using first1_tail_first1 [OF le assms(2)] by blast
      moreover have "lo \<le> (lo div 64 + 1) * 64" by presburger
      ultimately show ?thesis
        using start False none is_first1_skip [of array "(lo div 64 + 1) * 64" hi r lo] by (simp add: first1_wrong_def)
    qed
  qed
qed

section \<open>Properties\<close>

text \<open>
  C16. Over every range inside the array, \<^verbatim>\<open>bit_array_first1\<close> returns the position of the first bit
  that is set, or the end of the range if there is none, except when the range starts inside the word in which it ends and that word
  has bits before the start and none after: then it returns a position before the start.
\<close>

theorem bit_array_first1_spec:
  assumes "lo \<le> hi" and "hi \<le> 64 * length array"
  shows "\<exists>r. bit_array_first1 array lo hi = Inr r \<and>
    (if first1_wrong array lo hi then abit array r \<and> r < lo else is_first1 array lo hi r)"
  using bit_array_first1_general [OF assms] unfolding is_first1_def by (auto split: if_splits)

theorem bit_array_first1_spec_witness:
  "bit_array_first1 [8] 5 8 = Inr 3 \<and> first1_wrong [8] 5 8 \<and>
    (\<exists>r. bit_array_first1 [8] 5 8 = Inr r \<and> abit [8] r \<and> r < 5) \<and> (\<exists>r. bit_array_first1 [8, 2] 5 100 = Inr r \<and> is_first1 [8, 2] 5 100 r)"
proof -
  have c: "builtin_ctzl 8 = 3" by (simp add: builtin_ctzl_def upt_rec bit_numeral_rec)
  have "(8 AND NOT (2 ^ 5 - 1) :: 64 word) = 0" by simp
  then have "bit_array_first1 [8] 5 8 = Inr 3" by (simp add: bit_array_first1_def first1_tail_def word_at_def c)
  moreover have w: "first1_wrong [8] 5 8"
  proof -
    have b: "bit (8 :: 64 word) j \<longleftrightarrow> j = 3" for j using bit_exp_iff [of 3 j, where ?'a = "64 word"] by auto
    have "abit [8] j \<longleftrightarrow> j = 3" if "j < 64" for j using that b [of j] by (simp add: abit_def)
    then show ?thesis unfolding first1_wrong_def by (intro conjI exI [of _ 3]) auto
  qed
  moreover have "\<not> first1_wrong [8, 2] 5 100" by (simp add: first1_wrong_def)
  ultimately show ?thesis
    using bit_array_first1_spec [of 5 8 "[8]"] bit_array_first1_spec [of 5 100 "[8, 2]"] by simp
qed

end
