(* ===== verification/Object_Pool.thy ===== *)
theory Object_Pool
  imports Cpp_Prelude
begin

text \<open>
  The pool of \<^verbatim>\<open>libsh/butil/single_threaded_pool.h\<close>, from which the hash maps take their nodes. A node is
  named by its block, counted from the first one allocated, and its index in \<^verbatim>\<open>nodes\<close>. The invariant \<open>pool_inv\<close>
  says that the nodes of the blocks are either free or in use, and that no node is both.
\<close>

section \<open>Definitions\<close>

type_synonym pool_node = "nat \<times> nat"

text \<open>The list \<^verbatim>\<open>_free_nodes\<close>, and \<^verbatim>\<open>nalloc\<close> of the blocks from \<^verbatim>\<open>_blocks\<close> on, the newest first.\<close>

record pool =
  free_nodes :: "pool_node list"
  pool_blocks :: "nat list"

definition sizeof_Node :: "nat \<Rightarrow> nat" where
  "sizeof_Node item_size = (max 8 item_size + 7) div 8 * 8"

definition INUSE_SIZE :: "nat \<Rightarrow> nat" where
  "INUSE_SIZE block_size = (block_size + 2 ^ 64 - 8 - 8) mod 2 ^ 64"

definition NITEM :: "nat \<Rightarrow> nat \<Rightarrow> nat \<Rightarrow> nat" where
  "NITEM item_size block_size min_nitem =
    (if sizeof_Node item_size \<le> INUSE_SIZE block_size then INUSE_SIZE block_size div sizeof_Node item_size else min_nitem)"

definition BLOCK_SIZE :: "nat \<Rightarrow> nat \<Rightarrow> nat \<Rightarrow> nat" where
  "BLOCK_SIZE item_size block_size min_nitem = 8 + 8 + NITEM item_size block_size min_nitem * sizeof_Node item_size"

definition pool_new :: pool where
  "pool_new = \<lparr>free_nodes = [], pool_blocks = []\<rparr>"

definition pool_swap :: "pool \<Rightarrow> pool \<Rightarrow> pool \<times> pool" where
  "pool_swap p q = (p\<lparr>free_nodes := free_nodes q, pool_blocks := pool_blocks q\<rparr>,
                    q\<lparr>free_nodes := free_nodes p, pool_blocks := pool_blocks p\<rparr>)"

text \<open>\<open>alloc_ok\<close> says whether the allocation of a block succeeds, \<open>nitem\<close> is the number of nodes of a block.\<close>

definition pool_get :: "bool \<Rightarrow> nat \<Rightarrow> pool \<Rightarrow> pool_node option \<times> pool" where
  "pool_get alloc_ok nitem p =
    (case free_nodes p of
      n # ns \<Rightarrow> (Some n, p\<lparr>free_nodes := ns\<rparr>)
    | [] \<Rightarrow>
      let grown = (if pool_blocks p = [] \<or> hd (pool_blocks p) \<ge> nitem
                   then (if alloc_ok then Some (0 # pool_blocks p) else None) else Some (pool_blocks p)) in
      (case grown of
        None \<Rightarrow> (None, p)
      | Some bs \<Rightarrow> (Some (length bs - 1, hd bs), p\<lparr>pool_blocks := (hd bs + 1) # tl bs\<rparr>)))"

definition pool_back :: "pool_node option \<Rightarrow> pool \<Rightarrow> pool" where
  "pool_back n p = (case n of None \<Rightarrow> p | Some node \<Rightarrow> p\<lparr>free_nodes := node # free_nodes p\<rparr>)"

text \<open>\<^verbatim>\<open>reset\<close> returns the blocks it frees, in order.\<close>

primrec reset_loop :: "nat list \<Rightarrow> nat list" where
  "reset_loop [] = []"
| "reset_loop (b # bs) = length bs # reset_loop bs"

definition pool_reset :: "pool \<Rightarrow> nat list \<times> pool" where
  "pool_reset p = (reset_loop (pool_blocks p), p\<lparr>free_nodes := [], pool_blocks := []\<rparr>)"

definition count_allocated :: "pool \<Rightarrow> nat" where
  "count_allocated p = fold (\<lambda>nalloc n. n + nalloc) (pool_blocks p) 0"

definition count_free :: "pool \<Rightarrow> nat" where
  "count_free p = fold (\<lambda>_ n. n + 1) (free_nodes p) 0"

definition count_active :: "pool \<Rightarrow> nat" where
  "count_active p = count_allocated p - count_free p"

section \<open>The invariant\<close>

text \<open>The nodes of the blocks below their \<^verbatim>\<open>nalloc\<close>.\<close>

definition pool_nodes :: "nat list \<Rightarrow> pool_node set" where
  "pool_nodes bs = {(b, i). b < length bs \<and> i < rev bs ! b}"

definition pool_inv :: "pool_node set \<Rightarrow> pool \<Rightarrow> bool" where
  "pool_inv used p \<longleftrightarrow> distinct (free_nodes p) \<and> set (free_nodes p) \<inter> used = {} \<and> set (free_nodes p) \<union> used = pool_nodes (pool_blocks p)"

lemma pool_nodes_Nil [simp]: "pool_nodes [] = {}"
  by (simp add: pool_nodes_def)

lemma pool_nodes_Cons: "pool_nodes (n # bs) = pool_nodes bs \<union> {(length bs, i) | i. i < n}"
  by (auto simp: pool_nodes_def nth_append less_Suc_eq)

lemma pool_nodes_below: "(b, i) \<in> pool_nodes bs \<Longrightarrow> b < length bs"
  by (simp add: pool_nodes_def)

lemma card_pool_nodes: "finite (pool_nodes bs) \<and> card (pool_nodes bs) = sum_list bs"
proof (induction bs)
  case (Cons n bs)
  have "{(length bs, i) | i. i < n} = Pair (length bs) ` {..<n}" by auto
  then have "finite {(length bs, i) | i. i < n}" "card {(length bs, i) | i. i < n} = n"
    by (simp_all add: card_image inj_on_def)
  moreover have "pool_nodes bs \<inter> {(length bs, i) | i. i < n} = {}" using pool_nodes_below by blast
  ultimately show ?case using Cons.IH by (simp add: pool_nodes_Cons card_Un_disjoint)
qed simp

lemma pool_new_inv [simp]: "pool_inv {} pool_new"
  by (simp add: pool_inv_def pool_new_def)

text \<open>A node that \<^verbatim>\<open>get\<close> hands out was not in use; \<^verbatim>\<open>back\<close> makes it free again.\<close>

lemma pool_get_inv:
  assumes "pool_inv used p" and "alloc_ok" and "0 < nitem"
  shows "\<exists>n p'. pool_get alloc_ok nitem p = (Some n, p') \<and> n \<notin> used \<and> pool_inv (insert n used) p'"
proof (cases "free_nodes p")
  case (Cons n ns)
  then show ?thesis using assms(1) by (auto simp: pool_get_def pool_inv_def)
next
  case Nil
  define bs where "bs = (if pool_blocks p = [] \<or> hd (pool_blocks p) \<ge> nitem then 0 # pool_blocks p else pool_blocks p)"
  have used: "used = pool_nodes (pool_blocks p)" using assms(1) Nil by (simp add: pool_inv_def)
  obtain k cs where bs: "bs = k # cs" by (cases bs) (auto simp: bs_def split: if_splits)
  have same: "pool_nodes bs = pool_nodes (pool_blocks p)" by (auto simp: bs_def pool_nodes_Cons)
  have get: "pool_get alloc_ok nitem p = (Some (length cs, k), p\<lparr>pool_blocks := (k + 1) # cs\<rparr>)"
    using Nil assms(2) bs by (auto simp: pool_get_def bs_def Let_def split: if_splits)
  have "pool_nodes ((k + 1) # cs) = insert (length cs, k) (pool_nodes bs)" by (auto simp: pool_nodes_Cons bs less_Suc_eq)
  moreover have "(length cs, k) \<notin> pool_nodes bs" using pool_nodes_below [of "length cs" k cs] by (auto simp: pool_nodes_Cons bs)
  ultimately show ?thesis using get used same Nil by (simp add: pool_inv_def)
qed

lemma pool_back_inv: "pool_inv used p \<Longrightarrow> n \<in> used \<Longrightarrow> pool_inv (used - {n}) (pool_back (Some n) p)"
  by (auto simp: pool_inv_def pool_back_def)

lemma pool_reset_inv: "pool_inv {} (snd (pool_reset p))"
  by (simp add: pool_reset_def pool_inv_def)

lemma pool_active: "pool_inv used p \<Longrightarrow> count_active p = card used"
proof -
  assume i: "pool_inv used p"
  have a: "count_allocated p = sum_list (pool_blocks p)"
    by (simp add: count_allocated_def fold_plus_sum_list_rev add.commute)
  have "fold (\<lambda>_ n. n + 1) xs k = k + length xs" for xs :: "pool_node list" and k by (induction xs arbitrary: k) simp_all
  then have f: "count_free p = length (free_nodes p)" by (simp add: count_free_def)
  have "finite used" using i card_pool_nodes by (metis finite_Un pool_inv_def)
  then have "card (pool_nodes (pool_blocks p)) = length (free_nodes p) + card used"
    using i by (metis List.finite_set card_Un_disjoint distinct_card pool_inv_def)
  then show ?thesis using a f card_pool_nodes by (simp add: count_active_def)
qed

end
