(* ===== verification/Flat_Map.thy ===== *)
theory Flat_Map
  imports Bit_Array Object_Pool
begin

text \<open>
  The hash map of \<^verbatim>\<open>libsh/butil/containers/flat_map.h\<close> and \<^verbatim>\<open>flat_map_inl.h\<close>: an array of buckets whose
  first node lies in the array and whose further nodes come from a pool, doubled when it is too crowded.
  The template arguments \<^verbatim>\<open>_Sparse\<close> and \<^verbatim>\<open>_Multi\<close>, the hash function, \<^verbatim>\<open>sizeof(Bucket)\<close>, \<^verbatim>\<open>T()\<close> and the outcome of
  allocations are in a record; keys are compared with \<^verbatim>\<open>DefaultEqualTo\<close>. \<^verbatim>\<open>size_t\<close> is a natural number;
  the products and sums that can pass \<open>2\<^sup>64\<close> are wrapped, and \<^verbatim>\<open>_size\<close>, which counts objects in memory, does
  not reach it.
\<close>

section \<open>Rounding and hashing\<close>

definition find_power2 :: "64 word \<Rightarrow> 64 word" where
  "find_power2 b =
    (let b = b - 1;
         b = b OR drop_bit 1 b;
         b = b OR drop_bit 2 b;
         b = b OR drop_bit 4 b;
         b = b OR drop_bit 8 b;
         b = b OR drop_bit 16 b;
         b = b OR drop_bit 32 b
     in b + 1)"

definition flatmap_round :: "nat \<Rightarrow> nat" where
  "flatmap_round nbucket = (if nbucket \<le> 8 then 8 else unat (find_power2 (of_nat nbucket)))"

definition flatmap_mod :: "64 word \<Rightarrow> nat \<Rightarrow> nat" where
  "flatmap_mod hash_code nbucket = unat (hash_code AND (of_nat nbucket - 1))"

definition is_too_crowded :: "nat \<Rightarrow> nat \<Rightarrow> nat \<Rightarrow> bool" where
  "is_too_crowded nelem nbucket load_factor \<longleftrightarrow> nelem * 100 mod 2 ^ 64 \<ge> nbucket * load_factor mod 2 ^ 64"

text \<open>\<^verbatim>\<open>DefaultHasher<std::string>\<close> on a string and on a C string, which ends before its first null character; \<^verbatim>\<open>char\<close> is signed.\<close>

definition DefaultHasher_string :: "8 word list \<Rightarrow> 64 word" where
  "DefaultHasher_string s = fold (\<lambda>c result. result * 101 + signed c) s 0"

fun DefaultHasher_cstr :: "8 word list \<Rightarrow> 64 word \<Rightarrow> 64 word result" where
  "DefaultHasher_cstr [] result = Inl Out_of_bounds"
| "DefaultHasher_cstr (c # s) result = (if c = 0 then Inr result else DefaultHasher_cstr s (result * 101 + signed c))"

section \<open>The map\<close>

record ('k, 'v) map_params =
  mp_sparse :: bool
  mp_multi :: bool
  mp_hash :: "'k \<Rightarrow> 64 word"
  mp_default :: 'v
  mp_default_key :: 'k
  mp_bucket_size :: nat
  mp_trivial :: bool
  mp_malloc_ok :: "nat \<Rightarrow> bool"
  mp_garbage :: "nat \<Rightarrow> 64 word"

text \<open>
  A bucket with the invalid \<^verbatim>\<open>next\<close>, or with an element (\<open>None\<close> when none has been constructed in it) and the
  nodes that follow from \<^verbatim>\<open>next\<close> on.
\<close>

datatype ('k, 'v) Bucket = Invalid | Valid "('k \<times> 'v) option" "(pool_node \<times> 'k \<times> 'v) list"

record ('k, 'v) FlatMap =
  fm_size :: nat
  fm_nbucket :: nat
  fm_buckets :: "('k, 'v) Bucket list option"
  fm_thumbnail :: "bit_array option"
  fm_load_factor :: nat
  fm_pool :: pool

definition FlatMap_new :: "('k, 'v) FlatMap" where
  "FlatMap_new = \<lparr>fm_size = 0, fm_nbucket = 0, fm_buckets = None, fm_thumbnail = None, fm_load_factor = 0, fm_pool = pool_new\<rparr>"

definition FlatMap_initialized :: "('k, 'v) FlatMap \<Rightarrow> bool" where
  "FlatMap_initialized m \<longleftrightarrow> fm_buckets m \<noteq> None"

fun is_valid :: "('k, 'v) Bucket \<Rightarrow> bool" where
  "is_valid Invalid = False"
| "is_valid (Valid e nodes) = True"

definition bucket_at :: "('k, 'v) FlatMap \<Rightarrow> nat \<Rightarrow> ('k, 'v) Bucket result" where
  "bucket_at m i = (case fm_buckets m of
     None \<Rightarrow> Inl Null_pointer
   | Some bs \<Rightarrow> if i < length bs then Inr (bs ! i) else Inl Out_of_bounds)"

definition set_bucket :: "nat \<Rightarrow> ('k, 'v) Bucket \<Rightarrow> ('k, 'v) FlatMap \<Rightarrow> ('k, 'v) FlatMap" where
  "set_bucket i b m = m\<lparr>fm_buckets := map_option (\<lambda>bs. bs[i := b]) (fm_buckets m)\<rparr>"

text \<open>\<^verbatim>\<open>_pool.get()\<close> and \<^verbatim>\<open>_pool.back(p)\<close>: the pool has blocks of 1024 bytes, or of 16 nodes when nodes are large.\<close>

definition map_pool_get :: "('k, 'v) map_params \<Rightarrow> ('k, 'v) FlatMap \<Rightarrow> (pool_node \<times> ('k, 'v) FlatMap) result" where
  "map_pool_get cfg m =
    (case pool_get (mp_malloc_ok cfg (BLOCK_SIZE (mp_bucket_size cfg) 1024 16)) (NITEM (mp_bucket_size cfg) 1024 16) (fm_pool m) of
      (None, p) \<Rightarrow> Inl Null_pointer
    | (Some n, p) \<Rightarrow> Inr (n, m\<lparr>fm_pool := p\<rparr>))"

definition map_pool_back :: "pool_node \<Rightarrow> ('k, 'v) FlatMap \<Rightarrow> ('k, 'v) FlatMap" where
  "map_pool_back n m = m\<lparr>fm_pool := pool_back (Some n) (fm_pool m)\<rparr>"

definition thumbnail_op :: "('k, 'v) map_params \<Rightarrow> (bit_array \<Rightarrow> bit_array result) \<Rightarrow> ('k, 'v) FlatMap \<Rightarrow> ('k, 'v) FlatMap result" where
  "thumbnail_op cfg f m =
    (if mp_sparse cfg
     then rbind (of_option Null_pointer (fm_thumbnail m)) (\<lambda>t. rbind (f t) (\<lambda>t1. Inr (m\<lparr>fm_thumbnail := Some t1\<rparr>)))
     else Inr m)"

section \<open>Allocation\<close>

text \<open>
  The loop that rounds the number of buckets. Rounding a power of two does not change it, so the loop ends in its first round or never.
\<close>

partial_function (option) round_loop :: "nat \<Rightarrow> nat \<Rightarrow> nat \<Rightarrow> nat option" where
  [code]: "round_loop nelem nbucket load_factor =
    (if is_too_crowded nelem (flatmap_round nbucket) load_factor
     then round_loop nelem (flatmap_round nbucket) load_factor else Some (flatmap_round nbucket))"

definition init_buckets_and_thumbnail ::
    "('k, 'v) map_params \<Rightarrow> nat \<Rightarrow> bit_array option \<Rightarrow> nat \<Rightarrow> (('k, 'v) Bucket list \<times> bit_array option) result" where
  "init_buckets_and_thumbnail cfg slots thumbnail nbucket =
    (if slots < nbucket + 1 then Inl Out_of_bounds
     else rbind (if mp_sparse cfg
                 then rbind (of_option Null_pointer thumbnail) (\<lambda>t. rbind (bit_array_clear t nbucket) (\<lambda>t1. Inr (Some t1)))
                 else Inr thumbnail) (\<lambda>t.
       Inr (replicate nbucket Invalid @ [Valid None []], t)))"

definition new_buckets_and_thumbnail ::
    "('k, 'v) map_params \<Rightarrow> nat \<Rightarrow> nat \<Rightarrow> nat \<Rightarrow> (('k, 'v) Bucket list option \<times> bit_array option \<times> nat) result" where
  "new_buckets_and_thumbnail cfg load_factor nelem new_nbucket =
    rbind (of_option Diverges (round_loop nelem new_nbucket load_factor)) (\<lambda>n.
      let bytes = mp_bucket_size cfg * (n + 1) mod 2 ^ 64 in
      if \<not> mp_malloc_ok cfg bytes then Inr (None, None, 0)
      else
        let thumbnail = (if mp_sparse cfg then bit_array_malloc (mp_malloc_ok cfg) (mp_garbage cfg) n else None) in
        if mp_sparse cfg \<and> thumbnail = None then Inr (None, None, 0)
        else rbind (init_buckets_and_thumbnail cfg (bytes div mp_bucket_size cfg) thumbnail n) (\<lambda>(bs, t). Inr (Some bs, t, n)))"

definition FlatMap_init :: "('k, 'v) map_params \<Rightarrow> nat \<Rightarrow> nat \<Rightarrow> ('k, 'v) FlatMap \<Rightarrow> (int \<times> ('k, 'v) FlatMap) result" where
  "FlatMap_init cfg nbucket load_factor m =
    (if FlatMap_initialized m then Inr (-1, m)
     else if nbucket = 0 then Inr (-1, m)
     else if load_factor < 10 \<or> load_factor > 100 then Inr (-1, m)
     else
       let m1 = m\<lparr>fm_size := 0, fm_load_factor := load_factor\<rparr> in
       rbind (new_buckets_and_thumbnail cfg load_factor (fm_size m1) nbucket) (\<lambda>(bs, t, n).
         if n = 0 \<or> bs = None \<or> (mp_sparse cfg \<and> t = None) then Inr (-1, m1)
         else
           rbind (thumbnail_op cfg (\<lambda>t. bit_array_clear t n)
                   (m1\<lparr>fm_nbucket := n, fm_buckets := bs, fm_thumbnail := (if mp_sparse cfg then t else fm_thumbnail m1)\<rparr>)) (\<lambda>m2.
           Inr (0, m2))))"

section \<open>Removing everything\<close>

primrec back_nodes :: "(pool_node \<times> 'k \<times> 'v) list \<Rightarrow> pool \<Rightarrow> pool" where
  "back_nodes [] p = p"
| "back_nodes (n # ns) p = back_nodes ns (pool_back (Some (fst n)) p)"

fun clear_loop :: "nat \<Rightarrow> ('k, 'v) Bucket list \<Rightarrow> pool \<Rightarrow> (('k, 'v) Bucket list \<times> pool) result" where
  "clear_loop 0 bs p = Inr (bs, p)"
| "clear_loop (Suc n) [] p = Inl Out_of_bounds"
| "clear_loop (Suc n) (Invalid # bs) p = rbind (clear_loop n bs p) (\<lambda>(bs1, p1). Inr (Invalid # bs1, p1))"
| "clear_loop (Suc n) (Valid None nodes # bs) p = Inl Indeterminate"
| "clear_loop (Suc n) (Valid (Some e) nodes # bs) p =
     rbind (clear_loop n bs (back_nodes nodes p)) (\<lambda>(bs1, p1). Inr (Invalid # bs1, p1))"

definition FlatMap_clear :: "('k, 'v) FlatMap \<Rightarrow> ('k, 'v) FlatMap result" where
  "FlatMap_clear m =
    (if fm_size m = 0 then Inr m
     else
       rbind (case fm_buckets m of
           None \<Rightarrow> Inr (m\<lparr>fm_size := 0\<rparr>)
         | Some bs \<Rightarrow> rbind (clear_loop (fm_nbucket m) bs (fm_pool m)) (\<lambda>(bs1, p1).
             Inr (m\<lparr>fm_size := 0, fm_buckets := Some bs1, fm_pool := p1\<rparr>))) (\<lambda>m1.
       case fm_thumbnail m1 of
         None \<Rightarrow> Inr m1
       | Some t \<Rightarrow> rbind (bit_array_clear t (fm_nbucket m1)) (\<lambda>t1. Inr (m1\<lparr>fm_thumbnail := Some t1\<rparr>))))"

definition FlatMap_clear_and_reset_pool :: "('k, 'v) FlatMap \<Rightarrow> ('k, 'v) FlatMap result" where
  "FlatMap_clear_and_reset_pool m = rbind (FlatMap_clear m) (\<lambda>m1. Inr (m1\<lparr>fm_pool := snd (pool_reset (fm_pool m1))\<rparr>))"

text \<open>The destructor, with that of the pool.\<close>

definition FlatMap_destroy :: "('k, 'v) FlatMap \<Rightarrow> ('k, 'v) FlatMap result" where
  "FlatMap_destroy m = rbind (FlatMap_clear m) (\<lambda>m1.
     Inr (m1\<lparr>fm_buckets := None, fm_thumbnail := None, fm_nbucket := 0, fm_load_factor := 0, fm_pool := snd (pool_reset (fm_pool m1))\<rparr>))"

section \<open>References to elements\<close>

text \<open>A reference names a bucket and a node of it: 0 is the node in the array, \<open>j + 1\<close> the node \<open>j\<close> of the list after it.\<close>

type_synonym node_ref = "nat \<times> nat"

definition node_of :: "('k, 'v) Bucket \<Rightarrow> nat \<Rightarrow> ('k \<times> 'v) result" where
  "node_of b j = (case b of
     Invalid \<Rightarrow> Inl Indeterminate
   | Valid e nodes \<Rightarrow> (case j of
       0 \<Rightarrow> of_option Indeterminate e
     | Suc i \<Rightarrow> if i < length nodes then Inr (snd (nodes ! i)) else Inl Null_pointer))"

definition element_at :: "('k, 'v) FlatMap \<Rightarrow> node_ref \<Rightarrow> ('k \<times> 'v) result" where
  "element_at m r = rbind (bucket_at m (fst r)) (\<lambda>b. node_of b (snd r))"

definition put_value :: "'v \<Rightarrow> nat \<Rightarrow> ('k, 'v) Bucket \<Rightarrow> ('k, 'v) Bucket" where
  "put_value v j b = (case b of
     Invalid \<Rightarrow> Invalid
   | Valid e nodes \<Rightarrow> (case j of
       0 \<Rightarrow> Valid (map_option (\<lambda>(k, _). (k, v)) e) nodes
     | Suc i \<Rightarrow> Valid e (nodes[i := (fst (nodes ! i), fst (snd (nodes ! i)), v)])))"

text \<open>Assignment through the reference to the value of an element.\<close>

definition assign_value :: "node_ref \<Rightarrow> 'v \<Rightarrow> ('k, 'v) FlatMap \<Rightarrow> ('k, 'v) FlatMap result" where
  "assign_value r v m = rbind (element_at m r) (\<lambda>_. rbind (bucket_at m (fst r)) (\<lambda>b.
     Inr (set_bucket (fst r) (put_value v (snd r) b) m)))"

section \<open>Iterators\<close>

text \<open>An iterator is \<open>None\<close> for a map that is not initialised; else it has a bucket and a node in it.\<close>

type_synonym map_iterator = "node_ref option"

function next_valid :: "('k, 'v) Bucket list \<Rightarrow> nat \<Rightarrow> nat result" where
  "next_valid bs entry =
    (if entry < length bs then (if is_valid (bs ! entry) then Inr entry else next_valid bs (entry + 1)) else Inl Out_of_bounds)"
  by pat_completeness auto
termination by (relation "measure (\<lambda>(bs, entry). length bs - entry)") auto

declare next_valid.simps [simp del]

definition sparse_next_valid :: "('k, 'v) FlatMap \<Rightarrow> nat \<Rightarrow> nat result" where
  "sparse_next_valid m pos = rbind (bucket_at m pos) (\<lambda>b.
     if \<not> is_valid b
     then rbind (of_option Null_pointer (fm_thumbnail m)) (\<lambda>t. bit_array_first1 t (pos + 1) (fm_nbucket m))
     else Inr pos)"

definition find_and_set_valid_node :: "('k, 'v) map_params \<Rightarrow> ('k, 'v) FlatMap \<Rightarrow> nat \<Rightarrow> nat result" where
  "find_and_set_valid_node cfg m entry =
    (if mp_sparse cfg then sparse_next_valid m entry
     else rbind (of_option Null_pointer (fm_buckets m)) (\<lambda>bs. next_valid bs entry))"

definition iterator_at :: "('k, 'v) map_params \<Rightarrow> ('k, 'v) FlatMap \<Rightarrow> nat \<Rightarrow> map_iterator result" where
  "iterator_at cfg m pos =
    (if FlatMap_initialized m then rbind (find_and_set_valid_node cfg m pos) (\<lambda>entry. Inr (Some (entry, 0))) else Inr None)"

definition FlatMap_begin :: "('k, 'v) map_params \<Rightarrow> ('k, 'v) FlatMap \<Rightarrow> map_iterator result" where
  "FlatMap_begin cfg m = iterator_at cfg m 0"

definition FlatMap_end :: "('k, 'v) map_params \<Rightarrow> ('k, 'v) FlatMap \<Rightarrow> map_iterator result" where
  "FlatMap_end cfg m = iterator_at cfg m (fm_nbucket m)"

fun chain_nodes :: "('k, 'v) Bucket \<Rightarrow> (pool_node \<times> 'k \<times> 'v) list" where
  "chain_nodes Invalid = []"
| "chain_nodes (Valid e nodes) = nodes"

definition iterator_next :: "('k, 'v) map_params \<Rightarrow> ('k, 'v) FlatMap \<Rightarrow> map_iterator \<Rightarrow> map_iterator result" where
  "iterator_next cfg m it = rbind (of_option Null_pointer it) (\<lambda>(entry, j). rbind (bucket_at m entry) (\<lambda>b.
     if j < length (chain_nodes b) then Inr (Some (entry, j + 1))
     else rbind (find_and_set_valid_node cfg m (entry + 1)) (\<lambda>e. Inr (Some (e, 0)))))"

definition iterator_deref :: "('k, 'v) FlatMap \<Rightarrow> map_iterator \<Rightarrow> ('k \<times> 'v) result" where
  "iterator_deref m it = rbind (of_option Null_pointer it) (element_at m)"

text \<open>
  \<^verbatim>\<open>for (it = begin(); it != end(); ++it) body\<close>, for at most \<open>fuel\<close> elements. A map that is not
  changed by the body has \<open>node_count\<close> elements, so a loop that sees more of them has come back to an
  iterator it had before, and does not end.
\<close>

primrec map_for_from ::
    "('k, 'v) map_params \<Rightarrow> ('k, 'v) FlatMap \<Rightarrow> ('k \<times> 'v \<Rightarrow> 's \<Rightarrow> 's result) \<Rightarrow> nat \<Rightarrow> map_iterator \<Rightarrow> 's \<Rightarrow> 's result" where
  "map_for_from cfg m body 0 it s = rbind (FlatMap_end cfg m) (\<lambda>e. if it = e then Inr s else Inl Diverges)"
| "map_for_from cfg m body (Suc fuel) it s = rbind (FlatMap_end cfg m) (\<lambda>e.
     if it = e then Inr s
     else rbind (iterator_deref m it) (\<lambda>x. rbind (body x s) (\<lambda>s1. rbind (iterator_next cfg m it) (\<lambda>it1.
       map_for_from cfg m body fuel it1 s1))))"

definition map_for :: "('k, 'v) map_params \<Rightarrow> nat \<Rightarrow> ('k, 'v) FlatMap \<Rightarrow> ('k \<times> 'v \<Rightarrow> 's \<Rightarrow> 's result) \<Rightarrow> 's \<Rightarrow> 's result" where
  "map_for cfg fuel m body s = rbind (FlatMap_begin cfg m) (\<lambda>it. map_for_from cfg m body fuel it s)"

definition bucket_length :: "('k, 'v) Bucket \<Rightarrow> nat" where
  "bucket_length b = (case b of Invalid \<Rightarrow> 0 | Valid e nodes \<Rightarrow> 1 + length nodes)"

definition node_count :: "('k, 'v) FlatMap \<Rightarrow> nat" where
  "node_count m = (case fm_buckets m of None \<Rightarrow> 0 | Some bs \<Rightarrow> sum_list (map bucket_length bs))"

section \<open>Lookup\<close>

primrec find_node :: "'k \<Rightarrow> (pool_node \<times> 'k \<times> 'v) list \<Rightarrow> nat \<Rightarrow> nat option" where
  "find_node key [] j = None"
| "find_node key (n # ns) j = (if fst (snd n) = key then Some j else find_node key ns (j + 1))"

definition seek_bucket :: "'k \<Rightarrow> ('k, 'v) Bucket \<Rightarrow> nat option result" where
  "seek_bucket key b = (case b of
     Invalid \<Rightarrow> Inr None
   | Valid e nodes \<Rightarrow> rbind (of_option Indeterminate e) (\<lambda>(k, _).
       if k = key then Inr (Some 0) else Inr (find_node key nodes 1)))"

definition FlatMap_seek :: "('k, 'v) map_params \<Rightarrow> 'k \<Rightarrow> ('k, 'v) FlatMap \<Rightarrow> node_ref option result" where
  "FlatMap_seek cfg key m =
    (if \<not> FlatMap_initialized m then Inr None
     else
       let index = flatmap_mod (mp_hash cfg key) (fm_nbucket m) in
       rbind (bucket_at m index) (\<lambda>b. rbind (seek_bucket key b) (\<lambda>r. Inr (map_option (Pair index) r))))"

primrec find_nodes :: "'k \<Rightarrow> (pool_node \<times> 'k \<times> 'v) list \<Rightarrow> nat \<Rightarrow> nat list" where
  "find_nodes key [] j = []"
| "find_nodes key (n # ns) j = (if fst (snd n) = key then j # find_nodes key ns (j + 1) else find_nodes key ns (j + 1))"

definition FlatMap_seek_all :: "('k, 'v) map_params \<Rightarrow> 'k \<Rightarrow> ('k, 'v) FlatMap \<Rightarrow> node_ref list result" where
  "FlatMap_seek_all cfg key m =
    (if \<not> FlatMap_initialized m then Inr []
     else
       let index = flatmap_mod (mp_hash cfg key) (fm_nbucket m) in
       rbind (bucket_at m index) (\<lambda>b. case b of
         Invalid \<Rightarrow> Inr []
       | Valid e nodes \<Rightarrow> rbind (of_option Indeterminate e) (\<lambda>(k, _).
           Inr (map (Pair index) ((if k = key then [0] else []) @ find_nodes key nodes 1)))))"

section \<open>Insertion and resizing\<close>

text \<open>A node for \<open>key\<close> with the default value: in the array, at the end of the nodes of its bucket, or before them.\<close>

definition construct_first :: "('k, 'v) map_params \<Rightarrow> nat \<Rightarrow> 'k \<Rightarrow> ('k, 'v) FlatMap \<Rightarrow> (node_ref \<times> ('k, 'v) FlatMap) result" where
  "construct_first cfg index key m =
    rbind (thumbnail_op cfg (\<lambda>t. bit_array_set t index) (m\<lparr>fm_size := fm_size m + 1\<rparr>)) (\<lambda>m1.
    Inr ((index, 0), set_bucket index (Valid (Some (key, mp_default cfg)) []) m1))"

definition append_node ::
    "('k, 'v) map_params \<Rightarrow> nat \<Rightarrow> 'k \<Rightarrow> ('k \<times> 'v) option \<Rightarrow> (pool_node \<times> 'k \<times> 'v) list \<Rightarrow> ('k, 'v) FlatMap \<Rightarrow>
     (node_ref \<times> ('k, 'v) FlatMap) result" where
  "append_node cfg index key e nodes m =
    rbind (map_pool_get cfg (m\<lparr>fm_size := fm_size m + 1\<rparr>)) (\<lambda>(n, m1).
    Inr ((index, length nodes + 1), set_bucket index (Valid e (nodes @ [(n, key, mp_default cfg)])) m1))"

definition prepend_node ::
    "('k, 'v) map_params \<Rightarrow> nat \<Rightarrow> 'k \<Rightarrow> ('k \<times> 'v) option \<Rightarrow> (pool_node \<times> 'k \<times> 'v) list \<Rightarrow> ('k, 'v) FlatMap \<Rightarrow>
     (node_ref \<times> ('k, 'v) FlatMap) result" where
  "prepend_node cfg index key e nodes m =
    rbind (map_pool_get cfg (m\<lparr>fm_size := fm_size m + 1\<rparr>)) (\<lambda>(n, m1).
    Inr ((index, 1), set_bucket index (Valid e ((n, key, mp_default cfg) # nodes)) m1))"

text \<open>\<^verbatim>\<open>swap\<close> exchanges all members; the hash and comparison functions of both maps are the same.\<close>

definition FlatMap_swap :: "('k, 'v) FlatMap \<Rightarrow> ('k, 'v) FlatMap \<Rightarrow> ('k, 'v) FlatMap \<times> ('k, 'v) FlatMap" where
  "FlatMap_swap m rhs =
    (let (p, q) = pool_swap (fm_pool m) (fm_pool rhs) in
     (m\<lparr>fm_size := fm_size rhs, fm_nbucket := fm_nbucket rhs, fm_buckets := fm_buckets rhs, fm_thumbnail := fm_thumbnail rhs,
        fm_load_factor := fm_load_factor rhs, fm_pool := p\<rparr>,
      rhs\<lparr>fm_size := fm_size m, fm_nbucket := fm_nbucket m, fm_buckets := fm_buckets m, fm_thumbnail := fm_thumbnail m,
        fm_load_factor := fm_load_factor m, fm_pool := q\<rparr>))"

text \<open>
  \<^verbatim>\<open>resize\<close>, over the \<^verbatim>\<open>operator[]\<close> it fills the new map with. The new map is destroyed at the end of the
  call, with the buckets of the old one when it returns true.
\<close>

definition resize_with ::
    "('k, 'v) map_params \<Rightarrow> ('k \<Rightarrow> ('k, 'v) FlatMap \<Rightarrow> (node_ref \<times> ('k, 'v) FlatMap) result) \<Rightarrow> nat \<Rightarrow>
     ('k, 'v) FlatMap \<Rightarrow> (bool \<times> ('k, 'v) FlatMap) result" where
  "resize_with cfg index_op nbucket m =
    (let nbucket2 = flatmap_round nbucket in
     if fm_nbucket m = nbucket2 then Inr (False, m)
     else rbind (FlatMap_init cfg nbucket2 (fm_load_factor m) FlatMap_new) (\<lambda>(rc, new_map).
       if rc \<noteq> 0 then rbind (FlatMap_destroy new_map) (\<lambda>_. Inr (False, m))
       else rbind (map_for cfg (node_count m) m (\<lambda>(k, v) nm. rbind (index_op k nm) (\<lambda>(r, nm1). assign_value r v nm1)) new_map) (\<lambda>filled.
         let (old, m1) = FlatMap_swap filled m in
         rbind (FlatMap_destroy old) (\<lambda>_. Inr (True, m1)))))"

text \<open>
  \<^verbatim>\<open>operator[]\<close> of both kinds of map. It calls itself after a resize, and through \<^verbatim>\<open>resize\<close> on the new map; each
  time on a map with more buckets. \<open>depth\<close> bounds the nesting of these calls.
\<close>

primrec index_rec ::
    "('k, 'v) map_params \<Rightarrow> nat \<Rightarrow> 'k \<Rightarrow> ('k, 'v) FlatMap \<Rightarrow> (node_ref \<times> ('k, 'v) FlatMap) result" where
  "index_rec cfg 0 = (\<lambda>key m. Inl Diverges)"
| "index_rec cfg (Suc depth) = (\<lambda>key m.
     let index = flatmap_mod (mp_hash cfg key) (fm_nbucket m) in
     rbind (bucket_at m index) (\<lambda>b. case b of
       Invalid \<Rightarrow> construct_first cfg index key m
     | Valid e nodes \<Rightarrow>
         let crowded = is_too_crowded (fm_size m) (fm_nbucket m) (fm_load_factor m);
             grow = (\<lambda>otherwise. rbind (resize_with cfg (index_rec cfg depth) ((fm_nbucket m + 1) mod 2 ^ 64) m) (\<lambda>(resized, m1).
               if resized then index_rec cfg depth key m1 else otherwise m1)) in
         if mp_multi cfg
         then (if crowded
               then rbind (of_option Indeterminate e) (\<lambda>(k, _).
                 if k \<noteq> key \<or> (\<exists>n \<in> set nodes. fst (snd n) \<noteq> key) then grow (prepend_node cfg index key e nodes)
                 else prepend_node cfg index key e nodes m)
               else prepend_node cfg index key e nodes m)
         else rbind (seek_bucket key b) (\<lambda>found. case found of
           Some j \<Rightarrow> Inr ((index, j), m)
         | None \<Rightarrow> if crowded then grow (append_node cfg index key e nodes) else append_node cfg index key e nodes m)))"

definition FlatMap_index :: "('k, 'v) map_params \<Rightarrow> 'k \<Rightarrow> ('k, 'v) FlatMap \<Rightarrow> (node_ref \<times> ('k, 'v) FlatMap) result" where
  "FlatMap_index cfg = index_rec cfg 64"

definition FlatMap_resize :: "('k, 'v) map_params \<Rightarrow> nat \<Rightarrow> ('k, 'v) FlatMap \<Rightarrow> (bool \<times> ('k, 'v) FlatMap) result" where
  "FlatMap_resize cfg = resize_with cfg (FlatMap_index cfg)"

definition FlatMap_insert :: "('k, 'v) map_params \<Rightarrow> 'k \<Rightarrow> 'v \<Rightarrow> ('k, 'v) FlatMap \<Rightarrow> (node_ref \<times> ('k, 'v) FlatMap) result" where
  "FlatMap_insert cfg key value m =
    rbind (FlatMap_index cfg key m) (\<lambda>(p, m1). rbind (assign_value p value m1) (\<lambda>m2. Inr (p, m2)))"

definition FlatMap_insert_pair :: "('k, 'v) map_params \<Rightarrow> 'k \<times> 'v \<Rightarrow> ('k, 'v) FlatMap \<Rightarrow> (node_ref \<times> ('k, 'v) FlatMap) result" where
  "FlatMap_insert_pair cfg kv = FlatMap_insert cfg (fst kv) (snd kv)"

section \<open>Erasing\<close>

text \<open>\<^verbatim>\<open>erase\<close> of a map with unique keys: the number of elements erased and the old value.\<close>

definition FlatMap_erase :: "('k, 'v) map_params \<Rightarrow> 'k \<Rightarrow> ('k, 'v) FlatMap \<Rightarrow> (nat \<times> 'v option \<times> ('k, 'v) FlatMap) result" where
  "FlatMap_erase cfg key m =
    (if \<not> FlatMap_initialized m then Inr (0, None, m)
     else
       let index = flatmap_mod (mp_hash cfg key) (fm_nbucket m) in
       rbind (bucket_at m index) (\<lambda>b. case b of
         Invalid \<Rightarrow> Inr (0, None, m)
       | Valid e nodes \<Rightarrow> rbind (of_option Indeterminate e) (\<lambda>(k, v).
           if k = key
           then (case nodes of
               [] \<Rightarrow> rbind (thumbnail_op cfg (\<lambda>t. bit_array_unset t index) (set_bucket index Invalid m)) (\<lambda>m1.
                 Inr (1, Some v, m1\<lparr>fm_size := fm_size m1 - 1\<rparr>))
             | p # ps \<Rightarrow>
                 let m1 = map_pool_back (fst p) (set_bucket index (Valid (Some (snd p)) ps) m) in
                 Inr (1, Some v, m1\<lparr>fm_size := fm_size m1 - 1\<rparr>))
           else (case find_node key nodes 0 of
               None \<Rightarrow> Inr (0, None, m)
             | Some j \<Rightarrow>
                 let p = nodes ! j;
                     m1 = map_pool_back (fst p) (set_bucket index (Valid e (take j nodes @ drop (j + 1) nodes)) m) in
                 Inr (1, Some (snd (snd p)), m1\<lparr>fm_size := fm_size m1 - 1\<rparr>)))))"

text \<open>The loop of \<^verbatim>\<open>erase\<close> of a multi-map over the nodes after the first: the values erased, the nodes kept, and the pool.\<close>

primrec erase_nodes ::
    "'k \<Rightarrow> (pool_node \<times> 'k \<times> 'v) list \<Rightarrow> pool \<Rightarrow> 'v list \<times> (pool_node \<times> 'k \<times> 'v) list \<times> pool" where
  "erase_nodes key [] p = ([], [], p)"
| "erase_nodes key (n # ns) p =
     (if fst (snd n) = key
      then (let (vs, kept, p1) = erase_nodes key ns (pool_back (Some (fst n)) p) in (snd (snd n) # vs, kept, p1))
      else (let (vs, kept, p1) = erase_nodes key ns p in (vs, n # kept, p1)))"

text \<open>
  When the first node is erased and others are kept, the first of these is assigned to the element in
  the array, which has been destroyed: this is defined only for types with trivial destructors.
\<close>

definition FlatMap_erase_multi ::
    "('k, 'v) map_params \<Rightarrow> 'k \<Rightarrow> ('k, 'v) FlatMap \<Rightarrow> (nat \<times> 'v list \<times> ('k, 'v) FlatMap) result" where
  "FlatMap_erase_multi cfg key m =
    (if \<not> FlatMap_initialized m then Inr (0, [], m)
     else
       let index = flatmap_mod (mp_hash cfg key) (fm_nbucket m) in
       rbind (bucket_at m index) (\<lambda>b. case b of
         Invalid \<Rightarrow> Inr (0, [], m)
       | Valid e nodes \<Rightarrow> rbind (of_option Indeterminate e) (\<lambda>(k, v).
           let (vs, kept, p) = erase_nodes key nodes (fm_pool m);
               old_values = (if k = key then v # vs else vs);
               m1 = m\<lparr>fm_pool := p, fm_size := fm_size m - length old_values\<rparr> in
           if k \<noteq> key then Inr (length old_values, old_values, set_bucket index (Valid e kept) m1)
           else (case kept of
               [] \<Rightarrow> rbind (thumbnail_op cfg (\<lambda>t. bit_array_unset t index) (set_bucket index Invalid m1)) (\<lambda>m2.
                 Inr (length old_values, old_values, m2))
             | n # ns \<Rightarrow>
                 if \<not> mp_trivial cfg then Inl Indeterminate
                 else Inr (length old_values, old_values, map_pool_back (fst n) (set_bucket index (Valid (Some (snd n)) ns) m1))))))"

section \<open>Copying\<close>

primrec copy_nodes ::
    "('k, 'v) map_params \<Rightarrow> (pool_node \<times> 'k \<times> 'v) list \<Rightarrow> ('k, 'v) FlatMap \<Rightarrow>
     ((pool_node \<times> 'k \<times> 'v) list \<times> ('k, 'v) FlatMap) result" where
  "copy_nodes cfg [] m = Inr ([], m)"
| "copy_nodes cfg (n # ns) m = rbind (map_pool_get cfg m) (\<lambda>(p, m1).
     rbind (copy_nodes cfg ns m1) (\<lambda>(cs, m2). Inr ((p, snd n) # cs, m2)))"

definition copy_bucket :: "('k, 'v) map_params \<Rightarrow> ('k, 'v) FlatMap \<Rightarrow> nat \<Rightarrow> ('k, 'v) FlatMap \<Rightarrow> ('k, 'v) FlatMap result" where
  "copy_bucket cfg rhs i m = rbind (bucket_at rhs i) (\<lambda>b. case b of
     Invalid \<Rightarrow> rbind (bucket_at m i) (\<lambda>_. Inr (set_bucket i Invalid m))
   | Valid e nodes \<Rightarrow>
       rbind (thumbnail_op cfg (\<lambda>t. bit_array_set t i) m) (\<lambda>m1.
       rbind (of_option Indeterminate e) (\<lambda>x.
       rbind (bucket_at m1 i) (\<lambda>_.
       rbind (copy_nodes cfg nodes m1) (\<lambda>(cs, m2).
       Inr (set_bucket i (Valid (Some x) cs) m2))))))"

primrec copy_buckets :: "('k, 'v) map_params \<Rightarrow> ('k, 'v) FlatMap \<Rightarrow> nat \<Rightarrow> ('k, 'v) FlatMap \<Rightarrow> ('k, 'v) FlatMap result" where
  "copy_buckets cfg rhs 0 m = Inr m"
| "copy_buckets cfg rhs (Suc n) m = rbind (copy_buckets cfg rhs n m) (copy_bucket cfg rhs n)"

text \<open>The part of the assignment that makes room; false when an allocation has failed.\<close>

definition assign_room :: "('k, 'v) map_params \<Rightarrow> ('k, 'v) FlatMap \<Rightarrow> ('k, 'v) FlatMap \<Rightarrow> (bool \<times> ('k, 'v) FlatMap) result" where
  "assign_room cfg rhs m =
    (if fm_buckets m = None \<or> is_too_crowded (fm_size rhs) (fm_nbucket m) (fm_load_factor m)
     then rbind (new_buckets_and_thumbnail cfg (fm_load_factor m) (fm_size m) (fm_nbucket rhs)) (\<lambda>(bs, t, n).
       if n = 0 \<or> bs = None \<or> (mp_sparse cfg \<and> t = None) then Inr (False, m)
       else Inr (True, m\<lparr>fm_nbucket := n, fm_buckets := bs, fm_thumbnail := (if mp_sparse cfg then t else fm_thumbnail m)\<rparr>))
     else Inr (True, m))"

text \<open>\<open>same\<close> says that both are the same object.\<close>

definition FlatMap_assign :: "('k, 'v) map_params \<Rightarrow> bool \<Rightarrow> ('k, 'v) FlatMap \<Rightarrow> ('k, 'v) FlatMap \<Rightarrow> ('k, 'v) FlatMap result" where
  "FlatMap_assign cfg same rhs m =
    (if same then Inr m
     else rbind (FlatMap_clear m) (\<lambda>m1.
       if \<not> FlatMap_initialized rhs then Inr m1
       else rbind (assign_room cfg rhs (m1\<lparr>fm_load_factor := fm_load_factor rhs\<rparr>)) (\<lambda>(room, m2).
         if \<not> room \<or> fm_size rhs = 0 then Inr m2
         else if fm_nbucket m2 = fm_nbucket rhs
         then rbind (copy_buckets cfg rhs (fm_nbucket rhs) m2) (\<lambda>m3.
           rbind (bucket_at m3 (fm_nbucket rhs)) (\<lambda>_.
           Inr ((set_bucket (fm_nbucket rhs) (Valid None []) m3)\<lparr>fm_size := fm_size rhs\<rparr>)))
         else map_for cfg (node_count rhs) rhs
           (\<lambda>(k, v) m3. rbind (FlatMap_index cfg k m3) (\<lambda>(r, m4). assign_value r v m4)) m2)))"

definition FlatMap_copy :: "('k, 'v) map_params \<Rightarrow> ('k, 'v) FlatMap \<Rightarrow> ('k, 'v) FlatMap result" where
  "FlatMap_copy cfg rhs = FlatMap_assign cfg False rhs (FlatMap_new\<lparr>fm_load_factor := fm_load_factor rhs\<rparr>)"

section \<open>Saved positions and statistics\<close>

record 'k PositionHint =
  hint_nbucket :: nat
  hint_offset :: nat
  hint_at_entry :: bool
  hint_key :: 'k

text \<open>Both operations use \<^verbatim>\<open>_entry\<close>, which only the iterators of maps that are not sparse have.\<close>

definition save_iterator :: "('k, 'v) map_params \<Rightarrow> ('k, 'v) FlatMap \<Rightarrow> node_ref \<Rightarrow> 'k PositionHint result" where
  "save_iterator cfg m it = rbind (FlatMap_end cfg m) (\<lambda>e.
     if Some it \<noteq> e
     then rbind (element_at m it) (\<lambda>x.
       Inr \<lparr>hint_nbucket = fm_nbucket m, hint_offset = fst it, hint_at_entry = (snd it = 0), hint_key = fst x\<rparr>)
     else Inr \<lparr>hint_nbucket = fm_nbucket m, hint_offset = fst it, hint_at_entry = False, hint_key = mp_default_key cfg\<rparr>)"

definition restore_iterator :: "('k, 'v) map_params \<Rightarrow> ('k, 'v) FlatMap \<Rightarrow> 'k PositionHint \<Rightarrow> map_iterator result" where
  "restore_iterator cfg m hint =
    (if hint_nbucket hint \<noteq> fm_nbucket m then FlatMap_begin cfg m
     else if hint_offset hint \<ge> fm_nbucket m then FlatMap_end cfg m
     else rbind (bucket_at m (hint_offset hint)) (\<lambda>b.
       if hint_at_entry hint then iterator_at cfg m (hint_offset hint)
       else if \<not> is_valid b then iterator_at cfg m (hint_offset hint + 1)
       else rbind (seek_bucket (hint_key hint) b) (\<lambda>found. case found of
         Some j \<Rightarrow> Inr (Some (hint_offset hint, j))
       | None \<Rightarrow> iterator_at cfg m (hint_offset hint))))"

text \<open>The longest bucket, and the two operands of the quotient that is the average length.\<close>

record BucketInfo =
  longest_length :: nat
  average_of :: "nat \<times> nat"

definition bucket_info_step :: "('k, 'v) Bucket \<Rightarrow> nat \<times> nat \<Rightarrow> nat \<times> nat" where
  "bucket_info_step b acc = (case b of
     Invalid \<Rightarrow> acc
   | Valid e nodes \<Rightarrow> (max (fst acc) (1 + length nodes), snd acc + 1))"

definition bucket_info :: "('k, 'v) FlatMap \<Rightarrow> BucketInfo result" where
  "bucket_info m = (case fm_buckets m of
     None \<Rightarrow> if fm_nbucket m = 0 then Inr \<lparr>longest_length = 0, average_of = (fm_size m, 0)\<rparr> else Inl Null_pointer
   | Some bs \<Rightarrow>
       if fm_nbucket m \<le> length bs
       then let (max_n, nentry) = fold bucket_info_step (take (fm_nbucket m) bs) (0, 0) in
         Inr \<lparr>longest_length = max_n, average_of = (fm_size m, nentry)\<rparr>
       else Inl Out_of_bounds)"

end
