(* ===== verification/Flat_Map_Rounding.thy ===== *)
theory Flat_Map_Rounding
  imports Flat_Map
begin

text \<open>
  The arithmetic of the hash map: \<^verbatim>\<open>find_power2\<close> rounds up to a power of two, \<^verbatim>\<open>flatmap_mod\<close> stays inside the
  array, and the rounding loop of \<^verbatim>\<open>new_buckets_and_thumbnail\<close> returns unless the product in \<^verbatim>\<open>is_too_crowded\<close> wraps to 0.
\<close>

section \<open>Powers of two\<close>

text \<open>After the shifts by 1, 2, 4 up to \<open>s\<close>, a bit is set when one of the \<open>2 s\<close> bits from it on was.\<close>

definition smeared :: "64 word \<Rightarrow> 64 word \<Rightarrow> nat \<Rightarrow> bool" where
  "smeared w b s \<longleftrightarrow> (\<forall>i. bit w i \<longleftrightarrow> (\<exists>d < s. bit b (i + d)))"

lemma smeared_start: "smeared b b 1"
  by (simp add: smeared_def)

lemma smeared_step:
  assumes "smeared w b s"
  shows "smeared (w OR drop_bit s w) b (2 * s)"
  unfolding smeared_def
proof
  fix i
  have "bit (w OR drop_bit s w) i \<longleftrightarrow> (\<exists>d < s. bit b (i + d)) \<or> (\<exists>d < s. bit b (i + (s + d)))"
    using assms by (simp add: smeared_def bit_or_iff bit_drop_bit_eq add.assoc add.left_commute)
  also have "\<dots> \<longleftrightarrow> (\<exists>d < 2 * s. bit b (i + d))"
  proof
    assume "\<exists>d < 2 * s. bit b (i + d)"
    then obtain d where d: "d < 2 * s" "bit b (i + d)" by blast
    show "(\<exists>d < s. bit b (i + d)) \<or> (\<exists>d < s. bit b (i + (s + d)))"
    proof (cases "d < s")
      case False
      then have "d - s < s" "s + (d - s) = d" using d by simp_all
      with d(2) show ?thesis by metis
    qed (use d in blast)
  next
    assume "(\<exists>d < s. bit b (i + d)) \<or> (\<exists>d < s. bit b (i + (s + d)))"
    then show "\<exists>d < 2 * s. bit b (i + d)"
    proof
      assume "\<exists>d < s. bit b (i + (s + d))"
      then obtain d where "s + d < 2 * s" "bit b (i + (s + d))" by auto
      then show ?thesis by blast
    next
      assume "\<exists>d < s. bit b (i + d)"
      then obtain d where "d < s" "bit b (i + d)" by blast
      then have "d < 2 * s" "bit b (i + d)" by simp_all
      then show ?thesis by blast
    qed
  qed
  finally show "bit (w OR drop_bit s w) i = (\<exists>d < 2 * s. bit b (i + d))" .
qed

lemma smeared_all:
  assumes "smeared w b 64" and "2 ^ k \<le> unat b" and "unat b < 2 ^ Suc k"
  shows "w + 1 = 2 ^ Suc k"
proof -
  have k: "k < 64"
  proof (rule ccontr)
    assume "\<not> k < 64"
    then have "(2 :: nat) ^ 64 \<le> 2 ^ k" by (intro power_increasing) simp_all
    then show False using assms(2) unsigned_less [of b, where ?'a = nat] by simp
  qed
  have bit_b: "bit b i \<longleftrightarrow> i < 64 \<and> bit (unat b) i" for i by (auto simp: bit_unsigned_iff dest: bit_imp_le_length)
  have "unat b div 2 ^ k = 1" using assms(2,3) by (intro div_nat_eqI) simp_all
  then have top: "bit b k" using k by (subst bit_b) (simp add: bit_iff_odd [of "unat b"])
  have above: "\<not> bit b i" if "k < i" for i
  proof -
    have "unat b < 2 ^ i" using assms(3) power_increasing [of "Suc k" i "2 :: nat"] that by simp
    then show ?thesis by (subst bit_b) (simp add: bit_iff_odd [of "unat b"])
  qed
  have "bit w i \<longleftrightarrow> i \<le> k" for i
  proof
    assume "bit w i"
    then obtain d where "bit b (i + d)" using assms(1) by (auto simp: smeared_def)
    then show "i \<le> k" using above by (metis le_add1 not_le order_less_le_trans)
  next
    assume "i \<le> k"
    then have "bit b (i + (k - i))" "k - i < 64" using top k by simp_all
    then show "bit w i" using assms(1) unfolding smeared_def by blast
  qed
  then have "w = mask (Suc k)" using k by (intro bit_word_eqI) (simp add: bit_mask_iff less_Suc_eq_le)
  then show ?thesis by (simp add: mask_eq_exp_minus_1)
qed

lemma find_power2_exp:
  assumes "2 ^ k \<le> unat (b - 1)" and "unat (b - 1) < 2 ^ Suc k"
  shows "find_power2 b = 2 ^ Suc k"
proof -
  have "smeared (find_power2 b - 1) (b - 1) 64"
    using smeared_step [OF smeared_step [OF smeared_step [OF smeared_step [OF smeared_step [OF smeared_step [OF smeared_start]]]]], of "b - 1"]
    by (simp add: find_power2_def Let_def)
  from smeared_all [OF this assms] show ?thesis by simp
qed

lemma log2_bounds: "0 < (n :: nat) \<Longrightarrow> \<exists>k. 2 ^ k \<le> n \<and> n < 2 ^ Suc k"
proof -
  assume "0 < n"
  define k where "k = (LEAST k. n < 2 ^ Suc k)"
  have lt: "n < 2 ^ Suc k" unfolding k_def by (rule LeastI [of _ n]) (simp add: less_trans [OF less_exp])
  have "2 ^ k \<le> n"
  proof (cases k)
    case 0
    then show ?thesis using \<open>0 < n\<close> by simp
  next
    case (Suc j)
    then have "\<not> n < 2 ^ Suc j" using not_less_Least [of j "\<lambda>k. n < 2 ^ Suc k"] by (simp add: k_def)
    then show ?thesis by (simp add: Suc)
  qed
  with lt show ?thesis by blast
qed

text \<open>\<^verbatim>\<open>flatmap_round\<close> gives the next power of two, at least 8.\<close>

lemma flatmap_round_pow2:
  assumes "n \<le> 2 ^ 63"
  shows "\<exists>k. flatmap_round n = 2 ^ k \<and> 3 \<le> k \<and> k \<le> 63 \<and> n \<le> 2 ^ k \<and> (2 ^ k = (8 :: nat) \<or> 2 ^ k < 2 * n)"
proof (cases "n \<le> 8")
  case True
  then show ?thesis by (intro exI [of _ 3]) (simp add: flatmap_round_def)
next
  case False
  then obtain j where j: "2 ^ j \<le> n - 1" "n - 1 < 2 ^ Suc j" using log2_bounds [of "n - 1"] by auto
  have "unat (of_nat n - 1 :: 64 word) = n - 1"
  proof -
    have "of_nat n - 1 = (of_nat (n - 1) :: 64 word)" using False by (simp add: of_nat_diff)
    then show ?thesis using assms by (simp add: unat_of_nat)
  qed
  then have "find_power2 (of_nat n) = 2 ^ Suc j" using find_power2_exp [of j "of_nat n"] j by simp
  moreover have "Suc j \<le> 63"
  proof (rule ccontr)
    assume "\<not> Suc j \<le> 63"
    then have "(2 :: nat) ^ 63 \<le> 2 ^ j" by (intro power_increasing) simp_all
    then show False using j assms False by linarith
  qed
  moreover have "3 \<le> Suc j"
  proof (rule ccontr)
    assume "\<not> 3 \<le> Suc j"
    then have "(2 :: nat) ^ Suc j \<le> 2 ^ 3" by (intro power_increasing) simp_all
    then show False using j(2) False by simp
  qed
  moreover have "unat (2 ^ Suc j :: 64 word) = 2 ^ Suc j"
  proof -
    have "(2 :: nat) ^ Suc j < 2 ^ 64" using \<open>Suc j \<le> 63\<close> by (intro power_strict_increasing) simp_all
    moreover have "(2 ^ Suc j :: 64 word) = of_nat (2 ^ Suc j)" by simp
    ultimately show ?thesis by (simp only: unat_of_nat) simp
  qed
  ultimately show ?thesis using False j by (intro exI [of _ "Suc j"]) (auto simp: flatmap_round_def)
qed

lemma pow2_unique: "n \<le> (2 :: nat) ^ j \<Longrightarrow> 2 ^ j < 2 * n \<Longrightarrow> n \<le> 2 ^ k \<Longrightarrow> 2 ^ k < 2 * n \<Longrightarrow> j = k"
proof (rule ccontr)
  assume a: "n \<le> 2 ^ j" "2 ^ j < 2 * n" "n \<le> 2 ^ k" "2 ^ k < 2 * n" and "j \<noteq> k"
  then have "Suc j \<le> k \<or> Suc k \<le> j" by linarith
  then have "2 * (2 :: nat) ^ j \<le> 2 ^ k \<or> 2 * (2 :: nat) ^ k \<le> 2 ^ j"
    using power_increasing [of "Suc j" k "2 :: nat"] power_increasing [of "Suc k" j "2 :: nat"] by auto
  then show False using a by linarith
qed

lemma flatmap_round_eq:
  assumes "8 \<le> n" and "n \<le> 2 ^ k" and "2 ^ k < 2 * n" and "k \<le> 63"
  shows "flatmap_round n = 2 ^ k"
proof -
  have "n \<le> 2 ^ 63" using assms(2,4) power_increasing [of k 63 "2 :: nat"] by simp
  then obtain j where j: "flatmap_round n = 2 ^ j" "n \<le> 2 ^ j" "2 ^ j = (8 :: nat) \<or> 2 ^ j < 2 * n"
    using flatmap_round_pow2 by blast
  then have "2 ^ j < 2 * n" using assms(1) by auto
  then show ?thesis using pow2_unique [of n j k] j assms by simp
qed

lemma flatmap_round_exp: "3 \<le> k \<Longrightarrow> k \<le> 63 \<Longrightarrow> flatmap_round (2 ^ k) = 2 ^ k"
  using power_increasing [of 3 k "2 :: nat"] by (intro flatmap_round_eq) simp_all

lemma flatmap_round_Suc: "3 \<le> k \<Longrightarrow> k \<le> 62 \<Longrightarrow> flatmap_round (2 ^ k + 1) = 2 ^ Suc k"
  using power_increasing [of 3 k "2 :: nat"] by (intro flatmap_round_eq) simp_all

lemma flatmap_mod_less:
  assumes "0 < n" and "n < 2 ^ 64"
  shows "flatmap_mod h n < n"
proof -
  have "of_nat n - 1 = (of_nat (n - 1) :: 64 word)" using assms(1) by (simp add: of_nat_diff)
  moreover have "unat (of_nat (n - 1) :: 64 word) = n - 1" using assms(2) by (simp add: unat_of_nat)
  ultimately have "unat (of_nat n - 1 :: 64 word) = n - 1" by (simp only:)
  moreover have "h AND (of_nat n - 1) \<le> of_nat n - 1" by (rule word_and_le1)
  ultimately have "flatmap_mod h n \<le> n - 1" by (simp add: flatmap_mod_def word_le_nat_alt)
  then show ?thesis using assms(1) by linarith
qed

section \<open>The rounding loop\<close>

lemma crowded_empty: "is_too_crowded 0 n load_factor \<longleftrightarrow> n * load_factor mod 2 ^ 64 = 0"
  by (simp add: is_too_crowded_def)

lemma round_loop_returns:
  assumes "10 \<le> load_factor" and "load_factor \<le> 100" and "flatmap_round n = 2 ^ k" and "k \<le> 57"
  shows "round_loop 0 n load_factor = Some (flatmap_round n)"
proof -
  have "flatmap_round n * load_factor \<le> 2 ^ 57 * 100"
    using assms power_increasing [of k 57 "2 :: nat"] by (intro mult_le_mono) simp_all
  moreover have "0 < flatmap_round n * load_factor" using assms by simp
  ultimately have "\<not> is_too_crowded 0 (flatmap_round n) load_factor" by (simp add: crowded_empty)
  then show ?thesis by (subst round_loop.simps) simp
qed

text \<open>When the product of the number of buckets and the load factor wraps to 0, the loop does not end.\<close>

lemma round_loop_diverges:
  assumes "3 \<le> k" and "k \<le> 63" and "2 ^ k * load_factor mod 2 ^ 64 = 0"
  shows "round_loop 0 (2 ^ k) load_factor = None"
proof (rule ccontr)
  assume "round_loop 0 (2 ^ k) load_factor \<noteq> None"
  then obtain y where y: "round_loop 0 (2 ^ k) load_factor = Some y" by auto
  have "\<not> (s = 0 \<and> n = 2 ^ k \<and> f = load_factor)" if "round_loop s n f = Some y" for s n f y
  proof (rule round_loop.raw_induct [where P = "\<lambda>s n f y. \<not> (s = 0 \<and> n = 2 ^ k \<and> f = load_factor)", OF _ that])
    fix loop :: "nat \<Rightarrow> nat \<Rightarrow> nat \<Rightarrow> nat option" and s n f y
    assume ih: "\<And>s n f y. loop s n f = Some y \<Longrightarrow> \<not> (s = 0 \<and> n = 2 ^ k \<and> f = load_factor)"
      and r: "(if is_too_crowded s (flatmap_round n) f then loop s (flatmap_round n) f else Some (flatmap_round n)) = Some y"
    show "\<not> (s = 0 \<and> n = 2 ^ k \<and> f = load_factor)"
      using ih [of s n f y] r assms by (auto simp: crowded_empty flatmap_round_exp)
  qed
  then show False using y by blast
qed

end
