(* ===== verification/Flat_Map_Invariant.thy ===== *)
theory Flat_Map_Invariant
  imports Flat_Map_Rounding "HOL-Library.Multiset"
begin

text \<open>
  The invariant of the hash map and the operations on one bucket. \<open>map_inv cfg cs m\<close> says that \<open>m\<close> has the buckets
  \<open>cs\<close> before its sentinel: a power of two of them, each element in the bucket of its hash code, as many elements as
  \<^verbatim>\<open>_size\<close> says, the nodes in use taken from the pool, and a thumbnail that shows the valid buckets.
\<close>

section \<open>The invariant\<close>

fun bucket_entries :: "('k, 'v) Bucket \<Rightarrow> ('k \<times> 'v) list" where
  "bucket_entries (Valid (Some e) nodes) = e # map snd nodes"
| "bucket_entries b = []"

definition bucket_nodes :: "('k, 'v) Bucket \<Rightarrow> pool_node list" where
  "bucket_nodes b = map fst (chain_nodes b)"

definition entries :: "('k, 'v) Bucket list \<Rightarrow> ('k \<times> 'v) list" where
  "entries cs = concat (map bucket_entries cs)"

definition used_nodes :: "('k, 'v) Bucket list \<Rightarrow> pool_node list" where
  "used_nodes cs = concat (map bucket_nodes cs)"

definition bucket_ok :: "('k, 'v) map_params \<Rightarrow> nat \<Rightarrow> nat \<Rightarrow> ('k, 'v) Bucket \<Rightarrow> bool" where
  "bucket_ok cfg nbucket i b \<longleftrightarrow> (is_valid b \<longrightarrow> bucket_entries b \<noteq> []) \<and>
    (\<forall>x \<in> set (bucket_entries b). flatmap_mod (mp_hash cfg (fst x)) nbucket = i)"

text \<open>
  The parameters the proofs are about: no allocation of \<open>2\<^sup>48\<close> bytes or more succeeds, that of a block of
  the pool does, and a bucket has a size that is not absurd.
\<close>

definition params_ok :: "('k, 'v) map_params \<Rightarrow> bool" where
  "params_ok cfg \<longleftrightarrow> (\<forall>n. mp_malloc_ok cfg n \<longrightarrow> n < 2 ^ 48) \<and> 8 \<le> mp_bucket_size cfg \<and> mp_bucket_size cfg \<le> 2 ^ 15 \<and>
    mp_malloc_ok cfg (BLOCK_SIZE (mp_bucket_size cfg) 1024 16)"

definition thumbnail_ok :: "('k, 'v) map_params \<Rightarrow> ('k, 'v) Bucket list \<Rightarrow> bit_array option \<Rightarrow> bool" where
  "thumbnail_ok cfg cs thumbnail \<longleftrightarrow>
    (if mp_sparse cfg
     then length cs mod 64 = 0 \<and> (\<exists>t. thumbnail = Some t \<and> length cs \<le> 64 * length t \<and> (\<forall>i < length cs. abit t i = is_valid (cs ! i)))
     else thumbnail = None)"

definition map_inv :: "('k, 'v) map_params \<Rightarrow> ('k, 'v) Bucket list \<Rightarrow> ('k, 'v) FlatMap \<Rightarrow> bool" where
  "map_inv cfg cs m \<longleftrightarrow>
    fm_buckets m = Some (cs @ [Valid None []]) \<and> fm_nbucket m = length cs \<and>
    (\<exists>k. length cs = 2 ^ k \<and> 3 \<le> k \<and> k \<le> 47) \<and> 10 \<le> fm_load_factor m \<and> fm_load_factor m \<le> 100 \<and>
    (\<forall>i < length cs. bucket_ok cfg (length cs) i (cs ! i)) \<and> fm_size m = length (entries cs) \<and>
    distinct (used_nodes cs) \<and> pool_inv (set (used_nodes cs)) (fm_pool m) \<and> thumbnail_ok cfg cs (fm_thumbnail m) \<and>
    (\<not> mp_multi cfg \<longrightarrow> distinct (map fst (entries cs)))"

lemma map_inv_simps:
  assumes "map_inv cfg cs m"
  shows "fm_buckets m = Some (cs @ [Valid None []])" "fm_nbucket m = length cs" "FlatMap_initialized m"
    "i < length cs \<Longrightarrow> bucket_at m i = Inr (cs ! i)" "0 < length cs" "length cs < 2 ^ 48" "fm_size m = length (entries cs)"
proof -
  show "fm_buckets m = Some (cs @ [Valid None []])" "fm_nbucket m = length cs" "FlatMap_initialized m" "fm_size m = length (entries cs)"
    using assms by (auto simp: map_inv_def FlatMap_initialized_def)
  show "i < length cs \<Longrightarrow> bucket_at m i = Inr (cs ! i)" using assms by (simp add: map_inv_def bucket_at_def nth_append)
  obtain k where "length cs = 2 ^ k" "k \<le> 47" using assms by (auto simp: map_inv_def)
  then show "0 < length cs" "length cs < 2 ^ 48" using power_increasing [of k 47 "2 :: nat"] by simp_all
qed

lemma map_inv_index: "map_inv cfg cs m \<Longrightarrow> flatmap_mod h (length cs) < length cs"
  using map_inv_simps(5,6) [of cfg cs m] by (intro flatmap_mod_less) simp_all

lemma map_inv_bucket: "map_inv cfg cs m \<Longrightarrow> i < length cs \<Longrightarrow> bucket_ok cfg (length cs) i (cs ! i)"
  by (simp add: map_inv_def)

lemma map_inv_parts:
  assumes "map_inv cfg cs m"
  shows "distinct (used_nodes cs)" "pool_inv (set (used_nodes cs)) (fm_pool m)" "thumbnail_ok cfg cs (fm_thumbnail m)"
    "\<not> mp_multi cfg \<Longrightarrow> distinct (map fst (entries cs))" "10 \<le> fm_load_factor m" "fm_load_factor m \<le> 100"
    "\<exists>k. length cs = 2 ^ k \<and> 3 \<le> k \<and> k \<le> 47"
  using assms by (simp_all add: map_inv_def)

lemma bucket_ok_cases:
  assumes "bucket_ok cfg n i b"
  obtains "b = Invalid" | e nodes where "b = Valid (Some e) nodes" "bucket_entries b = e # map snd nodes"
  using assms by (cases b rule: bucket_entries.cases) (auto simp: bucket_ok_def)

section \<open>Replacing a bucket\<close>

lemma mset_concat_update:
  "i < length xs \<Longrightarrow> mset (concat (map f (xs[i := b]))) + mset (f (xs ! i)) = mset (concat (map f xs)) + mset (f b)"
proof -
  assume i: "i < length xs"
  have "mset (concat (map f xs)) = mset (concat (map f (take i xs @ xs ! i # drop (Suc i) xs)))"
    using id_take_nth_drop [OF i] by simp
  then show ?thesis by (simp add: upd_conv_take_nth_drop [OF i] ac_simps)
qed

lemmas mset_entries_update = mset_concat_update [where f = bucket_entries, folded entries_def]
lemmas mset_used_update = mset_concat_update [where f = bucket_nodes, folded used_nodes_def]

lemma entries_in_bucket:
  assumes "map_inv cfg cs m" and "(k, v) \<in> set (entries cs)"
  shows "(k, v) \<in> set (bucket_entries (cs ! flatmap_mod (mp_hash cfg k) (length cs)))"
proof -
  obtain i where i: "i < length cs" "(k, v) \<in> set (bucket_entries (cs ! i))"
    using assms(2) by (auto simp: entries_def in_set_conv_nth [of _ cs])
  then have "flatmap_mod (mp_hash cfg k) (length cs) = i" using map_inv_bucket [OF assms(1) i(1)] by (auto simp: bucket_ok_def)
  with i show ?thesis by simp
qed

lemma bucket_in_entries: "i < length cs \<Longrightarrow> set (bucket_entries (cs ! i)) \<subseteq> set (entries cs)"
  using nth_mem [of i cs] by (auto simp: entries_def simp del: nth_mem)

lemma used_in_bucket: "i < length cs \<Longrightarrow> set (bucket_nodes (cs ! i)) \<subseteq> set (used_nodes cs)"
  using nth_mem [of i cs] by (auto simp: used_nodes_def simp del: nth_mem)

text \<open>Only the elements of the bucket of \<open>key\<close> have that key.\<close>

lemma filter_entries:
  assumes "map_inv cfg cs m"
  shows "filter (\<lambda>x. fst x = key) (entries cs) = filter (\<lambda>x. fst x = key) (bucket_entries (cs ! flatmap_mod (mp_hash cfg key) (length cs)))"
proof -
  let ?i = "flatmap_mod (mp_hash cfg key) (length cs)"
  have i: "?i < length cs" by (rule map_inv_index [OF assms])
  have none: "filter (\<lambda>x. fst x = key) (bucket_entries (cs ! j)) = []" if "j < length cs" "j \<noteq> ?i" for j
    using map_inv_bucket [OF assms that(1)] that(2) by (auto simp: bucket_ok_def filter_empty_conv)
  have empty: "filter (\<lambda>x. fst x = key) (concat (map bucket_entries bs)) = []" if "\<And>b. b \<in> set bs \<Longrightarrow> \<exists>j < length cs. j \<noteq> ?i \<and> b = cs ! j" for bs
    using that none by (induction bs) fastforce+
  have front: "\<exists>j < length cs. j \<noteq> ?i \<and> b = cs ! j" if t: "b \<in> set (take ?i cs)" for b
  proof -
    obtain l where "b = cs ! l" "l < ?i" using t by (auto simp: in_set_conv_nth)
    then show ?thesis using i by (intro exI [of _ l]) simp
  qed
  have behind: "\<exists>j < length cs. j \<noteq> ?i \<and> b = cs ! j" if t: "b \<in> set (drop (Suc ?i) cs)" for b
  proof -
    obtain l where "b = cs ! (Suc ?i + l)" "Suc ?i + l < length cs" using t by (auto simp: in_set_conv_nth)
    then show ?thesis by (intro exI [of _ "Suc ?i + l"]) simp
  qed
  have "entries cs = entries (take ?i cs @ cs ! ?i # drop (Suc ?i) cs)" using id_take_nth_drop [OF i] by simp
  then show ?thesis using empty [OF front] empty [OF behind] by (simp add: entries_def)
qed

lemma map_inv_replace:
  assumes "map_inv cfg cs m" and "i < length cs" and "bucket_ok cfg (length cs) i b"
    and "fm_buckets m' = Some (cs[i := b] @ [Valid None []])" and "fm_nbucket m' = fm_nbucket m"
    and "fm_load_factor m' = fm_load_factor m"
    and "fm_size m' + length (bucket_entries (cs ! i)) = fm_size m + length (bucket_entries b)"
    and "distinct (used_nodes (cs[i := b])) \<and> pool_inv (set (used_nodes (cs[i := b]))) (fm_pool m')"
    and "thumbnail_ok cfg (cs[i := b]) (fm_thumbnail m')"
    and "\<not> mp_multi cfg \<Longrightarrow> distinct (map fst (entries (cs[i := b])))"
  shows "map_inv cfg (cs[i := b]) m'"
proof -
  have "size (mset (entries (cs[i := b]))) + length (bucket_entries (cs ! i)) = size (mset (entries cs)) + length (bucket_entries b)"
    using mset_entries_update [OF assms(2), of b] by (metis size_mset size_union)
  then have "fm_size m' = length (entries (cs[i := b]))" using assms(1,7) by (simp add: map_inv_def)
  moreover have "bucket_ok cfg (length cs) j (cs[i := b] ! j)" if "j < length cs" for j
    using assms(1,3) that by (cases "j = i") (simp_all add: map_inv_def)
  ultimately show ?thesis using assms by (simp add: map_inv_def)
qed

lemma nodes_same:
  assumes "i < length cs" and "bucket_nodes b = bucket_nodes (cs ! i)" and "distinct (used_nodes cs)" and "pool_inv (set (used_nodes cs)) p"
  shows "distinct (used_nodes (cs[i := b])) \<and> pool_inv (set (used_nodes (cs[i := b]))) p"
proof -
  have "mset (used_nodes (cs[i := b])) = mset (used_nodes cs)" using mset_used_update [OF assms(1), of b] assms(2) by simp
  then show ?thesis using assms(3,4) by (metis mset_eq_imp_distinct_iff mset_eq_setD)
qed

lemma nodes_added:
  assumes "i < length cs" and "mset (bucket_nodes b) = add_mset n (mset (bucket_nodes (cs ! i)))"
    and "distinct (used_nodes cs)" and "n \<notin> set (used_nodes cs)" and "pool_inv (insert n (set (used_nodes cs))) p"
  shows "distinct (used_nodes (cs[i := b])) \<and> pool_inv (set (used_nodes (cs[i := b]))) p"
proof -
  have "mset (used_nodes (cs[i := b])) = mset (n # used_nodes cs)" using mset_used_update [OF assms(1), of b] assms(2) by simp
  moreover have "distinct (n # used_nodes cs)" using assms(3,4) by simp
  ultimately have "distinct (used_nodes (cs[i := b]))" "set (used_nodes (cs[i := b])) = insert n (set (used_nodes cs))"
    by (metis mset_eq_imp_distinct_iff, metis list.set(2) mset_eq_setD)
  then show ?thesis using assms(5) by simp
qed

lemma nodes_removed:
  assumes "i < length cs" and "mset (bucket_nodes (cs ! i)) = add_mset n (mset (bucket_nodes b))"
    and "distinct (used_nodes cs)" and "pool_inv (set (used_nodes cs)) p"
  shows "distinct (used_nodes (cs[i := b])) \<and> pool_inv (set (used_nodes (cs[i := b]))) (pool_back (Some n) p)"
proof -
  have "mset (n # used_nodes (cs[i := b])) = mset (used_nodes cs)" using mset_used_update [OF assms(1), of b] assms(2) by simp
  then have d: "distinct (n # used_nodes (cs[i := b]))" and s: "set (n # used_nodes (cs[i := b])) = set (used_nodes cs)"
    using assms(3) by (metis mset_eq_imp_distinct_iff, metis mset_eq_setD)
  have "set (used_nodes (cs[i := b])) = set (used_nodes cs) - {n}" using d s by auto
  then show ?thesis using d s pool_back_inv [OF assms(4), of n] by auto
qed

lemma keys_same:
  assumes "i < length cs" and "map fst (bucket_entries b) = map fst (bucket_entries (cs ! i))" and "distinct (map fst (entries cs))"
  shows "distinct (map fst (entries (cs[i := b])))"
proof -
  have "image_mset fst (mset (bucket_entries b)) = image_mset fst (mset (bucket_entries (cs ! i)))"
    using assms(2) by (metis mset_map)
  then have "image_mset fst (mset (entries (cs[i := b]))) = image_mset fst (mset (entries cs))"
    using arg_cong [OF mset_entries_update [OF assms(1), of b], of "image_mset fst"] by simp
  then show ?thesis using assms(3) by (metis mset_eq_imp_distinct_iff mset_map)
qed

text \<open>The thumbnail follows the bucket.\<close>

lemma thumbnail_same:
  "i < length cs \<Longrightarrow> is_valid b = is_valid (cs ! i) \<Longrightarrow> thumbnail_ok cfg cs t \<Longrightarrow> thumbnail_ok cfg (cs[i := b]) t"
  by (auto simp: thumbnail_ok_def nth_list_update)

lemma bit_in_word: "i < n \<Longrightarrow> n \<le> 64 * l \<Longrightarrow> i div 64 < (l :: nat)"
  by (metis less_mult_imp_div_less mult.commute order_less_le_trans)

lemma thumbnail_set:
  assumes "i < length cs" and "is_valid b" and "thumbnail_ok cfg cs (fm_thumbnail m)"
  shows "\<exists>t. thumbnail_op cfg (\<lambda>t. bit_array_set t i) m = Inr (m\<lparr>fm_thumbnail := t\<rparr>) \<and> thumbnail_ok cfg (cs[i := b]) t"
proof (cases "mp_sparse cfg")
  case True
  then obtain t where t: "fm_thumbnail m = Some t" "length cs \<le> 64 * length t" "\<forall>i < length cs. abit t i = is_valid (cs ! i)" "length cs mod 64 = 0"
    using assms(3) by (auto simp: thumbnail_ok_def)
  have "i div 64 < length t" by (rule bit_in_word [OF assms(1) t(2)])
  from bit_array_set_abit [OF this] obtain t' where t': "bit_array_set t i = Inr t'" "length t' = length t"
      "\<forall>j. j div 64 < length t \<longrightarrow> abit t' j = (j = i \<or> abit t j)" by blast
  have "abit t' j = is_valid (cs[i := b] ! j)" if "j < length cs" for j
    using t t'(3) that assms(1,2) bit_in_word [OF that t(2)] by (cases "j = i") simp_all
  then show ?thesis using True t t' by (intro exI [of _ "Some t'"]) (simp add: thumbnail_op_def thumbnail_ok_def)
qed (use assms in \<open>auto simp: thumbnail_op_def thumbnail_ok_def intro!: exI [of _ None]\<close>)

lemma thumbnail_unset:
  assumes "i < length cs" and "thumbnail_ok cfg cs (fm_thumbnail m)"
  shows "\<exists>t. thumbnail_op cfg (\<lambda>t. bit_array_unset t i) m = Inr (m\<lparr>fm_thumbnail := t\<rparr>) \<and> thumbnail_ok cfg (cs[i := Invalid]) t"
proof (cases "mp_sparse cfg")
  case True
  then obtain t where t: "fm_thumbnail m = Some t" "length cs \<le> 64 * length t" "\<forall>i < length cs. abit t i = is_valid (cs ! i)" "length cs mod 64 = 0"
    using assms(2) by (auto simp: thumbnail_ok_def)
  have "i div 64 < length t" by (rule bit_in_word [OF assms(1) t(2)])
  from bit_array_unset_abit [OF this] obtain t' where t': "bit_array_unset t i = Inr t'" "length t' = length t"
      "\<forall>j. j div 64 < length t \<longrightarrow> abit t' j = (j \<noteq> i \<and> abit t j)" by blast
  have "abit t' j = is_valid (cs[i := Invalid] ! j)" if "j < length cs" for j
    using t t'(3) that assms(1) bit_in_word [OF that t(2)] by (cases "j = i") simp_all
  then show ?thesis using True t t' by (intro exI [of _ "Some t'"]) (simp add: thumbnail_op_def thumbnail_ok_def)
qed (use assms in \<open>auto simp: thumbnail_op_def thumbnail_ok_def intro!: exI [of _ None]\<close>)

end
