(* ===== verification/Flat_Map_Operations.thy ===== *)
theory Flat_Map_Operations
  imports Flat_Map_Invariant
begin

text \<open>
  The operations of the hash map that do not change its number of buckets: what they do with the invariant and with the
  multiset of elements.
\<close>

section \<open>References\<close>

text \<open>A reference to the element \<open>x\<close>.\<close>

definition points :: "('k, 'v) Bucket list \<Rightarrow> node_ref \<Rightarrow> 'k \<times> 'v \<Rightarrow> bool" where
  "points cs r x \<longleftrightarrow> fst r < length cs \<and> snd r < length (bucket_entries (cs ! fst r)) \<and> bucket_entries (cs ! fst r) ! snd r = x"

lemma node_of_entries: "j < length (bucket_entries b) \<Longrightarrow> node_of b j = Inr (bucket_entries b ! j)"
  by (cases b rule: bucket_entries.cases) (auto simp: node_of_def split: nat.split)

lemma element_at_points: "map_inv cfg cs m \<Longrightarrow> points cs r x \<Longrightarrow> element_at m r = Inr x"
  by (simp add: element_at_def points_def map_inv_simps(4) node_of_entries)

lemma put_value_entries:
  "j < length (bucket_entries b) \<Longrightarrow> bucket_entries (put_value v j b) = (bucket_entries b)[j := (fst (bucket_entries b ! j), v)]"
  by (cases b rule: bucket_entries.cases) (auto simp: put_value_def map_update split: nat.split)

lemma put_value_nodes: "j < length (bucket_entries b) \<Longrightarrow> bucket_nodes (put_value v j b) = bucket_nodes b"
  by (cases b rule: bucket_entries.cases) (auto simp: put_value_def bucket_nodes_def map_update intro!: list_update_same_conv [THEN iffD2] split: nat.split)

lemma put_value_keys:
  assumes "j < length (bucket_entries b)"
  shows "map fst (bucket_entries (put_value v j b)) = map fst (bucket_entries b)"
proof -
  have "(map fst (bucket_entries b))[j := fst (bucket_entries b ! j)] = map fst (bucket_entries b)"
    using assms by (simp add: list_update_same_conv)
  then show ?thesis by (simp add: put_value_entries [OF assms] map_update)
qed

lemma put_value_valid: "is_valid (put_value v j b) = is_valid b"
  by (cases b) (auto simp: put_value_def split: nat.split)

lemma put_value_ok:
  assumes "bucket_ok cfg n i b" and "j < length (bucket_entries b)"
  shows "bucket_ok cfg n i (put_value v j b)"
proof -
  have keys: "fst ` set (bucket_entries (put_value v j b)) = fst ` set (bucket_entries b)"
    using put_value_keys [OF assms(2), of v] by (metis set_map)
  have "flatmap_mod (mp_hash cfg (fst x)) n = i" if "x \<in> set (bucket_entries (put_value v j b))" for x
  proof -
    have "fst x \<in> fst ` set (bucket_entries b)" using that keys by (metis imageI)
    then show ?thesis using assms(1) by (auto simp: bucket_ok_def)
  qed
  then show ?thesis using assms by (auto simp: bucket_ok_def put_value_valid put_value_entries)
qed

text \<open>Assigning a value through a reference replaces the element.\<close>

lemma assign_value_inv:
  assumes "map_inv cfg cs m" and "points cs r (k, v0)"
  shows "\<exists>cs' m'. assign_value r v m = Inr m' \<and> map_inv cfg cs' m' \<and> length cs' = length cs \<and>
    add_mset (k, v0) (mset (entries cs')) = add_mset (k, v) (mset (entries cs))"
proof -
  obtain i j where r: "r = (i, j)" by (cases r)
  have i: "i < length cs" and j: "j < length (bucket_entries (cs ! i))" and x: "bucket_entries (cs ! i) ! j = (k, v0)"
    using assms(2) by (simp_all add: points_def r)
  let ?b = "put_value v j (cs ! i)"
  let ?m = "set_bucket i ?b m"
  note I = map_inv_simps [OF assms(1)] and P = map_inv_parts [OF assms(1)]
  have "assign_value r v m = Inr ?m"
    using element_at_points [OF assms] I(4) [OF i] by (simp add: assign_value_def r)
  moreover have "map_inv cfg (cs[i := ?b]) ?m"
  proof (rule map_inv_replace [OF assms(1) i put_value_ok [OF map_inv_bucket [OF assms(1) i] j]])
    show "distinct (used_nodes (cs[i := ?b])) \<and> pool_inv (set (used_nodes (cs[i := ?b]))) (fm_pool ?m)"
      using nodes_same [OF i put_value_nodes [OF j] P(1,2)] by (simp add: set_bucket_def)
    show "thumbnail_ok cfg (cs[i := ?b]) (fm_thumbnail ?m)"
      using thumbnail_same [OF i put_value_valid P(3)] by (simp add: set_bucket_def)
    show "distinct (map fst (entries (cs[i := ?b])))" if "\<not> mp_multi cfg"
      by (rule keys_same [OF i put_value_keys [OF j] P(4) [OF that]])
  qed (use i I(1) j in \<open>simp_all add: set_bucket_def list_update_append put_value_entries\<close>)
  moreover have "add_mset (k, v0) (mset (entries (cs[i := ?b]))) = add_mset (k, v) (mset (entries cs))"
  proof -
    have "(k, v0) \<in># mset (bucket_entries (cs ! i))" using nth_mem [OF j] x by simp
    then obtain M where M: "mset (bucket_entries (cs ! i)) = add_mset (k, v0) M" by (metis mset_add)
    then have "mset (bucket_entries ?b) = add_mset (k, v) M" using j x by (simp add: put_value_entries mset_update)
    then show ?thesis using mset_entries_update [OF i, of ?b] M by simp
  qed
  ultimately show ?thesis by (intro exI [of _ "cs[i := ?b]"] exI [of _ ?m]) simp
qed

section \<open>Lookup\<close>

lemma find_node_None: "find_node key ns j = None \<longleftrightarrow> (\<forall>n \<in> set ns. fst (snd n) \<noteq> key)"
  by (induction ns arbitrary: j) auto

lemma find_node_Some: "find_node key ns j = Some l \<Longrightarrow> j \<le> l \<and> l - j < length ns \<and> fst (snd (ns ! (l - j))) = key"
proof (induction ns arbitrary: j)
  case (Cons n ns)
  show ?case
  proof (cases "fst (snd n) = key")
    case True
    then show ?thesis using Cons.prems by simp
  next
    case False
    then have *: "Suc j \<le> l \<and> l - Suc j < length ns \<and> fst (snd (ns ! (l - Suc j))) = key" using Cons by simp
    then have "l - j = Suc (l - Suc j)" by linarith
    with * show ?thesis by simp
  qed
qed simp

lemma seek_bucket_ok:
  assumes "bucket_ok cfg n i b"
  shows "\<exists>r. seek_bucket key b = Inr r \<and> (case r of
      None \<Rightarrow> key \<notin> fst ` set (bucket_entries b)
    | Some j \<Rightarrow> j < length (bucket_entries b) \<and> fst (bucket_entries b ! j) = key)"
proof (cases rule: bucket_ok_cases [OF assms])
  case 1
  then show ?thesis by (simp add: seek_bucket_def)
next
  case (2 e nodes)
  show ?thesis
  proof (cases "fst e = key")
    case True
    then show ?thesis using 2 by (simp add: seek_bucket_def split_beta)
  next
    case False
    then have s: "seek_bucket key b = Inr (find_node key nodes 1)" using 2 by (simp add: seek_bucket_def split_beta)
    show ?thesis
    proof (cases "find_node key nodes 1")
      case None
      then show ?thesis using s 2 False find_node_None [of key nodes 1] by auto
    next
      case (Some j)
      then have "1 \<le> j" "j - 1 < length nodes" "fst (snd (nodes ! (j - 1))) = key" using find_node_Some [OF Some] by simp_all
      then show ?thesis using s 2 Some by (cases j) auto
    qed
  qed
qed

lemma key_in_bucket:
  assumes "map_inv cfg cs m"
  shows "key \<in> fst ` set (entries cs) \<longleftrightarrow> key \<in> fst ` set (bucket_entries (cs ! flatmap_mod (mp_hash cfg key) (length cs)))"
  using entries_in_bucket [OF assms, of key] bucket_in_entries [OF map_inv_index [OF assms, of "mp_hash cfg key"]] by force

lemma FlatMap_seek_inv:
  assumes "map_inv cfg cs m"
  shows "\<exists>r. FlatMap_seek cfg key m = Inr r \<and> (case r of
      None \<Rightarrow> key \<notin> fst ` set (entries cs)
    | Some p \<Rightarrow> \<exists>v. points cs p (key, v) \<and> (key, v) \<in> set (entries cs))"
proof -
  let ?i = "flatmap_mod (mp_hash cfg key) (length cs)"
  note I = map_inv_simps [OF assms]
  have i: "?i < length cs" by (rule map_inv_index [OF assms])
  obtain r where r: "seek_bucket key (cs ! ?i) = Inr r" "case r of
      None \<Rightarrow> key \<notin> fst ` set (bucket_entries (cs ! ?i))
    | Some j \<Rightarrow> j < length (bucket_entries (cs ! ?i)) \<and> fst (bucket_entries (cs ! ?i) ! j) = key"
    using seek_bucket_ok [OF map_inv_bucket [OF assms i], of key] by blast
  have "FlatMap_seek cfg key m = Inr (map_option (Pair ?i) r)" using I i r(1) by (simp add: FlatMap_seek_def)
  moreover have "\<exists>v. points cs (?i, j) (key, v) \<and> (key, v) \<in> set (entries cs)" if "r = Some j" for j
  proof -
    have j: "j < length (bucket_entries (cs ! ?i))" "fst (bucket_entries (cs ! ?i) ! j) = key" using r(2) that by simp_all
    then have "bucket_entries (cs ! ?i) ! j \<in> set (entries cs)" using bucket_in_entries [OF i] nth_mem by blast
    moreover obtain v where "bucket_entries (cs ! ?i) ! j = (key, v)" using j(2) by (metis prod.collapse)
    ultimately show ?thesis using j(1) i by (auto simp: points_def)
  qed
  ultimately show ?thesis using r(2) key_in_bucket [OF assms, of key] by (cases r) auto
qed

lemma find_nodes_entries: "map (\<lambda>j. snd (snd (ns ! (j - l)))) (find_nodes key ns l) = map snd (filter (\<lambda>x. fst x = key) (map snd ns))
    \<and> (\<forall>j \<in> set (find_nodes key ns l). l \<le> j \<and> j - l < length ns \<and> fst (snd (ns ! (j - l))) = key)"
proof (induction ns arbitrary: l)
  case (Cons n ns)
  have shift: "(n # ns) ! (j - l) = ns ! (j - Suc l)" "j - l < length (n # ns)" if "j \<in> set (find_nodes key ns (Suc l))" for j
  proof -
    have "j - l = Suc (j - Suc l)" "j - Suc l < length ns" using that Cons.IH [of "Suc l"] by (metis Suc_diff_Suc Suc_le_lessD, blast)
    then show "(n # ns) ! (j - l) = ns ! (j - Suc l)" "j - l < length (n # ns)" by simp_all
  qed
  then have m: "map (\<lambda>j. snd (snd ((n # ns) ! (j - l)))) (find_nodes key ns (Suc l)) = map snd (filter (\<lambda>x. fst x = key) (map snd ns))"
    using Cons.IH [of "Suc l"] by (metis (no_types, lifting) map_cong)
  show ?case using Cons.IH [of "Suc l"] shift m by (auto simp: Suc_leD)
qed simp

text \<open>\<^verbatim>\<open>seek_all\<close> finds the values of the key, in the order of their bucket.\<close>

lemma FlatMap_seek_all_inv:
  assumes "map_inv cfg cs m"
  shows "\<exists>rs vs. FlatMap_seek_all cfg key m = Inr rs \<and> list_all2 (\<lambda>r v. points cs r (key, v)) rs vs \<and>
    map (Pair key) vs = filter (\<lambda>x. fst x = key) (entries cs)"
proof -
  let ?i = "flatmap_mod (mp_hash cfg key) (length cs)"
  let ?xs = "bucket_entries (cs ! ?i)"
  note I = map_inv_simps [OF assms]
  have i: "?i < length cs" by (rule map_inv_index [OF assms])
  have "\<exists>js. FlatMap_seek_all cfg key m = Inr (map (Pair ?i) js) \<and> (\<forall>j \<in> set js. j < length ?xs \<and> fst (?xs ! j) = key) \<and>
      map (\<lambda>j. snd (?xs ! j)) js = map snd (filter (\<lambda>x. fst x = key) ?xs)"
  proof (cases rule: bucket_ok_cases [OF map_inv_bucket [OF assms i]])
    case 1
    then show ?thesis using I i by (simp add: FlatMap_seek_all_def)
  next
    case (2 e nodes)
    let ?js = "(if fst e = key then [0] else []) @ find_nodes key nodes 1"
    have "FlatMap_seek_all cfg key m = Inr (map (Pair ?i) ?js)" using I i 2 by (simp add: FlatMap_seek_all_def split_beta Let_def)
    moreover have n: "?xs ! j = snd (nodes ! (j - 1))" "j < length ?xs" "fst (?xs ! j) = key" if "j \<in> set (find_nodes key nodes 1)" for j
      using that find_nodes_entries [of nodes 1 key] 2 by (cases j; auto)+
    moreover have "map (\<lambda>j. snd (?xs ! j)) (find_nodes key nodes 1) = map snd (filter (\<lambda>x. fst x = key) (map snd nodes))"
      using find_nodes_entries [of nodes 1 key] n(1) by (metis (no_types, lifting) map_cong)
    ultimately show ?thesis using 2 by (intro exI [of _ ?js]) auto
  qed
  then obtain js where js: "FlatMap_seek_all cfg key m = Inr (map (Pair ?i) js)" "\<forall>j \<in> set js. j < length ?xs \<and> fst (?xs ! j) = key"
      "map (\<lambda>j. snd (?xs ! j)) js = map snd (filter (\<lambda>x. fst x = key) ?xs)" by blast
  have "points cs (?i, j) (key, snd (?xs ! j))" if "j \<in> set js" for j
    using js(2) that i by (auto simp: points_def prod_eq_iff)
  then have "list_all2 (\<lambda>r v. points cs r (key, v)) (map (Pair ?i) js) (map (\<lambda>j. snd (?xs ! j)) js)"
    by (simp add: list.rel_map list.rel_refl_strong)
  moreover have "map (Pair key) (map snd (filter (\<lambda>x. fst x = key) ys)) = filter (\<lambda>x. fst x = key) ys" for ys :: "('a \<times> 'b) list"
    by (induction ys) auto
  ultimately show ?thesis
    using js(1,3) filter_entries [OF assms, of key] by (intro exI [of _ "map (Pair ?i) js"] exI [of _ "map (\<lambda>j. snd (?xs ! j)) js"]) simp
qed

section \<open>New nodes\<close>

lemma NITEM_pos: "0 < NITEM item_size 1024 16"
  by (auto simp: NITEM_def INUSE_SIZE_def sizeof_Node_def div_greater_zero_iff)

lemma map_pool_get_inv:
  assumes "params_ok cfg" and "pool_inv used (fm_pool m)"
  shows "\<exists>n p. map_pool_get cfg m = Inr (n, m\<lparr>fm_pool := p\<rparr>) \<and> n \<notin> used \<and> pool_inv (insert n used) p"
proof -
  have "mp_malloc_ok cfg (BLOCK_SIZE (mp_bucket_size cfg) 1024 16)" using assms(1) by (simp add: params_ok_def)
  from pool_get_inv [OF assms(2) this NITEM_pos [of "mp_bucket_size cfg"]] show ?thesis by (auto simp: map_pool_get_def)
qed

text \<open>A new bucket whose elements are those of the old one and one for \<open>key\<close>.\<close>

lemma keys_added:
  assumes "i < length cs" and "mset (bucket_entries b) = add_mset (key, d) (mset (bucket_entries (cs ! i)))"
    and "distinct (map fst (entries cs))" and "key \<notin> fst ` set (entries cs)"
  shows "distinct (map fst (entries (cs[i := b])))"
proof -
  have "mset (entries (cs[i := b])) = mset ((key, d) # entries cs)" using mset_entries_update [OF assms(1), of b] assms(2) by simp
  then have "mset (map fst (entries (cs[i := b]))) = mset (map fst ((key, d) # entries cs))" by (metis mset_map)
  then show ?thesis using assms(3,4) mset_eq_imp_distinct_iff by fastforce
qed

lemma bucket_ok_add:
  assumes "bucket_ok cfg n i b" and "mset (bucket_entries b') = add_mset (key, d) (mset (bucket_entries b))" and "flatmap_mod (mp_hash cfg key) n = i"
  shows "bucket_ok cfg n i b'"
proof -
  have "set (bucket_entries b') = insert (key, d) (set (bucket_entries b))" using assms(2) by (metis set_mset_add_mset_insert set_mset_mset)
  then show ?thesis using assms(1,3) by (auto simp: bucket_ok_def)
qed

text \<open>What a call of \<^verbatim>\<open>operator[]\<close> that adds an element returns.\<close>

definition added :: "('k, 'v) map_params \<Rightarrow> 'k \<Rightarrow> ('k, 'v) Bucket list \<Rightarrow> (node_ref \<times> ('k, 'v) FlatMap) result \<Rightarrow> bool" where
  "added cfg key cs res \<longleftrightarrow> (\<exists>r m' cs'. res = Inr (r, m') \<and> map_inv cfg cs' m' \<and> length cs \<le> length cs' \<and>
    points cs' r (key, mp_default cfg) \<and> mset (entries cs') = add_mset (key, mp_default cfg) (mset (entries cs)))"

lemma addedI:
  assumes "map_inv cfg (cs[i := b]) m'" and "i < length cs" and "j < length (bucket_entries b)" and "bucket_entries b ! j = (key, mp_default cfg)"
    and "mset (bucket_entries b) = add_mset (key, mp_default cfg) (mset (bucket_entries (cs ! i)))"
  shows "added cfg key cs (Inr ((i, j), m'))"
proof -
  have "mset (entries (cs[i := b])) = add_mset (key, mp_default cfg) (mset (entries cs))"
    using mset_entries_update [OF assms(2), of b] assms(5) by simp
  then show ?thesis using assms unfolding added_def by (intro exI [of _ "(i, j)"] exI [of _ m'] exI [of _ "cs[i := b]"]) (simp add: points_def)
qed

lemma construct_first_inv:
  assumes "map_inv cfg cs m" and "i = flatmap_mod (mp_hash cfg key) (length cs)" and "cs ! i = Invalid" and "\<not> mp_multi cfg \<Longrightarrow> key \<notin> fst ` set (entries cs)"
  shows "added cfg key cs (construct_first cfg i key m)"
proof -
  let ?b = "Valid (Some (key, mp_default cfg)) []"
  note I = map_inv_simps [OF assms(1)] and P = map_inv_parts [OF assms(1)]
  have i: "i < length cs" using map_inv_index [OF assms(1)] assms(2) by simp
  have add: "mset (bucket_entries ?b) = add_mset (key, mp_default cfg) (mset (bucket_entries (cs ! i)))" by (simp add: assms(3))
  obtain t where t: "thumbnail_op cfg (\<lambda>t. bit_array_set t i) (m\<lparr>fm_size := fm_size m + 1\<rparr>) = Inr (m\<lparr>fm_size := fm_size m + 1, fm_thumbnail := t\<rparr>)"
      "thumbnail_ok cfg (cs[i := ?b]) t"
    using thumbnail_set [OF i, of ?b cfg "m\<lparr>fm_size := fm_size m + 1\<rparr>"] P(3) by auto
  let ?m = "set_bucket i ?b (m\<lparr>fm_size := fm_size m + 1, fm_thumbnail := t\<rparr>)"
  have "map_inv cfg (cs[i := ?b]) ?m"
  proof (rule map_inv_replace [OF assms(1) i bucket_ok_add [OF map_inv_bucket [OF assms(1) i] add assms(2) [symmetric]]])
    show "distinct (used_nodes (cs[i := ?b])) \<and> pool_inv (set (used_nodes (cs[i := ?b]))) (fm_pool ?m)"
      using nodes_same [OF i _ P(1,2), of ?b] assms(3) by (simp add: set_bucket_def bucket_nodes_def)
    show "distinct (map fst (entries (cs[i := ?b])))" if "\<not> mp_multi cfg"
      by (rule keys_added [OF i add P(4) [OF that] assms(4) [OF that]])
  qed (use t(2) I(1) i assms(3) in \<open>simp_all add: set_bucket_def list_update_append\<close>)
  from addedI [OF this i _ _ add, of 0] show ?thesis using t(1) by (simp add: construct_first_def)
qed

lemma new_node_inv:
  assumes "map_inv cfg cs m" and "params_ok cfg" and "i = flatmap_mod (mp_hash cfg key) (length cs)" and "cs ! i = Valid (Some e) nodes"
    and "\<not> mp_multi cfg \<Longrightarrow> key \<notin> fst ` set (entries cs)"
  shows "added cfg key cs (append_node cfg i key (Some e) nodes m)" "added cfg key cs (prepend_node cfg i key (Some e) nodes m)"
proof -
  note I = map_inv_simps [OF assms(1)] and P = map_inv_parts [OF assms(1)]
  have i: "i < length cs" using map_inv_index [OF assms(1)] assms(3) by simp
  let ?m1 = "m\<lparr>fm_size := fm_size m + 1\<rparr>"
  obtain n p where np: "map_pool_get cfg ?m1 = Inr (n, ?m1\<lparr>fm_pool := p\<rparr>)" "n \<notin> set (used_nodes cs)" "pool_inv (insert n (set (used_nodes cs))) p"
    using map_pool_get_inv [OF assms(2), of "set (used_nodes cs)" ?m1] P(2) by auto
  have inv: "map_inv cfg (cs[i := Valid (Some e) ns]) (set_bucket i (Valid (Some e) ns) (?m1\<lparr>fm_pool := p\<rparr>))"
    and add: "mset (bucket_entries (Valid (Some e) ns)) = add_mset (key, mp_default cfg) (mset (bucket_entries (cs ! i)))"
    if ns: "mset ns = add_mset (n, key, mp_default cfg) (mset nodes)" for ns
  proof -
    let ?b = "Valid (Some e) ns"
    show add: "mset (bucket_entries ?b) = add_mset (key, mp_default cfg) (mset (bucket_entries (cs ! i)))" using ns assms(4) by simp
    have len: "length ns = Suc (length nodes)" using ns by (metis size_add_mset size_mset)
    show "map_inv cfg (cs[i := ?b]) (set_bucket i ?b (?m1\<lparr>fm_pool := p\<rparr>))"
    proof (rule map_inv_replace [OF assms(1) i bucket_ok_add [OF map_inv_bucket [OF assms(1) i] add assms(3) [symmetric]]])
      show "distinct (used_nodes (cs[i := ?b])) \<and> pool_inv (set (used_nodes (cs[i := ?b]))) (fm_pool (set_bucket i ?b (?m1\<lparr>fm_pool := p\<rparr>)))"
        using nodes_added [OF i _ P(1) np(2,3), of ?b] ns assms(4) by (simp add: set_bucket_def bucket_nodes_def)
      show "thumbnail_ok cfg (cs[i := ?b]) (fm_thumbnail (set_bucket i ?b (?m1\<lparr>fm_pool := p\<rparr>)))"
        using thumbnail_same [OF i _ P(3), of ?b] assms(4) by (simp add: set_bucket_def)
      show "distinct (map fst (entries (cs[i := ?b])))" if "\<not> mp_multi cfg"
        by (rule keys_added [OF i add P(4) [OF that] assms(5) [OF that]])
    qed (use I(1) i assms(4) len in \<open>simp_all add: set_bucket_def list_update_append\<close>)
  qed
  show "added cfg key cs (append_node cfg i key (Some e) nodes m)"
    using addedI [OF inv i _ _ add, of "nodes @ [(n, key, mp_default cfg)]" "length nodes + 1"] np(1)
    by (simp add: append_node_def nth_append)
  show "added cfg key cs (prepend_node cfg i key (Some e) nodes m)"
    using addedI [OF inv i _ _ add, of "(n, key, mp_default cfg) # nodes" 1] np(1)
    by (simp add: prepend_node_def)
qed

section \<open>Clearing\<close>

lemma back_nodes_inv:
  "pool_inv used p \<Longrightarrow> distinct (map fst ns) \<Longrightarrow> fst ` set ns \<subseteq> used \<Longrightarrow> pool_inv (used - fst ` set ns) (back_nodes ns p)"
proof (induction ns arbitrary: used p)
  case (Cons n ns)
  have "pool_inv (used - {fst n} - fst ` set ns) (back_nodes ns (pool_back (Some (fst n)) p))"
    using Cons.prems by (intro Cons.IH pool_back_inv) (simp_all add: subset_Diff_insert)
  moreover have "used - {fst n} - fst ` set ns = used - fst ` set (n # ns)" by auto
  ultimately show ?case by simp
qed simp

lemma used_nodes_Cons: "used_nodes (b # cs) = bucket_nodes b @ used_nodes cs"
  by (simp add: used_nodes_def)

lemma clear_loop_inv:
  "pool_inv used p \<Longrightarrow> distinct (used_nodes cs) \<Longrightarrow> set (used_nodes cs) \<subseteq> used \<Longrightarrow> (\<And>b. b \<in> set cs \<Longrightarrow> is_valid b \<Longrightarrow> bucket_entries b \<noteq> []) \<Longrightarrow>
    \<exists>p'. clear_loop (length cs) (cs @ bs) p = Inr (replicate (length cs) Invalid @ bs, p') \<and> pool_inv (used - set (used_nodes cs)) p'"
proof (induction cs arbitrary: used p)
  case Nil
  then show ?case by (simp add: used_nodes_def)
next
  case (Cons b cs)
  have tail: "distinct (used_nodes cs)" "set (used_nodes cs) \<subseteq> used - set (bucket_nodes b)" "distinct (bucket_nodes b)" "set (bucket_nodes b) \<subseteq> used"
    using Cons.prems(2,3) by (auto simp: used_nodes_Cons)
  have minus: "used - set (bucket_nodes b) - set (used_nodes cs) = used - set (used_nodes (b # cs))"
    by (auto simp: used_nodes_Cons)
  have ok: "is_valid c \<Longrightarrow> bucket_entries c \<noteq> []" if "c \<in> set cs" for c using Cons.prems(4) [of c] that by simp
  show ?case
  proof (cases b rule: bucket_entries.cases)
    case (1 e nodes)
    have "pool_inv (used - set (bucket_nodes b)) (back_nodes nodes p)"
      using back_nodes_inv [OF Cons.prems(1), of nodes] tail(3,4) by (simp add: 1 bucket_nodes_def)
    from Cons.IH [OF this tail(1,2) ok] show ?thesis unfolding minus using 1 by auto
  next
    case "2_1"
    then have "pool_inv (used - set (bucket_nodes b)) p" using Cons.prems(1) by (simp add: bucket_nodes_def)
    from Cons.IH [OF this tail(1,2) ok] show ?thesis unfolding minus using "2_1" by auto
  next
    case "2_2"
    then show ?thesis using Cons.prems(4) [of b] by simp
  qed
qed

lemma entries_Invalid [simp]: "entries (replicate n Invalid) = []" "used_nodes (replicate n Invalid) = []"
  by (simp_all add: entries_def used_nodes_def bucket_nodes_def)

lemma bit_array_clear_thumbnail:
  assumes "thumbnail_ok cfg cs (Some t)"
  shows "\<exists>t'. bit_array_clear t (length cs) = Inr t' \<and> thumbnail_ok cfg (replicate (length cs) Invalid) (Some t')"
proof -
  have t: "mp_sparse cfg" "length cs mod 64 = 0" "length cs \<le> 64 * length t" using assms by (auto simp: thumbnail_ok_def split: if_splits)
  from bit_array_clear_abit [OF t(3)] obtain t' where t': "bit_array_clear t (length cs) = Inr t'" "length t' = length t"
      "\<forall>j. j div 64 < length t \<longrightarrow> abit t' j = (length cs \<le> j \<and> abit t j)" by blast
  have "\<not> abit t' j" if "j < length cs" for j using t'(3) bit_in_word [OF that t(3)] that by simp
  then show ?thesis using t t' by (auto simp: thumbnail_ok_def)
qed

lemma map_inv_Invalid:
  assumes "map_inv cfg cs m" and "fm_size m' = 0" and "fm_nbucket m' = fm_nbucket m" and "fm_load_factor m' = fm_load_factor m"
    and "fm_buckets m' = Some (replicate (length cs) Invalid @ [Valid None []])" and "pool_inv {} (fm_pool m')"
    and "thumbnail_ok cfg (replicate (length cs) Invalid) (fm_thumbnail m')"
  shows "map_inv cfg (replicate (length cs) Invalid) m'"
  using assms by (simp add: map_inv_def bucket_ok_def)

lemma entries_empty:
  assumes "map_inv cfg cs m" and "entries cs = []"
  shows "cs = replicate (length cs) Invalid"
proof (rule replicate_eqI)
  fix b
  assume "b \<in> set cs"
  then obtain i where i: "i < length cs" "b = cs ! i" by (auto simp: in_set_conv_nth)
  then have "bucket_entries b = []" using assms(2) by (auto simp: entries_def)
  then have "\<not> is_valid b" using map_inv_bucket [OF assms(1) i(1)] i(2) by (simp add: bucket_ok_def)
  then show "b = Invalid" by (cases b) simp_all
qed simp

lemma FlatMap_clear_inv:
  assumes "map_inv cfg cs m"
  shows "\<exists>m'. FlatMap_clear m = Inr m' \<and> map_inv cfg (replicate (length cs) Invalid) m'"
proof (cases "fm_size m = 0")
  case True
  then show ?thesis using entries_empty [OF assms] assms map_inv_simps(7) [OF assms] by (simp add: FlatMap_clear_def)
next
  case False
  note I = map_inv_simps [OF assms] and P = map_inv_parts [OF assms]
  have "is_valid b \<Longrightarrow> bucket_entries b \<noteq> []" if "b \<in> set cs" for b
    using that map_inv_bucket [OF assms] by (auto simp: in_set_conv_nth bucket_ok_def)
  from clear_loop_inv [OF P(2,1) subset_refl this, of "[Valid None []]"]
  obtain p' where p': "clear_loop (length cs) (cs @ [Valid None []]) (fm_pool m) = Inr (replicate (length cs) Invalid @ [Valid None []], p')"
      "pool_inv {} p'" by auto
  let ?m = "m\<lparr>fm_size := 0, fm_buckets := Some (replicate (length cs) Invalid @ [Valid None []]), fm_pool := p'\<rparr>"
  show ?thesis
  proof (cases "fm_thumbnail m")
    case None
    then have "thumbnail_ok cfg (replicate (length cs) Invalid) None" using P(3) by (simp add: thumbnail_ok_def split: if_splits)
    then have "map_inv cfg (replicate (length cs) Invalid) ?m" using p'(2) None by (intro map_inv_Invalid [OF assms]) simp_all
    then show ?thesis using False None I p'(1) by (simp add: FlatMap_clear_def)
  next
    case (Some t)
    then obtain t' where t': "bit_array_clear t (length cs) = Inr t'" "thumbnail_ok cfg (replicate (length cs) Invalid) (Some t')"
      using bit_array_clear_thumbnail P(3) by metis
    then have "map_inv cfg (replicate (length cs) Invalid) (?m\<lparr>fm_thumbnail := Some t'\<rparr>)" using p'(2) by (intro map_inv_Invalid [OF assms]) simp_all
    then show ?thesis using False Some I p'(1) t'(1) by (simp add: FlatMap_clear_def)
  qed
qed

lemma FlatMap_destroy_inv: "map_inv cfg cs m \<Longrightarrow> \<exists>m'. FlatMap_destroy m = Inr m'"
  using FlatMap_clear_inv by (fastforce simp: FlatMap_destroy_def)

lemma FlatMap_clear_and_reset_pool_inv:
  assumes "map_inv cfg cs m"
  shows "\<exists>m'. FlatMap_clear_and_reset_pool m = Inr m' \<and> map_inv cfg (replicate (length cs) Invalid) m'"
proof -
  obtain m' where m': "FlatMap_clear m = Inr m'" "map_inv cfg (replicate (length cs) Invalid) m'" using FlatMap_clear_inv [OF assms] by blast
  have "map_inv cfg (replicate (length cs) Invalid) (m'\<lparr>fm_pool := snd (pool_reset (fm_pool m'))\<rparr>)"
    using m'(2) pool_reset_inv [of "fm_pool m'"] by (simp add: map_inv_def)
  with m'(1) show ?thesis by (simp add: FlatMap_clear_and_reset_pool_def)
qed

section \<open>Erasing\<close>

lemma keys_subset:
  assumes "mset (entries cs') \<subseteq># mset (entries cs)" and "distinct (map fst (entries cs))"
  shows "distinct (map fst (entries cs'))"
proof -
  obtain ys where "mset (entries cs) = mset (entries cs' @ ys)" using assms(1) by (metis ex_mset mset_append mset_subset_eq_exists_conv)
  then have "mset (map fst (entries cs)) = mset (map fst (entries cs' @ ys))" by (metis mset_map)
  then have "distinct (map fst (entries cs' @ ys))" using assms(2) mset_eq_imp_distinct_iff by blast
  then show ?thesis by simp
qed

lemma entries_update_subset:
  assumes "i < length cs" and "mset (bucket_entries b) \<subseteq># mset (bucket_entries (cs ! i))"
  shows "mset (entries (cs[i := b])) \<subseteq># mset (entries cs)"
proof -
  have "mset (entries (cs[i := b])) + mset (bucket_entries (cs ! i)) \<subseteq># mset (entries cs) + mset (bucket_entries (cs ! i))"
    using mset_entries_update [OF assms(1), of b] assms(2) by simp
  then show ?thesis by simp
qed

lemma bucket_ok_subset:
  assumes "bucket_ok cfg n i b" and "mset (bucket_entries b') \<subseteq># mset (bucket_entries b)" and "is_valid b' \<Longrightarrow> bucket_entries b' \<noteq> []"
  shows "bucket_ok cfg n i b'"
  using assms set_mset_mono [OF assms(2)] by (auto simp: bucket_ok_def)

text \<open>A bucket is replaced by one with some of its elements: it keeps one node in the array, or is made invalid.\<close>

lemma shrink_inv:
  assumes "map_inv cfg cs m" and "i < length cs" and "mset (bucket_entries b) \<subseteq># mset (bucket_entries (cs ! i))"
    and "is_valid b \<Longrightarrow> bucket_entries b \<noteq> []"
    and "fm_size m' + length (bucket_entries (cs ! i)) = fm_size m + length (bucket_entries b)"
    and "distinct (used_nodes (cs[i := b])) \<and> pool_inv (set (used_nodes (cs[i := b]))) (fm_pool m')"
    and "thumbnail_ok cfg (cs[i := b]) (fm_thumbnail m')"
    and "fm_buckets m' = Some (cs[i := b] @ [Valid None []])" and "fm_nbucket m' = fm_nbucket m" and "fm_load_factor m' = fm_load_factor m"
  shows "map_inv cfg (cs[i := b]) m'"
  using assms map_inv_parts(4) [OF assms(1)] keys_subset [OF entries_update_subset [OF assms(2,3)]]
  by (intro map_inv_replace [OF assms(1,2) bucket_ok_subset [OF map_inv_bucket [OF assms(1,2)] assms(3,4)]]) simp_all

text \<open>A node other than the one in the array goes back to the pool.\<close>

lemma remove_node_inv:
  assumes "map_inv cfg cs m" and "i < length cs" and "mset (bucket_entries (cs ! i)) = add_mset x (mset (bucket_entries b))"
    and "mset (bucket_nodes (cs ! i)) = add_mset n (mset (bucket_nodes b))" and "is_valid b" and "bucket_entries b \<noteq> []" and "is_valid (cs ! i)"
    and "m' = (map_pool_back n (set_bucket i b m))\<lparr>fm_size := fm_size m - 1\<rparr>"
  shows "map_inv cfg (cs[i := b]) m' \<and> mset (entries cs) = add_mset x (mset (entries (cs[i := b])))"
proof
  note I = map_inv_simps [OF assms(1)] and P = map_inv_parts [OF assms(1)]
  have len: "length (bucket_entries (cs ! i)) = Suc (length (bucket_entries b))" using assms(3) by (metis size_add_mset size_mset)
  have pos: "0 < fm_size m" using I(7) assms(3) bucket_in_entries [OF assms(2)] by (metis empty_iff length_greater_0_conv list.set(1) set_mset_mset subset_iff union_single_eq_member)
  show "map_inv cfg (cs[i := b]) m'"
  proof (rule shrink_inv [OF assms(1,2)])
    show "distinct (used_nodes (cs[i := b])) \<and> pool_inv (set (used_nodes (cs[i := b]))) (fm_pool m')"
      using nodes_removed [OF assms(2,4) P(1,2)] assms(8) by (simp add: map_pool_back_def set_bucket_def)
    show "thumbnail_ok cfg (cs[i := b]) (fm_thumbnail m')"
      using thumbnail_same [OF assms(2) _ P(3), of b] assms(5,7,8) by (simp add: map_pool_back_def set_bucket_def)
  qed (use assms(2,3,6,8) I(1) len pos in \<open>simp_all add: map_pool_back_def set_bucket_def list_update_append\<close>)
  show "mset (entries cs) = add_mset x (mset (entries (cs[i := b])))"
    using mset_entries_update [OF assms(2), of b] assms(3) by simp
qed

text \<open>The last element of a bucket is erased.\<close>

lemma remove_last_inv:
  assumes "map_inv cfg cs m" and "i < length cs" and "bucket_entries (cs ! i) = [x]" and "bucket_nodes (cs ! i) = []"
  shows "\<exists>m'. thumbnail_op cfg (\<lambda>t. bit_array_unset t i) (set_bucket i Invalid m) = Inr m' \<and>
    map_inv cfg (cs[i := Invalid]) (m'\<lparr>fm_size := fm_size m' - 1\<rparr>) \<and> mset (entries cs) = add_mset x (mset (entries (cs[i := Invalid])))"
proof -
  note I = map_inv_simps [OF assms(1)] and P = map_inv_parts [OF assms(1)]
  obtain t where t: "thumbnail_op cfg (\<lambda>t. bit_array_unset t i) (set_bucket i Invalid m) = Inr ((set_bucket i Invalid m)\<lparr>fm_thumbnail := t\<rparr>)"
      "thumbnail_ok cfg (cs[i := Invalid]) t"
    using thumbnail_unset [OF assms(2), of cfg "set_bucket i Invalid m"] P(3) by (auto simp: set_bucket_def)
  let ?m = "(set_bucket i Invalid m)\<lparr>fm_thumbnail := t\<rparr>"
  have e: "mset (entries cs) = add_mset x (mset (entries (cs[i := Invalid])))" using mset_entries_update [OF assms(2), of Invalid] assms(3) by simp
  have pos: "0 < fm_size m" using I(7) arg_cong [OF e, of size] by simp
  have "map_inv cfg (cs[i := Invalid]) (?m\<lparr>fm_size := fm_size ?m - 1\<rparr>)"
  proof (rule shrink_inv [OF assms(1,2)])
    show "distinct (used_nodes (cs[i := Invalid])) \<and> pool_inv (set (used_nodes (cs[i := Invalid]))) (fm_pool (?m\<lparr>fm_size := fm_size ?m - 1\<rparr>))"
      using nodes_same [OF assms(2) _ P(1,2), of Invalid] assms(4) by (simp add: set_bucket_def bucket_nodes_def)
  qed (use assms(2,3) I(1) pos t(2) in \<open>simp_all add: set_bucket_def list_update_append\<close>)
  with t(1) e show ?thesis by simp
qed

lemma remove_chain_node_inv:
  assumes "map_inv cfg cs m" and "i < length cs" and "cs ! i = Valid (Some e) nodes" and "j < length nodes"
  shows "map_inv cfg (cs[i := Valid (Some e) (take j nodes @ drop (j + 1) nodes)])
      ((map_pool_back (fst (nodes ! j)) (set_bucket i (Valid (Some e) (take j nodes @ drop (j + 1) nodes)) m))\<lparr>fm_size := fm_size m - 1\<rparr>) \<and>
    mset (entries cs) = add_mset (snd (nodes ! j)) (mset (entries (cs[i := Valid (Some e) (take j nodes @ drop (j + 1) nodes)])))"
proof -
  let ?b = "Valid (Some e) (take j nodes @ drop (j + 1) nodes)"
  have split: "mset nodes = add_mset (nodes ! j) (mset (take j nodes @ drop (j + 1) nodes))"
    using arg_cong [OF id_take_nth_drop [OF assms(4)], of mset] by simp
  have "mset (bucket_entries (cs ! i)) = add_mset (snd (nodes ! j)) (mset (bucket_entries ?b))"
    "mset (bucket_nodes (cs ! i)) = add_mset (fst (nodes ! j)) (mset (bucket_nodes ?b))"
    using assms(3) arg_cong [OF split, of "image_mset snd"] arg_cong [OF split, of "image_mset fst"] by (simp_all add: bucket_nodes_def)
  then show ?thesis using assms(3) by (intro remove_node_inv [OF assms(1,2)]) simp_all
qed

lemma FlatMap_erase_inv:
  assumes "map_inv cfg cs m"
  shows "(key \<notin> fst ` set (entries cs) \<and> FlatMap_erase cfg key m = Inr (0, None, m)) \<or>
    (\<exists>v cs' m'. FlatMap_erase cfg key m = Inr (1, Some v, m') \<and> map_inv cfg cs' m' \<and> mset (entries cs) = add_mset (key, v) (mset (entries cs')))"
proof -
  let ?i = "flatmap_mod (mp_hash cfg key) (length cs)"
  note I = map_inv_simps [OF assms]
  have i: "?i < length cs" by (rule map_inv_index [OF assms])
  show ?thesis
  proof (cases rule: bucket_ok_cases [OF map_inv_bucket [OF assms i]])
    case 1
    then show ?thesis using I i key_in_bucket [OF assms, of key] by (simp add: FlatMap_erase_def)
  next
    case (2 e nodes)
    obtain k v where e: "e = (k, v)" by (cases e)
    note erase = FlatMap_erase_def [of cfg key m] I(2,3) I(4) [OF i] 2(1) e Let_def
    consider "k = key" "nodes = []" | p ps where "k = key" "nodes = p # ps" | "k \<noteq> key" "find_node key nodes 0 = None"
      | j where "k \<noteq> key" "find_node key nodes 0 = Some j" by (metis list.exhaust option.exhaust)
    then show ?thesis
    proof cases
      case 1
      from remove_last_inv [OF assms i, of "(key, v)"] 2 e 1 obtain m' where m':
          "thumbnail_op cfg (\<lambda>t. bit_array_unset t ?i) (set_bucket ?i Invalid m) = Inr m'"
          "map_inv cfg (cs[?i := Invalid]) (m'\<lparr>fm_size := fm_size m' - 1\<rparr>)" "mset (entries cs) = add_mset (key, v) (mset (entries (cs[?i := Invalid])))"
        by (auto simp: bucket_nodes_def)
      have "FlatMap_erase cfg key m = Inr (1, Some v, m'\<lparr>fm_size := fm_size m' - 1\<rparr>)" using 1 m'(1) by (simp add: erase)
      with m'(2,3) show ?thesis by blast
    next
      case (2 p ps)
      let ?m = "(map_pool_back (fst p) (set_bucket ?i (Valid (Some (snd p)) ps) m))\<lparr>fm_size := fm_size m - 1\<rparr>"
      have r: "FlatMap_erase cfg key m = Inr (1, Some v, ?m)" using 2 by (simp add: erase map_pool_back_def set_bucket_def)
      have "map_inv cfg (cs[?i := Valid (Some (snd p)) ps]) ?m \<and> mset (entries cs) = add_mset (key, v) (mset (entries (cs[?i := Valid (Some (snd p)) ps])))"
        using 2 \<open>cs ! ?i = Valid (Some e) nodes\<close> e by (intro remove_node_inv [OF assms i, where n = "fst p"]) (simp_all add: bucket_nodes_def)
      with r show ?thesis by blast
    next
      case 3
      have "key \<notin> fst ` set (entries cs)" using 3 \<open>cs ! ?i = Valid (Some e) nodes\<close> e key_in_bucket [OF assms, of key] find_node_None [of key nodes 0] by auto
      moreover have "FlatMap_erase cfg key m = Inr (0, None, m)" using 3 by (simp add: erase)
      ultimately show ?thesis by simp
    next
      case (4 j)
      have j: "j < length nodes" "fst (snd (nodes ! j)) = key" using find_node_Some [OF 4(2)] by simp_all
      let ?b = "Valid (Some e) (take j nodes @ drop (j + 1) nodes)"
      let ?m = "(map_pool_back (fst (nodes ! j)) (set_bucket ?i ?b m))\<lparr>fm_size := fm_size m - 1\<rparr>"
      have x: "snd (nodes ! j) = (key, snd (snd (nodes ! j)))" using j(2) by (metis prod.collapse)
      have r: "FlatMap_erase cfg key m = Inr (1, Some (snd (snd (nodes ! j))), ?m)" using 4 by (simp add: erase map_pool_back_def set_bucket_def)
      have "map_inv cfg (cs[?i := ?b]) ?m \<and> mset (entries cs) = add_mset (snd (nodes ! j)) (mset (entries (cs[?i := ?b])))"
        by (rule remove_chain_node_inv [OF assms i \<open>cs ! ?i = Valid (Some e) nodes\<close> j(1)])
      with r x show ?thesis by metis
    qed
  qed
qed

text \<open>Erasing all elements of a key from a multi-map.\<close>

lemma erase_nodes_eq:
  "pool_inv used p \<Longrightarrow> distinct (map fst ns) \<Longrightarrow> fst ` set ns \<subseteq> used \<Longrightarrow>
    \<exists>p'. erase_nodes key ns p = (map (snd \<circ> snd) (filter (\<lambda>n. fst (snd n) = key) ns), filter (\<lambda>n. fst (snd n) \<noteq> key) ns, p') \<and>
      pool_inv (used - fst ` set (filter (\<lambda>n. fst (snd n) = key) ns)) p'"
proof (induction ns arbitrary: used p)
  case (Cons n ns)
  show ?case
  proof (cases "fst (snd n) = key")
    case True
    have "pool_inv (used - {fst n}) (pool_back (Some (fst n)) p)" using Cons.prems by (intro pool_back_inv) simp_all
    moreover have "fst ` set ns \<subseteq> used - {fst n}" using Cons.prems by (simp add: subset_Diff_insert)
    moreover have "used - {fst n} - fst ` set (filter (\<lambda>n. fst (snd n) = key) ns) = used - fst ` set (filter (\<lambda>n. fst (snd n) = key) (n # ns))"
      using True by auto
    moreover have "distinct (map fst ns)" using Cons.prems(2) by simp
    ultimately obtain p' where "erase_nodes key ns (pool_back (Some (fst n)) p) =
          (map (snd \<circ> snd) (filter (\<lambda>n. fst (snd n) = key) ns), filter (\<lambda>n. fst (snd n) \<noteq> key) ns, p')"
        "pool_inv (used - fst ` set (filter (\<lambda>n. fst (snd n) = key) (n # ns))) p'"
      using Cons.IH by metis
    then show ?thesis using True by simp
  next
    case False
    have "distinct (map fst ns)" "fst ` set ns \<subseteq> used" using Cons.prems by simp_all
    from Cons.IH [OF Cons.prems(1) this] show ?thesis using False by auto
  qed
qed simp

lemma nodes_removed_many:
  assumes "i < length cs" and "mset (bucket_nodes (cs ! i)) = mset rs + mset (bucket_nodes b)" and "distinct (used_nodes cs)"
    and "pool_inv (set (used_nodes cs) - set rs) p"
  shows "distinct (used_nodes (cs[i := b])) \<and> pool_inv (set (used_nodes (cs[i := b]))) p"
proof -
  have "mset (rs @ used_nodes (cs[i := b])) = mset (used_nodes cs)"
    using mset_used_update [OF assms(1), of b] assms(2) by (simp add: add.commute)
  then have d: "distinct (rs @ used_nodes (cs[i := b]))" and s: "set (rs @ used_nodes (cs[i := b])) = set (used_nodes cs)"
    using assms(3) by (metis mset_eq_imp_distinct_iff, metis mset_eq_setD)
  have "set (used_nodes (cs[i := b])) = set (used_nodes cs) - set rs" using d s by auto
  then show ?thesis using d assms(4) by simp
qed

text \<open>A bucket keeps the elements with other keys, and the nodes \<open>rs\<close> go back to the pool.\<close>

lemma erase_multi_finish:
  assumes "map_inv cfg cs m" and "i = flatmap_mod (mp_hash cfg key) (length cs)"
    and "mset (bucket_entries b) = mset (filter (\<lambda>x. fst x \<noteq> key) (bucket_entries (cs ! i)))" and "is_valid b \<Longrightarrow> bucket_entries b \<noteq> []"
    and "thumbnail_ok cfg (cs[i := b]) t"
    and "mset (bucket_nodes (cs ! i)) = mset rs + mset (bucket_nodes b)" and "pool_inv (set (used_nodes cs) - set rs) p"
    and "n = length (filter (\<lambda>x. fst x = key) (bucket_entries (cs ! i)))"
  shows "map_inv cfg (cs[i := b]) ((set_bucket i b m)\<lparr>fm_pool := p, fm_size := fm_size m - n, fm_thumbnail := t\<rparr>)"
    "mset (entries (cs[i := b])) = filter_mset (\<lambda>x. fst x \<noteq> key) (mset (entries cs))"
proof -
  note I = map_inv_simps [OF assms(1)] and P = map_inv_parts [OF assms(1)]
  have i: "i < length cs" using map_inv_index [OF assms(1)] assms(2) by simp
  have len: "n + length (bucket_entries b) = length (bucket_entries (cs ! i))"
    using mset_eq_length [OF assms(3)] assms(8) sum_length_filter_compl [of "\<lambda>x. fst x = key" "bucket_entries (cs ! i)"] by simp
  have "n = length (filter (\<lambda>x. fst x = key) (entries cs))" using filter_entries [OF assms(1), of key] assms(2,8) by simp
  then have le: "n \<le> fm_size m" using I(7) by simp
  show "map_inv cfg (cs[i := b]) ((set_bucket i b m)\<lparr>fm_pool := p, fm_size := fm_size m - n, fm_thumbnail := t\<rparr>)"
    using assms(3-5) nodes_removed_many [OF i assms(6) P(1) assms(7)] I(1) i len le
    by (intro shrink_inv [OF assms(1) i]) (simp_all add: set_bucket_def list_update_append)
  let ?key = "filter_mset (\<lambda>x. fst x = key) (mset (bucket_entries (cs ! i)))" and ?other = "filter_mset (\<lambda>x. fst x \<noteq> key) (mset (bucket_entries (cs ! i)))"
  have "mset (entries (cs[i := b])) + (?key + ?other) = mset (entries cs) + ?other"
    using mset_entries_update [OF i, of b] assms(3) multiset_partition [of "mset (bucket_entries (cs ! i))" "\<lambda>x. fst x = key"] by (metis mset_filter)
  then have "mset (entries (cs[i := b])) + ?key = mset (entries cs)" by (simp only: add.assoc [symmetric] add_right_cancel)
  then have "mset (entries (cs[i := b])) + mset (filter (\<lambda>x. fst x = key) (entries cs)) = mset (entries cs)"
    using filter_entries [OF assms(1), of key] assms(2) by (metis mset_filter)
  then show "mset (entries (cs[i := b])) = filter_mset (\<lambda>x. fst x \<noteq> key) (mset (entries cs))"
    using multiset_partition [of "mset (entries cs)" "\<lambda>x. fst x = key"] by (metis add.commute add_left_cancel mset_filter)
qed

lemma erase_multi_valid:
  assumes "map_inv cfg cs m" and "mp_trivial cfg" and i_def: "i = flatmap_mod (mp_hash cfg key) (length cs)" and b: "cs ! i = Valid (Some (k, v)) nodes"
  shows "\<exists>b p t. FlatMap_erase_multi cfg key m =
      Inr (length (filter (\<lambda>x. fst x = key) (bucket_entries (cs ! i))), map snd (filter (\<lambda>x. fst x = key) (bucket_entries (cs ! i))),
        (set_bucket i b m)\<lparr>fm_pool := p, fm_size := fm_size m - length (filter (\<lambda>x. fst x = key) (bucket_entries (cs ! i))), fm_thumbnail := t\<rparr>) \<and>
    mset (bucket_entries b) = mset (filter (\<lambda>x. fst x \<noteq> key) (bucket_entries (cs ! i))) \<and> (is_valid b \<longrightarrow> bucket_entries b \<noteq> []) \<and>
    thumbnail_ok cfg (cs[i := b]) t \<and>
    (\<exists>rs. mset (bucket_nodes (cs ! i)) = mset rs + mset (bucket_nodes b) \<and> pool_inv (set (used_nodes cs) - set rs) p)"
    (is "\<exists>b p t. ?res b p t \<and> ?rest b p t")
proof -
  note I = map_inv_simps [OF assms(1)] and P = map_inv_parts [OF assms(1)]
  have i: "i < length cs" using map_inv_index [OF assms(1)] i_def by simp
  let ?gone = "filter (\<lambda>n. fst (snd n) = key) nodes" and ?kept = "filter (\<lambda>n. fst (snd n) \<noteq> key) nodes"
  have sub: "fst ` set nodes \<subseteq> set (used_nodes cs)" using used_in_bucket [OF i] b by (simp add: bucket_nodes_def)
  have dn: "distinct (map fst nodes)" using P(1) b split_list [OF nth_mem [OF i]] by (auto simp: used_nodes_def bucket_nodes_def)
  obtain p where p: "erase_nodes key nodes (fm_pool m) = (map (snd \<circ> snd) ?gone, ?kept, p)" "pool_inv (set (used_nodes cs) - fst ` set ?gone) p"
    using erase_nodes_eq [OF P(2) dn sub] by blast
  have part: "mset (map fst nodes) = mset (map fst ?gone) + mset (map fst ?kept)"
    by (induction nodes) simp_all
  have keys: "filter (\<lambda>x. fst x = key) (map snd nodes) = map snd ?gone" "filter (\<lambda>x. fst x \<noteq> key) (map snd nodes) = map snd ?kept"
    by (simp_all add: filter_map comp_def)
  note erase = FlatMap_erase_multi_def [of cfg key m] I(2,3) I(4) [OF i] i_def [symmetric] b p(1) Let_def keys set_bucket_def
  consider "k \<noteq> key" | "k = key" "?kept = []" | n ns where "k = key" "?kept = n # ns" by (metis list.exhaust)
  then show ?thesis
  proof cases
    case 1
    have "?res (Valid (Some (k, v)) ?kept) p (fm_thumbnail m)" using 1 by (simp add: erase)
    moreover have "?rest (Valid (Some (k, v)) ?kept) p (fm_thumbnail m)"
      using 1 b p(2) part thumbnail_same [OF i _ P(3)] by (intro conjI exI [of _ "map fst ?gone"]) (simp_all add: keys bucket_nodes_def)
    ultimately show ?thesis by blast
  next
    case 2
    let ?m1 = "set_bucket i Invalid (m\<lparr>fm_pool := p, fm_size := fm_size m - length (v # map (snd \<circ> snd) ?gone)\<rparr>)"
    obtain t where t: "thumbnail_op cfg (\<lambda>t. bit_array_unset t i) ?m1 = Inr (?m1\<lparr>fm_thumbnail := t\<rparr>)" "thumbnail_ok cfg (cs[i := Invalid]) t"
      using thumbnail_unset [OF i, of cfg ?m1] P(3) by (auto simp: set_bucket_def)
    have "?res Invalid p t" using 2 t(1) by (simp add: erase)
    moreover have "?rest Invalid p t"
      using 2 b p(2) part t(2) by (intro conjI exI [of _ "map fst ?gone"]) (simp_all add: keys bucket_nodes_def)
    ultimately show ?thesis by blast
  next
    case (3 n ns)
    have "?res (Valid (Some (snd n)) ns) (pool_back (Some (fst n)) p) (fm_thumbnail m)" using 3 assms(2) by (simp add: erase map_pool_back_def)
    moreover have "?rest (Valid (Some (snd n)) ns) (pool_back (Some (fst n)) p) (fm_thumbnail m)"
    proof -
      have n: "n \<in> set nodes" "fst (snd n) \<noteq> key" using filter_eq_ConsD [OF 3(2)] by auto
      have "fst n \<notin> fst ` set ?gone" using n dn by (auto simp: distinct_map dest: inj_onD)
      then have "fst n \<in> set (used_nodes cs) - fst ` set ?gone" using sub n(1) by auto
      from pool_back_inv [OF p(2) this] have "pool_inv (set (used_nodes cs) - set (fst n # map fst ?gone)) (pool_back (Some (fst n)) p)"
        by (simp add: Diff_insert [symmetric])
      moreover have "mset (bucket_nodes (cs ! i)) = mset (fst n # map fst ?gone) + mset (bucket_nodes (Valid (Some (snd n)) ns))"
        using part 3(2) b by (simp add: bucket_nodes_def)
      moreover have "thumbnail_ok cfg (cs[i := Valid (Some (snd n)) ns]) (fm_thumbnail m)" using thumbnail_same [OF i _ P(3)] b by simp
      ultimately show ?thesis using 3 b keys(2) by (intro conjI exI [of _ "fst n # map fst ?gone"]) simp_all
    qed
    ultimately show ?thesis by blast
  qed
qed

lemma FlatMap_erase_multi_inv:
  assumes "map_inv cfg cs m" and "mp_trivial cfg"
  shows "\<exists>vs cs' m'. FlatMap_erase_multi cfg key m = Inr (length vs, vs, m') \<and> map_inv cfg cs' m' \<and>
    vs = map snd (filter (\<lambda>x. fst x = key) (entries cs)) \<and> mset (entries cs') = filter_mset (\<lambda>x. fst x \<noteq> key) (mset (entries cs))"
proof -
  define i where "i = flatmap_mod (mp_hash cfg key) (length cs)"
  note I = map_inv_simps [OF assms(1)] and P = map_inv_parts [OF assms(1)] and filt = filter_entries [OF assms(1), of key, folded i_def]
  have i: "i < length cs" using map_inv_index [OF assms(1)] i_def by simp
  show ?thesis
  proof (cases rule: bucket_ok_cases [OF map_inv_bucket [OF assms(1) i]])
    case 1
    then have "filter (\<lambda>x. fst x = key) (entries cs) = []" using filt by simp
    then have "filter_mset (\<lambda>x. fst x \<noteq> key) (mset (entries cs)) = mset (entries cs)"
      by (auto simp: filter_empty_conv filter_mset_eq_conv)
    with 1 show ?thesis using I i assms(1) filt by (intro exI [of _ "[]"] exI [of _ cs] exI [of _ m]) (simp add: FlatMap_erase_multi_def i_def [symmetric])
  next
    case (2 e nodes)
    obtain k v where "e = (k, v)" by (cases e)
    with 2 erase_multi_valid [OF assms i_def, of k v nodes] obtain b p t rs where r: "FlatMap_erase_multi cfg key m =
        Inr (length (filter (\<lambda>x. fst x = key) (bucket_entries (cs ! i))), map snd (filter (\<lambda>x. fst x = key) (bucket_entries (cs ! i))),
          (set_bucket i b m)\<lparr>fm_pool := p, fm_size := fm_size m - length (filter (\<lambda>x. fst x = key) (bucket_entries (cs ! i))), fm_thumbnail := t\<rparr>)"
        and f: "mset (bucket_entries b) = mset (filter (\<lambda>x. fst x \<noteq> key) (bucket_entries (cs ! i)))" "is_valid b \<Longrightarrow> bucket_entries b \<noteq> []"
          "thumbnail_ok cfg (cs[i := b]) t" "mset (bucket_nodes (cs ! i)) = mset rs + mset (bucket_nodes b)" "pool_inv (set (used_nodes cs) - set rs) p"
      by auto
    from erase_multi_finish [OF assms(1) i_def f refl] r filt show ?thesis by (metis length_map)
  qed
qed

end
