(* ===== verification/Flat_Map_Resize.thy ===== *)
theory Flat_Map_Resize
  imports Flat_Map_Operations
begin

text \<open>
  Iteration over the hash map visits its elements bucket by bucket, and \<^verbatim>\<open>resize\<close> and \<^verbatim>\<open>operator[]\<close>, which call each
  other, keep the elements: the depth of their nesting is bounded, since each call is on a map with more buckets and
  allocations fail from \<open>2\<^sup>48\<close> bytes on.
\<close>

section \<open>Iteration\<close>

primrec rfold :: "('x \<Rightarrow> 's \<Rightarrow> 's result) \<Rightarrow> 'x list \<Rightarrow> 's \<Rightarrow> 's result" where
  "rfold f [] s = Inr s"
| "rfold f (x # xs) s = rbind (f x s) (rfold f xs)"

lemma next_valid_sentinel:
  "e \<le> length cs \<Longrightarrow> \<exists>e'. next_valid (cs @ [Valid None []]) e = Inr e' \<and> e \<le> e' \<and> e' \<le> length cs \<and>
    (\<forall>j. e \<le> j \<and> j < e' \<longrightarrow> cs ! j = Invalid) \<and> (e' < length cs \<longrightarrow> is_valid (cs ! e'))"
proof (induction "length cs - e" arbitrary: e)
  case 0
  then show ?case by (auto simp: next_valid.simps nth_append)
next
  case (Suc n)
  show ?case
  proof (cases "is_valid (cs ! e)")
    case True
    then show ?thesis using Suc.hyps(2) by (intro exI [of _ e]) (auto simp: next_valid.simps nth_append)
  next
    case False
    then have inv: "cs ! e = Invalid" by (cases "cs ! e") simp_all
    have "n = length cs - (e + 1)" "e + 1 \<le> length cs" using Suc.hyps(2) by simp_all
    from Suc.hyps(1) [OF this] obtain e' where e': "next_valid (cs @ [Valid None []]) (e + 1) = Inr e'" "e + 1 \<le> e'" "e' \<le> length cs"
        "\<forall>j. e + 1 \<le> j \<and> j < e' \<longrightarrow> cs ! j = Invalid" "e' < length cs \<longrightarrow> is_valid (cs ! e')" by blast
    have "e < length cs" using Suc.hyps(2) by linarith
    then have "next_valid (cs @ [Valid None []]) e = Inr e'"
      using e'(1) False by (subst next_valid.simps) (simp add: nth_append)
    moreover have "cs ! j = Invalid" if "e \<le> j" "j < e'" for j using e'(4) inv that by (cases "j = e") simp_all
    ultimately show ?thesis using e' by (intro exI [of _ e']) simp
  qed
qed

lemma find_valid:
  assumes "map_inv cfg cs m" and "e \<le> length cs"
  shows "\<exists>e'. find_and_set_valid_node cfg m e = Inr e' \<and> e \<le> e' \<and> e' \<le> length cs \<and>
    (\<forall>j. e \<le> j \<and> j < e' \<longrightarrow> cs ! j = Invalid) \<and> (e' < length cs \<longrightarrow> is_valid (cs ! e'))"
proof (cases "mp_sparse cfg")
  case False
  then show ?thesis using next_valid_sentinel [OF assms(2)] map_inv_simps(1) [OF assms(1)] by (simp add: find_and_set_valid_node_def)
next
  case True
  note I = map_inv_simps [OF assms(1)]
  obtain t where t: "fm_thumbnail m = Some t" "length cs \<le> 64 * length t" "\<forall>i < length cs. abit t i = is_valid (cs ! i)" "length cs mod 64 = 0"
    using map_inv_parts(3) [OF assms(1)] True by (auto simp: thumbnail_ok_def)
  have b: "bucket_at m e = Inr (if e < length cs then cs ! e else Valid None [])" using I(1) assms(2) by (simp add: bucket_at_def nth_append)
  show ?thesis
  proof (cases "e < length cs \<and> \<not> is_valid (cs ! e)")
    case False
    then show ?thesis using True b assms(2) by (intro exI [of _ e]) (auto simp: find_and_set_valid_node_def sparse_next_valid_def)
  next
    case inv: True
    then have le: "e + 1 \<le> length cs" by simp
    have "\<not> first1_wrong t (e + 1) (length cs)"
    proof
      assume "first1_wrong t (e + 1) (length cs)"
      then have "(e + 1) mod 64 \<noteq> 0" "(e + 1) div 64 = length cs div 64" by (simp_all add: first1_wrong_def)
      then show False using t(4) le by (metis bit_index(2) le_antisym minus_mod_eq_div_mult diff_zero)
    qed
    then obtain e' where e': "bit_array_first1 t (e + 1) (length cs) = Inr e'" "is_first1 t (e + 1) (length cs) e'"
      using bit_array_first1_general [OF le t(2)] by auto
    have "cs ! j = Invalid" if "e \<le> j" "j < e'" for j
    proof -
      have "j < length cs" using that e'(2) by (simp add: is_first1_def)
      moreover have "\<not> is_valid (cs ! j)" using inv e'(2) t(3) that \<open>j < length cs\<close> by (cases "j = e") (auto simp: is_first1_def)
      ultimately show ?thesis by (cases "cs ! j") simp_all
    qed
    then show ?thesis using True inv b t e' I(2)
      by (intro exI [of _ e']) (auto simp: find_and_set_valid_node_def sparse_next_valid_def is_first1_def)
  qed
qed

text \<open>The elements from a position on.\<close>

definition entries_from :: "('k, 'v) Bucket list \<Rightarrow> nat \<Rightarrow> nat \<Rightarrow> ('k \<times> 'v) list" where
  "entries_from cs e j = drop j (bucket_entries (cs ! e)) @ entries (drop (Suc e) cs)"

lemma entries_drop: "e < length cs \<Longrightarrow> entries (drop e cs) = entries_from cs e 0"
  by (simp add: entries_def entries_from_def Cons_nth_drop_Suc [symmetric])

lemma entries_skip: "e \<le> e' \<Longrightarrow> e' \<le> length cs \<Longrightarrow> (\<And>j. e \<le> j \<Longrightarrow> j < e' \<Longrightarrow> cs ! j = Invalid) \<Longrightarrow> entries (drop e cs) = entries (drop e' cs)"
proof (induction "e' - e" arbitrary: e)
  case (Suc n)
  then have "entries (drop e cs) = entries_from cs e 0" by (intro entries_drop) simp
  also have "\<dots> = entries (drop (Suc e) cs)" using Suc.prems(3) [of e] Suc.hyps(2) by (simp add: entries_from_def)
  also have "\<dots> = entries (drop e' cs)" using Suc.hyps Suc.prems by (intro Suc.hyps(1)) simp_all
  finally show ?case .
qed simp

lemma FlatMap_end_eq: "map_inv cfg cs m \<Longrightarrow> FlatMap_end cfg m = Inr (Some (length cs, 0))"
  using find_valid [of cfg cs m "length cs"] map_inv_simps(2,3) [of cfg cs m] by (auto simp: FlatMap_end_def iterator_at_def)

lemma map_for_end: "map_inv cfg cs m \<Longrightarrow> map_for_from cfg m body fuel (Some (length cs, 0)) s = Inr s"
  by (cases fuel) (simp_all add: FlatMap_end_eq)

text \<open>The iterator of the next valid bucket from \<open>e\<close> on is at the rest of the elements.\<close>

lemma map_for_bucket:
  assumes "map_inv cfg cs m" and "e \<le> length cs"
    and rest: "\<And>e'. e' < length cs \<Longrightarrow> is_valid (cs ! e') \<Longrightarrow> entries (drop e cs) = entries_from cs e' 0 \<Longrightarrow>
      map_for_from cfg m body fuel (Some (e', 0)) s = rfold body (entries (drop e cs)) s"
  shows "rbind (find_and_set_valid_node cfg m e) (\<lambda>e'. map_for_from cfg m body fuel (Some (e', 0)) s) = rfold body (entries (drop e cs)) s"
proof -
  obtain e' where e': "find_and_set_valid_node cfg m e = Inr e'" "e \<le> e'" "e' \<le> length cs" "\<And>j. e \<le> j \<Longrightarrow> j < e' \<Longrightarrow> cs ! j = Invalid"
      "e' < length cs \<Longrightarrow> is_valid (cs ! e')"
    using find_valid [OF assms(1,2)] by blast
  have skip: "entries (drop e cs) = entries (drop e' cs)" using e'(2-4) by (rule entries_skip)
  show ?thesis
  proof (cases "e' < length cs")
    case True
    then show ?thesis using rest [OF True e'(5) [OF True]] skip entries_drop [OF True] e'(1) by simp
  next
    case False
    then have "e' = length cs" using e'(3) by simp
    moreover have "entries [] = ([] :: ('a \<times> 'b) list)" by (simp add: entries_def)
    ultimately show ?thesis using skip e'(1) map_for_end [OF assms(1)] by simp
  qed
qed

lemma map_for_from_entries:
  assumes "map_inv cfg cs m" and "e < length cs" and "j < length (bucket_entries (cs ! e))" and "length (entries_from cs e j) \<le> fuel"
  shows "map_for_from cfg m body fuel (Some (e, j)) s = rfold body (entries_from cs e j) s"
  using assms(2-4)
proof (induction fuel arbitrary: e j s)
  case 0
  then show ?case by (simp add: entries_from_def)
next
  case (Suc fuel)
  note I = map_inv_simps [OF assms(1)]
  let ?xs = "bucket_entries (cs ! e)"
  have split: "entries_from cs e j = ?xs ! j # drop (Suc j) ?xs @ entries (drop (Suc e) cs)"
    using Suc.prems(2) by (simp add: entries_from_def Cons_nth_drop_Suc)
  have deref: "iterator_deref m (Some (e, j)) = Inr (?xs ! j)"
    using element_at_points [OF assms(1), of "(e, j)"] Suc.prems by (simp add: iterator_deref_def points_def)
  have chain: "length ?xs = Suc (length (chain_nodes (cs ! e)))" using Suc.prems(2) by (cases "cs ! e" rule: bucket_entries.cases) simp_all
  have "rbind (iterator_next cfg m (Some (e, j))) (\<lambda>it1. map_for_from cfg m body fuel it1 s1) =
      rfold body (drop (Suc j) ?xs @ entries (drop (Suc e) cs)) s1" for s1
  proof (cases "Suc j < length ?xs")
    case True
    then have "iterator_next cfg m (Some (e, j)) = Inr (Some (e, Suc j))" using I(4) [OF Suc.prems(1)] chain by (simp add: iterator_next_def)
    moreover have "map_for_from cfg m body fuel (Some (e, Suc j)) s1 = rfold body (entries_from cs e (Suc j)) s1"
      using Suc.prems(1,3) True split by (intro Suc.IH) (simp_all add: entries_from_def)
    ultimately show ?thesis by (simp add: entries_from_def)
  next
    case False
    then have "rbind (iterator_next cfg m (Some (e, j))) (\<lambda>it1. map_for_from cfg m body fuel it1 s1) =
        rbind (find_and_set_valid_node cfg m (Suc e)) (\<lambda>e'. map_for_from cfg m body fuel (Some (e', 0)) s1)"
      using I(4) [OF Suc.prems(1)] chain by (simp add: iterator_next_def rbind_assoc)
    also have "\<dots> = rfold body (entries (drop (Suc e) cs)) s1"
    proof (rule map_for_bucket [OF assms(1)])
      show "Suc e \<le> length cs" using Suc.prems(1) by simp
      fix e'
      assume e': "e' < length cs" "is_valid (cs ! e')" "entries (drop (Suc e) cs) = entries_from cs e' 0"
      moreover have "0 < length (bucket_entries (cs ! e'))" using map_inv_bucket [OF assms(1) e'(1)] e'(2) by (simp add: bucket_ok_def)
      moreover have "length (entries_from cs e' 0) \<le> fuel" using Suc.prems(3) split e'(3) by simp
      ultimately show "map_for_from cfg m body fuel (Some (e', 0)) s1 = rfold body (entries (drop (Suc e) cs)) s1" using Suc.IH by simp
    qed
    finally show ?thesis using False Suc.prems(2) by simp
  qed
  then show ?case using split deref Suc.prems(1) FlatMap_end_eq [OF assms(1)] by (simp add: rbind_def split: sum.split)
qed

text \<open>Iteration visits every element once, in the order of the buckets.\<close>

lemma map_for_entries:
  assumes "map_inv cfg cs m" and "length (entries cs) \<le> fuel"
  shows "map_for cfg fuel m body s = rfold body (entries cs) s"
proof -
  have "rbind (find_and_set_valid_node cfg m 0) (\<lambda>e'. map_for_from cfg m body fuel (Some (e', 0)) s) = rfold body (entries (drop 0 cs)) s"
  proof (rule map_for_bucket [OF assms(1)])
    fix e'
    assume e': "e' < length cs" "is_valid (cs ! e')" "entries (drop 0 cs) = entries_from cs e' 0"
    then have "0 < length (bucket_entries (cs ! e'))" using map_inv_bucket [OF assms(1)] by (simp add: bucket_ok_def)
    then show "map_for_from cfg m body fuel (Some (e', 0)) s = rfold body (entries (drop 0 cs)) s"
      using map_for_from_entries [OF assms(1) e'(1), of 0 fuel] e'(3) assms(2) by simp
  qed simp
  then show ?thesis using map_inv_simps(3) [OF assms(1)] by (simp add: map_for_def FlatMap_begin_def iterator_at_def rbind_assoc)
qed

lemma node_count_eq: "map_inv cfg cs m \<Longrightarrow> node_count m = length (entries cs) + 1"
proof -
  assume inv: "map_inv cfg cs m"
  have "bucket_length b = length (bucket_entries b)" if "b \<in> set cs" for b
  proof -
    obtain i where "i < length cs" "b = cs ! i" using \<open>b \<in> set cs\<close> by (auto simp: in_set_conv_nth)
    then have "bucket_ok cfg (length cs) i b" using map_inv_bucket [OF inv] by simp
    then show ?thesis by (cases rule: bucket_ok_cases) (simp_all add: bucket_length_def)
  qed
  then have "map bucket_length cs = map (\<lambda>b. length (bucket_entries b)) cs" by simp
  then have "sum_list (map bucket_length cs) = length (entries cs)" by (simp only: entries_def length_concat map_map comp_def)
  then show ?thesis using map_inv_simps(1) [OF inv] by (simp add: node_count_def bucket_length_def)
qed

section \<open>Initialisation\<close>

text \<open>The numbers of buckets a map can be given: a sparse map needs more than 32, so that its thumbnail has whole words.\<close>

definition nbucket_ok :: "('k, 'v) map_params \<Rightarrow> nat \<Rightarrow> bool" where
  "nbucket_ok cfg n \<longleftrightarrow> 0 < n \<and> n \<le> 2 ^ 48 \<and> (mp_sparse cfg \<longrightarrow> 32 < n)"

lemma pow2_less_iff: "(2 :: nat) ^ a < 2 ^ b \<Longrightarrow> a < b"
  by (rule power_less_imp_less_exp [of 2]) simp_all

lemma flatmap_round_ok:
  assumes "nbucket_ok cfg n"
  obtains k where "flatmap_round n = 2 ^ k" "3 \<le> k" "k \<le> 48" "mp_sparse cfg \<Longrightarrow> 6 \<le> k" "n \<le> 2 ^ k"
proof -
  have n: "n \<le> 2 ^ 48" "mp_sparse cfg \<Longrightarrow> 32 < n" using assms by (simp_all add: nbucket_ok_def)
  then obtain k where k: "flatmap_round n = 2 ^ k" "3 \<le> k" "n \<le> 2 ^ k" "2 ^ k = (8 :: nat) \<or> 2 ^ k < 2 * n"
    using flatmap_round_pow2 [of n] by auto
  have "2 * n \<le> 2 ^ 49" "(8 :: nat) < 2 ^ 49" using n(1) by simp_all
  then have "2 ^ k < (2 :: nat) ^ 49" using k(4) order_less_le_trans [of "2 ^ k" "2 * n" "2 ^ 49"] by auto
  then have "k < 49" by (rule pow2_less_iff)
  moreover have "6 \<le> k" if "mp_sparse cfg" using n(2) [OF that] k(3) pow2_less_iff [of 5 k] by simp
  ultimately show ?thesis using that [of k] k by simp
qed

lemma bit_array_malloc_ok:
  assumes "6 \<le> k" and "k \<le> 48"
  shows "bit_array_malloc malloc_ok garbage (2 ^ k) = None \<or>
    (\<exists>t. bit_array_malloc malloc_ok garbage (2 ^ k) = Some t \<and> 2 ^ k \<le> 64 * length t)"
proof -
  have "(2 :: nat) ^ k \<le> 2 ^ 48" using assms(2) by (intro power_increasing) simp_all
  then have "(2 ^ k + 63) mod 2 ^ 64 = (2 ^ k + 63 :: nat)" by simp
  then have "BIT_ARRAY_LEN (2 ^ k) div 8 = (2 ^ k + 63) div 64" by (simp add: BIT_ARRAY_LEN_def)
  moreover have "n \<le> 64 * ((n + 63) div 64)" for n :: nat using mult_div_mod_eq [of 64 "n + 63"] mod_less_divisor [of 64 "n + 63"] by linarith
  ultimately show ?thesis by (auto simp: bit_array_malloc_def)
qed

lemma empty_thumbnail:
  assumes "mp_sparse cfg" and "n mod 64 = 0" and "n \<le> 64 * length t"
  shows "\<exists>t'. bit_array_clear t n = Inr t' \<and> n \<le> 64 * length t' \<and> thumbnail_ok cfg (replicate n Invalid) (Some t')"
proof -
  obtain t' where t': "bit_array_clear t n = Inr t'" "length t' = length t" "\<forall>j. j div 64 < length t \<longrightarrow> abit t' j = (n \<le> j \<and> abit t j)"
    using bit_array_clear_abit [OF assms(3)] by blast
  have "\<not> abit t' j" if "j < n" for j using t'(3) bit_in_word [OF that assms(3)] that by simp
  then show ?thesis using t' assms by (auto simp: thumbnail_ok_def)
qed

lemma new_buckets_ok:
  assumes "params_ok cfg" and "10 \<le> load_factor" and "load_factor \<le> 100" and "nbucket_ok cfg n" and r: "flatmap_round n = 2 ^ k" "3 \<le> k" "k \<le> 48" "mp_sparse cfg \<Longrightarrow> 6 \<le> k"
  shows "new_buckets_and_thumbnail cfg load_factor 0 n = Inr (None, None, 0) \<or>
    (\<exists>t. new_buckets_and_thumbnail cfg load_factor 0 n = Inr (Some (replicate (2 ^ k) Invalid @ [Valid None []]), t, 2 ^ k) \<and>
      thumbnail_ok cfg (replicate (2 ^ k) Invalid) t \<and> k \<le> 47)"
proof -
  define size where "size = mp_bucket_size cfg"
  have size: "8 \<le> size" "size \<le> 2 ^ 15" using assms(1) by (simp_all add: params_ok_def size_def)
  have loop: "round_loop 0 n load_factor = Some (2 ^ k)" using round_loop_returns [OF assms(2,3) r(1)] r by simp
  have "(2 :: nat) ^ k \<le> 2 ^ 48" using r(3) by (intro power_increasing) simp_all
  then have "size * (2 ^ k + 1) \<le> 2 ^ 15 * (2 ^ 48 + 1)" using size(2) by (intro mult_le_mono) simp_all
  then have wrap: "size * (2 ^ k + 1) mod 2 ^ 64 = size * (2 ^ k + 1)" by simp
  have slots: "size * (2 ^ k + 1) div size = 2 ^ k + 1" using size(1) by simp
  define bytes where "bytes = size * (2 ^ k + 1)"
  have new: "new_buckets_and_thumbnail cfg load_factor 0 n = (if \<not> mp_malloc_ok cfg bytes then Inr (None, None, 0)
      else let thumbnail = (if mp_sparse cfg then bit_array_malloc (mp_malloc_ok cfg) (mp_garbage cfg) (2 ^ k) else None) in
        if mp_sparse cfg \<and> thumbnail = None then Inr (None, None, 0)
        else rbind (init_buckets_and_thumbnail cfg (2 ^ k + 1) thumbnail (2 ^ k)) (\<lambda>(bs, t). Inr (Some bs, t, 2 ^ k)))"
    by (simp only: new_buckets_and_thumbnail_def loop of_option_simps rbind_Inr size_def [symmetric] wrap slots Let_def bytes_def)
  have small: "k \<le> 47" if "mp_malloc_ok cfg bytes"
  proof -
    have "size * (2 ^ k + 1) < 2 ^ 48" using assms(1) that by (simp add: params_ok_def bytes_def)
    then have "8 * (2 ^ k + 1) < (2 :: nat) ^ 48" using mult_le_mono1 [OF size(1), of "2 ^ k + 1"] by (rule le_less_trans [rotated])
    then have "2 ^ k < (2 :: nat) ^ 48" by simp
    then show ?thesis using pow2_less_iff [of k 48] by simp
  qed
  show ?thesis
  proof (cases "mp_malloc_ok cfg bytes \<and> mp_sparse cfg")
    case False
    then show ?thesis using small by (auto simp: new init_buckets_and_thumbnail_def thumbnail_ok_def)
  next
    case True
    then have six: "6 \<le> k" using r(4) by simp
    have "(2 :: nat) ^ k = 2 ^ 6 * 2 ^ (k - 6)" using six by (metis le_add_diff_inverse power_add)
    then have m: "(2 :: nat) ^ k mod 64 = 0" by simp
    from bit_array_malloc_ok [OF six r(3), of "mp_malloc_ok cfg" "mp_garbage cfg"] show ?thesis
    proof
      assume "\<exists>t. bit_array_malloc (mp_malloc_ok cfg) (mp_garbage cfg) (2 ^ k) = Some t \<and> 2 ^ k \<le> 64 * length t"
      then obtain t where t: "bit_array_malloc (mp_malloc_ok cfg) (mp_garbage cfg) (2 ^ k) = Some t" "2 ^ k \<le> 64 * length t" by blast
      obtain t' where "bit_array_clear t (2 ^ k) = Inr t'" "thumbnail_ok cfg (replicate (2 ^ k) Invalid) (Some t')"
        using empty_thumbnail [OF _ m t(2), of cfg] True by blast
      then show ?thesis using True t(1) small by (auto simp: new init_buckets_and_thumbnail_def)
    qed (use True in \<open>simp add: new\<close>)
  qed
qed

lemma map_inv_new:
  assumes "thumbnail_ok cfg (replicate (2 ^ k) Invalid) t" and "3 \<le> k" and "k \<le> 47" and "10 \<le> lf" and "lf \<le> 100"
  shows "map_inv cfg (replicate (2 ^ k) Invalid)
    \<lparr>fm_size = 0, fm_nbucket = 2 ^ k, fm_buckets = Some (replicate (2 ^ k) Invalid @ [Valid None []]), fm_thumbnail = t, fm_load_factor = lf, fm_pool = pool_new\<rparr>"
  using assms by (auto simp: map_inv_def bucket_ok_def)

lemma FlatMap_init_ok:
  assumes "params_ok cfg" and "10 \<le> load_factor" and "load_factor \<le> 100" and "nbucket_ok cfg n"
  shows "(\<exists>m. FlatMap_init cfg n load_factor FlatMap_new = Inr (-1, m) \<and> fm_size m = 0) \<or>
    (\<exists>m. FlatMap_init cfg n load_factor FlatMap_new = Inr (0, m) \<and> map_inv cfg (replicate (flatmap_round n) Invalid) m)"
proof -
  obtain k where k: "flatmap_round n = 2 ^ k" "3 \<le> k" "k \<le> 48" "mp_sparse cfg \<Longrightarrow> 6 \<le> k" using flatmap_round_ok [OF assms(4)] by blast
  have "0 < n" using assms(4) by (simp add: nbucket_ok_def)
  then have init: "FlatMap_init cfg n load_factor FlatMap_new =
      (let m1 = FlatMap_new\<lparr>fm_load_factor := load_factor\<rparr> in
       rbind (new_buckets_and_thumbnail cfg load_factor 0 n) (\<lambda>(bs, t, n).
         if n = 0 \<or> bs = None \<or> (mp_sparse cfg \<and> t = None) then Inr (-1, m1)
         else rbind (thumbnail_op cfg (\<lambda>t. bit_array_clear t n)
                 (m1\<lparr>fm_nbucket := n, fm_buckets := bs, fm_thumbnail := (if mp_sparse cfg then t else fm_thumbnail m1)\<rparr>)) (\<lambda>m2. Inr (0, m2))))"
    using assms(2,3) by (simp add: FlatMap_init_def FlatMap_initialized_def FlatMap_new_def Let_def)
  from new_buckets_ok [OF assms k] show ?thesis
  proof
    assume "new_buckets_and_thumbnail cfg load_factor 0 n = Inr (None, None, 0)"
    then show ?thesis unfolding init by (simp add: FlatMap_new_def)
  next
    assume "\<exists>t. new_buckets_and_thumbnail cfg load_factor 0 n = Inr (Some (replicate (2 ^ k) Invalid @ [Valid None []]), t, 2 ^ k) \<and>
      thumbnail_ok cfg (replicate (2 ^ k) Invalid) t \<and> k \<le> 47"
    then obtain t where t: "new_buckets_and_thumbnail cfg load_factor 0 n = Inr (Some (replicate (2 ^ k) Invalid @ [Valid None []]), t, 2 ^ k)"
      "thumbnail_ok cfg (replicate (2 ^ k) Invalid) t" "k \<le> 47" by blast
    show ?thesis
    proof (cases "mp_sparse cfg")
      case False
      then have "t = None" using t(2) by (simp add: thumbnail_ok_def)
      then show ?thesis unfolding init using False t map_inv_new [OF t(2) k(2) t(3) assms(2,3)] k(1) by (simp add: FlatMap_new_def thumbnail_op_def)
    next
      case True
      then obtain u where u: "t = Some u" using t(2) by (auto simp: thumbnail_ok_def)
      obtain u' where u': "bit_array_clear u (2 ^ k) = Inr u'" "thumbnail_ok cfg (replicate (2 ^ k) Invalid) (Some u')"
        using bit_array_clear_thumbnail [of cfg "replicate (2 ^ k) Invalid" u] t(2) u by auto
      then show ?thesis unfolding init using True t(1) u map_inv_new [OF u'(2) k(2) t(3) assms(2,3)] k(1) by (simp add: FlatMap_new_def thumbnail_op_def)
    qed
  qed
qed

section \<open>Filling a map\<close>

text \<open>
  What \<^verbatim>\<open>operator[]\<close> promises: a reference to an element with the key, which was there or has been added.
  Of a map with fewer than \<open>n\<close> buckets nothing is said.
\<close>

definition index_ok :: "('k, 'v) map_params \<Rightarrow> nat \<Rightarrow> ('k \<Rightarrow> ('k, 'v) FlatMap \<Rightarrow> (node_ref \<times> ('k, 'v) FlatMap) result) \<Rightarrow> bool" where
  "index_ok cfg n op \<longleftrightarrow> (\<forall>cs m key. map_inv cfg cs m \<longrightarrow> n \<le> length cs \<longrightarrow>
     (if \<not> mp_multi cfg \<and> key \<in> fst ` set (entries cs)
      then \<exists>r m' cs' v. op key m = Inr (r, m') \<and> map_inv cfg cs' m' \<and> length cs \<le> length cs' \<and> points cs' r (key, v) \<and> mset (entries cs') = mset (entries cs)
      else added cfg key cs (op key m)))"

lemma index_ok_mono: "index_ok cfg n op \<Longrightarrow> n \<le> n' \<Longrightarrow> index_ok cfg n' op"
  unfolding index_ok_def by (meson order_trans)

lemma index_okD:
  assumes "index_ok cfg n op" and "map_inv cfg cs m" and "n \<le> length cs"
  shows "\<not> mp_multi cfg \<Longrightarrow> key \<in> fst ` set (entries cs) \<Longrightarrow>
      \<exists>r m' cs' v. op key m = Inr (r, m') \<and> map_inv cfg cs' m' \<and> length cs \<le> length cs' \<and> points cs' r (key, v) \<and> mset (entries cs') = mset (entries cs)"
    "mp_multi cfg \<or> key \<notin> fst ` set (entries cs) \<Longrightarrow> added cfg key cs (op key m)"
  using assms unfolding index_ok_def by (meson)+

definition fill_body :: "('k \<Rightarrow> ('k, 'v) FlatMap \<Rightarrow> (node_ref \<times> ('k, 'v) FlatMap) result) \<Rightarrow> 'k \<times> 'v \<Rightarrow> ('k, 'v) FlatMap \<Rightarrow> ('k, 'v) FlatMap result" where
  "fill_body op = (\<lambda>(k, v) nm. rbind (op k nm) (\<lambda>(r, nm1). assign_value r v nm1))"

lemma fill_new:
  assumes "index_ok cfg n op" and "map_inv cfg cs m" and "n \<le> length cs" and "mp_multi cfg \<or> k \<notin> fst ` set (entries cs)"
  shows "\<exists>cs' m'. fill_body op (k, v) m = Inr m' \<and> map_inv cfg cs' m' \<and> length cs \<le> length cs' \<and> mset (entries cs') = add_mset (k, v) (mset (entries cs))"
proof -
  have "added cfg k cs (op k m)" by (rule index_okD(2) [OF assms])
  then obtain r m1 cs1 where r: "op k m = Inr (r, m1)" "map_inv cfg cs1 m1" "length cs \<le> length cs1" "points cs1 r (k, mp_default cfg)"
      "mset (entries cs1) = add_mset (k, mp_default cfg) (mset (entries cs))"
    unfolding added_def by blast
  obtain cs' m' where "assign_value r v m1 = Inr m'" "map_inv cfg cs' m'" "length cs' = length cs1"
      "add_mset (k, mp_default cfg) (mset (entries cs')) = add_mset (k, v) (mset (entries cs1))"
    using assign_value_inv [OF r(2,4)] by blast
  with r show ?thesis by (intro exI [of _ cs'] exI [of _ m']) (simp add: fill_body_def add_mset_commute)
qed

lemma fill_all:
  assumes "index_ok cfg n op"
  shows "map_inv cfg cs m \<Longrightarrow> n \<le> length cs \<Longrightarrow> (\<not> mp_multi cfg \<Longrightarrow> distinct (map fst (entries cs @ xs))) \<Longrightarrow>
    \<exists>cs' m'. rfold (fill_body op) xs m = Inr m' \<and> map_inv cfg cs' m' \<and> length cs \<le> length cs' \<and> mset (entries cs') = mset (entries cs) + mset xs"
proof (induction xs arbitrary: cs m)
  case Nil
  then show ?case by auto
next
  case (Cons x xs)
  obtain k v where x: "x = (k, v)" by (cases x)
  have "mp_multi cfg \<or> k \<notin> fst ` set (entries cs)" using Cons.prems(3) x by auto
  from fill_new [OF assms Cons.prems(1,2) this, of v] obtain cs1 m1 where
    s: "fill_body op x m = Inr m1" "map_inv cfg cs1 m1" "length cs \<le> length cs1" "mset (entries cs1) = add_mset x (mset (entries cs))"
    using x by blast
  have "distinct (map fst (entries cs1 @ xs))" if "\<not> mp_multi cfg"
  proof -
    have "mset (entries cs1 @ xs) = mset (entries cs @ x # xs)" using s(4) by simp
    then have "mset (map fst (entries cs1 @ xs)) = mset (map fst (entries cs @ x # xs))" by (metis mset_map)
    then show ?thesis using Cons.prems(3) [OF that] mset_eq_imp_distinct_iff by blast
  qed
  from Cons.IH [OF s(2) _ this] Cons.prems(2) s(3) obtain cs' m' where "rfold (fill_body op) xs m1 = Inr m'" "map_inv cfg cs' m'" "length cs1 \<le> length cs'"
      "mset (entries cs') = mset (entries cs1) + mset xs" by auto
  with s show ?case by (intro exI [of _ cs'] exI [of _ m']) simp
qed

section \<open>Resizing\<close>

lemma FlatMap_swap_eq: "FlatMap_swap m rhs = (rhs, m :: ('k, 'v) FlatMap)"
proof -
  have "p\<lparr>free_nodes := free_nodes q, pool_blocks := pool_blocks q\<rparr> = q" for p q :: pool by simp
  then show ?thesis by (simp add: FlatMap_swap_def pool_swap_def)
qed

lemma resize_with_ok:
  assumes "params_ok cfg" and "map_inv cfg cs m" and "nbucket_ok cfg n" and "index_ok cfg (flatmap_round n) op"
  shows "resize_with cfg op n m = Inr (False, m) \<or>
    (\<exists>cs' m'. resize_with cfg op n m = Inr (True, m') \<and> map_inv cfg cs' m' \<and> flatmap_round n \<le> length cs' \<and> mset (entries cs') = mset (entries cs))"
proof (cases "fm_nbucket m = flatmap_round n")
  case True
  then show ?thesis by (simp add: resize_with_def)
next
  case False
  note P = map_inv_parts [OF assms(2)]
  obtain k where k: "flatmap_round n = 2 ^ k" "3 \<le> k" "k \<le> 48" "mp_sparse cfg \<Longrightarrow> 6 \<le> k" using flatmap_round_ok [OF assms(3)] by blast
  have "(2 :: nat) ^ k \<le> 2 ^ 48" "mp_sparse cfg \<Longrightarrow> (2 :: nat) ^ 6 \<le> 2 ^ k" using k by (intro power_increasing; simp)+
  then have ok: "nbucket_ok cfg (flatmap_round n)" using k(1) by (auto simp: nbucket_ok_def)
  have rr: "flatmap_round (flatmap_round n) = flatmap_round n" using k flatmap_round_exp [of k] by simp
  show ?thesis
  proof (cases "\<exists>nm. FlatMap_init cfg (flatmap_round n) (fm_load_factor m) FlatMap_new = Inr (-1, nm) \<and> fm_size nm = 0")
    case True
    then show ?thesis using False by (auto simp: resize_with_def FlatMap_destroy_def FlatMap_clear_def)
  next
    case fine: False
    then obtain nm where nm: "FlatMap_init cfg (flatmap_round n) (fm_load_factor m) FlatMap_new = Inr (0, nm)"
        "map_inv cfg (replicate (flatmap_round n) Invalid) nm"
      using FlatMap_init_ok [OF assms(1) P(5,6) ok] rr by auto
    have "\<exists>cs' m'. rfold (fill_body op) (entries cs) nm = Inr m' \<and> map_inv cfg cs' m' \<and> flatmap_round n \<le> length cs' \<and> mset (entries cs') = mset (entries cs)"
      using fill_all [OF assms(4) nm(2), of "entries cs"] P(4) by simp
    then obtain cs' filled where f: "rfold (fill_body op) (entries cs) nm = Inr filled" "map_inv cfg cs' filled" "flatmap_round n \<le> length cs'"
        "mset (entries cs') = mset (entries cs)" by blast
    have loop: "map_for cfg (node_count m) m (fill_body op) nm = Inr filled"
      using map_for_entries [OF assms(2), of "node_count m" "fill_body op" nm] node_count_eq [OF assms(2)] f(1) by simp
    show ?thesis using False nm(1) loop f(2-4) FlatMap_destroy_inv [OF assms(2)]
      by (auto simp: resize_with_def fill_body_def FlatMap_swap_eq)
  qed
qed

lemma added_mono:
  "added cfg key cs' res \<Longrightarrow> mset (entries cs') = mset (entries cs) \<Longrightarrow> length cs \<le> length cs' \<Longrightarrow> added cfg key cs res"
  unfolding added_def by (metis order_trans)

text \<open>A call that resizes the map first, and then calls itself or goes on with the old map.\<close>

lemma grow_ok:
  assumes "params_ok cfg" and "map_inv cfg cs m" and "index_ok cfg (2 * length cs) op" and "mp_multi cfg \<or> key \<notin> fst ` set (entries cs)"
    and "added cfg key cs (otherwise m)"
  shows "added cfg key cs (rbind (resize_with cfg op ((fm_nbucket m + 1) mod 2 ^ 64) m) (\<lambda>(resized, m1). if resized then op key m1 else otherwise m1))"
proof -
  note I = map_inv_simps [OF assms(2)]
  obtain k where k: "length cs = 2 ^ k" "3 \<le> k" "k \<le> 47" using map_inv_parts(7) [OF assms(2)] by blast
  have "64 \<le> length cs" if "mp_sparse cfg"
    using map_inv_parts(3) [OF assms(2)] that I(5) dvd_imp_le [of 64 "length cs"] by (simp add: thumbnail_ok_def dvd_eq_mod_eq_0)
  then have ok: "nbucket_ok cfg (length cs + 1)" using I(6) by (auto simp: nbucket_ok_def)
  have wrap: "(fm_nbucket m + 1) mod 2 ^ 64 = length cs + 1" using I(2,6) by simp
  have round: "flatmap_round (length cs + 1) = 2 * length cs" using flatmap_round_Suc [OF k(2)] k by simp
  have "index_ok cfg (flatmap_round (length cs + 1)) op" using assms(3) round by simp
  from resize_with_ok [OF assms(1,2) ok this]
  consider "resize_with cfg op (length cs + 1) m = Inr (False, m)"
    | cs' m' where "resize_with cfg op (length cs + 1) m = Inr (True, m')" "map_inv cfg cs' m'" "2 * length cs \<le> length cs'" "mset (entries cs') = mset (entries cs)"
    unfolding round by blast
  then show ?thesis
  proof cases
    case 1
    then show ?thesis unfolding wrap using assms(5) by simp
  next
    case r: (2 cs' m')
    then have "mp_multi cfg \<or> key \<notin> fst ` set (entries cs')" using assms(4) mset_eq_setD [OF r(4)] by simp
    then have "added cfg key cs' (op key m')" by (rule index_okD(2) [OF assms(3) r(2,3)])
    then have "added cfg key cs (op key m')" using added_mono [OF _ r(4)] r(3) by simp
    then show ?thesis unfolding wrap using r(1) by simp
  qed
qed

text \<open>Deep enough nesting makes \<^verbatim>\<open>operator[]\<close> return.\<close>

lemma index_rec_step:
  assumes "params_ok cfg" and inv: "map_inv cfg cs m" and "index_ok cfg (2 * length cs) (index_rec cfg depth)"
  shows "if \<not> mp_multi cfg \<and> key \<in> fst ` set (entries cs)
    then \<exists>r m' cs' v. index_rec cfg (Suc depth) key m = Inr (r, m') \<and> map_inv cfg cs' m' \<and> length cs \<le> length cs' \<and> points cs' r (key, v) \<and>
      mset (entries cs') = mset (entries cs)
    else added cfg key cs (index_rec cfg (Suc depth) key m)"
proof -
  define i where "i = flatmap_mod (mp_hash cfg key) (length cs)"
  note I = map_inv_simps [OF inv] and keys = key_in_bucket [OF inv, of key, folded i_def]
  have i: "i < length cs" using map_inv_index [OF inv] i_def by simp
  show ?thesis
  proof (cases rule: bucket_ok_cases [OF map_inv_bucket [OF inv i]])
    case 1
    then have "key \<notin> fst ` set (entries cs)" using keys by simp
    then show ?thesis using construct_first_inv [OF inv i_def 1] I i 1 by (simp add: i_def [symmetric])
  next
    case (2 e nodes)
    note node = new_node_inv [OF inv assms(1) i_def 2(1)] and grow = grow_ok [OF assms(1) inv assms(3)]
    have idx: "flatmap_mod (mp_hash cfg key) (fm_nbucket m) = i" by (simp add: I(2) i_def)
    note step = index_rec.simps(2) Let_def idx I(4) [OF i] 2(1) rbind_Inr Bucket.case
    show ?thesis
    proof (cases "mp_multi cfg")
      case True
      obtain k v where "e = (k, v)" by (cases e)
      then have "added cfg key cs (index_rec cfg (Suc depth) key m)"
        unfolding step using True node(2) grow [of key "prepend_node cfg i key (Some e) nodes"] by auto
      with True show ?thesis by simp
    next
      case False
      obtain r where r: "seek_bucket key (cs ! i) = Inr r" "case r of None \<Rightarrow> key \<notin> fst ` set (bucket_entries (cs ! i))
          | Some j \<Rightarrow> j < length (bucket_entries (cs ! i)) \<and> fst (bucket_entries (cs ! i) ! j) = key"
        using seek_bucket_ok [OF map_inv_bucket [OF inv i], of key] by blast
      show ?thesis
      proof (cases r)
        case None
        then have "key \<notin> fst ` set (entries cs)" using r(2) keys by simp
        then show ?thesis unfolding step
          using node(1) grow [of key "append_node cfg i key (Some e) nodes"] False r(1) [unfolded 2(1)] None by simp
      next
        case (Some j)
        then have "points cs (i, j) (key, snd (bucket_entries (cs ! i) ! j))" using r(2) i by (auto simp: points_def prod_eq_iff)
        moreover have "key \<in> fst ` set (entries cs)" unfolding keys using r(2) Some by (intro rev_image_eqI [OF nth_mem [of j]]) simp_all
        moreover have "index_rec cfg (Suc depth) key m = Inr ((i, j), m)" unfolding step using False r(1) [unfolded 2(1)] Some by simp
        ultimately show ?thesis using False inv by auto
      qed
    qed
  qed
qed

lemma index_rec_ok:
  assumes "params_ok cfg"
  shows "2 ^ 48 < n * 2 ^ depth \<Longrightarrow> index_ok cfg n (index_rec cfg depth)"
proof (induction depth arbitrary: n)
  case 0
  have "\<not> n \<le> length cs" if "map_inv cfg cs m" for cs and m :: "('a, 'b) FlatMap"
    using map_inv_simps(6) [OF that] 0 by simp
  then show ?case by (auto simp: index_ok_def)
next
  case (Suc depth)
  have "index_ok cfg (2 * length cs) (index_rec cfg depth)" if "n \<le> length cs" for cs :: "('a, 'b) Bucket list"
  proof (rule Suc.IH)
    have "2 * length cs * 2 ^ depth = length cs * 2 ^ Suc depth" by simp
    then show "2 ^ 48 < 2 * length cs * 2 ^ depth" using order_less_le_trans [OF Suc.prems mult_le_mono1 [OF that]] by (simp only:)
  qed
  then show ?case unfolding index_ok_def [of cfg n] using index_rec_step [OF assms] by blast
qed

lemma FlatMap_index_ok: "params_ok cfg \<Longrightarrow> index_ok cfg 1 (FlatMap_index cfg)"
  using index_rec_ok [of cfg 1 64] by (simp add: FlatMap_index_def)

end
