(* ===== verification/Flat_Map_Properties.thy ===== *)
theory Flat_Map_Properties
  imports Flat_Map_Resize Refinement
begin

text \<open>
  The hash map with unique keys as a finite map: the theorem \<open>FlatMap_refines_map\<close> is about every sequence of operations,
  with the resizing they cause. The theory ends with the iteration over a small sparse map, which does not end.
\<close>

section \<open>Operations and specification\<close>









section \<open>The operations refine their specifications\<close>












section \<open>Properties\<close>


text \<open>A map from numbers to numbers whose hash codes are the numbers; a bucket has 24 bytes, and a gigabyte can be allocated.\<close>

definition nat_params :: "bool \<Rightarrow> (nat, nat) map_params" where
  "nat_params sparse = \<lparr>mp_sparse = sparse, mp_multi = False, mp_hash = of_nat, mp_default = 0, mp_default_key = 0, mp_bucket_size = 24,
    mp_trivial = True, mp_malloc_ok = (\<lambda>n. n < 2 ^ 30), mp_garbage = (\<lambda>_. 0)\<rparr>"




section \<open>Small sparse maps\<close>

text \<open>A sparse map with 8 buckets and one element, in bucket \<open>i\<close>.\<close>

definition one_element :: "nat \<Rightarrow> 'k \<times> 'v \<Rightarrow> nat \<Rightarrow> ('k, 'v) FlatMap" where
  "one_element i x load_factor = \<lparr>fm_size = 1, fm_nbucket = 8, fm_buckets = Some ((replicate 8 Invalid)[i := Valid (Some x) []] @ [Valid None []]),
    fm_thumbnail = Some [2 ^ i], fm_load_factor = load_factor, fm_pool = pool_new\<rparr>"

lemma one_bit: "i < 64 \<Longrightarrow> j < 64 \<Longrightarrow> abit [2 ^ i] j \<longleftrightarrow> j = i"
  by (auto simp: abit_def bit_exp_iff)

lemma one_first1:
  assumes "i < 8" and "0 < lo" and "lo \<le> 8"
  shows "bit_array_first1 [2 ^ i] lo 8 = Inr i"
proof -
  have abit: "abit [2 ^ i] j \<longleftrightarrow> j = i" if "j < 64" for j using one_bit [of i j] assms(1) that by simp
  have wrong: "first1_wrong [2 ^ i] lo 8 \<longleftrightarrow> i < lo" using assms abit by (auto simp: first1_wrong_def)
  have word0: "lo div 64 * 64 = 0" using assms(3) by simp
  obtain r where r: "bit_array_first1 [2 ^ i] lo 8 = Inr r"
      "if first1_wrong [2 ^ i] lo 8 then is_first1 [2 ^ i] 0 lo r \<and> r < lo else is_first1 [2 ^ i] lo 8 r"
    using bit_array_first1_general [of lo 8 "[2 ^ i]"] assms(3) unfolding word0 by auto
  have "r = i"
  proof (cases "i < lo")
    case True
    then show ?thesis using r(2) wrong abit [of r] assms(3) by (simp add: is_first1_def)
  next
    case False
    then have "is_first1 [2 ^ i] lo 8 i" using abit assms by (auto simp: is_first1_def)
    then show ?thesis using r(2) wrong False is_first1_unique by metis
  qed
  with r(1) show ?thesis by simp
qed

lemma one_element_bucket:
  "i < 8 \<Longrightarrow> j < 8 \<Longrightarrow> bucket_at (one_element i x lf) j = Inr (if j = i then Valid (Some x) [] else Invalid)"
  "bucket_at (one_element i x lf) 8 = Inr (Valid None [])"
  by (simp_all add: bucket_at_def one_element_def nth_append)

text \<open>Every search for the next valid bucket comes back to the one bucket that is valid.\<close>

lemma one_element_find:
  assumes "mp_sparse cfg" and "i < 8" and "j < 8"
  shows "find_and_set_valid_node cfg (one_element i x lf) j = Inr i"
proof (cases "j = i")
  case True
  then show ?thesis using assms by (simp add: find_and_set_valid_node_def sparse_next_valid_def one_element_bucket)
next
  case False
  have "fm_thumbnail (one_element i x lf) = Some [2 ^ i]" "fm_nbucket (one_element i x lf) = 8" by (simp_all add: one_element_def)
  then show ?thesis using False assms one_first1 [of i "j + 1"] by (simp add: find_and_set_valid_node_def sparse_next_valid_def one_element_bucket)
qed

lemma one_element_loop:
  assumes "mp_sparse cfg" and "i < 7" and "\<And>y s. \<exists>s'. body y s = Inr s'"
  shows "map_for cfg fuel (one_element i x lf) body s = Inl Diverges"
proof -
  let ?m = "one_element i x lf"
  have init: "FlatMap_initialized ?m" "fm_nbucket ?m = 8" by (simp_all add: FlatMap_initialized_def one_element_def)
  have "find_and_set_valid_node cfg ?m 8 = Inr 8" using assms(1) by (simp add: find_and_set_valid_node_def sparse_next_valid_def one_element_bucket)
  then have e: "FlatMap_end cfg ?m = Inr (Some (8, 0))" using init by (simp add: FlatMap_end_def iterator_at_def)
  have b: "bucket_at ?m i = Inr (Valid (Some x) [])" using assms(2) by (simp add: one_element_bucket)
  have deref: "iterator_deref ?m (Some (i, 0)) = Inr x" by (simp add: iterator_deref_def element_at_def b node_of_def)
  have nxt: "iterator_next cfg ?m (Some (i, 0)) = Inr (Some (i, 0))"
    using one_element_find [of cfg i "i + 1"] assms(1,2) by (simp add: iterator_next_def b)
  have "map_for_from cfg ?m body fuel (Some (i, 0)) s = Inl Diverges" for s
  proof (induction fuel arbitrary: s)
    case 0
    then show ?case using e assms(2) by simp
  next
    case (Suc fuel)
    obtain s' where "body x s = Inr s'" using assms(3) by blast
    then show ?case using e deref nxt Suc.IH assms(2) by simp
  qed
  then show ?thesis using one_element_find [of cfg i 0] assms(1,2) init by (simp add: map_for_def FlatMap_begin_def iterator_at_def)
qed

text \<open>How a program comes to such a map.\<close>

lemma sparse_init:
  assumes "mp_sparse cfg" and "mp_garbage cfg 0 = 0" and "\<And>n. n < 2 ^ 30 \<Longrightarrow> mp_malloc_ok cfg n" and "0 < mp_bucket_size cfg" and "mp_bucket_size cfg \<le> 2 ^ 15"
    and "10 \<le> lf" and "lf \<le> 100"
  shows "FlatMap_init cfg 8 lf FlatMap_new = Inr (0, \<lparr>fm_size = 0, fm_nbucket = 8, fm_buckets = Some (replicate 8 Invalid @ [Valid None []]),
    fm_thumbnail = Some [0], fm_load_factor = lf, fm_pool = pool_new\<rparr>)"
proof -
  have "round_loop 0 8 lf = Some 8" using assms(6,7) by (subst round_loop.simps) (simp add: flatmap_round_def is_too_crowded_def)
  moreover have "9 * mp_bucket_size cfg mod 2 ^ 64 = 9 * mp_bucket_size cfg" using assms(4,5) by simp_all
  moreover have "mp_malloc_ok cfg (9 * mp_bucket_size cfg)" "mp_malloc_ok cfg 8" using assms(5) by (auto intro!: assms(3))
  moreover have "bit_array_malloc (mp_malloc_ok cfg) (mp_garbage cfg) 8 = Some [0]" using \<open>mp_malloc_ok cfg 8\<close> assms(2)
    by (simp add: bit_array_malloc_def BIT_ARRAY_LEN_def)
  moreover have "bit_array_clear [0] 8 = Inr [0]" by (simp add: bit_array_clear_def word_at_def)
  ultimately show ?thesis using assms(1,4,6,7)
    by (simp add: Let_def FlatMap_init_def FlatMap_initialized_def FlatMap_new_def new_buckets_and_thumbnail_def init_buckets_and_thumbnail_def thumbnail_op_def)
qed

lemma sparse_insert:
  fixes cfg :: "('k, 'v) map_params"
  assumes "mp_sparse cfg" and "i = flatmap_mod (mp_hash cfg key) 8" and "i < 8"
  shows "FlatMap_insert cfg key value \<lparr>fm_size = 0, fm_nbucket = 8, fm_buckets = Some (replicate 8 Invalid @ [Valid None []]),
    fm_thumbnail = Some [0], fm_load_factor = lf, fm_pool = pool_new\<rparr> = Inr ((i, 0), one_element i (key, value) lf)"
proof -
  define m :: "('k, 'v) FlatMap" where "m = \<lparr>fm_size = 0, fm_nbucket = 8, fm_buckets = Some (replicate 8 Invalid @ [Valid None []]), fm_thumbnail = Some [0],
    fm_load_factor = lf, fm_pool = pool_new\<rparr>"
  have idx: "flatmap_mod (mp_hash cfg key) (fm_nbucket m) = i" using assms(2) by (simp add: m_def)
  have "bucket_at m i = Inr Invalid" using assms(3) by (simp add: bucket_at_def nth_append m_def)
  moreover have "bit_array_set [0] i = Inr [2 ^ i]" using assms(3) by (simp add: bit_array_set_def word_at_def)
  then have "construct_first cfg i key m = Inr ((i, 0), one_element i (key, mp_default cfg) lf)"
    using assms(1,3) by (simp add: construct_first_def thumbnail_op_def set_bucket_def one_element_def list_update_append m_def)
  ultimately have step: "index_rec cfg (Suc n) key m = Inr ((i, 0), one_element i (key, mp_default cfg) lf)" for n by (simp add: idx)
  have "(64 :: nat) = Suc 63" by simp
  then have "FlatMap_index cfg key m = Inr ((i, 0), one_element i (key, mp_default cfg) lf)" by (simp only: FlatMap_index_def step)
  moreover have "assign_value (i, 0) value (one_element i (key, mp_default cfg) lf) = Inr (one_element i (key, value) lf)"
    using assms(3) one_element_bucket(1) [of i i "(key, mp_default cfg)" lf]
    by (simp add: assign_value_def element_at_def node_of_def put_value_def) (simp add: set_bucket_def one_element_def list_update_append)
  ultimately show ?thesis by (simp add: FlatMap_insert_def m_def)
qed

text \<open>
  C39. The iteration over a sparse map with 8 buckets never ends once an element has been inserted in a bucket other than
  the last, when the memory of its thumbnail was zero: it comes back to the element for ever.
\<close>

theorem SparseFlatMap_iteration_diverges:
  assumes "mp_sparse cfg" and "mp_garbage cfg 0 = 0" and "\<And>n. n < 2 ^ 30 \<Longrightarrow> mp_malloc_ok cfg n" and "0 < mp_bucket_size cfg" and "mp_bucket_size cfg \<le> 2 ^ 15"
    and "10 \<le> load_factor" and "load_factor \<le> 100" and "flatmap_mod (mp_hash cfg key) 8 \<noteq> 7"
  shows "\<exists>m p m'. FlatMap_init cfg 8 load_factor FlatMap_new = Inr (0, m) \<and> FlatMap_insert cfg key value m = Inr (p, m') \<and>
    (\<forall>fuel. map_for cfg fuel m' (\<lambda>x xs. Inr (xs @ [x])) [] = Inl Diverges)"
proof -
  let ?i = "flatmap_mod (mp_hash cfg key) 8"
  have i: "?i < 8" by (rule flatmap_mod_less) simp_all
  then have "?i < 7" using assms(8) by simp
  then have "map_for cfg fuel (one_element ?i (key, value) load_factor) (\<lambda>x xs. Inr (xs @ [x])) [] = Inl Diverges" for fuel
    by (intro one_element_loop assms(1)) simp_all
  then show ?thesis using sparse_init [OF assms(1-7)] sparse_insert [OF assms(1) refl i] by blast
qed

theorem SparseFlatMap_iteration_diverges_witness:
  "flatmap_mod (mp_hash (nat_params True) 3) 8 = 3 \<and>
    (\<exists>m p m'. FlatMap_init (nat_params True) 8 80 FlatMap_new = Inr (0, m) \<and> FlatMap_insert (nat_params True) 3 5 m = Inr (p, m') \<and>
    (\<forall>fuel. map_for (nat_params True) fuel m' (\<lambda>x xs. Inr (xs @ [x])) [] = Inl Diverges))"
proof -
  have "flatmap_mod (mp_hash (nat_params True) 3) 8 = 3" by (simp add: flatmap_mod_def nat_params_def)
  moreover from this have "flatmap_mod (mp_hash (nat_params True) 3) 8 \<noteq> 7" by simp
  from SparseFlatMap_iteration_diverges [of "nat_params True" 80 3 5, OF _ _ _ _ _ _ _ this]
  have "\<exists>m p m'. FlatMap_init (nat_params True) 8 80 FlatMap_new = Inr (0, m) \<and> FlatMap_insert (nat_params True) 3 5 m = Inr (p, m') \<and>
    (\<forall>fuel. map_for (nat_params True) fuel m' (\<lambda>x xs. Inr (xs @ [x])) [] = Inl Diverges)"
    by (simp add: nat_params_def)
  ultimately show ?thesis by blast
qed

end
