(* ===== verification/Small_Map.thy ===== *)
theory Small_Map
  imports Refinement
begin

text \<open>
  The map of \<^verbatim>\<open>libsh/butil/containers/small_map.h\<close>: up to \<^verbatim>\<open>kArraySize\<close> entries live in an array inside the object, more in a
  \<^verbatim>\<open>NormalMap\<close>, a standard map, which shares the storage of the array. The union is a datatype with the active member;
  a slot of the array is \<open>None\<close> while it is raw storage and \<open>Some\<close> while it holds an object. Using the other member of
  the union or a raw slot is the fault \<open>Indeterminate\<close>. The standard map is its sequence of entries in the order of its
  iterators; an iterator is a position, and the position after the last entry is \<^verbatim>\<open>end()\<close>. Where a new key goes is an
  argument \<open>place\<close>, so that the theorems hold for the sorted order of \<^verbatim>\<open>std::map\<close> and for the order of a hash map. \<^verbatim>\<open>MapInit\<close> is the
  default, which makes an empty map.
\<close>

section \<open>Definitions\<close>

datatype ('k, 'v) storage = Array "('k \<times> 'v) option list" | Full "('k \<times> 'v) list"

record ('k, 'v) SmallMap =
  sm_size :: int
  sm_storage :: "('k, 'v) storage"

text \<open>\<open>Array_iter\<close> has the \<^verbatim>\<open>array_iter_\<close> that is not null, \<open>Map_iter\<close> the \<^verbatim>\<open>hash_iter_\<close>.\<close>

datatype sm_iterator = Array_iter nat | Map_iter nat

definition SmallMap_new :: "nat \<Rightarrow> ('k, 'v) SmallMap" where
  "SmallMap_new kArraySize = \<lparr>sm_size = 0, sm_storage = Array (replicate kArraySize None)\<rparr>"

text \<open>The members of the union; \<^verbatim>\<open>ManualConstructor\<close> gives \<^verbatim>\<open>operator*\<close>, \<^verbatim>\<open>Init\<close> and \<^verbatim>\<open>Destroy\<close> of a slot.\<close>

definition sm_array :: "('k, 'v) SmallMap \<Rightarrow> ('k \<times> 'v) option list result" where
  "sm_array m = (case sm_storage m of Array slots \<Rightarrow> Inr slots | Full es \<Rightarrow> Inl Indeterminate)"

definition sm_map :: "('k, 'v) SmallMap \<Rightarrow> ('k \<times> 'v) list result" where
  "sm_map m = (case sm_storage m of Array slots \<Rightarrow> Inl Indeterminate | Full es \<Rightarrow> Inr es)"

definition slot_get :: "('k \<times> 'v) option list \<Rightarrow> nat \<Rightarrow> ('k \<times> 'v) result" where
  "slot_get slots i = rbind (vec_at slots (int i)) (of_option Indeterminate)"

definition slot_Init :: "nat \<Rightarrow> 'k \<times> 'v \<Rightarrow> ('k \<times> 'v) option list \<Rightarrow> ('k \<times> 'v) option list result" where
  "slot_Init i x slots = (if i < length slots then Inr (slots[i := Some x]) else Inl Out_of_bounds)"

definition slot_Destroy :: "nat \<Rightarrow> ('k \<times> 'v) option list \<Rightarrow> ('k \<times> 'v) option list result" where
  "slot_Destroy i slots = rbind (slot_get slots i) (\<lambda>x. Inr (slots[i := None]))"

text \<open>The loops that look for a key, over the given indices.\<close>

primrec scan :: "'k \<Rightarrow> ('k \<times> 'v) option list \<Rightarrow> nat list \<Rightarrow> nat option result" where
  "scan key slots [] = Inr None"
| "scan key slots (i # is) = rbind (slot_get slots i) (\<lambda>x. if fst x = key then Inr (Some i) else scan key slots is)"

text \<open>The standard map: \<^verbatim>\<open>find\<close>, \<^verbatim>\<open>operator[]\<close> and \<^verbatim>\<open>insert\<close>, which keeps an entry that is there.\<close>

fun map_find :: "'k \<Rightarrow> ('k \<times> 'v) list \<Rightarrow> nat" where
  "map_find key [] = 0"
| "map_find key (x # es) = (if fst x = key then 0 else Suc (map_find key es))"

type_synonym 'k place = "'k \<Rightarrow> 'k list \<Rightarrow> nat"

definition map_insert :: "'k place \<Rightarrow> 'k \<times> 'v \<Rightarrow> ('k \<times> 'v) list \<Rightarrow> nat \<times> bool \<times> ('k \<times> 'v) list" where
  "map_insert place x es = (let i = map_find (fst x) es in
     if i < length es then (i, False, es)
     else let p = min (place (fst x) (map fst es)) (length es) in (p, True, take p es @ x # drop p es))"

definition SmallMap_find :: "'k \<Rightarrow> ('k, 'v) SmallMap \<Rightarrow> sm_iterator result" where
  "SmallMap_find key m =
    (if sm_size m \<ge> 0
     then rbind (sm_array m) (\<lambda>slots. rbind (scan key slots [0..<nat (sm_size m)]) (\<lambda>r.
       Inr (Array_iter (case r of Some i \<Rightarrow> i | None \<Rightarrow> nat (sm_size m)))))
     else rbind (sm_map m) (\<lambda>es. Inr (Map_iter (map_find key es))))"

text \<open>The loops of \<^verbatim>\<open>ConvertToRealMap\<close>: the elements are moved to \<^verbatim>\<open>temp_array\<close>, and inserted from there.\<close>

primrec convert_loop :: "nat list \<Rightarrow> ('k \<times> 'v) option list \<Rightarrow> (('k \<times> 'v) list \<times> ('k \<times> 'v) option list) result" where
  "convert_loop [] slots = Inr ([], slots)"
| "convert_loop (i # is) slots = rbind (slot_get slots i) (\<lambda>x. rbind (slot_Destroy i slots) (\<lambda>slots1.
     rbind (convert_loop is slots1) (\<lambda>(temp_array, slots2). Inr (x # temp_array, slots2))))"

definition ConvertToRealMap :: "'k place \<Rightarrow> nat \<Rightarrow> ('k, 'v) SmallMap \<Rightarrow> ('k, 'v) SmallMap result" where
  "ConvertToRealMap place kArraySize m =
     rbind (sm_array m) (\<lambda>slots. rbind (convert_loop [0..<kArraySize] slots) (\<lambda>(temp_array, slots1).
     Inr \<lparr>sm_size = -1, sm_storage = Full (foldl (\<lambda>es x. snd (snd (map_insert place x es))) [] temp_array)\<rparr>))"

text \<open>\<^verbatim>\<open>operator[]\<close> returns a reference to the value, here the place of the entry; \<open>d\<close> is \<^verbatim>\<open>data_type()\<close>.\<close>

definition full_index :: "'k place \<Rightarrow> 'v \<Rightarrow> 'k \<Rightarrow> ('k, 'v) SmallMap \<Rightarrow> (sm_iterator \<times> ('k, 'v) SmallMap) result" where
  "full_index place d key m = rbind (sm_map m) (\<lambda>es.
     let (i, b, es1) = map_insert place (key, d) es in Inr (Map_iter i, m\<lparr>sm_storage := Full es1\<rparr>))"

definition SmallMap_index :: "'k place \<Rightarrow> nat \<Rightarrow> 'v \<Rightarrow> 'k \<Rightarrow> ('k, 'v) SmallMap \<Rightarrow> (sm_iterator \<times> ('k, 'v) SmallMap) result" where
  "SmallMap_index place kArraySize d key m =
    (if sm_size m \<ge> 0
     then rbind (sm_array m) (\<lambda>slots. rbind (scan key slots (rev [0..<nat (sm_size m)])) (\<lambda>r. case r of
         Some i \<Rightarrow> Inr (Array_iter i, m)
       | None \<Rightarrow>
           if sm_size m = int kArraySize then rbind (ConvertToRealMap place kArraySize m) (full_index place d key)
           else rbind (slot_Init (nat (sm_size m)) (key, d) slots) (\<lambda>slots1.
             Inr (Array_iter (nat (sm_size m)), \<lparr>sm_size = sm_size m + 1, sm_storage = Array slots1\<rparr>))))
     else full_index place d key m)"

definition full_insert :: "'k place \<Rightarrow> 'k \<times> 'v \<Rightarrow> ('k, 'v) SmallMap \<Rightarrow> (sm_iterator \<times> bool \<times> ('k, 'v) SmallMap) result" where
  "full_insert place x m = rbind (sm_map m) (\<lambda>es. let (i, b, es1) = map_insert place x es in Inr (Map_iter i, b, m\<lparr>sm_storage := Full es1\<rparr>))"

definition SmallMap_insert :: "'k place \<Rightarrow> nat \<Rightarrow> 'k \<times> 'v \<Rightarrow> ('k, 'v) SmallMap \<Rightarrow> (sm_iterator \<times> bool \<times> ('k, 'v) SmallMap) result" where
  "SmallMap_insert place kArraySize x m =
    (if sm_size m \<ge> 0
     then rbind (sm_array m) (\<lambda>slots. rbind (scan (fst x) slots [0..<nat (sm_size m)]) (\<lambda>r. case r of
         Some i \<Rightarrow> Inr (Array_iter i, False, m)
       | None \<Rightarrow>
           if sm_size m = int kArraySize then rbind (ConvertToRealMap place kArraySize m) (full_insert place x)
           else rbind (slot_Init (nat (sm_size m)) x slots) (\<lambda>slots1.
             Inr (Array_iter (nat (sm_size m)), True, \<lparr>sm_size = sm_size m + 1, sm_storage = Array slots1\<rparr>))))
     else full_insert place x m)"

primrec SmallMap_insert_range :: "'k place \<Rightarrow> nat \<Rightarrow> ('k \<times> 'v) list \<Rightarrow> ('k, 'v) SmallMap \<Rightarrow> ('k, 'v) SmallMap result" where
  "SmallMap_insert_range place kArraySize [] m = Inr m"
| "SmallMap_insert_range place kArraySize (x # xs) m =
     rbind (SmallMap_insert place kArraySize x m) (\<lambda>(it, b, m1). SmallMap_insert_range place kArraySize xs m1)"

text \<open>Iterators. \<^verbatim>\<open>operator*\<close> and \<^verbatim>\<open>operator->\<close> are \<open>SmallMap_deref\<close>; assigning to \<^verbatim>\<open>it->second\<close> is \<open>SmallMap_assign_value\<close>.\<close>

definition SmallMap_begin :: "('k, 'v) SmallMap \<Rightarrow> sm_iterator" where
  "SmallMap_begin m = (if sm_size m \<ge> 0 then Array_iter 0 else Map_iter 0)"

definition SmallMap_end :: "('k, 'v) SmallMap \<Rightarrow> sm_iterator result" where
  "SmallMap_end m =
    (if sm_size m \<ge> 0 then Inr (Array_iter (nat (sm_size m))) else rbind (sm_map m) (\<lambda>es. Inr (Map_iter (length es))))"

fun sm_iterator_next :: "sm_iterator \<Rightarrow> sm_iterator" where
  "sm_iterator_next (Array_iter i) = Array_iter (i + 1)"
| "sm_iterator_next (Map_iter i) = Map_iter (i + 1)"

fun sm_iterator_prev :: "sm_iterator \<Rightarrow> sm_iterator result" where
  "sm_iterator_prev (Array_iter i) = (if i = 0 then Inl Out_of_bounds else Inr (Array_iter (i - 1)))"
| "sm_iterator_prev (Map_iter i) = (if i = 0 then Inl Out_of_bounds else Inr (Map_iter (i - 1)))"

fun SmallMap_deref :: "('k, 'v) SmallMap \<Rightarrow> sm_iterator \<Rightarrow> ('k \<times> 'v) result" where
  "SmallMap_deref m (Array_iter i) = rbind (sm_array m) (\<lambda>slots. slot_get slots i)"
| "SmallMap_deref m (Map_iter i) = rbind (sm_map m) (\<lambda>es. vec_at es (int i))"

fun SmallMap_assign_value :: "sm_iterator \<Rightarrow> 'v \<Rightarrow> ('k, 'v) SmallMap \<Rightarrow> ('k, 'v) SmallMap result" where
  "SmallMap_assign_value (Array_iter i) v m = rbind (sm_array m) (\<lambda>slots. rbind (slot_get slots i) (\<lambda>x.
     Inr (m\<lparr>sm_storage := Array (slots[i := Some (fst x, v)])\<rparr>)))"
| "SmallMap_assign_value (Map_iter i) v m = rbind (sm_map m) (\<lambda>es. rbind (vec_at es (int i)) (\<lambda>x.
     Inr (m\<lparr>sm_storage := Full (es[i := (fst x, v)])\<rparr>)))"

text \<open>\<^verbatim>\<open>for (it = begin(); it != end(); ++it)\<close>, collecting the entries, for at most \<open>fuel\<close> of them.\<close>

primrec SmallMap_entries_from :: "nat \<Rightarrow> ('k, 'v) SmallMap \<Rightarrow> sm_iterator \<Rightarrow> ('k \<times> 'v) list result" where
  "SmallMap_entries_from 0 m it = rbind (SmallMap_end m) (\<lambda>e. if it = e then Inr [] else Inl Diverges)"
| "SmallMap_entries_from (Suc fuel) m it = rbind (SmallMap_end m) (\<lambda>e.
     if it = e then Inr []
     else rbind (SmallMap_deref m it) (\<lambda>x.
       rbind (SmallMap_entries_from fuel m (sm_iterator_next it)) (\<lambda>xs. Inr (x # xs))))"

text \<open>The loops that destroy the elements of the array; \<^verbatim>\<open>Destroy\<close> leaves raw storage.\<close>

primrec destroy_loop :: "nat list \<Rightarrow> ('k \<times> 'v) option list \<Rightarrow> ('k \<times> 'v) option list result" where
  "destroy_loop [] slots = Inr slots"
| "destroy_loop (i # is) slots = rbind (slot_Destroy i slots) (destroy_loop is)"

definition SmallMap_Destroy :: "nat \<Rightarrow> ('k, 'v) SmallMap \<Rightarrow> ('k, 'v) SmallMap result" where
  "SmallMap_Destroy kArraySize m =
    (if sm_size m \<ge> 0
     then rbind (sm_array m) (\<lambda>slots. rbind (destroy_loop [0..<nat (sm_size m)] slots) (\<lambda>slots1. Inr (m\<lparr>sm_storage := Array slots1\<rparr>)))
     else rbind (sm_map m) (\<lambda>es. Inr (m\<lparr>sm_storage := Array (replicate kArraySize None)\<rparr>)))"

definition SmallMap_clear :: "nat \<Rightarrow> ('k, 'v) SmallMap \<Rightarrow> ('k, 'v) SmallMap result" where
  "SmallMap_clear kArraySize m = rbind (SmallMap_Destroy kArraySize m) (\<lambda>m1. Inr (m1\<lparr>sm_size := 0\<rparr>))"

definition SmallMap_erase_at :: "sm_iterator \<Rightarrow> ('k, 'v) SmallMap \<Rightarrow> ('k, 'v) SmallMap result" where
  "SmallMap_erase_at position m =
    (if sm_size m \<ge> 0
     then (case position of
         Array_iter i \<Rightarrow> rbind (sm_array m) (\<lambda>slots. rbind (slot_Destroy i slots) (\<lambda>slots1.
           let n = nat (sm_size m - 1) in
           if i \<noteq> n
           then rbind (slot_get slots1 n) (\<lambda>x. rbind (slot_Init i x slots1) (\<lambda>slots2. rbind (slot_Destroy n slots2) (\<lambda>slots3.
             Inr \<lparr>sm_size = sm_size m - 1, sm_storage = Array slots3\<rparr>)))
           else Inr \<lparr>sm_size = sm_size m - 1, sm_storage = Array slots1\<rparr>))
       | Map_iter i \<Rightarrow> Inl Out_of_bounds)
     else (case position of
         Array_iter i \<Rightarrow> Inl Indeterminate
       | Map_iter i \<Rightarrow> rbind (sm_map m) (\<lambda>es. if i < length es then Inr (m\<lparr>sm_storage := Full (take i es @ drop (i + 1) es)\<rparr>) else Inl Out_of_bounds)))"

definition SmallMap_erase :: "'k \<Rightarrow> ('k, 'v) SmallMap \<Rightarrow> (nat \<times> ('k, 'v) SmallMap) result" where
  "SmallMap_erase key m = rbind (SmallMap_find key m) (\<lambda>iter. rbind (SmallMap_end m) (\<lambda>e.
     if iter = e then Inr (0, m) else rbind (SmallMap_erase_at iter m) (\<lambda>m1. Inr (1, m1))))"

definition SmallMap_count :: "'k \<Rightarrow> ('k, 'v) SmallMap \<Rightarrow> nat result" where
  "SmallMap_count key m = rbind (SmallMap_find key m) (\<lambda>iter. rbind (SmallMap_end m) (\<lambda>e. Inr (if iter = e then 0 else 1)))"

definition SmallMap_size :: "('k, 'v) SmallMap \<Rightarrow> nat result" where
  "SmallMap_size m = (if sm_size m \<ge> 0 then Inr (nat (sm_size m)) else rbind (sm_map m) (\<lambda>es. Inr (length es)))"

definition SmallMap_empty :: "('k, 'v) SmallMap \<Rightarrow> bool result" where
  "SmallMap_empty m = (if sm_size m \<ge> 0 then Inr (sm_size m = 0) else rbind (sm_map m) (\<lambda>es. Inr (es = [])))"

definition UsingFullMap :: "('k, 'v) SmallMap \<Rightarrow> bool" where
  "UsingFullMap m \<longleftrightarrow> sm_size m < 0"

text \<open>\<^verbatim>\<open>InitFrom\<close> on raw storage; the copy constructor is \<open>InitFrom\<close> on a new object.\<close>

primrec copy_loop :: "nat list \<Rightarrow> ('k \<times> 'v) option list \<Rightarrow> ('k \<times> 'v) option list \<Rightarrow> ('k \<times> 'v) option list result" where
  "copy_loop [] src slots = Inr slots"
| "copy_loop (i # is) src slots = rbind (slot_get src i) (\<lambda>x. rbind (slot_Init i x slots) (copy_loop is src))"

definition SmallMap_InitFrom :: "('k, 'v) SmallMap \<Rightarrow> ('k, 'v) SmallMap \<Rightarrow> ('k, 'v) SmallMap result" where
  "SmallMap_InitFrom src m =
    (if sm_size src \<ge> 0
     then rbind (sm_array src) (\<lambda>s. rbind (sm_array m) (\<lambda>slots. rbind (copy_loop [0..<nat (sm_size src)] s slots) (\<lambda>slots1.
       Inr \<lparr>sm_size = sm_size src, sm_storage = Array slots1\<rparr>)))
     else rbind (sm_map src) (\<lambda>es. Inr \<lparr>sm_size = sm_size src, sm_storage = Full es\<rparr>))"

text \<open>\<^verbatim>\<open>operator=\<close> from another object; from the object itself it does nothing.\<close>

definition SmallMap_assign :: "nat \<Rightarrow> ('k, 'v) SmallMap \<Rightarrow> ('k, 'v) SmallMap \<Rightarrow> ('k, 'v) SmallMap result" where
  "SmallMap_assign kArraySize src m = rbind (SmallMap_Destroy kArraySize m) (SmallMap_InitFrom src)"

section \<open>Well-formed maps\<close>

text \<open>\<open>sm_holds k m es\<close>: the entries of \<open>m\<close>, in the order of the iterators, are \<open>es\<close>. Exactly the slots below \<^verbatim>\<open>size_\<close> hold objects.\<close>

definition sm_holds :: "nat \<Rightarrow> ('k, 'v) SmallMap \<Rightarrow> ('k \<times> 'v) list \<Rightarrow> bool" where
  "sm_holds k m es \<longleftrightarrow> distinct (map fst es) \<and>
    (sm_size m = int (length es) \<and> length es \<le> k \<and> sm_storage m = Array (map Some es @ replicate (k - length es) None) \<or>
     sm_size m = -1 \<and> sm_storage m = Full es)"

definition sm_slots :: "nat \<Rightarrow> ('k \<times> 'v) list \<Rightarrow> ('k \<times> 'v) option list" where
  "sm_slots k es = map Some es @ replicate (k - length es) None"

definition sm_at :: "('k, 'v) SmallMap \<Rightarrow> nat \<Rightarrow> sm_iterator" where
  "sm_at m i = (if sm_size m \<ge> 0 then Array_iter i else Map_iter i)"

lemma sm_holds_cases:
  assumes "sm_holds k m es"
  obtains (small) "sm_size m = int (length es)" "length es \<le> k" "sm_storage m = Array (sm_slots k es)" "distinct (map fst es)"
  | (large) "sm_size m = -1" "sm_storage m = Full es" "distinct (map fst es)"
  using assms by (auto simp: sm_holds_def sm_slots_def)

lemma sm_holds_small:
  "distinct (map fst es) \<Longrightarrow> length es \<le> k \<Longrightarrow> sm_holds k \<lparr>sm_size = int (length es), sm_storage = Array (sm_slots k es)\<rparr> es"
  by (simp add: sm_holds_def sm_slots_def)

lemma sm_holds_large: "distinct (map fst es) \<Longrightarrow> sm_holds k \<lparr>sm_size = -1, sm_storage = Full es\<rparr> es"
  by (simp add: sm_holds_def)

lemma slot_get_slots: "i < length es \<Longrightarrow> slot_get (sm_slots k es) i = Inr (es ! i)"
  by (simp add: slot_get_def sm_slots_def vec_at_def nth_append)

lemma slots_update: "i < length es \<Longrightarrow> (sm_slots k es)[i := Some x] = sm_slots k (es[i := x])"
  by (simp add: sm_slots_def list_update_append map_update)

lemma slot_Init_slots: "length es < k \<Longrightarrow> slot_Init (length es) x (sm_slots k es) = Inr (sm_slots k (es @ [x]))"
  by (cases "k - length es") (auto simp: slot_Init_def sm_slots_def list_update_append simp flip: diff_Suc_eq_diff_pred)

lemma slot_Destroy_last: "es \<noteq> [] \<Longrightarrow> length es \<le> k \<Longrightarrow> slot_Destroy (length es - 1) (sm_slots k es) = Inr (sm_slots k (butlast es))"
proof (cases es rule: rev_cases)
  case (snoc ys y)
  assume "es \<noteq> []" "length es \<le> k"
  then have "k - length ys = Suc (k - length es)" using snoc by simp
  then show ?thesis
    using snoc slot_get_slots [of "length es - 1" es k] by (simp add: slot_Destroy_def) (simp add: sm_slots_def list_update_append)
qed simp

lemma map_find_props:
  "map_find key es \<le> length es" "map_find key es < length es \<Longrightarrow> fst (es ! map_find key es) = key"
  "map_find key es < length es \<longleftrightarrow> key \<in> fst ` set es"
  by (induction es) auto

lemma map_find_unique: "distinct (map fst es) \<Longrightarrow> i < length es \<Longrightarrow> fst (es ! i) = key \<Longrightarrow> map_find key es = i"
  using map_find_props [of key es] by (metis image_eqI length_map nth_eq_iff_index_eq nth_map nth_mem)

lemma map_of_map_find:
  "distinct (map fst es) \<Longrightarrow> map_of es key = (if map_find key es < length es then Some (snd (es ! map_find key es)) else None)"
  by (induction es) auto

lemma scan_slots:
  assumes "distinct (map fst es)" and "set is = {..<length es}"
  shows "scan key (sm_slots k es) is = Inr (if map_find key es < length es then Some (map_find key es) else None)"
proof -
  have "scan key (sm_slots k es) js = Inr (List.find (\<lambda>i. fst (es ! i) = key) js)" if "set js \<subseteq> {..<length es}" for js
    using that by (induction js) (simp_all add: slot_get_slots)
  then have scan: "scan key (sm_slots k es) is = Inr (List.find (\<lambda>i. fst (es ! i) = key) is)" using assms(2) by simp
  show ?thesis
  proof (cases "List.find (\<lambda>i. fst (es ! i) = key) is")
    case None
    then have "\<forall>i \<in> set is. fst (es ! i) \<noteq> key" by (simp add: find_None_iff)
    then have "fst (es ! i) \<noteq> key" if "i < length es" for i using that assms(2) by simp
    then have "\<not> map_find key es < length es" using map_find_props(2) [of key es] by auto
    then show ?thesis using scan None by simp
  next
    case (Some i)
    then have "i \<in> set is" "fst (es ! i) = key" by (auto simp: find_Some_iff)
    then have "i < length es" "fst (es ! i) = key" using assms(2) by simp_all
    then show ?thesis using scan Some map_find_unique [OF assms(1)] by simp
  qed
qed

section \<open>The operations\<close>

lemma scan_up:
  "distinct (map fst es) \<Longrightarrow>
    scan key (sm_slots k es) [0..<length es] = Inr (if map_find key es < length es then Some (map_find key es) else None)"
  by (rule scan_slots) auto

lemma scan_down:
  "distinct (map fst es) \<Longrightarrow>
    scan key (sm_slots k es) (rev [0..<length es]) = Inr (if map_find key es < length es then Some (map_find key es) else None)"
  by (rule scan_slots) auto

lemma SmallMap_find_ok:
  assumes "sm_holds k m es"
  shows "SmallMap_find key m = Inr (sm_at m (map_find key es))"
  using assms
proof (cases rule: sm_holds_cases)
  case small
  then show ?thesis
    using map_find_props(1) [of key es] by (simp add: SmallMap_find_def sm_array_def scan_up sm_at_def)
next
  case large
  then show ?thesis by (simp add: SmallMap_find_def sm_map_def sm_at_def)
qed

lemma SmallMap_end_ok: "sm_holds k m es \<Longrightarrow> SmallMap_end m = Inr (sm_at m (length es))"
  by (elim sm_holds_cases) (simp_all add: SmallMap_end_def sm_map_def sm_at_def)

lemma SmallMap_size_ok: "sm_holds k m es \<Longrightarrow> SmallMap_size m = Inr (length es)"
  by (elim sm_holds_cases) (simp_all add: SmallMap_size_def sm_map_def)

lemma SmallMap_empty_ok: "sm_holds k m es \<Longrightarrow> SmallMap_empty m = Inr (es = [])"
  by (elim sm_holds_cases) (simp_all add: SmallMap_empty_def sm_map_def)

lemma SmallMap_deref_ok: "sm_holds k m es \<Longrightarrow> i < length es \<Longrightarrow> SmallMap_deref m (sm_at m i) = Inr (es ! i)"
  by (elim sm_holds_cases) (simp_all add: sm_array_def sm_map_def sm_at_def slot_get_slots vec_at_def)

lemma sm_at_inj [simp]: "sm_at m i = sm_at m j \<longleftrightarrow> i = j"
  by (simp add: sm_at_def)

lemma sm_at_next [simp]: "sm_iterator_next (sm_at m i) = sm_at m (Suc i)"
  by (simp add: sm_at_def)

lemma sm_begin_at: "SmallMap_begin m = sm_at m 0"
  by (simp add: SmallMap_begin_def sm_at_def)

lemma entries_from_ok:
  "sm_holds k m es \<Longrightarrow> i \<le> length es \<Longrightarrow> length es - i \<le> fuel \<Longrightarrow> SmallMap_entries_from fuel m (sm_at m i) = Inr (drop i es)"
proof (induction fuel arbitrary: i)
  case (Suc fuel)
  then show ?case
    by (cases "i = length es") (simp_all add: SmallMap_end_ok SmallMap_deref_ok flip: Cons_nth_drop_Suc)
qed (simp add: SmallMap_end_ok)

lemma map_fst_update: "i < length es \<Longrightarrow> map fst (es[i := (fst (es ! i), v)]) = map fst es"
  by (simp add: map_update list_update_same_conv)

lemma SmallMap_assign_value_ok:
  assumes "sm_holds k m es" and i: "i < length es"
  shows "\<exists>m'. SmallMap_assign_value (sm_at m i) v m = Inr m' \<and> sm_holds k m' (es[i := (fst (es ! i), v)])"
  using assms(1)
proof (cases rule: sm_holds_cases)
  case small
  then have "SmallMap_assign_value (sm_at m i) v m = Inr (m\<lparr>sm_storage := Array (sm_slots k (es[i := (fst (es ! i), v)]))\<rparr>)"
    using i by (simp add: sm_at_def sm_array_def slot_get_slots slots_update)
  then show ?thesis using small i by (simp add: sm_holds_def sm_slots_def map_fst_update)
next
  case large
  then show ?thesis using i by (simp add: sm_at_def sm_map_def vec_at_def sm_holds_def map_fst_update)
qed

lemma convert_loop_ok:
  "convert_loop [j..<j + length es] (replicate j None @ map Some es) = Inr (es, replicate (j + length es) None)"
proof (induction es arbitrary: j)
  case (Cons x es)
  have "(replicate j None @ Some x # map Some es)[j := None] = replicate (Suc j) None @ map Some es"
    by (simp add: list_update_append replicate_append_same flip: replicate_Suc)
  moreover have "[j..<j + length (x # es)] = j # [Suc j..<Suc j + length es]" by (simp add: upt_conv_Cons del: upt_Suc)
  ultimately show ?case using Cons.IH [of "Suc j"]
    by (simp add: slot_get_def slot_Destroy_def vec_at_def nth_append del: replicate_Suc upt_Suc)
qed simp

text \<open>Inserting in the standard map: an entry with the key stays, a new one goes to some place.\<close>

lemma map_insert_old: "fst x \<in> fst ` set es \<Longrightarrow> map_insert place x es = (map_find (fst x) es, False, es)"
  using map_find_props(3) [of "fst x" es] by (simp add: map_insert_def Let_def)

lemma map_insert_new:
  assumes "distinct (map fst es)" and new: "fst x \<notin> fst ` set es"
  obtains p es' where "map_insert place x es = (p, True, es')" "distinct (map fst es')" "set es' = insert x (set es)"
    "p < length es'" "es' ! p = x"
proof -
  define p where "p = min (place (fst x) (map fst es)) (length es)"
  have p: "p \<le> length es" by (simp add: p_def)
  have perm: "set (take p es @ drop p es) = set es" "distinct (map fst (take p es @ drop p es))" using assms(1) by simp_all
  then have "distinct (map fst (take p es @ x # drop p es))" using new by (auto simp: image_Un simp del: append_take_drop_id)
  moreover have "set (take p es @ x # drop p es) = insert x (set es)" using perm(1) by (auto simp del: append_take_drop_id)
  moreover have "map_insert place x es = (p, True, take p es @ x # drop p es)"
    using new map_find_props(3) [of "fst x" es] by (simp add: map_insert_def Let_def p_def)
  moreover have "p < length (take p es @ x # drop p es)" "(take p es @ x # drop p es) ! p = x" using p by (simp_all add: nth_append)
  ultimately show ?thesis using that by blast
qed

lemma insert_all:
  "distinct (map fst acc) \<Longrightarrow> distinct (map fst es) \<Longrightarrow> fst ` set acc \<inter> fst ` set es = {} \<Longrightarrow>
    distinct (map fst (foldl (\<lambda>es x. snd (snd (map_insert place x es))) acc es)) \<and>
    set (foldl (\<lambda>es x. snd (snd (map_insert place x es))) acc es) = set acc \<union> set es"
proof (induction es arbitrary: acc)
  case (Cons x es)
  have "fst x \<notin> fst ` set acc" using Cons.prems(3) by auto
  then obtain p acc' where new: "map_insert place x acc = (p, True, acc')" "distinct (map fst acc')" "set acc' = insert x (set acc)"
    using map_insert_new [OF Cons.prems(1)] by metis
  have "fst ` set acc' \<inter> fst ` set es = {}" using Cons.prems(2,3) new(3) by auto
  then show ?case using Cons.IH [OF new(2)] Cons.prems(2) new(1,3) by simp
qed simp

lemma ConvertToRealMap_ok:
  assumes "sm_storage m = Array (sm_slots (length es) es)" and "distinct (map fst es)"
  obtains es' where "ConvertToRealMap place (length es) m = Inr \<lparr>sm_size = -1, sm_storage = Full es'\<rparr>"
    "distinct (map fst es')" "set es' = set es"
  using assms convert_loop_ok [of 0 es] insert_all [of "[]" es place] that
  by (simp add: ConvertToRealMap_def sm_array_def sm_slots_def)

lemma full_insert_new:
  assumes "distinct (map fst es)" and "fst x \<notin> fst ` set es"
  obtains p es' where "full_insert place x \<lparr>sm_size = -1, sm_storage = Full es\<rparr> = Inr (Map_iter p, True, \<lparr>sm_size = -1, sm_storage = Full es'\<rparr>)"
    "distinct (map fst es')" "set es' = insert x (set es)" "p < length es'" "es' ! p = x"
proof -
  obtain p es' where new: "map_insert place x es = (p, True, es')" "distinct (map fst es')" "set es' = insert x (set es)"
    "p < length es'" "es' ! p = x"
    using map_insert_new [OF assms] by metis
  show thesis by (rule that [OF _ new(2-5)]) (simp add: full_insert_def sm_map_def new(1))
qed

lemma SmallMap_insert_old:
  assumes "sm_holds k m es" and "fst x \<in> fst ` set es"
  shows "SmallMap_insert place k x m = Inr (sm_at m (map_find (fst x) es), False, m)"
  using assms(1)
proof (cases rule: sm_holds_cases)
  case small
  then show ?thesis using assms(2) map_find_props(3) [of "fst x" es] by (simp add: SmallMap_insert_def sm_array_def scan_up sm_at_def)
next
  case large
  then show ?thesis using assms(2) by (simp add: SmallMap_insert_def full_insert_def sm_map_def map_insert_old sm_at_def)
qed

lemma SmallMap_insert_new:
  assumes "sm_holds k m es" and "fst x \<notin> fst ` set es"
  obtains i m' es' where "SmallMap_insert place k x m = Inr (sm_at m' i, True, m')" "sm_holds k m' es'"
    "set es' = insert x (set es)" "i < length es'" "es' ! i = x"
  using assms(1)
proof (cases rule: sm_holds_cases)
  case small
  have notfound: "scan (fst x) (sm_slots k es) [0..<length es] = Inr None"
    using assms(2) map_find_props(3) [of "fst x" es] small(4) by (simp add: scan_up)
  show ?thesis
  proof (cases "length es = k")
    case True
    obtain es1 where es1: "ConvertToRealMap place k m = Inr \<lparr>sm_size = -1, sm_storage = Full es1\<rparr>" "distinct (map fst es1)" "set es1 = set es"
      using ConvertToRealMap_ok [of m es place] small(3,4) True by metis
    obtain p es2 where "full_insert place x \<lparr>sm_size = -1, sm_storage = Full es1\<rparr> = Inr (Map_iter p, True, \<lparr>sm_size = -1, sm_storage = Full es2\<rparr>)"
      "distinct (map fst es2)" "set es2 = insert x (set es1)" "p < length es2" "es2 ! p = x"
      using full_insert_new [OF es1(2), of x place] es1(3) assms(2) by metis
    then show ?thesis
      using small True notfound es1 that [of "\<lparr>sm_size = -1, sm_storage = Full es2\<rparr>" p es2]
      by (simp add: SmallMap_insert_def sm_array_def sm_at_def sm_holds_large)
  next
    case False
    then show ?thesis
      using small notfound assms(2) sm_holds_small [of "es @ [x]" k]
        that [of "\<lparr>sm_size = int (length es) + 1, sm_storage = Array (sm_slots k (es @ [x]))\<rparr>" "length es" "es @ [x]"]
      by (simp add: SmallMap_insert_def sm_array_def sm_at_def slot_Init_slots add.commute)
  qed
next
  case large
  obtain p es2 where "full_insert place x \<lparr>sm_size = -1, sm_storage = Full es\<rparr> = Inr (Map_iter p, True, \<lparr>sm_size = -1, sm_storage = Full es2\<rparr>)"
    "distinct (map fst es2)" "set es2 = insert x (set es)" "p < length es2" "es2 ! p = x"
    using full_insert_new [OF large(3) assms(2), of place] by metis
  moreover have "m = \<lparr>sm_size = -1, sm_storage = Full es\<rparr>" using large by simp
  ultimately show ?thesis
    using that [of "\<lparr>sm_size = -1, sm_storage = Full es2\<rparr>" p es2] by (simp add: SmallMap_insert_def sm_at_def sm_holds_large)
qed

lemma SmallMap_index_insert:
  assumes "sm_holds k m es"
  shows "SmallMap_index place k d key m = rbind (SmallMap_insert place k (key, d) m) (\<lambda>(it, b, m'). Inr (it, m'))"
proof -
  have full: "full_index place d key m = rbind (full_insert place (key, d) m) (\<lambda>(it, b, m'). Inr (it, m'))" for m :: "('a, 'b) SmallMap"
    by (cases "sm_map m") (simp_all add: full_index_def full_insert_def split_beta)
  from assms show ?thesis
  proof (cases rule: sm_holds_cases)
    case small
    then show ?thesis
      by (cases "ConvertToRealMap place k m"; cases "slot_Init (length es) (key, d) (sm_slots k es)")
        (simp_all add: SmallMap_index_def SmallMap_insert_def sm_array_def scan_up scan_down full)
  qed (simp add: SmallMap_index_def SmallMap_insert_def full)
qed

text \<open>Removing the entry at a place: the array moves its last entry there, the standard map closes the gap.\<close>

lemma move_last_keys:
  assumes "distinct (map fst es)" and i: "i < length es"
  shows "distinct (map fst (butlast (es[i := last es])))" "set (butlast (es[i := last es])) = set es - {es ! i}"
proof (atomize (full), cases es rule: rev_cases)
  case (snoc ys y)
  have dist: "distinct (map fst ys)" "fst y \<notin> fst ` set ys" "distinct ys" "y \<notin> set ys"
    using assms(1) snoc by (auto simp: distinct_map)
  show "distinct (map fst (butlast (es[i := last es]))) \<and> set (butlast (es[i := last es])) = set es - {es ! i}"
  proof (cases "i = length ys")
    case True
    then show ?thesis using snoc dist by auto
  next
    case False
    then have "butlast (es[i := last es]) = ys[i := y]" and i': "i < length ys" using snoc i by (simp_all add: list_update_append butlast_append)
    moreover have "set (ys[i := y]) = set es - {es ! i}" using snoc i' dist by (auto simp: set_update_distinct nth_append)
    moreover have "distinct (map fst (ys[i := y]))" using dist by (auto simp: map_update intro!: distinct_list_update)
    ultimately show ?thesis by simp
  qed
qed (use i in simp)

lemma close_gap_keys:
  assumes "distinct (map fst es)" and i: "i < length es"
  shows "distinct (map fst (take i es @ drop (i + 1) es))" "set (take i es @ drop (i + 1) es) = set es - {es ! i}"
proof -
  have split: "es = take i es @ es ! i # drop (i + 1) es" using i by (simp add: id_take_nth_drop)
  have "distinct (map fst (take i es @ es ! i # drop (i + 1) es))" using assms(1) split by metis
  then have "distinct (map fst (take i es @ drop (i + 1) es))" "fst (es ! i) \<notin> fst ` set (take i es @ drop (i + 1) es)" by auto
  moreover have "set es = insert (es ! i) (set (take i es @ drop (i + 1) es))" by (subst split) simp
  ultimately show "distinct (map fst (take i es @ drop (i + 1) es))" "set (take i es @ drop (i + 1) es) = set es - {es ! i}" by auto
qed

lemma slot_get_other: "i \<noteq> j \<Longrightarrow> slot_get (slots[i := y]) j = slot_get slots j"
  by (simp add: slot_get_def vec_at_def)

lemma erase_slots:
  assumes "i < length es" and "length es \<le> k" and "i \<noteq> length es - 1"
  shows "rbind (slot_Destroy i (sm_slots k es)) (\<lambda>slots1. rbind (slot_get slots1 (length es - 1)) (\<lambda>x.
      rbind (slot_Init i x slots1) (slot_Destroy (length es - 1)))) = Inr (sm_slots k (butlast (es[i := last es])))"
proof -
  have ne: "es \<noteq> []" using assms(1) by auto
  have len: "length (sm_slots k es) = k" using assms(2) by (simp add: sm_slots_def)
  have last: "slot_get ((sm_slots k es)[i := None]) (length es - 1) = Inr (last es)"
    using assms ne by (simp add: slot_get_other slot_get_slots last_conv_nth)
  show ?thesis
    using assms ne len last slot_Destroy_last [of "es[i := last es]" k]
    by (simp add: slot_Destroy_def [of i] slot_get_slots slot_Init_def slots_update)
qed

lemma SmallMap_erase_at_ok:
  assumes "sm_holds k m es" and i: "i < length es"
  obtains m' es' where "SmallMap_erase_at (sm_at m i) m = Inr m'" "sm_holds k m' es'" "set es' = set es - {es ! i}"
  using assms(1)
proof (cases rule: sm_holds_cases)
  case small
  let ?es = "butlast (es[i := last es])"
  have ne: "es \<noteq> []" using i by auto
  then have len: "int (length es - Suc 0) = int (length es) - 1" by (cases es) simp_all
  have "SmallMap_erase_at (sm_at m i) m = Inr \<lparr>sm_size = int (length ?es), sm_storage = Array (sm_slots k ?es)\<rparr>"
  proof (cases "i = length es - 1")
    case True
    then have "es[i := last es] = es" using ne by (simp add: last_conv_nth)
    then show ?thesis
      using small ne True slot_Destroy_last [OF ne small(2)] by (simp add: SmallMap_erase_at_def sm_at_def sm_array_def nat_diff_distrib' Let_def len)
  next
    case False
    show ?thesis using erase_slots [OF i small(2) False] small i False
      by (auto simp: SmallMap_erase_at_def sm_at_def sm_array_def nat_diff_distrib' Let_def len rbind_eq_Inr)
  qed
  moreover have "sm_holds k \<lparr>sm_size = int (length ?es), sm_storage = Array (sm_slots k ?es)\<rparr> ?es"
    by (rule sm_holds_small) (use move_last_keys [OF small(4) i] small(2) in simp_all)
  ultimately show ?thesis using that move_last_keys(2) [OF small(4) i] by blast
next
  case large
  then show ?thesis using that [of "m\<lparr>sm_storage := Full (take i es @ drop (i + 1) es)\<rparr>" "take i es @ drop (i + 1) es"]
      close_gap_keys [OF large(3) i] i
    by (simp add: SmallMap_erase_at_def sm_at_def sm_map_def sm_holds_def)
qed

text \<open>Destroying leaves the raw array; copying fills a raw array.\<close>

lemma destroy_loop_ok:
  "destroy_loop [j..<j + length es] (replicate j None @ map Some es @ rest) = Inr (replicate (j + length es) None @ rest)"
proof (induction es arbitrary: j)
  case (Cons x es)
  have "(replicate j None @ Some x # map Some es @ rest)[j := None] = replicate (Suc j) None @ map Some es @ rest"
    by (simp add: list_update_append replicate_append_same flip: replicate_Suc append_assoc)
  moreover have "[j..<j + length (x # es)] = j # [Suc j..<Suc j + length es]" by (simp add: upt_conv_Cons del: upt_Suc)
  ultimately show ?case using Cons.IH [of "Suc j"]
    by (simp add: slot_get_def slot_Destroy_def vec_at_def nth_append del: replicate_Suc upt_Suc)
qed simp

lemma SmallMap_Destroy_ok:
  assumes "sm_holds k m es"
  shows "SmallMap_Destroy k m = Inr (m\<lparr>sm_storage := Array (replicate k None)\<rparr>)"
  using assms
proof (cases rule: sm_holds_cases)
  case small
  then have "replicate (length es) None @ replicate (k - length es) None = replicate k (None :: ('a \<times> 'b) option)"
    by (simp flip: replicate_add)
  then show ?thesis using small destroy_loop_ok [of 0 es] by (simp add: SmallMap_Destroy_def sm_array_def sm_slots_def)
next
  case large
  then show ?thesis by (simp add: SmallMap_Destroy_def sm_map_def)
qed

lemma sm_holds_new: "sm_holds k (SmallMap_new k) []"
  by (simp add: SmallMap_new_def sm_holds_def)

lemma SmallMap_clear_ok: "sm_holds k m es \<Longrightarrow> SmallMap_clear k m = Inr (SmallMap_new k)"
  by (simp add: SmallMap_clear_def SmallMap_Destroy_ok SmallMap_new_def)

lemma copy_loop_ok:
  "j + n = length es \<Longrightarrow> length es \<le> k \<Longrightarrow> copy_loop [j..<length es] (sm_slots k es) (sm_slots k (take j es)) = Inr (sm_slots k es)"
proof (induction n arbitrary: j)
  case (Suc n)
  then show ?case using Suc.IH [of "Suc j"] slot_Init_slots [of "take j es" k "es ! j"]
    by (simp add: upt_conv_Cons slot_get_slots min_def take_Suc_conv_app_nth)
qed simp

lemma SmallMap_InitFrom_ok:
  assumes "sm_holds k src es" and "sm_storage m = Array (replicate k None)"
  shows "SmallMap_InitFrom src m = Inr src"
  using assms(1)
proof (cases rule: sm_holds_cases)
  case small
  have "replicate k None = sm_slots k (take 0 es)" by (simp add: sm_slots_def)
  then show ?thesis
    using small assms(2) copy_loop_ok [of 0 "length es" es k] by (simp add: SmallMap_InitFrom_def sm_array_def)
next
  case large
  then show ?thesis by (simp add: SmallMap_InitFrom_def sm_map_def)
qed

lemma SmallMap_assign_ok: "sm_holds k src es \<Longrightarrow> sm_holds k m es' \<Longrightarrow> SmallMap_assign k src m = Inr src"
  by (simp add: SmallMap_assign_def SmallMap_Destroy_ok SmallMap_InitFrom_ok [of k src es])

section \<open>Refinement of a finite map\<close>

text \<open>The operations of a client, with what it sees. A copy replaces the map by its copy; \<open>SM_replace\<close> assigns a map built elsewhere.\<close>

datatype ('k, 'v) SmallMap_op =
  SM_find 'k | SM_get 'k | SM_put 'k 'v | SM_insert "'k \<times> 'v" | SM_insert_range "('k \<times> 'v) list" | SM_erase 'k | SM_count 'k
| SM_size | SM_empty | SM_clear | SM_entries | SM_copy | SM_replace "('k \<times> 'v) list"

datatype ('k, 'v) SmallMap_out =
  SM_value "'v option" | SM_inserted "'k \<times> 'v" bool | SM_number nat | SM_flag bool | SM_all "('k \<times> 'v) set" nat | SM_done

primrec SmallMap_step ::
  "'k place \<Rightarrow> nat \<Rightarrow> 'v \<Rightarrow> ('k, 'v) SmallMap_op \<Rightarrow> ('k, 'v) SmallMap \<Rightarrow> (('k, 'v) SmallMap_out \<times> ('k, 'v) SmallMap) result" where
  "SmallMap_step place k d (SM_find key) m = rbind (SmallMap_find key m) (\<lambda>it. rbind (SmallMap_end m) (\<lambda>e.
     if it = e then Inr (SM_value None, m) else rbind (SmallMap_deref m it) (\<lambda>x. Inr (SM_value (Some (snd x)), m))))"
| "SmallMap_step place k d (SM_get key) m = rbind (SmallMap_index place k d key m) (\<lambda>(it, m1).
     rbind (SmallMap_deref m1 it) (\<lambda>x. Inr (SM_value (Some (snd x)), m1)))"
| "SmallMap_step place k d (SM_put key v) m = rbind (SmallMap_index place k d key m) (\<lambda>(it, m1).
     rbind (SmallMap_assign_value it v m1) (\<lambda>m2. Inr (SM_done, m2)))"
| "SmallMap_step place k d (SM_insert x) m = rbind (SmallMap_insert place k x m) (\<lambda>(it, b, m1).
     rbind (SmallMap_deref m1 it) (\<lambda>y. Inr (SM_inserted y b, m1)))"
| "SmallMap_step place k d (SM_insert_range xs) m = rbind (SmallMap_insert_range place k xs m) (\<lambda>m1. Inr (SM_done, m1))"
| "SmallMap_step place k d (SM_erase key) m = rbind (SmallMap_erase key m) (\<lambda>(n, m1). Inr (SM_number n, m1))"
| "SmallMap_step place k d (SM_count key) m = rbind (SmallMap_count key m) (\<lambda>n. Inr (SM_number n, m))"
| "SmallMap_step place k d SM_size m = rbind (SmallMap_size m) (\<lambda>n. Inr (SM_number n, m))"
| "SmallMap_step place k d SM_empty m = rbind (SmallMap_empty m) (\<lambda>b. Inr (SM_flag b, m))"
| "SmallMap_step place k d SM_clear m = rbind (SmallMap_clear k m) (\<lambda>m1. Inr (SM_done, m1))"
| "SmallMap_step place k d SM_entries m = rbind (SmallMap_size m) (\<lambda>n.
     rbind (SmallMap_entries_from n m (SmallMap_begin m)) (\<lambda>xs. Inr (SM_all (set xs) (length xs), m)))"
| "SmallMap_step place k d SM_copy m = rbind (SmallMap_InitFrom m (SmallMap_new k)) (\<lambda>m1. Inr (SM_done, m1))"
| "SmallMap_step place k d (SM_replace xs) m = rbind (SmallMap_insert_range place k xs (SmallMap_new k)) (\<lambda>src.
     rbind (SmallMap_assign k src m) (\<lambda>m1. Inr (SM_done, m1)))"

text \<open>The specification: a finite map from keys to values.\<close>

definition add_new :: "('k \<rightharpoonup> 'v) \<Rightarrow> 'k \<times> 'v \<Rightarrow> ('k \<rightharpoonup> 'v)" where
  "add_new f x = (if f (fst x) = None then f(fst x \<mapsto> snd x) else f)"

primrec SmallMap_spec :: "'v \<Rightarrow> ('k, 'v) SmallMap_op \<Rightarrow> ('k \<rightharpoonup> 'v) \<Rightarrow> ('k, 'v) SmallMap_out \<times> ('k \<rightharpoonup> 'v)" where
  "SmallMap_spec d (SM_find key) f = (SM_value (f key), f)"
| "SmallMap_spec d (SM_get key) f = (SM_value (add_new f (key, d) key), add_new f (key, d))"
| "SmallMap_spec d (SM_put key v) f = (SM_done, f(key \<mapsto> v))"
| "SmallMap_spec d (SM_insert x) f = (SM_inserted (fst x, the (add_new f x (fst x))) (f (fst x) = None), add_new f x)"
| "SmallMap_spec d (SM_insert_range xs) f = (SM_done, foldl add_new f xs)"
| "SmallMap_spec d (SM_erase key) f = (SM_number (if f key = None then 0 else 1), f(key := None))"
| "SmallMap_spec d (SM_count key) f = (SM_number (if f key = None then 0 else 1), f)"
| "SmallMap_spec d SM_size f = (SM_number (card (dom f)), f)"
| "SmallMap_spec d SM_empty f = (SM_flag (f = Map.empty), f)"
| "SmallMap_spec d SM_clear f = (SM_done, Map.empty)"
| "SmallMap_spec d SM_entries f = (SM_all (Map.graph f) (card (dom f)), f)"
| "SmallMap_spec d SM_copy f = (SM_done, f)"
| "SmallMap_spec d (SM_replace xs) f = (SM_done, foldl add_new Map.empty xs)"

definition sm_rel :: "nat \<Rightarrow> ('k, 'v) SmallMap \<Rightarrow> ('k \<rightharpoonup> 'v) \<Rightarrow> bool" where
  "sm_rel k m f \<longleftrightarrow> (\<exists>es. sm_holds k m es \<and> f = map_of es)"

lemma sm_relI: "sm_holds k m es \<Longrightarrow> map_of es = f \<Longrightarrow> sm_rel k m f"
  by (auto simp: sm_rel_def)

lemma sm_rel_new: "sm_rel k (SmallMap_new k) Map.empty"
  by (rule sm_relI [OF sm_holds_new]) simp

lemma sm_holds_distinct: "sm_holds k m es \<Longrightarrow> distinct (map fst es)"
  by (simp add: sm_holds_def)

lemma map_of_add_new:
  assumes "distinct (map fst es)" "distinct (map fst es')" "set es' = insert x (set es)" "fst x \<notin> fst ` set es"
  shows "map_of es' = add_new (map_of es) x"
proof -
  have "map_of es' = map_of (x # es)" by (rule map_of_inject_set [THEN iffD2]) (use assms in auto)
  then show ?thesis using assms(4) by (cases x) (simp add: add_new_def map_of_eq_None_iff)
qed

lemma map_of_without:
  assumes "distinct (map fst es)" "distinct (map fst es')" "set es' = set es - {x}" "x \<in> set es"
  shows "map_of es' = (map_of es)(fst x := None)"
proof
  fix key
  have "fst y \<noteq> fst x" if "y \<in> set es'" for y using that assms(1,3,4) by (auto simp: distinct_map dest: inj_onD)
  then have "fst x \<notin> fst ` set es'" by (metis imageE)
  then have "map_of es' (fst x) = None" by (simp add: map_of_eq_None_iff)
  moreover have "map_of es' key = Some v \<longleftrightarrow> map_of es key = Some v" if "key \<noteq> fst x" for v
    using that assms by (cases x) (simp add: map_of_eq_Some_iff)
  then have "map_of es' key = map_of es key" if "key \<noteq> fst x" using that by (metis option.exhaust)
  ultimately show "map_of es' key = ((map_of es)(fst x := None)) key" by simp
qed

lemma map_of_assign:
  "distinct (map fst es) \<Longrightarrow> i < length es \<Longrightarrow> map_of (es[i := (fst (es ! i), v)]) = (map_of es)(fst (es ! i) \<mapsto> v)"
proof (induction es arbitrary: i)
  case (Cons x es)
  show ?case
  proof (cases i)
    case (Suc j)
    then have "fst (es ! j) \<in> fst ` set es" using Cons.prems by simp
    moreover have "fst x \<notin> fst ` set es" using Cons.prems(1) by simp
    ultimately have "fst (es ! j) \<noteq> fst x" by metis
    then show ?thesis using Suc Cons by (cases x) (auto simp: fun_upd_twist)
  qed (cases x, simp add: fun_eq_iff)
qed simp

lemma insert_ok:
  assumes "sm_holds k m es"
  obtains i m' es' where "SmallMap_insert place k x m = Inr (sm_at m' i, map_of es (fst x) = None, m')" "sm_holds k m' es'"
    "map_of es' = add_new (map_of es) x" "i < length es'" "es' ! i = (fst x, the (add_new (map_of es) x (fst x)))"
proof (cases "fst x \<in> fst ` set es")
  case True
  let ?i = "map_find (fst x) es"
  have i: "?i < length es" "fst (es ! ?i) = fst x" using True map_find_props [of "fst x" es] by simp_all
  have old: "map_of es (fst x) = Some (snd (es ! ?i))" using i map_of_map_find [OF sm_holds_distinct [OF assms], of "fst x"] by simp
  then have "add_new (map_of es) x = map_of es" by (simp add: add_new_def)
  moreover have "es ! ?i = (fst x, the (map_of es (fst x)))" using i(2) old by (simp add: prod_eq_iff)
  ultimately show ?thesis using that [OF _ assms] SmallMap_insert_old [OF assms True, of place] i(1) old by simp
next
  case False
  obtain i m' es' where new: "SmallMap_insert place k x m = Inr (sm_at m' i, True, m')" "sm_holds k m' es'"
      "set es' = insert x (set es)" "i < length es'" "es' ! i = x"
    using SmallMap_insert_new [OF assms False] by metis
  have none: "map_of es (fst x) = None" using False by (simp add: map_of_eq_None_iff)
  have "map_of es' = add_new (map_of es) x"
    by (rule map_of_add_new) (use new False sm_holds_distinct assms in auto)
  then show ?thesis using that [of m' i es'] new none by (simp add: add_new_def)
qed

lemma insert_range_ok:
  "sm_holds k m es \<Longrightarrow> \<exists>m' es'. SmallMap_insert_range place k xs m = Inr m' \<and> sm_holds k m' es' \<and> map_of es' = foldl add_new (map_of es) xs"
proof (induction xs arbitrary: m es)
  case (Cons x xs)
  obtain i m1 es1 where "SmallMap_insert place k x m = Inr (sm_at m1 i, map_of es (fst x) = None, m1)" "sm_holds k m1 es1"
      "map_of es1 = add_new (map_of es) x"
    using insert_ok [OF Cons.prems] by metis
  then show ?case using Cons.IH [of m1 es1] by simp
qed auto

lemma erase_ok:
  assumes "sm_holds k m es"
  obtains m' es' where "SmallMap_erase key m = Inr (if map_of es key = None then 0 else 1, m')" "sm_holds k m' es'"
    "map_of es' = (map_of es)(key := None)"
proof (cases "key \<in> fst ` set es")
  case True
  let ?i = "map_find key es"
  have i: "?i < length es" "fst (es ! ?i) = key" using True map_find_props [of key es] by simp_all
  obtain m' es' where er: "SmallMap_erase_at (sm_at m ?i) m = Inr m'" "sm_holds k m' es'" "set es' = set es - {es ! ?i}"
    using SmallMap_erase_at_ok [OF assms i(1)] by metis
  have "map_of es' = (map_of es)(fst (es ! ?i) := None)"
    by (rule map_of_without) (use er i sm_holds_distinct assms in auto)
  moreover have "map_of es key \<noteq> None" using True by (simp add: map_of_eq_None_iff)
  ultimately show ?thesis using that [of m' es'] er i assms by (simp add: SmallMap_erase_def SmallMap_find_ok SmallMap_end_ok)
next
  case False
  then have "map_find key es = length es" "map_of es key = None" using map_find_props [of key es] by (simp_all add: map_of_eq_None_iff)
  then show ?thesis using that [of m es] assms
    by (simp add: SmallMap_erase_def SmallMap_find_ok SmallMap_end_ok fun_upd_idem)
qed

lemma index_ok:
  assumes "sm_holds k m es"
  obtains i m' es' where "SmallMap_index place k d key m = Inr (sm_at m' i, m')" "sm_holds k m' es'"
    "map_of es' = add_new (map_of es) (key, d)" "i < length es'" "es' ! i = (key, the (add_new (map_of es) (key, d) key))"
  by (rule insert_ok [OF assms, of place "(key, d)"]) (use that SmallMap_index_insert [OF assms, of place d key] in simp)

lemma card_dom_entries: "sm_holds k m es \<Longrightarrow> card (dom (map_of es)) = length es"
  using distinct_card [of "map fst es"] by (simp add: sm_holds_distinct dom_map_of_conv_image_fst)

lemma find_value:
  assumes "sm_holds k m es"
  shows "SmallMap_step place k d (SM_find key) m = Inr (SM_value (map_of es key), m)"
  using assms map_find_props(1) [of key es] map_of_map_find [OF sm_holds_distinct [OF assms], of key]
  by (auto simp: SmallMap_find_ok SmallMap_end_ok SmallMap_deref_ok)

lemma count_value: "sm_holds k m es \<Longrightarrow> SmallMap_count key m = Inr (if map_of es key = None then 0 else 1)"
  using map_find_props(1) [of key es] map_of_map_find [of es key]
  by (auto simp: SmallMap_count_def SmallMap_find_ok SmallMap_end_ok sm_holds_distinct)

lemma add_new_hit: "\<exists>v. add_new f x (fst x) = Some v"
  by (auto simp: add_new_def)

lemma put_step:
  assumes "sm_holds k m es"
  shows "\<exists>m'. SmallMap_step place k d (SM_put key v) m = Inr (SM_done, m') \<and> sm_rel k m' ((map_of es)(key \<mapsto> v))"
proof -
  obtain i m1 es1 where ix: "SmallMap_index place k d key m = Inr (sm_at m1 i, m1)" "sm_holds k m1 es1"
      "map_of es1 = add_new (map_of es) (key, d)" "i < length es1" "es1 ! i = (key, the (add_new (map_of es) (key, d) key))"
    using index_ok [OF assms] by metis
  obtain m2 where "SmallMap_assign_value (sm_at m1 i) v m1 = Inr m2" "sm_holds k m2 (es1[i := (fst (es1 ! i), v)])"
    using SmallMap_assign_value_ok [OF ix(2,4)] by metis
  moreover have "map_of (es1[i := (fst (es1 ! i), v)]) = (map_of es)(key \<mapsto> v)"
    using map_of_assign [OF sm_holds_distinct [OF ix(2)] ix(4)] ix(3,5) by (simp add: add_new_def fun_eq_iff)
  ultimately show ?thesis using ix(1) unfolding sm_rel_def by fastforce
qed

lemma SmallMap_step_refines:
  assumes "sm_rel k m f"
  shows "\<exists>m'. SmallMap_step place k d op m = Inr (fst (SmallMap_spec d op f), m') \<and> sm_rel k m' (snd (SmallMap_spec d op f))"
proof -
  obtain es where es: "sm_holds k m es" and f: "f = map_of es" using assms by (auto simp: sm_rel_def)
  show ?thesis
  proof (cases op)
    case (SM_get key)
    obtain i m' es' where "SmallMap_index place k d key m = Inr (sm_at m' i, m')" "sm_holds k m' es'"
        "map_of es' = add_new (map_of es) (key, d)" "i < length es'" "es' ! i = (key, the (add_new (map_of es) (key, d) key))"
      using index_ok [OF es] by metis
    then show ?thesis using SM_get f add_new_hit [of f "(key, d)"] by (auto simp: SmallMap_deref_ok intro: sm_relI)
  next
    case (SM_put key v)
    then show ?thesis using put_step [OF es] f by simp
  next
    case (SM_insert x)
    obtain i m' es' where "SmallMap_insert place k x m = Inr (sm_at m' i, map_of es (fst x) = None, m')" "sm_holds k m' es'"
        "map_of es' = add_new (map_of es) x" "i < length es'" "es' ! i = (fst x, the (add_new (map_of es) x (fst x)))"
      using insert_ok [OF es] by metis
    then show ?thesis using SM_insert f by (auto simp: SmallMap_deref_ok intro: sm_relI)
  next
    case (SM_insert_range xs)
    then show ?thesis using insert_range_ok [OF es, of place xs] f by (auto intro: sm_relI)
  next
    case (SM_erase key)
    obtain m' es' where "SmallMap_erase key m = Inr (if map_of es key = None then 0 else 1, m')" "sm_holds k m' es'"
        "map_of es' = (map_of es)(key := None)"
      using erase_ok [OF es] by metis
    then show ?thesis using SM_erase f by (auto intro: sm_relI)
  next
    case SM_clear
    then show ?thesis using sm_rel_new by (simp add: SmallMap_clear_ok [OF es])
  next
    case SM_entries
    then show ?thesis
      using assms f entries_from_ok [OF es, of 0 "length es"]
      by (simp add: SmallMap_size_ok [OF es] sm_begin_at card_dom_entries [OF es] graph_map_of_if_distinct_dom sm_holds_distinct [OF es])
  next
    case (SM_replace xs)
    obtain src es' where "SmallMap_insert_range place k xs (SmallMap_new k) = Inr src" "sm_holds k src es'" "map_of es' = foldl add_new Map.empty xs"
      using insert_range_ok [OF sm_holds_new [of k], of place xs] by auto
    then show ?thesis using SM_replace SmallMap_assign_ok [OF _ es] by (auto intro: sm_relI)
  qed (use assms f in \<open>simp_all add: find_value [OF es] count_value [OF es] SmallMap_size_ok [OF es] card_dom_entries [OF es]
      SmallMap_empty_ok [OF es] SmallMap_InitFrom_ok [OF es] SmallMap_new_def del: SmallMap_step.simps(1)\<close>)
qed

interpretation smap: data_refinement "SmallMap_step place k d" "SmallMap_spec d" "sm_rel k" for place k d
  by unfold_locales (rule SmallMap_step_refines)

text \<open>
  C12. A \<open>SmallMap\<close> behaves as a finite map. For every size of the array, every order of the standard map, and every sequence
  of \<^verbatim>\<open>find\<close>, \<^verbatim>\<open>operator[]\<close> (read and assigned to), \<^verbatim>\<open>insert\<close> of one entry and of a range, \<^verbatim>\<open>erase\<close>, \<^verbatim>\<open>count\<close>, \<^verbatim>\<open>size\<close>, \<^verbatim>\<open>empty\<close>, \<^verbatim>\<open>clear\<close>,
  iteration from \<^verbatim>\<open>begin()\<close> to \<^verbatim>\<open>end()\<close>, copying and assignment from another map, starting from an empty map, no operation
  uses a raw slot or the inactive member of the union, and each returns what the finite map returns: switching from the array to
  the standard map cannot be observed. At the end the map holds exactly the entries of the finite map.
\<close>

theorem SmallMap_refines_map:
  "\<exists>m es. run_ops (SmallMap_step place kArraySize d) ops (SmallMap_new kArraySize) =
      Inr (fst (run_spec (SmallMap_spec d) ops Map.empty), m) \<and>
    sm_holds kArraySize m es \<and> map_of es = snd (run_spec (SmallMap_spec d) ops Map.empty)"
  using smap.run_refines [OF sm_rel_new] unfolding sm_rel_def by metis

end
