(* ===== verification/Work_Stealing_Queue.thy ===== *)
theory Work_Stealing_Queue
  imports Refinement "HOL-Library.Multiset"
begin

text \<open>
  The work-stealing queue of \<^verbatim>\<open>libsh/bthread/work_stealing_queue.h\<close>. One thread, the owner, calls \<^verbatim>\<open>push\<close> and \<^verbatim>\<open>pop\<close>;
  other threads call \<^verbatim>\<open>steal\<close> at the same time. Each access to a shared variable is one step, and the
  steps of the threads interleave in any order (the accesses are taken to be sequentially consistent).
  A program counter holds the local variables of a call. The counters \<^verbatim>\<open>_bottom\<close> and \<^verbatim>\<open>_top\<close> are natural numbers: the second one counts
  the elements that were ever taken from the top, which stays below \<open>2\<^sup>64\<close>.
\<close>

unbundle bit_operations_syntax

section \<open>The queue\<close>

record 'a WorkStealingQueue =
  ws_bottom :: nat
  ws_capacity :: nat
  ws_buffer :: "'a list option"
  ws_top :: nat

definition WorkStealingQueue_new :: "'a WorkStealingQueue" where
  "WorkStealingQueue_new = \<lparr>ws_bottom = 1, ws_capacity = 0, ws_buffer = None, ws_top = 1\<rparr>"

text \<open>\<open>new_array\<close> is \<^verbatim>\<open>new(std::nothrow) T[capacity]\<close>: the fresh array, or \<open>None\<close> when there is no memory.\<close>

definition WorkStealingQueue_init ::
    "(nat \<Rightarrow> 'a list option) \<Rightarrow> nat \<Rightarrow> 'a WorkStealingQueue \<Rightarrow> int \<times> 'a WorkStealingQueue" where
  "WorkStealingQueue_init new_array capacity q =
    (if ws_capacity q \<noteq> 0 then (-1, q)
     else if capacity = 0 then (-1, q)
     else if capacity AND (capacity - 1) \<noteq> 0 then (-1, q)
     else (case new_array capacity of
         None \<Rightarrow> (-1, q\<lparr>ws_buffer := None\<rparr>)
       | Some items \<Rightarrow> (0, q\<lparr>ws_buffer := Some items, ws_capacity := capacity\<rparr>)))"

definition WorkStealingQueue_volatile_size :: "'a WorkStealingQueue \<Rightarrow> nat" where
  "WorkStealingQueue_volatile_size q = (if ws_bottom q \<le> ws_top q then 0 else ws_bottom q - ws_top q)"

text \<open>\<^verbatim>\<open>_buffer[i & (_capacity - 1)]\<close>, read and written.\<close>

definition ws_slot :: "'a WorkStealingQueue \<Rightarrow> nat \<Rightarrow> nat" where
  "ws_slot q i = i AND (ws_capacity q - 1)"

definition ws_read :: "'a WorkStealingQueue \<Rightarrow> nat \<Rightarrow> 'a result" where
  "ws_read q i = rbind (of_option Null_pointer (ws_buffer q)) (\<lambda>items. vec_at items (int (ws_slot q i)))"

definition ws_write :: "'a WorkStealingQueue \<Rightarrow> nat \<Rightarrow> 'a \<Rightarrow> 'a WorkStealingQueue result" where
  "ws_write q i x = rbind (of_option Null_pointer (ws_buffer q)) (\<lambda>items.
     if ws_slot q i < length items then Inr (q\<lparr>ws_buffer := Some (items[ws_slot q i := x])\<rparr>) else Inl Out_of_bounds)"

section \<open>The steps of the calls\<close>

text \<open>Where the owner is: between calls, or before an access of \<^verbatim>\<open>push\<close> or \<^verbatim>\<open>pop\<close>, with the values of \<^verbatim>\<open>b\<close>, \<^verbatim>\<open>t\<close> and \<^verbatim>\<open>*val\<close>.\<close>

datatype 'a owner_pc =
    Owner_idle
  | Push_load_bottom 'a
  | Push_load_top 'a nat
  | Push_write 'a nat
  | Push_store_bottom 'a nat
  | Pop_load_bottom
  | Pop_load_top nat
  | Pop_reserve nat
  | Pop_reload_top nat
  | Pop_restore nat
  | Pop_read nat nat
  | Pop_cas nat nat 'a
  | Pop_release nat bool 'a

datatype 'a thief_pc =
    Thief_idle
  | Steal_load_top
  | Steal_load_bottom nat
  | Steal_reload_bottom nat
  | Steal_read nat
  | Steal_cas nat 'a

text \<open>
  What a step does to the elements: \<open>Take_bottom\<close> is the step that decides that \<^verbatim>\<open>pop\<close> gets an element, which it
  returns later; \<open>Pushed\<close> and \<open>Stolen\<close> are the last steps of their calls.
\<close>

datatype 'a ws_event =
    Internal
  | Pushed 'a
  | Push_full
  | Take_bottom 'a
  | Pop_returns "'a option"
  | Stolen nat 'a
  | Steal_fails nat

record 'a ws_state =
  ws_queue :: "'a WorkStealingQueue"
  ws_owner :: "'a owner_pc"
  ws_thieves :: "nat \<Rightarrow> 'a thief_pc"

text \<open>One step of \<^verbatim>\<open>push\<close> and \<^verbatim>\<open>pop\<close>.\<close>

fun owner_step :: "'a WorkStealingQueue \<Rightarrow> 'a owner_pc \<Rightarrow> ('a ws_event \<times> 'a WorkStealingQueue \<times> 'a owner_pc) result" where
  "owner_step q Owner_idle = Inr (Internal, q, Owner_idle)"
| "owner_step q (Push_load_bottom x) = Inr (Internal, q, Push_load_top x (ws_bottom q))"
| "owner_step q (Push_load_top x b) =
    (if b \<ge> ws_top q + ws_capacity q then Inr (Push_full, q, Owner_idle) else Inr (Internal, q, Push_write x b))"
| "owner_step q (Push_write x b) = rbind (ws_write q b x) (\<lambda>q1. Inr (Internal, q1, Push_store_bottom x b))"
| "owner_step q (Push_store_bottom x b) = Inr (Pushed x, q\<lparr>ws_bottom := b + 1\<rparr>, Owner_idle)"
| "owner_step q Pop_load_bottom = Inr (Internal, q, Pop_load_top (ws_bottom q))"
| "owner_step q (Pop_load_top b) =
    (if ws_top q \<ge> b then Inr (Pop_returns None, q, Owner_idle) else Inr (Internal, q, Pop_reserve b))"
| "owner_step q (Pop_reserve b) = Inr (Internal, q\<lparr>ws_bottom := b - 1\<rparr>, Pop_reload_top b)"
| "owner_step q (Pop_reload_top b) =
    (let t = ws_top q in
     if t > b - 1 then Inr (Internal, q, Pop_restore b)
     else if t \<noteq> b - 1 then rbind (ws_read q (b - 1)) (\<lambda>x. Inr (Take_bottom x, q, Pop_read b t))
     else Inr (Internal, q, Pop_read b t))"
| "owner_step q (Pop_restore b) = Inr (Pop_returns None, q\<lparr>ws_bottom := b\<rparr>, Owner_idle)"
| "owner_step q (Pop_read b t) = rbind (ws_read q (b - 1)) (\<lambda>val.
     if t \<noteq> b - 1 then Inr (Pop_returns (Some val), q, Owner_idle) else Inr (Internal, q, Pop_cas b t val))"
| "owner_step q (Pop_cas b t val) =
    (if ws_top q = t then Inr (Take_bottom val, q\<lparr>ws_top := t + 1\<rparr>, Pop_release b True val)
     else Inr (Internal, q, Pop_release b False val))"
| "owner_step q (Pop_release b popped val) =
     Inr (Pop_returns (if popped then Some val else None), q\<lparr>ws_bottom := b\<rparr>, Owner_idle)"

text \<open>One step of \<^verbatim>\<open>steal\<close> in thread \<open>i\<close>; a failing \<^verbatim>\<open>compare_exchange_strong\<close> loads \<^verbatim>\<open>_top\<close> into \<^verbatim>\<open>t\<close>.\<close>

fun thief_step ::
    "nat \<Rightarrow> 'a WorkStealingQueue \<Rightarrow> 'a thief_pc \<Rightarrow> ('a ws_event \<times> 'a WorkStealingQueue \<times> 'a thief_pc) result" where
  "thief_step i q Thief_idle = Inr (Internal, q, Thief_idle)"
| "thief_step i q Steal_load_top = Inr (Internal, q, Steal_load_bottom (ws_top q))"
| "thief_step i q (Steal_load_bottom t) =
    (if t \<ge> ws_bottom q then Inr (Steal_fails i, q, Thief_idle) else Inr (Internal, q, Steal_reload_bottom t))"
| "thief_step i q (Steal_reload_bottom t) =
    (if t \<ge> ws_bottom q then Inr (Steal_fails i, q, Thief_idle) else Inr (Internal, q, Steal_read t))"
| "thief_step i q (Steal_read t) = rbind (ws_read q t) (\<lambda>val. Inr (Internal, q, Steal_cas t val))"
| "thief_step i q (Steal_cas t val) =
    (if ws_top q = t then Inr (Stolen i val, q\<lparr>ws_top := t + 1\<rparr>, Thief_idle)
     else Inr (Internal, q, Steal_reload_bottom (ws_top q)))"

inductive ws_step :: "'a ws_state \<Rightarrow> 'a ws_event \<Rightarrow> 'a ws_state \<Rightarrow> bool" where
  call_push: "ws_owner s = Owner_idle \<Longrightarrow> ws_step s Internal (s\<lparr>ws_owner := Push_load_bottom x\<rparr>)"
| call_pop: "ws_owner s = Owner_idle \<Longrightarrow> ws_step s Internal (s\<lparr>ws_owner := Pop_load_bottom\<rparr>)"
| call_steal: "ws_thieves s i = Thief_idle \<Longrightarrow> ws_step s Internal (s\<lparr>ws_thieves := (ws_thieves s)(i := Steal_load_top)\<rparr>)"
| owner: "owner_step (ws_queue s) (ws_owner s) = Inr (e, q, pc) \<Longrightarrow> ws_step s e (s\<lparr>ws_queue := q, ws_owner := pc\<rparr>)"
| thief: "thief_step i (ws_queue s) (ws_thieves s i) = Inr (e, q, pc) \<Longrightarrow>
    ws_step s e (s\<lparr>ws_queue := q, ws_thieves := (ws_thieves s)(i := pc)\<rparr>)"

definition ws_start :: "'a WorkStealingQueue \<Rightarrow> 'a ws_state" where
  "ws_start q = \<lparr>ws_queue = q, ws_owner = Owner_idle, ws_thieves = (\<lambda>_. Thief_idle)\<rparr>"

section \<open>The specification\<close>

text \<open>
  A deque of bounded length, with the element that \<^verbatim>\<open>pop\<close> has taken and not yet returned. \<^verbatim>\<open>push\<close> fails only on
  a full deque and \<^verbatim>\<open>pop\<close> only on an empty one; \<^verbatim>\<open>steal\<close> may also fail when there is one element left.
\<close>

fun deque_event :: "nat \<Rightarrow> 'a ws_event \<Rightarrow> 'a list \<times> 'a option \<Rightarrow> ('a list \<times> 'a option) option" where
  "deque_event cap Internal (c, h) = Some (c, h)"
| "deque_event cap (Pushed x) (c, h) = (if length c < cap \<and> h = None then Some (c @ [x], h) else None)"
| "deque_event cap Push_full (c, h) = (if length c = cap then Some (c, h) else None)"
| "deque_event cap (Take_bottom x) (c, h) = (if c \<noteq> [] \<and> last c = x \<and> h = None then Some (butlast c, Some x) else None)"
| "deque_event cap (Pop_returns None) (c, h) = (if c = [] \<and> h = None then Some (c, h) else None)"
| "deque_event cap (Pop_returns (Some x)) (c, h) = (if h = Some x then Some (c, None) else None)"
| "deque_event cap (Stolen i x) (c, h) = (if c \<noteq> [] \<and> hd c = x then Some (tl c, h) else None)"
| "deque_event cap (Steal_fails i) (c, h) = (if length c \<le> 1 then Some (c, h) else None)"

text \<open>
  The elements of the queue are those from \<^verbatim>\<open>_top\<close> to its end. The end is \<^verbatim>\<open>_bottom\<close>, except while \<^verbatim>\<open>pop\<close> has
  lowered \<^verbatim>\<open>_bottom\<close> and the element there is not taken yet.
\<close>

definition ws_item :: "'a WorkStealingQueue \<Rightarrow> nat \<Rightarrow> 'a" where
  "ws_item q i = the (ws_buffer q) ! (i mod ws_capacity q)"

definition ws_end :: "'a WorkStealingQueue \<Rightarrow> 'a owner_pc \<Rightarrow> nat" where
  "ws_end q pc = (case pc of
     Pop_reload_top b \<Rightarrow> b | Pop_restore b \<Rightarrow> b | Pop_read b t \<Rightarrow> (if t = b - 1 then b else b - 1)
   | Pop_cas b t val \<Rightarrow> b | Pop_release b popped val \<Rightarrow> b | _ \<Rightarrow> ws_bottom q)"

definition ws_content :: "'a WorkStealingQueue \<Rightarrow> 'a owner_pc \<Rightarrow> 'a list" where
  "ws_content q pc = map (ws_item q) [ws_top q..<ws_end q pc]"

definition ws_held :: "'a WorkStealingQueue \<Rightarrow> 'a owner_pc \<Rightarrow> 'a option" where
  "ws_held q pc = (case pc of
     Pop_read b t \<Rightarrow> (if t = b - 1 then None else Some (ws_item q (b - 1)))
   | Pop_release b popped val \<Rightarrow> (if popped then Some val else None)
   | _ \<Rightarrow> None)"

definition ws_abs :: "'a ws_state \<Rightarrow> 'a list \<times> 'a option" where
  "ws_abs s = (ws_content (ws_queue s) (ws_owner s), ws_held (ws_queue s) (ws_owner s))"

section \<open>The invariant\<close>

definition queue_ok :: "nat \<Rightarrow> 'a WorkStealingQueue \<Rightarrow> bool" where
  "queue_ok cap q \<longleftrightarrow> ws_capacity q = cap \<and> (\<exists>k. cap = 2 ^ k) \<and>
    (\<exists>items. ws_buffer q = Some items \<and> length items = cap) \<and> 1 \<le> ws_top q"

definition owner_ok :: "nat \<Rightarrow> 'a WorkStealingQueue \<Rightarrow> 'a owner_pc \<Rightarrow> bool" where
  "owner_ok cap q pc \<longleftrightarrow> ws_top q \<le> ws_end q pc \<and> ws_end q pc \<le> ws_top q + cap \<and> (case pc of
     Push_load_top x b \<Rightarrow> b = ws_bottom q
   | Push_write x b \<Rightarrow> b = ws_bottom q \<and> b < ws_top q + cap
   | Push_store_bottom x b \<Rightarrow> b = ws_bottom q \<and> b < ws_top q + cap \<and> ws_item q b = x
   | Pop_load_top b \<Rightarrow> b = ws_bottom q
   | Pop_reserve b \<Rightarrow> b = ws_bottom q \<and> 1 < b
   | Pop_reload_top b \<Rightarrow> ws_bottom q = b - 1 \<and> 1 < b
   | Pop_restore b \<Rightarrow> ws_bottom q = b - 1 \<and> 1 < b \<and> ws_top q = b
   | Pop_read b t \<Rightarrow> ws_bottom q = b - 1 \<and> 1 < b \<and> t \<le> b - 1 \<and> t \<le> ws_top q
   | Pop_cas b t val \<Rightarrow> ws_bottom q = b - 1 \<and> 1 < b \<and> t = b - 1 \<and> t \<le> ws_top q \<and> val = ws_item q t
   | Pop_release b popped val \<Rightarrow> ws_bottom q = b - 1 \<and> 1 < b \<and> ws_top q = b
   | _ \<Rightarrow> True)"

text \<open>A thief that is about to take the element at \<open>t\<close> has read it, unless \<^verbatim>\<open>_top\<close> has moved on.\<close>

definition thief_ok :: "'a WorkStealingQueue \<Rightarrow> nat \<Rightarrow> 'a thief_pc \<Rightarrow> bool" where
  "thief_ok q e pc \<longleftrightarrow> (case pc of
     Steal_load_bottom t \<Rightarrow> t \<le> ws_top q
   | Steal_reload_bottom t \<Rightarrow> t \<le> ws_top q
   | Steal_read t \<Rightarrow> t \<le> ws_top q \<and> (t = ws_top q \<longrightarrow> t < e)
   | Steal_cas t val \<Rightarrow> t \<le> ws_top q \<and> (t = ws_top q \<longrightarrow> t < e \<and> val = ws_item q t)
   | _ \<Rightarrow> True)"

definition ws_inv :: "nat \<Rightarrow> 'a ws_state \<Rightarrow> bool" where
  "ws_inv cap s \<longleftrightarrow> queue_ok cap (ws_queue s) \<and> owner_ok cap (ws_queue s) (ws_owner s) \<and>
    (\<forall>i. thief_ok (ws_queue s) (ws_end (ws_queue s) (ws_owner s)) (ws_thieves s i))"

lemma and_mask_mod: "i AND (2 ^ k - 1) = i mod 2 ^ k" for i :: nat
  by (simp add: take_bit_eq_mask mask_eq_exp_minus_1 flip: take_bit_eq_mod)

lemma ws_slot_mod: "queue_ok cap q \<Longrightarrow> ws_slot q i = i mod cap"
  using and_mask_mod by (auto simp: queue_ok_def ws_slot_def)

lemma queue_ok_capacity: "queue_ok cap q \<Longrightarrow> 0 < cap" "queue_ok cap q \<Longrightarrow> ws_capacity q = cap"
  by (auto simp: queue_ok_def)

lemma ws_read_item: "queue_ok cap q \<Longrightarrow> ws_read q i = Inr (ws_item q i)"
  using ws_slot_mod [of cap q i] queue_ok_capacity [of cap q]
  by (auto simp: ws_read_def ws_item_def queue_ok_def vec_at_def)

lemma ws_write_item:
  assumes "queue_ok cap q"
  shows "\<exists>q'. ws_write q i x = Inr q' \<and> queue_ok cap q' \<and> ws_bottom q' = ws_bottom q \<and> ws_top q' = ws_top q \<and>
    (\<forall>j. ws_item q' j = (if j mod cap = i mod cap then x else ws_item q j))"
  using ws_slot_mod [OF assms, of i] queue_ok_capacity [OF assms] assms
  by (auto simp: ws_write_def ws_item_def queue_ok_def)

lemma slot_differs:
  assumes "i < b" and "b < i + cap"
  shows "i mod cap \<noteq> b mod (cap :: nat)"
proof
  assume "i mod cap = b mod cap"
  then have "cap dvd b - i" using assms(1) by (metis less_imp_le mod_eq_dvd_iff_nat)
  then show False using assms by (auto dest: dvd_imp_le)
qed

section \<open>Every step keeps the invariant and follows the specification\<close>

lemma owner_step_total:
  assumes "queue_ok cap q"
  shows "\<exists>r. owner_step q pc = Inr r"
proof (cases pc)
  case (Push_write x b)
  then show ?thesis using ws_write_item [OF assms, of b x] by auto
qed (simp_all add: ws_read_item [OF assms] Let_def)

lemma thief_step_total: "queue_ok cap q \<Longrightarrow> \<exists>r. thief_step i q pc = Inr r"
  using ws_read_item [of cap q] by (cases pc) simp_all

lemma queue_ok_bottom [simp]: "queue_ok cap (q\<lparr>ws_bottom := b\<rparr>) = queue_ok cap q"
  by (simp add: queue_ok_def)

lemma queue_ok_top [simp]: "queue_ok cap q \<Longrightarrow> 1 \<le> t \<Longrightarrow> queue_ok cap (q\<lparr>ws_top := t\<rparr>)"
  by (simp add: queue_ok_def)

lemma ws_item_update [simp]: "ws_item (q\<lparr>ws_bottom := b\<rparr>) = ws_item q" "ws_item (q\<lparr>ws_top := t\<rparr>) = ws_item q"
  by (simp_all add: ws_item_def fun_eq_iff)

lemma map_upt_snoc: "t < e \<Longrightarrow> map f [t..<e] = map f [t..<e - 1] @ [f (e - 1)]"
  using upt_Suc_append [of t "e - 1"] by simp

lemma map_upt_hd: "t < e \<Longrightarrow> map f [t..<e] = f t # map f [Suc t..<e]"
  by (simp add: upt_conv_Cons)

lemmas owner_defs = owner_ok_def ws_content_def ws_held_def ws_end_def

text \<open>Writing the free slot changes no element of the queue.\<close>

lemma push_write_ok:
  assumes "queue_ok cap q" and "owner_ok cap q (Push_write x b)" and "ws_write q b x = Inr q'"
  shows "queue_ok cap q'" and "owner_ok cap q' (Push_store_bottom x b)"
    and "ws_content q' (Push_store_bottom x b) = ws_content q (Push_write x b)"
    and "\<And>e tp. e \<le> b \<Longrightarrow> thief_ok q e tp \<Longrightarrow> thief_ok q' e tp"
proof -
  obtain ok: "queue_ok cap q'" and eqs: "ws_bottom q' = ws_bottom q" "ws_top q' = ws_top q"
      and item: "\<And>j. ws_item q' j = (if j mod cap = b mod cap then x else ws_item q j)"
    using ws_write_item [OF assms(1), of b x] assms(3) by auto
  have b: "b = ws_bottom q" "b < ws_top q + cap" "ws_top q \<le> b" using assms(2) by (simp_all add: owner_defs)
  have same: "ws_item q' j = ws_item q j" if "ws_top q \<le> j" "j < b" for j
    using slot_differs [of j b cap] that b item by simp
  show "queue_ok cap q'" by (rule ok)
  show "owner_ok cap q' (Push_store_bottom x b)" using assms(2) eqs item by (simp add: owner_defs)
  show "ws_content q' (Push_store_bottom x b) = ws_content q (Push_write x b)" using b eqs same by (simp add: owner_defs)
  show "thief_ok q' e tp" if "e \<le> b" "thief_ok q e tp" for e tp
    using that same eqs by (cases tp) (auto simp: thief_ok_def)
qed

lemma owner_step_ok:
  assumes "queue_ok cap q" and "owner_ok cap q pc" and "owner_step q pc = Inr (ev, q', pc')"
  shows "queue_ok cap q' \<and> owner_ok cap q' pc'"
proof (cases pc)
  case (Push_write x b)
  then show ?thesis using assms push_write_ok [OF assms(1), of x b] by (auto simp: rbind_eq_Inr)
next
  case (Pop_load_top b)
  then show ?thesis using assms by (auto simp: owner_defs queue_ok_def split: if_splits)
next
  case (Pop_reload_top b)
  then show ?thesis using assms ws_read_item [OF assms(1)] by (auto simp: owner_defs Let_def split: if_splits)
next
  case (Pop_read b t)
  then show ?thesis using assms ws_read_item [OF assms(1)] by (auto simp: owner_defs split: if_splits)
next
  case (Pop_cas b t val)
  then show ?thesis using assms by (auto simp: owner_defs split: if_splits)
qed (use assms queue_ok_capacity [OF assms(1)] in \<open>auto simp: owner_defs split: if_splits\<close>)

lemma owner_step_thieves:
  assumes "queue_ok cap q" and "owner_ok cap q pc" and "owner_step q pc = Inr (ev, q', pc')"
    and "thief_ok q (ws_end q pc) tp"
  shows "thief_ok q' (ws_end q' pc') tp"
proof (cases pc)
  case (Push_write x b)
  obtain q1 where "ws_write q b x = Inr q1" and eqs: "ev = Internal" "q' = q1" "pc' = Push_store_bottom x b"
    using assms(3) Push_write by (auto simp: rbind_eq_Inr)
  moreover have "ws_end q1 pc' = b" "ws_end q pc = b"
    using push_write_ok(2) [OF assms(1) _ calculation(1)] assms(2) Push_write eqs by (auto simp: owner_defs)
  ultimately show ?thesis using push_write_ok(4) [OF assms(1), of x b q1 b tp] assms(2,4) Push_write by simp
next
  case (Pop_reload_top b)
  then show ?thesis using assms ws_read_item [OF assms(1)]
    by (cases tp) (auto simp: owner_defs thief_ok_def Let_def split: if_splits)
next
  case (Pop_read b t)
  then show ?thesis using assms ws_read_item [OF assms(1)] by (cases tp) (auto simp: owner_defs thief_ok_def split: if_splits)
next
  case (Pop_cas b t val)
  then show ?thesis using assms by (cases tp) (auto simp: owner_defs thief_ok_def split: if_splits)
qed (use assms in \<open>cases tp; auto simp: owner_defs thief_ok_def split: if_splits\<close>)+

lemma owner_step_event:
  assumes "queue_ok cap q" and "owner_ok cap q pc" and "owner_step q pc = Inr (ev, q', pc')"
  shows "deque_event cap ev (ws_content q pc, ws_held q pc) = Some (ws_content q' pc', ws_held q' pc')"
proof (cases pc)
  case (Push_write x b)
  then show ?thesis using assms push_write_ok(3) [OF assms(1), of x b] by (auto simp: rbind_eq_Inr ws_held_def)
next
  case (Push_load_top x b)
  then show ?thesis using assms queue_ok_capacity [OF assms(1)] by (auto simp: owner_defs split: if_splits)
next
  case (Push_store_bottom x b)
  then show ?thesis using assms by (auto simp: owner_defs)
next
  case (Pop_reload_top b)
  have last: "ws_top q < b \<Longrightarrow> map (ws_item q) [ws_top q..<b] = map (ws_item q) [ws_top q..<b - 1] @ [ws_item q (b - 1)]"
    by (rule map_upt_snoc)
  then show ?thesis using Pop_reload_top assms ws_read_item [OF assms(1)] by (auto simp: owner_defs Let_def split: if_splits)
next
  case (Pop_read b t)
  then show ?thesis using assms ws_read_item [OF assms(1)] by (auto simp: owner_defs split: if_splits)
next
  case (Pop_cas b t val)
  have "ws_top q = b - 1 \<Longrightarrow> 1 < b \<Longrightarrow> map (ws_item q) [ws_top q..<b] = [ws_item q (b - 1)]"
    using map_upt_snoc [of "ws_top q" b "ws_item q"] by simp
  then show ?thesis using Pop_cas assms by (auto simp: owner_defs split: if_splits)
qed (use assms in \<open>auto simp: owner_defs split: if_splits\<close>)

lemma ws_end_top [simp]: "ws_end (q\<lparr>ws_top := t\<rparr>) pc = ws_end q pc"
  by (simp add: ws_end_def split: owner_pc.split)

lemma ws_end_bottom: "owner_ok cap q pc \<Longrightarrow> ws_bottom q \<le> ws_end q pc \<and> ws_end q pc \<le> ws_bottom q + 1"
  by (cases pc) (auto simp: owner_ok_def ws_end_def)

text \<open>A successful exchange of a thief takes the first element.\<close>

lemma thief_takes_top:
  assumes "owner_ok cap q pc" and "ws_top q < ws_end q pc"
  shows "owner_ok cap (q\<lparr>ws_top := ws_top q + 1\<rparr>) pc"
    and "ws_content q pc = ws_item q (ws_top q) # ws_content (q\<lparr>ws_top := ws_top q + 1\<rparr>) pc"
    and "ws_held (q\<lparr>ws_top := ws_top q + 1\<rparr>) pc = ws_held q pc"
    and "thief_ok q (ws_end q pc) tp \<Longrightarrow> thief_ok (q\<lparr>ws_top := ws_top q + 1\<rparr>) (ws_end q pc) tp"
proof -
  show "owner_ok cap (q\<lparr>ws_top := ws_top q + 1\<rparr>) pc" using assms by (cases pc) (auto simp: owner_ok_def ws_end_def)
  show "ws_content q pc = ws_item q (ws_top q) # ws_content (q\<lparr>ws_top := ws_top q + 1\<rparr>) pc"
    using map_upt_hd [OF assms(2), of "ws_item q"] by (simp add: ws_content_def)
  show "ws_held (q\<lparr>ws_top := ws_top q + 1\<rparr>) pc = ws_held q pc" by (simp add: ws_held_def split: owner_pc.split)
  show "thief_ok (q\<lparr>ws_top := ws_top q + 1\<rparr>) (ws_end q pc) tp" if "thief_ok q (ws_end q pc) tp"
    using that by (cases tp) (auto simp: thief_ok_def)
qed

lemma thief_step_ok:
  assumes "queue_ok cap q" and "owner_ok cap q pc" and "thief_ok q (ws_end q pc) tp" and "thief_step i q tp = Inr (ev, q', tp')"
  shows "queue_ok cap q' \<and> owner_ok cap q' pc \<and> thief_ok q' (ws_end q' pc) tp' \<and>
    (\<forall>other. thief_ok q (ws_end q pc) other \<longrightarrow> thief_ok q' (ws_end q' pc) other) \<and>
    deque_event cap ev (ws_content q pc, ws_held q pc) = Some (ws_content q' pc, ws_held q' pc)"
proof (cases "\<exists>val. tp = Steal_cas (ws_top q) val")
  case True
  then have top: "ws_top q < ws_end q pc" and eqs: "ev = Stolen i (ws_item q (ws_top q))" "q' = q\<lparr>ws_top := ws_top q + 1\<rparr>" "tp' = Thief_idle"
    using assms(3,4) by (auto simp: thief_ok_def)
  then show ?thesis using assms(1) thief_takes_top [OF assms(2) top] by (simp add: thief_ok_def)
next
  case False
  then have "q' = q" using assms(4) ws_read_item [OF assms(1)] by (cases tp) (auto split: if_splits)
  moreover have "thief_ok q (ws_end q pc) tp'"
    using False assms(3,4) ws_read_item [OF assms(1)] ws_end_bottom [OF assms(2)] by (cases tp) (auto simp: thief_ok_def split: if_splits)
  moreover have "ev = Internal \<or> ev = Steal_fails i \<and> ws_bottom q \<le> ws_top q"
    using False assms(3,4) ws_read_item [OF assms(1)] by (cases tp) (auto simp: thief_ok_def split: if_splits)
  moreover have "length (ws_content q pc) \<le> 1" if "ws_bottom q \<le> ws_top q"
    using that ws_end_bottom [OF assms(2)] by (simp add: ws_content_def) arith
  ultimately show ?thesis using assms(1,2) by auto
qed

lemma ws_step_inv: "ws_step s ev s' \<Longrightarrow> ws_inv cap s \<Longrightarrow> ws_inv cap s'"
proof (induction rule: ws_step.induct)
  case (owner s ev q pc)
  then have "queue_ok cap (ws_queue s)" "owner_ok cap (ws_queue s) (ws_owner s)"
    by (simp_all add: ws_inv_def)
  note owner_step_ok [OF this owner.hyps] owner_step_thieves [OF this owner.hyps]
  then show ?case using owner.prems by (simp add: ws_inv_def)
next
  case (thief i s ev q pc)
  then have "queue_ok cap (ws_queue s)" "owner_ok cap (ws_queue s) (ws_owner s)"
      "thief_ok (ws_queue s) (ws_end (ws_queue s) (ws_owner s)) (ws_thieves s i)"
    by (simp_all add: ws_inv_def)
  note step = thief_step_ok [OF this thief.hyps]
  then show ?case using thief.prems by (simp add: ws_inv_def)
qed (auto simp: ws_inv_def owner_ok_def thief_ok_def ws_end_def)

lemma ws_step_event: "ws_step s ev s' \<Longrightarrow> ws_inv cap s \<Longrightarrow> deque_event cap ev (ws_abs s) = Some (ws_abs s')"
proof (induction rule: ws_step.induct)
  case (owner s ev q pc)
  then show ?case using owner_step_event [of cap "ws_queue s" "ws_owner s" ev q pc] by (simp add: ws_inv_def ws_abs_def)
next
  case (thief i s ev q pc)
  then have "queue_ok cap (ws_queue s)" "owner_ok cap (ws_queue s) (ws_owner s)"
      "thief_ok (ws_queue s) (ws_end (ws_queue s) (ws_owner s)) (ws_thieves s i)"
    by (simp_all add: ws_inv_def)
  from thief_step_ok [OF this thief.hyps] show ?case by (simp add: ws_abs_def)
qed (simp_all add: ws_abs_def ws_content_def ws_held_def ws_end_def)

interpretation wsq: lts_simulation ws_step "deque_event cap" "\<lambda>s d. ws_inv cap s \<and> d = ws_abs s" for cap :: nat
  by unfold_locales (use ws_step_inv ws_step_event in blast)

section \<open>Initialisation\<close>

lemma and_pred_eq_0: "0 < n \<Longrightarrow> n AND (n - 1) = 0 \<longleftrightarrow> (\<exists>k. n = 2 ^ k)" for n :: nat
proof (induction n rule: less_induct)
  case (less n)
  show ?case
  proof (cases "even n")
    case True
    then obtain m where m: "n = 2 * m" "0 < m" using less.prems by (auto elim: evenE)
    have "n - 1 = 1 + 2 * (m - 1)" using m by simp
    then have "n AND (n - 1) = 2 * (m AND (m - 1))" by (simp add: m(1) and_nat_rec [of "2 * m"])
    moreover have "(\<exists>k. n = 2 ^ k) \<longleftrightarrow> (\<exists>k. m = 2 ^ k)"
    proof
      assume "\<exists>k. n = 2 ^ k"
      then obtain k where "n = 2 ^ k" by blast
      then show "\<exists>k. m = 2 ^ k" using True m by (cases k) auto
    next
      assume "\<exists>k. m = 2 ^ k"
      then show "\<exists>k. n = 2 ^ k" using m(1) by (metis power_Suc)
    qed
    ultimately show ?thesis using less.IH [of m] m by simp
  next
    case False
    then obtain m where m: "n = 2 * m + 1" by (auto elim: oddE)
    have "n AND (n - 1) = 2 * m" by (simp add: m and_nat_rec [of "Suc (2 * m)"])
    moreover have "m = 0" if "n = 2 ^ k" for k
      using False m that by (cases k) (auto dest: arg_cong [of _ _ even])
    moreover have "\<exists>k. n = 2 ^ k" if "m = 0"
      using m that by (intro exI [of _ 0]) simp
    ultimately show ?thesis by auto
  qed
qed

lemma init_queue_ok:
  assumes "\<And>n items. new_array n = Some items \<Longrightarrow> length items = n"
    and "WorkStealingQueue_init new_array cap WorkStealingQueue_new = (0, q)"
  shows "queue_ok cap q" and "ws_bottom q = 1" and "ws_top q = 1"
  using assms and_pred_eq_0 [of cap]
  by (auto simp: WorkStealingQueue_init_def WorkStealingQueue_new_def queue_ok_def split: if_splits option.splits)

lemma start_inv:
  assumes "\<And>n items. new_array n = Some items \<Longrightarrow> length items = n"
    and "WorkStealingQueue_init new_array cap WorkStealingQueue_new = (0, q)"
  shows "ws_inv cap (ws_start q)" and "ws_abs (ws_start q) = ([], None)"
  using init_queue_ok [OF assms]
  by (simp_all add: ws_inv_def ws_start_def owner_defs thief_ok_def ws_abs_def)

lemma start_run:
  assumes "\<And>n items. new_array n = Some items \<Longrightarrow> length items = n"
    and "WorkStealingQueue_init new_array cap WorkStealingQueue_new = (0, q)"
    and "lts_run ws_step (ws_start q) es s"
  shows "ws_inv cap s" and "spec_run (deque_event cap) es ([], None) = Some (ws_abs s)"
  using wsq.run_simulates [OF assms(3), of cap "([], None)"] start_inv [OF assms(1,2)] by auto

text \<open>\<^verbatim>\<open>init\<close> succeeds once, for the powers of two, if there is memory.\<close>

lemma init_succeeds:
  "fst (WorkStealingQueue_init new_array cap WorkStealingQueue_new) = 0 \<longleftrightarrow> (\<exists>k. cap = 2 ^ k) \<and> new_array cap \<noteq> None"
  using and_pred_eq_0 [of cap] by (auto simp: WorkStealingQueue_init_def WorkStealingQueue_new_def split: option.splits)

section \<open>Properties\<close>

text \<open>The number of steps that a call of the owner still takes: no step waits for another thread.\<close>

fun owner_rank :: "'a owner_pc \<Rightarrow> nat" where
  "owner_rank Owner_idle = 0"
| "owner_rank (Push_load_bottom x) = 4"
| "owner_rank (Push_load_top x b) = 3"
| "owner_rank (Push_write x b) = 2"
| "owner_rank (Push_store_bottom x b) = 1"
| "owner_rank Pop_load_bottom = 7"
| "owner_rank (Pop_load_top b) = 6"
| "owner_rank (Pop_reserve b) = 5"
| "owner_rank (Pop_reload_top b) = 4"
| "owner_rank (Pop_restore b) = 1"
| "owner_rank (Pop_read b t) = 3"
| "owner_rank (Pop_cas b t val) = 2"
| "owner_rank (Pop_release b popped val) = 1"

lemma owner_rank_decreases:
  "owner_step q pc = Inr (ev, q', pc') \<Longrightarrow> pc \<noteq> Owner_idle \<Longrightarrow> owner_rank pc' < owner_rank pc"
  by (cases pc) (auto simp: rbind_eq_Inr Let_def split: if_splits)

text \<open>
  C9. The work-stealing queue is linearizable to a deque. In every interleaving of the owner's pushes and
  pops with any number of thieves, each step has the effect on the deque that its event names: a push appends,
  at most \<open>cap\<close> elements are held, a pop takes the last element and returns it, a steal returns the first one;
  pop fails only when the deque is empty, push only when it is full, and steal only when there is at most one
  element. No step reads or writes outside the buffer, and each step of the owner brings its call closer
  to its end.
\<close>

theorem WorkStealingQueue_refines_deque:
  assumes "\<And>n items. new_array n = Some items \<Longrightarrow> length items = n"
    and "WorkStealingQueue_init new_array cap WorkStealingQueue_new = (0, q)"
    and "lts_run ws_step (ws_start q) es s"
  shows "spec_run (deque_event cap) es ([], None) = Some (ws_abs s) \<and>
    (\<exists>ev q' pc'. owner_step (ws_queue s) (ws_owner s) = Inr (ev, q', pc') \<and>
      (ws_owner s = Owner_idle \<or> owner_rank pc' < owner_rank (ws_owner s))) \<and>
    (\<exists>r. thief_step i (ws_queue s) (ws_thieves s i) = Inr r)"
proof -
  have ok: "queue_ok cap (ws_queue s)" using start_run(1) [OF assms] by (simp add: ws_inv_def)
  obtain ev q' pc' where "owner_step (ws_queue s) (ws_owner s) = Inr (ev, q', pc')"
    using owner_step_total [OF ok, of "ws_owner s"] by (metis prod_cases3)
  then show ?thesis
    using start_run(2) [OF assms] thief_step_total [OF ok] owner_rank_decreases by fastforce
qed

text \<open>The moves of the threads, for schedules.\<close>

datatype 'a ws_turn = Call_push 'a | Call_pop | Call_steal nat | Owner_moves | Thief_moves nat

fun ws_move :: "'a ws_turn \<Rightarrow> 'a ws_state \<Rightarrow> ('a ws_event \<times> 'a ws_state) option" where
  "ws_move (Call_push x) s = (if ws_owner s = Owner_idle then Some (Internal, s\<lparr>ws_owner := Push_load_bottom x\<rparr>) else None)"
| "ws_move Call_pop s = (if ws_owner s = Owner_idle then Some (Internal, s\<lparr>ws_owner := Pop_load_bottom\<rparr>) else None)"
| "ws_move (Call_steal i) s =
    (if ws_thieves s i = Thief_idle then Some (Internal, s\<lparr>ws_thieves := (ws_thieves s)(i := Steal_load_top)\<rparr>) else None)"
| "ws_move Owner_moves s = (case owner_step (ws_queue s) (ws_owner s) of
     Inr (ev, q, pc) \<Rightarrow> Some (ev, s\<lparr>ws_queue := q, ws_owner := pc\<rparr>) | Inl f \<Rightarrow> None)"
| "ws_move (Thief_moves i) s = (case thief_step i (ws_queue s) (ws_thieves s i) of
     Inr (ev, q, pc) \<Rightarrow> Some (ev, s\<lparr>ws_queue := q, ws_thieves := (ws_thieves s)(i := pc)\<rparr>) | Inl f \<Rightarrow> None)"

lemma ws_move_step: "ws_move mv s = Some (ev, s') \<Longrightarrow> ws_step s ev s'"
  by (cases mv) (auto split: sum.splits if_splits intro: ws_step.intros)

lemma ws_schedule_run: "schedule ws_move mvs s = Some (es, u) \<Longrightarrow> lts_run ws_step s es u"
  by (rule schedule_run [of ws_move ws_step]) (rule ws_move_step)

text \<open>A thief and a pop compete for the last element, and the thief wins.\<close>

definition ws_example :: "nat WorkStealingQueue" where
  "ws_example = \<lparr>ws_bottom = 1, ws_capacity = 2, ws_buffer = Some [0, 0], ws_top = 1\<rparr>"

definition ws_example_events :: "nat ws_event list" where
  "ws_example_events = [Internal, Internal, Internal, Internal, Pushed 5, Internal, Internal, Internal, Internal, Internal,
     Internal, Internal, Internal, Internal, Internal, Internal, Stolen 0 5, Internal, Pop_returns None]"

lemma and_one_mod: "n AND Suc 0 = n mod 2" for n :: nat
  using and_mask_mod [of n 1] by simp

lemma ws_example_init: "WorkStealingQueue_init (\<lambda>n. Some (replicate n 0)) 2 WorkStealingQueue_new = (0, ws_example)"
  by (simp add: WorkStealingQueue_init_def WorkStealingQueue_new_def ws_example_def and_one_mod numeral_2_eq_2)

lemma ws_example_run: "\<exists>s. lts_run ws_step (ws_start ws_example) ws_example_events s"
proof -
  have "\<exists>s. schedule ws_move ([Call_push 5] @ replicate 4 Owner_moves @ [Call_steal 0] @ replicate 4 (Thief_moves 0) @
      [Call_pop] @ replicate 5 Owner_moves @ [Thief_moves 0] @ replicate 2 Owner_moves) (ws_start ws_example) = Some (ws_example_events, s)"
    by (simp add: ws_start_def ws_example_def ws_example_events_def ws_read_def ws_write_def ws_slot_def vec_at_def and_one_mod
        Let_def numeral_eq_Suc)
  then show ?thesis using ws_schedule_run by blast
qed

theorem WorkStealingQueue_refines_deque_witness:
  "\<exists>s. lts_run ws_step (ws_start ws_example) ws_example_events s \<and>
    spec_run (deque_event 2) ws_example_events ([], None) = Some (ws_abs s)"
proof -
  obtain s where s: "lts_run ws_step (ws_start ws_example) ws_example_events s" using ws_example_run by blast
  then show ?thesis
    using WorkStealingQueue_refines_deque [OF _ ws_example_init s] by auto
qed

text \<open>The elements that went in, and those that came out to a caller.\<close>

fun ws_in :: "'a ws_event \<Rightarrow> 'a multiset" where
  "ws_in (Pushed x) = {#x#}"
| "ws_in _ = {#}"

fun ws_out :: "'a ws_event \<Rightarrow> 'a multiset" where
  "ws_out (Pop_returns (Some x)) = {#x#}"
| "ws_out (Stolen i x) = {#x#}"
| "ws_out _ = {#}"

definition ws_inside :: "'a list \<times> 'a option \<Rightarrow> 'a multiset" where
  "ws_inside d = mset (fst d) + (case snd d of None \<Rightarrow> {#} | Some x \<Rightarrow> {#x#})"

lemma deque_event_conserves:
  "deque_event cap ev d = Some d' \<Longrightarrow> ws_inside d + ws_in ev = ws_inside d' + ws_out ev"
proof (cases "(cap, ev, d)" rule: deque_event.cases)
  case (4 cap' x c h)
  moreover have "c \<noteq> [] \<Longrightarrow> mset c = add_mset (last c) (mset (butlast c))"
    by (metis append_butlast_last_id mset_append mset.simps union_mset_add_mset_right add.right_neutral)
  ultimately show "deque_event cap ev d = Some d' \<Longrightarrow> ?thesis" by (auto simp: ws_inside_def split: if_splits)
next
  case (7 cap' i x c h)
  then show "deque_event cap ev d = Some d' \<Longrightarrow> ?thesis" by (cases c) (auto simp: ws_inside_def split: if_splits)
qed (auto simp: ws_inside_def split: if_splits)

lemma deque_run_conserves:
  "spec_run (deque_event cap) es d = Some d' \<Longrightarrow>
    ws_inside d + sum_list (map ws_in es) = ws_inside d' + sum_list (map ws_out es)"
proof (induction es arbitrary: d)
  case (Cons ev es)
  then obtain d1 where "deque_event cap ev d = Some d1" "spec_run (deque_event cap) es d1 = Some d'"
    by (auto simp: bind_eq_Some_conv)
  then show ?case using deque_event_conserves [of cap ev d d1] Cons.IH [of d1] by (simp add: ac_simps) (metis add.assoc add.commute)
qed simp

text \<open>
  C40. No element is lost and none is handed out twice: in every interleaving the elements pushed are
  those returned by pops and steals, those in the queue, and the one that a pop has taken and not yet returned, each as often as it
  was pushed.
\<close>

theorem WorkStealingQueue_takes_once:
  assumes "\<And>n items. new_array n = Some items \<Longrightarrow> length items = n"
    and "WorkStealingQueue_init new_array cap WorkStealingQueue_new = (0, q)"
    and "lts_run ws_step (ws_start q) es s"
  shows "sum_list (map ws_in es) = ws_inside (ws_abs s) + sum_list (map ws_out es)"
  using deque_run_conserves [OF start_run(2) [OF assms]] by (simp add: ws_inside_def)

theorem WorkStealingQueue_takes_once_witness:
  "\<exists>s. lts_run ws_step (ws_start ws_example) ws_example_events s \<and>
    {#5#} = ws_inside (ws_abs s) + sum_list (map ws_out ws_example_events)"
proof -
  obtain s where s: "lts_run ws_step (ws_start ws_example) ws_example_events s" using ws_example_run by blast
  have "sum_list (map ws_in ws_example_events) = {#5#}" by (simp add: ws_example_events_def)
  then show ?thesis
    using WorkStealingQueue_takes_once [OF _ ws_example_init s] s by (metis length_replicate option.inject)
qed

end
