(* ===== verification/MPSC_Queue.thy ===== *)
theory MPSC_Queue
  imports Refinement
begin

text \<open>
  The queue of \<^verbatim>\<open>libsh/butil/containers/mpsc_queue.h\<close>: any number of threads enqueue, one thread dequeues. The nodes
  live in a heap; a pointer is an address, \<open>None\<close> the null pointer. Each access to memory that several threads use
  is one step and the steps interleave in any order (the accesses are taken to be sequentially consistent).
  A node is private to its producer until it is exchanged into \<^verbatim>\<open>_head\<close>, so its allocation and
  initialisation are one step; the allocator is taken to find memory.
  Using a node that is not allocated is the fault \<open>Out_of_bounds\<close>.
\<close>

section \<open>The queue\<close>

text \<open>The field \<^verbatim>\<open>next\<close>: \<^verbatim>\<open>UNCONNECTED\<close>, the null pointer, or a node.\<close>

datatype link = Unconnected | Null | Node nat

record 'a MPSCQueueNode =
  mn_next :: link
  mn_data :: 'a

record 'a MPSCQueue =
  mq_head :: "nat option"
  mq_cur_enqueue_node :: "nat option"
  mq_cur_dequeue_node :: "nat option"
  mq_heap :: "nat \<Rightarrow> 'a MPSCQueueNode option"

definition MPSCQueue_new :: "'a MPSCQueue" where
  "MPSCQueue_new = \<lparr>mq_head = None, mq_cur_enqueue_node = None, mq_cur_dequeue_node = None, mq_heap = (\<lambda>_. None)\<rparr>"

definition node_at :: "'a MPSCQueue \<Rightarrow> nat \<Rightarrow> 'a MPSCQueueNode result" where
  "node_at q p = of_option Out_of_bounds (mq_heap q p)"

definition set_next_field :: "nat \<Rightarrow> link \<Rightarrow> 'a MPSCQueue \<Rightarrow> 'a MPSCQueue result" where
  "set_next_field p l q = rbind (node_at q p) (\<lambda>nd. Inr (q\<lparr>mq_heap := (mq_heap q)(p \<mapsto> nd\<lparr>mn_next := l\<rparr>)\<rparr>))"

definition link_of :: "nat option \<Rightarrow> link" where
  "link_of r = (case r of None \<Rightarrow> Null | Some p \<Rightarrow> Node p)"

text \<open>A link that is used as a pointer; \<^verbatim>\<open>UNCONNECTED\<close> is the address \<open>-1\<close>, where no node is.\<close>

definition pointer_of :: "link \<Rightarrow> nat option result" where
  "pointer_of l = (case l of Unconnected \<Rightarrow> Inl Out_of_bounds | Null \<Rightarrow> Inr None | Node p \<Rightarrow> Inr (Some p))"

section \<open>The steps of the calls\<close>

text \<open>Where a producer is: between calls, or before an access of \<^verbatim>\<open>EnqueueImpl\<close> with its node and \<^verbatim>\<open>prev\<close>.\<close>

datatype producer_pc =
    Producer_idle
  | Enq_exchange nat
  | Enq_link nat nat
  | Enq_first nat
  | Enq_publish nat

text \<open>Where the consumer is in \<^verbatim>\<open>DequeueImpl\<close> and \<^verbatim>\<open>ReverseList\<close>, with \<^verbatim>\<open>node\<close>, \<^verbatim>\<open>*data\<close>, \<^verbatim>\<open>tail\<close> and \<^verbatim>\<open>p\<close>.\<close>

datatype 'a consumer_pc =
    Consumer_idle
  | Deq_start
  | Deq_data nat
  | Deq_test nat 'a
  | Rev_cas nat 'a
  | Rev_wait nat 'a "nat option" "nat option"
  | Rev_turn nat 'a "nat option" "nat option"
  | Rev_link nat 'a "nat option"
  | Deq_advance nat 'a
  | Deq_free nat 'a

datatype 'a mpsc_event =
    Quiet
  | Enqueued 'a
  | Dequeued 'a
  | Deq_fails

record 'a mpsc_state =
  ms_queue :: "'a MPSCQueue"
  ms_consumer :: "'a consumer_pc"
  ms_producers :: "nat \<Rightarrow> producer_pc"

fun producer_step :: "'a MPSCQueue \<Rightarrow> producer_pc \<Rightarrow> ('a mpsc_event \<times> 'a MPSCQueue \<times> producer_pc) result" where
  "producer_step q Producer_idle = Inr (Quiet, q, Producer_idle)"
| "producer_step q (Enq_exchange node) = rbind (node_at q node) (\<lambda>nd.
     Inr (Enqueued (mn_data nd), q\<lparr>mq_head := Some node\<rparr>,
       case mq_head q of Some prev \<Rightarrow> Enq_link node prev | None \<Rightarrow> Enq_first node))"
| "producer_step q (Enq_link node prev) = rbind (set_next_field node (Node prev) q) (\<lambda>q1. Inr (Quiet, q1, Producer_idle))"
| "producer_step q (Enq_first node) = rbind (set_next_field node Null q) (\<lambda>q1. Inr (Quiet, q1, Enq_publish node))"
| "producer_step q (Enq_publish node) = Inr (Quiet, q\<lparr>mq_cur_enqueue_node := Some node\<rparr>, Producer_idle)"

text \<open>
  \<open>Rev_wait\<close> is one test of the waiting loop, \<open>Rev_turn\<close> the rest of the body of the reversing loop: there only
  the consumer accesses the node.
\<close>

fun consumer_step :: "'a MPSCQueue \<Rightarrow> 'a consumer_pc \<Rightarrow> ('a mpsc_event \<times> 'a MPSCQueue \<times> 'a consumer_pc) result" where
  "consumer_step q Consumer_idle = Inr (Quiet, q, Consumer_idle)"
| "consumer_step q Deq_start = (case mq_cur_dequeue_node q of
     Some node \<Rightarrow> Inr (Quiet, q, Deq_data node)
   | None \<Rightarrow> (case mq_cur_enqueue_node q of
       Some node \<Rightarrow> Inr (Quiet, q\<lparr>mq_cur_enqueue_node := None\<rparr>, Deq_data node)
     | None \<Rightarrow> Inr (Deq_fails, q, Consumer_idle)))"
| "consumer_step q (Deq_data node) = rbind (node_at q node) (\<lambda>nd. Inr (Quiet, q, Deq_test node (mn_data nd)))"
| "consumer_step q (Deq_test node x) = rbind (node_at q node) (\<lambda>nd.
     Inr (Quiet, q, if mn_next nd = Null then Rev_cas node x else Deq_advance node x))"
| "consumer_step q (Rev_cas node x) =
    (if mq_head q = Some node then Inr (Quiet, q\<lparr>mq_head := None\<rparr>, Deq_advance node x)
     else Inr (Quiet, q, Rev_wait node x None (mq_head q)))"
| "consumer_step q (Rev_wait node x tail p) = rbind (of_option Null_pointer p) (\<lambda>a. rbind (node_at q a) (\<lambda>nd.
     Inr (Quiet, q, if mn_next nd = Unconnected then Rev_wait node x tail p else Rev_turn node x tail p)))"
| "consumer_step q (Rev_turn node x tail p) = rbind (of_option Null_pointer p) (\<lambda>a. rbind (node_at q a) (\<lambda>nd.
     rbind (pointer_of (mn_next nd)) (\<lambda>saved_next. rbind (set_next_field a (link_of tail) q) (\<lambda>q1.
     if saved_next = None then Inl Check_failed
     else Inr (Quiet, q1, if saved_next \<noteq> Some node then Rev_wait node x p saved_next else Rev_link node x p)))))"
| "consumer_step q (Rev_link node x tail) = rbind (set_next_field node (link_of tail) q) (\<lambda>q1. Inr (Quiet, q1, Deq_advance node x))"
| "consumer_step q (Deq_advance node x) = rbind (node_at q node) (\<lambda>nd. rbind (pointer_of (mn_next nd)) (\<lambda>r.
     Inr (Quiet, q\<lparr>mq_cur_dequeue_node := r\<rparr>, Deq_free node x)))"
| "consumer_step q (Deq_free node x) = rbind (node_at q node) (\<lambda>nd.
     Inr (Dequeued x, q\<lparr>mq_heap := (mq_heap q)(node := None)\<rparr>, Consumer_idle))"

inductive mpsc_step :: "'a mpsc_state \<Rightarrow> 'a mpsc_event \<Rightarrow> 'a mpsc_state \<Rightarrow> bool" where
  call_enqueue: "ms_producers s i = Producer_idle \<Longrightarrow> mq_heap (ms_queue s) node = None \<Longrightarrow>
    mpsc_step s Quiet (s\<lparr>ms_queue := (ms_queue s)\<lparr>mq_heap := (mq_heap (ms_queue s))(node \<mapsto> \<lparr>mn_next = Unconnected, mn_data = x\<rparr>)\<rparr>,
      ms_producers := (ms_producers s)(i := Enq_exchange node)\<rparr>)"
| call_dequeue: "ms_consumer s = Consumer_idle \<Longrightarrow> mpsc_step s Quiet (s\<lparr>ms_consumer := Deq_start\<rparr>)"
| producer: "producer_step (ms_queue s) (ms_producers s i) = Inr (ev, q, pc) \<Longrightarrow>
    mpsc_step s ev (s\<lparr>ms_queue := q, ms_producers := (ms_producers s)(i := pc)\<rparr>)"
| consumer: "consumer_step (ms_queue s) (ms_consumer s) = Inr (ev, q, pc) \<Longrightarrow>
    mpsc_step s ev (s\<lparr>ms_queue := q, ms_consumer := pc\<rparr>)"

definition mpsc_start :: "'a mpsc_state" where
  "mpsc_start = \<lparr>ms_queue = MPSCQueue_new, ms_consumer = Consumer_idle, ms_producers = (\<lambda>_. Producer_idle)\<rparr>"

section \<open>The shape of the queue\<close>

text \<open>
  The nodes in the order in which they were exchanged into \<^verbatim>\<open>_head\<close> form a list, of which the consumer sees a
  first part as a chain through \<^verbatim>\<open>next\<close> (\<open>fwd\<close>); each node after it points to the node before it, or is unconnected and its
  producer is about to connect it (\<open>back\<close>). \<open>f\<close> gives the \<^verbatim>\<open>next\<close> of a node and \<open>P\<close> the producers.
\<close>

fun fwd :: "(nat \<Rightarrow> link) \<Rightarrow> nat list \<Rightarrow> bool" where
  "fwd f [] = True"
| "fwd f [a] = (f a = Null)"
| "fwd f (a # b # as) = (f a = Node b \<and> fwd f (b # as))"

definition points_back :: "(nat \<Rightarrow> link) \<Rightarrow> (nat \<Rightarrow> producer_pc) \<Rightarrow> nat \<Rightarrow> nat \<Rightarrow> bool" where
  "points_back f P a r \<longleftrightarrow> f a = Node r \<or> f a = Unconnected \<and> (\<exists>i. P i = Enq_link a r)"

fun linked_back :: "(nat \<Rightarrow> link) \<Rightarrow> (nat \<Rightarrow> producer_pc) \<Rightarrow> nat \<Rightarrow> nat list \<Rightarrow> bool" where
  "linked_back f P r [] = True"
| "linked_back f P r (a # as) = (points_back f P a r \<and> linked_back f P a as)"

text \<open>
  \<open>attached\<close>: the consumer has the chain \<open>A\<close>. \<open>fresh\<close>: the queue was empty before the first node of \<open>M\<close>, which the consumer
  finds in \<^verbatim>\<open>_cur_enqueue_node\<close>, unless its producer has not stored it yet; then it is \<open>F\<close>.
\<close>

definition attached :: "(nat \<Rightarrow> link) \<Rightarrow> (nat \<Rightarrow> producer_pc) \<Rightarrow> 'a MPSCQueue \<Rightarrow> nat option \<Rightarrow> nat list \<Rightarrow> nat list \<Rightarrow> bool" where
  "attached f P q F A N \<longleftrightarrow> F = None \<and> mq_cur_enqueue_node q = None \<and> A \<noteq> [] \<and> fwd f A \<and> linked_back f P (last A) N \<and>
    mq_head q = Some (last (A @ N))"

definition fresh :: "(nat \<Rightarrow> link) \<Rightarrow> (nat \<Rightarrow> producer_pc) \<Rightarrow> 'a MPSCQueue \<Rightarrow> nat option \<Rightarrow> nat list \<Rightarrow> bool" where
  "fresh f P q F M \<longleftrightarrow> (case M of
     [] \<Rightarrow> mq_head q = None \<and> mq_cur_enqueue_node q = None \<and> F = None
   | m # N \<Rightarrow> mq_head q = Some (last M) \<and> linked_back f P m N \<and>
       (mq_cur_enqueue_node q = Some m \<and> F = None \<and> f m = Null \<or> mq_cur_enqueue_node q = None \<and> F = Some m))"

definition waiting :: "(nat \<Rightarrow> link) \<Rightarrow> (nat \<Rightarrow> producer_pc) \<Rightarrow> 'a MPSCQueue \<Rightarrow> nat option \<Rightarrow> nat option \<Rightarrow> nat list \<Rightarrow> bool" where
  "waiting f P q F d M \<longleftrightarrow> (case d of
     None \<Rightarrow> fresh f P q F M
   | Some a \<Rightarrow> \<exists>A N. M = A @ N \<and> hd A = a \<and> attached f P q F A N)"

text \<open>\<open>reversing\<close>: the nodes \<open>B\<^sub>1\<close> after \<open>n\<close> still point back, the nodes \<open>B\<^sub>2\<close> are reversed, \<open>N\<close> came later.\<close>

definition reversing ::
    "(nat \<Rightarrow> link) \<Rightarrow> (nat \<Rightarrow> producer_pc) \<Rightarrow> 'a MPSCQueue \<Rightarrow> nat option \<Rightarrow> nat \<Rightarrow> nat list \<Rightarrow> nat list \<Rightarrow> nat list \<Rightarrow> bool" where
  "reversing f P q F n B1 B2 N \<longleftrightarrow> F = None \<and> mq_cur_enqueue_node q = None \<and> f n = Null \<and>
    linked_back f P n B1 \<and> fwd f B2 \<and> linked_back f P (last (n # B1 @ B2)) N \<and> mq_head q = Some (last (n # B1 @ B2 @ N))"

definition head_of :: "nat list \<Rightarrow> nat option" where
  "head_of as = (case as of [] \<Rightarrow> None | a # _ \<Rightarrow> Some a)"

fun shape ::
    "(nat \<Rightarrow> link) \<Rightarrow> (nat \<Rightarrow> producer_pc) \<Rightarrow> (nat \<Rightarrow> 'a) \<Rightarrow> 'a MPSCQueue \<Rightarrow> nat option \<Rightarrow> nat list \<Rightarrow> 'a consumer_pc \<Rightarrow> bool" where
  "shape f P D q F L Consumer_idle \<longleftrightarrow> waiting f P q F (mq_cur_dequeue_node q) L"
| "shape f P D q F L Deq_start \<longleftrightarrow> waiting f P q F (mq_cur_dequeue_node q) L"
| "shape f P D q F L (Deq_data n) \<longleftrightarrow> (\<exists>A N. L = A @ N \<and> hd A = n \<and> attached f P q F A N)"
| "shape f P D q F L (Deq_test n x) \<longleftrightarrow> x = D n \<and> (\<exists>A N. L = A @ N \<and> hd A = n \<and> attached f P q F A N)"
| "shape f P D q F L (Rev_cas n x) \<longleftrightarrow> x = D n \<and> (\<exists>N. L = n # N \<and> attached f P q F [n] N)"
| "shape f P D q F L (Rev_wait n x tail p) \<longleftrightarrow> x = D n \<and>
    (\<exists>B1 B2 N. L = n # B1 @ B2 @ N \<and> B1 \<noteq> [] \<and> p = Some (last B1) \<and> tail = head_of B2 \<and> reversing f P q F n B1 B2 N)"
| "shape f P D q F L (Rev_turn n x tail p) \<longleftrightarrow> x = D n \<and>
    (\<exists>B1 B2 N. L = n # B1 @ B2 @ N \<and> B1 \<noteq> [] \<and> p = Some (last B1) \<and> tail = head_of B2 \<and> reversing f P q F n B1 B2 N \<and>
      f (last B1) \<noteq> Unconnected)"
| "shape f P D q F L (Rev_link n x tail) \<longleftrightarrow> x = D n \<and>
    (\<exists>B2 N. L = n # B2 @ N \<and> B2 \<noteq> [] \<and> tail = Some (hd B2) \<and> reversing f P q F n [] B2 N)"
| "shape f P D q F L (Deq_advance n x) \<longleftrightarrow> x = D n \<and> (\<exists>d M. L = n # M \<and> f n = link_of d \<and> waiting f P q F d M)"
| "shape f P D q F L (Deq_free n x) \<longleftrightarrow> x = D n \<and> f n \<noteq> Unconnected \<and> (\<exists>M. L = n # M \<and> waiting f P q F (mq_cur_dequeue_node q) M)"

section \<open>The invariant\<close>

fun owned :: "producer_pc \<Rightarrow> nat option" where
  "owned Producer_idle = None"
| "owned (Enq_exchange p) = Some p"
| "owned (Enq_link p r) = Some p"
| "owned (Enq_first p) = Some p"
| "owned (Enq_publish p) = Some p"

fun producer_ok :: "(nat \<Rightarrow> link) \<Rightarrow> nat set \<Rightarrow> nat option \<Rightarrow> nat list \<Rightarrow> producer_pc \<Rightarrow> bool" where
  "producer_ok f H F L Producer_idle \<longleftrightarrow> True"
| "producer_ok f H F L (Enq_exchange p) \<longleftrightarrow> p \<in> H \<and> p \<notin> set L \<and> f p = Unconnected"
| "producer_ok f H F L (Enq_link p r) \<longleftrightarrow> p \<in> set L \<and> f p = Unconnected"
| "producer_ok f H F L (Enq_first p) \<longleftrightarrow> F = Some p \<and> f p = Unconnected"
| "producer_ok f H F L (Enq_publish p) \<longleftrightarrow> F = Some p \<and> f p = Null"

definition producers_ok :: "(nat \<Rightarrow> link) \<Rightarrow> (nat \<Rightarrow> producer_pc) \<Rightarrow> nat set \<Rightarrow> nat option \<Rightarrow> nat list \<Rightarrow> bool" where
  "producers_ok f P H F L \<longleftrightarrow> (\<forall>i. producer_ok f H F L (P i)) \<and>
    (\<forall>i j p. owned (P i) = Some p \<longrightarrow> owned (P j) = Some p \<longrightarrow> i = j) \<and>
    (\<forall>p. F = Some p \<longrightarrow> (\<exists>i. P i = Enq_first p \<or> P i = Enq_publish p))"

definition next_of :: "'a MPSCQueue \<Rightarrow> nat \<Rightarrow> link" where
  "next_of q p = (case mq_heap q p of None \<Rightarrow> Unconnected | Some nd \<Rightarrow> mn_next nd)"

definition data_of :: "'a MPSCQueue \<Rightarrow> nat \<Rightarrow> 'a" where
  "data_of q p = mn_data (the (mq_heap q p))"

definition mpsc_inv :: "'a mpsc_state \<Rightarrow> nat option \<Rightarrow> nat list \<Rightarrow> bool" where
  "mpsc_inv s F L \<longleftrightarrow> distinct L \<and> set L \<subseteq> dom (mq_heap (ms_queue s)) \<and>
    producers_ok (next_of (ms_queue s)) (ms_producers s) (dom (mq_heap (ms_queue s))) F L \<and>
    shape (next_of (ms_queue s)) (ms_producers s) (data_of (ms_queue s)) (ms_queue s) F L (ms_consumer s)"

section \<open>Steps that connect a node\<close>

text \<open>
  \<open>extends\<close>: the \<^verbatim>\<open>next\<close> fields and the producers change in such a way that the nodes of \<open>L\<close> keep their place. All parts of the shape are
  kept by such a change.
\<close>

definition extends ::
    "nat list \<Rightarrow> (nat \<Rightarrow> link) \<Rightarrow> (nat \<Rightarrow> producer_pc) \<Rightarrow> (nat \<Rightarrow> link) \<Rightarrow> (nat \<Rightarrow> producer_pc) \<Rightarrow> bool" where
  "extends L f P g P' \<longleftrightarrow> (\<forall>a \<in> set L. (f a \<noteq> Unconnected \<longrightarrow> g a = f a) \<and> (\<forall>r. points_back f P a r \<longrightarrow> points_back g P' a r))"

definition same_fields :: "'a MPSCQueue \<Rightarrow> 'a MPSCQueue \<Rightarrow> bool" where
  "same_fields q q' \<longleftrightarrow> mq_head q' = mq_head q \<and> mq_cur_enqueue_node q' = mq_cur_enqueue_node q \<and> mq_cur_dequeue_node q' = mq_cur_dequeue_node q"

lemma extends_sub: "extends L f P g P' \<Longrightarrow> set M \<subseteq> set L \<Longrightarrow> extends M f P g P'"
  by (auto simp: extends_def)

lemma fwd_extends: "fwd f A \<Longrightarrow> extends A f P g P' \<Longrightarrow> fwd g A"
  by (induction f A rule: fwd.induct) (auto simp: extends_def)

lemma linked_back_extends: "linked_back f P r N \<Longrightarrow> extends N f P g P' \<Longrightarrow> linked_back g P' r N"
  by (induction f P r N rule: linked_back.induct) (auto simp: extends_def)

lemma attached_extends:
  "attached f P q F A N \<Longrightarrow> extends (A @ N) f P g P' \<Longrightarrow> same_fields q q' \<Longrightarrow> attached g P' q' F A N"
  using fwd_extends [of f A P g P'] linked_back_extends [of f P "last A" N g P'] extends_sub [of "A @ N" f P g P']
  by (simp add: attached_def same_fields_def)

lemma fresh_extends: "fresh f P q F M \<Longrightarrow> extends M f P g P' \<Longrightarrow> same_fields q q' \<Longrightarrow> fresh g P' q' F M"
  using linked_back_extends [of f P "hd M" "tl M" g P'] extends_sub [of M f P g P' "tl M"]
  by (cases M) (auto simp: fresh_def same_fields_def extends_def)

lemma waiting_extends: "waiting f P q F d M \<Longrightarrow> extends M f P g P' \<Longrightarrow> same_fields q q' \<Longrightarrow> waiting g P' q' F d M"
  by (auto simp: waiting_def split: option.splits intro: fresh_extends attached_extends)

lemma reversing_extends:
  "reversing f P q F n B1 B2 N \<Longrightarrow> extends (n # B1 @ B2 @ N) f P g P' \<Longrightarrow> same_fields q q' \<Longrightarrow> reversing g P' q' F n B1 B2 N"
  using fwd_extends [of f B2 P g P'] linked_back_extends [of f P n B1 g P']
    linked_back_extends [of f P "last (n # B1 @ B2)" N g P'] extends_sub [of "n # B1 @ B2 @ N" f P g P']
  by (auto simp: reversing_def same_fields_def extends_def)

lemma chain_extends:
  assumes "\<exists>A N. L = A @ N \<and> hd A = n \<and> attached f P q F A N" and "extends L f P g P'" and "same_fields q q'"
  shows "\<exists>A N. L = A @ N \<and> hd A = n \<and> attached g P' q' F A N" and "n \<in> set L"
proof -
  obtain A N where L: "L = A @ N" "hd A = n" "attached f P q F A N" using assms(1) by blast
  moreover have "attached g P' q' F A N" using attached_extends [OF L(3) _ assms(3)] assms(2) L(1) by simp
  ultimately show "\<exists>A N. L = A @ N \<and> hd A = n \<and> attached g P' q' F A N" by blast
  show "n \<in> set L" using L by (cases A) (auto simp: attached_def)
qed

lemma shape_extends:
  assumes "shape f P D q F L pc" and "extends L f P g P'" and "same_fields q q'" and "\<And>a. a \<in> set L \<Longrightarrow> D' a = D a"
  shows "shape g P' D' q' F L pc"
proof (cases pc)
  case (Deq_data n)
  then show ?thesis using chain_extends(1) [OF _ assms(2,3)] assms(1) by simp
next
  case (Deq_test n x)
  then have L: "\<exists>A N. L = A @ N \<and> hd A = n \<and> attached f P q F A N" and x: "x = D n" using assms(1) by simp_all
  show ?thesis using chain_extends [OF L assms(2,3)] assms(4) x Deq_test by simp
next
  case (Rev_cas n x)
  then show ?thesis using assms attached_extends [of f P q F "[n]" _ g P' q'] by auto
next
  case (Rev_wait n x tail p)
  then obtain B1 B2 N where L: "L = n # B1 @ B2 @ N" "B1 \<noteq> []" "p = Some (last B1)" "tail = head_of B2" "reversing f P q F n B1 B2 N" "x = D n"
    using assms(1) by auto
  moreover have "reversing g P' q' F n B1 B2 N" using reversing_extends [OF L(5)] assms(2,3) L(1) by simp
  ultimately show ?thesis using Rev_wait assms(4) by auto
next
  case (Rev_turn n x tail p)
  then obtain B1 B2 N where L: "L = n # B1 @ B2 @ N" "B1 \<noteq> []" "p = Some (last B1)" "tail = head_of B2" "reversing f P q F n B1 B2 N" "x = D n"
      "f (last B1) \<noteq> Unconnected"
    using assms(1) by auto
  moreover have "reversing g P' q' F n B1 B2 N" using reversing_extends [OF L(5)] assms(2,3) L(1) by simp
  moreover have "g (last B1) \<noteq> Unconnected" using L(1,2,7) assms(2) by (simp add: extends_def)
  ultimately show ?thesis using Rev_turn assms(4) by auto
next
  case (Rev_link n x tail)
  then obtain B2 N where L: "L = n # B2 @ N" "B2 \<noteq> []" "tail = Some (hd B2)" "reversing f P q F n [] B2 N" "x = D n"
    using assms(1) by auto
  moreover have "reversing g P' q' F n [] B2 N" using reversing_extends [OF L(4)] assms(2,3) L(1) by simp
  ultimately show ?thesis using Rev_link assms(4) by auto
next
  case (Deq_advance n x)
  then obtain d M where L: "L = n # M" "f n = link_of d" "waiting f P q F d M" "x = D n" using assms(1) by auto
  moreover have "g n = f n" using L(1,2) assms(2) by (auto simp: extends_def link_of_def split: option.splits)
  moreover have "waiting g P' q' F d M" using waiting_extends [OF L(3)] extends_sub [OF assms(2), of M] assms(3) L(1) by auto
  ultimately show ?thesis using Deq_advance assms(4) by auto
next
  case (Deq_free n x)
  then obtain M where L: "L = n # M" "f n \<noteq> Unconnected" "waiting f P q F (mq_cur_dequeue_node q) M" "x = D n" using assms(1) by auto
  moreover have "g n = f n" using L(1,2) assms(2) by (auto simp: extends_def)
  moreover have "waiting g P' q' F (mq_cur_dequeue_node q) M" using waiting_extends [OF L(3)] extends_sub [OF assms(2), of M] assms(3) L(1) by auto
  ultimately show ?thesis using Deq_free assms(3,4) by (auto simp: same_fields_def)
qed (use assms(1) waiting_extends [OF _ assms(2,3)] assms(3) in \<open>simp_all add: same_fields_def\<close>)

section \<open>Steps that add a node\<close>

text \<open>Producer \<open>i\<close> is about to exchange its node \<open>p\<close> for the head \<open>r\<close>.\<close>

definition joins :: "(nat \<Rightarrow> link) \<Rightarrow> (nat \<Rightarrow> producer_pc) \<Rightarrow> 'a MPSCQueue \<Rightarrow> nat \<Rightarrow> nat \<Rightarrow> nat \<Rightarrow> bool" where
  "joins f P q i p r \<longleftrightarrow> mq_head q = Some r \<and> f p = Unconnected \<and> P i = Enq_exchange p"

lemma extends_joins: "joins f P q i p r \<Longrightarrow> extends L f P f (P(i := pc))"
  by (auto simp: extends_def points_back_def joins_def) (metis producer_pc.distinct(9))

lemma linked_back_snoc:
  "linked_back f P a N \<Longrightarrow> joins f P q i p r \<Longrightarrow> r = last (a # N) \<Longrightarrow> linked_back f (P(i := Enq_link p r)) a (N @ [p])"
proof (induction N arbitrary: a)
  case Nil
  then show ?case by (auto simp: points_back_def joins_def)
next
  case (Cons b N)
  have "points_back f (P(i := Enq_link p r)) b a"
    using extends_joins [OF Cons.prems(2), of "b # N" "Enq_link p r"] Cons.prems(1) by (simp add: extends_def)
  moreover have "linked_back f (P(i := Enq_link p r)) b (N @ [p])"
    by (rule Cons.IH) (use Cons.prems in simp_all)
  ultimately show ?case by (simp del: fun_upd_apply)
qed

lemma attached_snoc:
  assumes "attached f P q F A N" and "joins f P q i p r"
  shows "attached f (P(i := Enq_link p r)) (q\<lparr>mq_head := Some p\<rparr>) F A (N @ [p])"
proof -
  have "r = last (last A # N)" using assms by (auto simp: attached_def joins_def)
  then have "linked_back f (P(i := Enq_link p r)) (last A) (N @ [p])"
    using assms(1) linked_back_snoc [OF _ assms(2)] by (simp add: attached_def)
  then show ?thesis using assms(1) by (simp add: attached_def)
qed

lemma fresh_snoc:
  assumes "fresh f P q F M" and "joins f P q i p r"
  shows "fresh f (P(i := Enq_link p r)) (q\<lparr>mq_head := Some p\<rparr>) F (M @ [p])"
proof (cases M)
  case (Cons m N)
  then have "linked_back f (P(i := Enq_link p r)) m (N @ [p])"
    using assms(1) linked_back_snoc [OF _ assms(2), of m N] assms(2) by (auto simp: fresh_def joins_def)
  then show ?thesis using assms(1) Cons by (auto simp: fresh_def)
qed (use assms in \<open>simp add: fresh_def joins_def\<close>)

lemma waiting_snoc:
  assumes "waiting f P q F d M" and "joins f P q i p r"
  shows "waiting f (P(i := Enq_link p r)) (q\<lparr>mq_head := Some p\<rparr>) F d (M @ [p])"
proof (cases d)
  case (Some a)
  then obtain A N where L: "M = A @ N" "hd A = a" "attached f P q F A N" using assms(1) by (auto simp: waiting_def)
  then show ?thesis using attached_snoc [OF L(3) assms(2)] Some by (simp add: waiting_def) (metis append.assoc)
qed (use assms fresh_snoc [OF _ assms(2)] in \<open>simp add: waiting_def\<close>)

lemma reversing_snoc:
  assumes "reversing f P q F n B1 B2 N" and "joins f P q i p r"
  shows "reversing f (P(i := Enq_link p r)) (q\<lparr>mq_head := Some p\<rparr>) F n B1 B2 (N @ [p])"
proof -
  have "r = last (last (n # B1 @ B2) # N)" using assms by (auto simp: reversing_def joins_def)
  then have "linked_back f (P(i := Enq_link p r)) (last (n # B1 @ B2)) (N @ [p])"
    using assms(1) linked_back_snoc [OF _ assms(2)] unfolding reversing_def by blast
  moreover have "linked_back f (P(i := Enq_link p r)) n B1"
    using assms(1) linked_back_extends [OF _ extends_joins [OF assms(2)]] by (auto simp: reversing_def)
  ultimately show ?thesis using assms(1) by (auto simp: reversing_def)
qed

lemma chain_snoc:
  assumes "\<exists>A N. L = A @ N \<and> hd A = n \<and> attached f P q F A N" and "joins f P q i p r"
  shows "\<exists>A N. L @ [p] = A @ N \<and> hd A = n \<and> attached f (P(i := Enq_link p r)) (q\<lparr>mq_head := Some p\<rparr>) F A N"
  using assms(1) attached_snoc [OF _ assms(2)] by (metis append.assoc)

lemma shape_snoc:
  assumes "shape f P D q F L pc" and "joins f P q i p r"
  shows "shape f (P(i := Enq_link p r)) D (q\<lparr>mq_head := Some p\<rparr>) F (L @ [p]) pc"
proof (cases pc)
  case (Rev_wait n x tail c)
  then obtain B1 B2 N where L: "L = n # B1 @ B2 @ N" "B1 \<noteq> []" "c = Some (last B1)" "tail = head_of B2" "reversing f P q F n B1 B2 N" "x = D n"
    using assms(1) by auto
  then show ?thesis using Rev_wait reversing_snoc [OF L(5) assms(2)] by auto
next
  case (Rev_turn n x tail c)
  then obtain B1 B2 N where L: "L = n # B1 @ B2 @ N" "B1 \<noteq> []" "c = Some (last B1)" "tail = head_of B2" "reversing f P q F n B1 B2 N" "x = D n"
      "f (last B1) \<noteq> Unconnected"
    using assms(1) by auto
  then show ?thesis using Rev_turn reversing_snoc [OF L(5) assms(2)] by auto
next
  case (Rev_link n x tail)
  then obtain B2 N where L: "L = n # B2 @ N" "B2 \<noteq> []" "tail = Some (hd B2)" "reversing f P q F n [] B2 N" "x = D n"
    using assms(1) by auto
  then show ?thesis using Rev_link reversing_snoc [OF L(4) assms(2)] by auto
next
  case (Deq_advance n x)
  then obtain d M where L: "L = n # M" "f n = link_of d" "waiting f P q F d M" "x = D n" using assms(1) by auto
  then show ?thesis using Deq_advance waiting_snoc [OF L(3) assms(2)] by auto
qed (use assms(1) chain_snoc [OF _ assms(2)] attached_snoc [OF _ assms(2)] waiting_snoc [OF _ assms(2)] in \<open>auto\<close>)

lemma shape_first:
  assumes "shape f P D q F L pc" and "mq_head q = None" and "P i = Enq_exchange p"
  shows "F = None" and "shape f (P(i := Enq_first p)) D (q\<lparr>mq_head := Some p\<rparr>) (Some p) (L @ [p]) pc"
proof -
  have waits: "F = None \<and> waiting f (P(i := Enq_first p)) (q\<lparr>mq_head := Some p\<rparr>) (Some p) d (M @ [p]) \<and> M = []"
    if "waiting f P q F d M" for d M
    using that assms(2) by (auto simp: waiting_def fresh_def attached_def split: option.splits list.splits)
  show "F = None" using assms(1,2) waits by (cases pc) (auto simp: attached_def reversing_def)
  show "shape f (P(i := Enq_first p)) D (q\<lparr>mq_head := Some p\<rparr>) (Some p) (L @ [p]) pc"
    using assms(1,2) waits by (cases pc) (fastforce simp: attached_def reversing_def)+
qed

section \<open>The producers\<close>

lemma shape_first_node:
  assumes "shape f P D q (Some p) L pc"
  shows "p \<in> set L"
proof -
  have waits: "p \<in> set M" if "waiting f P q (Some p) d M" for d M
    using that by (auto simp: waiting_def fresh_def attached_def split: option.splits list.splits)
  show ?thesis using assms waits by (cases pc) (fastforce simp: attached_def reversing_def)+
qed

lemma shape_publish:
  assumes "shape f P D q (Some p) L pc" and "f p = Null"
  shows "shape f P D (q\<lparr>mq_cur_enqueue_node := Some p\<rparr>) None L pc"
proof -
  have waits: "waiting f P (q\<lparr>mq_cur_enqueue_node := Some p\<rparr>) None d M" if "waiting f P q (Some p) d M" for d M
    using that assms(2) by (auto simp: waiting_def fresh_def attached_def split: option.splits list.splits)
  show ?thesis using assms(1) waits by (cases pc) (fastforce simp: attached_def reversing_def)+
qed

text \<open>A producer moves on with its own node: the others are not concerned.\<close>

lemma producers_ok_move:
  assumes ok: "producers_ok f P H F L" and own: "owned (P i) = Some p" and same: "\<And>a. a \<noteq> p \<Longrightarrow> g a = f a"
    and L': "set L \<subseteq> set L'" "set L' \<subseteq> insert p (set L)"
    and pc: "owned pc = None \<or> owned pc = Some p" "producer_ok g H F' L' pc"
    and F: "F' = F \<or> F = None \<or> F = Some p" "\<And>a. F' = Some a \<Longrightarrow> a = p \<and> (pc = Enq_first p \<or> pc = Enq_publish p) \<or> a \<noteq> p \<and> F' = F"
  shows "producers_ok g (P(i := pc)) H F' L'"
proof -
  have inj: "j = k" if "owned (P j) = Some a" "owned (P k) = Some a" for j a k
    using ok that unfolding producers_ok_def by blast
  have other: "producer_ok g H F' L' (P j)" if "j \<noteq> i" for j
  proof -
    have "owned (P j) \<noteq> Some p" using ok own that by (auto simp: producers_ok_def)
    moreover have "producer_ok f H F L (P j)" using ok by (simp add: producers_ok_def)
    ultimately show ?thesis using same L' F(1) by (cases "P j") auto
  qed
  have first: "\<exists>j. (P(i := pc)) j = Enq_first a \<or> (P(i := pc)) j = Enq_publish a" if Fa: "F' = Some a" for a
  proof (cases "a = p")
    case True
    then show ?thesis using F(2) [OF Fa] by auto
  next
    case False
    then have "F = Some a" using F(2) [OF Fa] Fa by simp
    then have "\<exists>j. P j = Enq_first a \<or> P j = Enq_publish a" using ok by (simp add: producers_ok_def)
    then obtain j where "P j = Enq_first a \<or> P j = Enq_publish a" by blast
    then show ?thesis using own False by (intro exI [of _ j]) auto
  qed
  have inj': "j = k" if "owned ((P(i := pc)) j) = Some a" "owned ((P(i := pc)) k) = Some a" for j k a
    by (metis fun_upd_apply inj own option.distinct(1) pc(1) that)
  have all: "producer_ok g H F' L' ((P(i := pc)) j)" for j using other pc(2) by (cases "j = i") simp_all
  show ?thesis unfolding producers_ok_def using all inj' first by blast
qed

lemma extends_move:
  assumes "producers_ok f P H F L" and "owned (P i) = Some p" and "f p \<noteq> Unconnected \<Longrightarrow> g p = f p" and "\<And>a. a \<noteq> p \<Longrightarrow> g a = f a"
    and "\<And>r. P i = Enq_link p r \<Longrightarrow> g p = Node r"
  shows "extends L' f P g (P(i := pc))"
proof -
  have "points_back g (P(i := pc)) a r" if pb: "points_back f P a r" for a r
  proof (cases "a = p")
    case True
    show ?thesis
    proof (cases "f p = Unconnected")
      case u: True
      then obtain j where "P j = Enq_link p r" using pb True by (auto simp: points_back_def)
      moreover have "j = i" using assms(1,2) calculation by (auto simp: producers_ok_def)
      ultimately show ?thesis using assms(5) True by (simp add: points_back_def)
    next
      case False
      then show ?thesis using pb True assms(3) by (simp add: points_back_def)
    qed
  next
    case False
    then have "j \<noteq> i" if "P j = Enq_link a r" for j using that assms(2) by auto
    then show ?thesis using pb False assms(4) [of a] by (auto simp: points_back_def)
  qed
  moreover have "g a = f a" if "f a \<noteq> Unconnected" for a using assms(3,4) that by (cases "a = p") auto
  ultimately show ?thesis by (simp add: extends_def)
qed

lemma set_next_field_ok:
  assumes "p \<in> dom (mq_heap q)"
  obtains q' where "set_next_field p l q = Inr q'" and "next_of q' = (next_of q)(p := l)" and "data_of q' = data_of q"
    and "dom (mq_heap q') = dom (mq_heap q)" and "same_fields q q'"
proof -
  obtain nd where nd: "mq_heap q p = Some nd" using assms by auto
  let ?q = "q\<lparr>mq_heap := (mq_heap q)(p \<mapsto> nd\<lparr>mn_next := l\<rparr>)\<rparr>"
  have "set_next_field p l q = Inr ?q" by (simp add: set_next_field_def node_at_def nd)
  moreover have "next_of ?q = (next_of q)(p := l)" "data_of ?q = data_of q" "dom (mq_heap ?q) = dom (mq_heap q)" "same_fields q ?q"
    using nd by (auto simp: next_of_def data_of_def same_fields_def fun_eq_iff)
  ultimately show ?thesis by (rule that)
qed

lemma first_owner:
  "producers_ok f P H F L \<Longrightarrow> F = Some p \<Longrightarrow> owned (P i) = Some p \<Longrightarrow> P i = Enq_first p \<or> P i = Enq_publish p"
  unfolding producers_ok_def by (metis owned.simps(4,5))

lemma next_of_update [simp]:
  "next_of (q\<lparr>mq_head := h\<rparr>) = next_of q" "next_of (q\<lparr>mq_cur_enqueue_node := h\<rparr>) = next_of q" "next_of (q\<lparr>mq_cur_dequeue_node := h\<rparr>) = next_of q"
  "data_of (q\<lparr>mq_head := h\<rparr>) = data_of q" "data_of (q\<lparr>mq_cur_enqueue_node := h\<rparr>) = data_of q" "data_of (q\<lparr>mq_cur_dequeue_node := h\<rparr>) = data_of q"
  by (simp_all add: next_of_def data_of_def fun_eq_iff)

lemma same_fields_refl [simp]: "same_fields q q"
  by (simp add: same_fields_def)

section \<open>The specification\<close>

text \<open>A first-in first-out queue; \<^verbatim>\<open>Dequeue\<close> may fail.\<close>

fun fifo_event :: "'a mpsc_event \<Rightarrow> 'a list \<Rightarrow> 'a list option" where
  "fifo_event Quiet c = Some c"
| "fifo_event (Enqueued x) c = Some (c @ [x])"
| "fifo_event (Dequeued x) c = (if c \<noteq> [] \<and> hd c = x then Some (tl c) else None)"
| "fifo_event Deq_fails c = Some c"

definition mpsc_rel :: "'a mpsc_state \<Rightarrow> 'a list \<Rightarrow> bool" where
  "mpsc_rel s c \<longleftrightarrow> (\<exists>F L. mpsc_inv s F L \<and> c = map (data_of (ms_queue s)) L)"

text \<open>The steps of a producer, one lemma per step: they do not fault and keep the relation.\<close>

definition moves_to :: "'a mpsc_state \<Rightarrow> nat option \<Rightarrow> nat list \<Rightarrow> 'a mpsc_event \<Rightarrow> 'a mpsc_state \<Rightarrow> bool" where
  "moves_to s F L ev t \<longleftrightarrow> (\<exists>F' L'. mpsc_inv t F' L' \<and>
    fifo_event ev (map (data_of (ms_queue s)) L) = Some (map (data_of (ms_queue t)) L'))"

lemma exchange_ok:
  assumes inv: "mpsc_inv s F L" and pc: "ms_producers s i = Enq_exchange p"
  shows "\<exists>ev q pc. producer_step (ms_queue s) (ms_producers s i) = Inr (ev, q, pc) \<and>
    moves_to s F L ev (s\<lparr>ms_queue := q, ms_producers := (ms_producers s)(i := pc)\<rparr>)"
proof -
  let ?q = "ms_queue s" and ?P = "ms_producers s" and ?f = "next_of (ms_queue s)"
  have ok: "producers_ok ?f ?P (dom (mq_heap ?q)) F L" and sh: "shape ?f ?P (data_of ?q) ?q F L (ms_consumer s)"
      and L: "distinct L" "set L \<subseteq> dom (mq_heap ?q)"
    using inv by (simp_all add: mpsc_inv_def)
  have "producer_ok ?f (dom (mq_heap ?q)) F L (?P i)" using ok by (simp add: producers_ok_def)
  then have p: "p \<in> dom (mq_heap ?q)" "p \<notin> set L" "?f p = Unconnected" using pc by simp_all
  then obtain nd where nd: "mq_heap ?q p = Some nd" by auto
  have own: "owned (?P i) = Some p" using pc by simp
  have Fp: "F \<noteq> Some p" using first_owner [OF ok _ own] pc by auto
  show ?thesis
  proof (cases "mq_head ?q")
    case None
    have "producers_ok ?f (?P(i := Enq_first p)) (dom (mq_heap ?q)) (Some p) (L @ [p])"
      by (rule producers_ok_move [OF ok own]) (use p shape_first(1) [OF sh None pc] in auto)
    then have "mpsc_inv (s\<lparr>ms_queue := ?q\<lparr>mq_head := Some p\<rparr>, ms_producers := ?P(i := Enq_first p)\<rparr>) (Some p) (L @ [p])"
      using shape_first(2) [OF sh None pc] L p by (simp add: mpsc_inv_def)
    then show ?thesis using pc nd None
      by (auto simp: moves_to_def node_at_def data_of_def intro!: exI [of _ "Some p"] exI [of _ "L @ [p]"])
  next
    case (Some r)
    have "producers_ok ?f (?P(i := Enq_link p r)) (dom (mq_heap ?q)) F (L @ [p])"
      by (rule producers_ok_move [OF ok own]) (use p Fp in auto)
    moreover have "joins ?f ?P ?q i p r" using Some p pc by (simp add: joins_def)
    ultimately have "mpsc_inv (s\<lparr>ms_queue := ?q\<lparr>mq_head := Some p\<rparr>, ms_producers := ?P(i := Enq_link p r)\<rparr>) F (L @ [p])"
      using shape_snoc [OF sh] L p by (simp add: mpsc_inv_def)
    then show ?thesis using pc nd Some
      by (auto simp: moves_to_def node_at_def data_of_def intro!: exI [of _ F] exI [of _ "L @ [p]"])
  qed
qed

lemma connect_ok:
  assumes inv: "mpsc_inv s F L" and own: "owned (ms_producers s i) = Some p" and p: "p \<in> set L" "next_of (ms_queue s) p = Unconnected"
    and l: "\<And>r. ms_producers s i = Enq_link p r \<Longrightarrow> l = Node r"
    and pc: "pc = Producer_idle \<and> F \<noteq> Some p \<or> pc = Enq_publish p \<and> F = Some p \<and> l = Null"
  shows "\<exists>q. set_next_field p l (ms_queue s) = Inr q \<and>
    moves_to s F L Quiet (s\<lparr>ms_queue := q, ms_producers := (ms_producers s)(i := pc)\<rparr>)"
proof -
  let ?q = "ms_queue s" and ?P = "ms_producers s" and ?f = "next_of (ms_queue s)"
  have ok: "producers_ok ?f ?P (dom (mq_heap ?q)) F L" and sh: "shape ?f ?P (data_of ?q) ?q F L (ms_consumer s)"
      and L: "distinct L" "set L \<subseteq> dom (mq_heap ?q)"
    using inv by (simp_all add: mpsc_inv_def)
  obtain q where q: "set_next_field p l ?q = Inr q" "next_of q = ?f(p := l)" "data_of q = data_of ?q"
      "dom (mq_heap q) = dom (mq_heap ?q)" "same_fields ?q q"
    using set_next_field_ok L(2) p(1) by blast
  have "extends L ?f ?P (next_of q) (?P(i := pc))"
    by (rule extends_move [OF ok own]) (use p(2) q(2) l in auto)
  then have "shape (next_of q) (?P(i := pc)) (data_of q) q F L (ms_consumer s)"
    using shape_extends [OF sh _ q(5)] q(3) by auto
  moreover have "producers_ok (next_of q) (?P(i := pc)) (dom (mq_heap q)) F L"
    unfolding q(4) by (rule producers_ok_move [OF ok own]) (use q(2) pc p in auto)
  ultimately have "mpsc_inv (s\<lparr>ms_queue := q, ms_producers := ?P(i := pc)\<rparr>) F L" using L q(4) by (simp add: mpsc_inv_def)
  then show ?thesis using q(1,3) by (auto simp: moves_to_def)
qed

lemma publish_ok:
  assumes inv: "mpsc_inv s F L" and pc: "ms_producers s i = Enq_publish p"
  shows "moves_to s F L Quiet (s\<lparr>ms_queue := (ms_queue s)\<lparr>mq_cur_enqueue_node := Some p\<rparr>, ms_producers := (ms_producers s)(i := Producer_idle)\<rparr>)"
proof -
  let ?q = "ms_queue s" and ?P = "ms_producers s" and ?f = "next_of (ms_queue s)"
  have ok: "producers_ok ?f ?P (dom (mq_heap ?q)) F L" and sh: "shape ?f ?P (data_of ?q) ?q F L (ms_consumer s)"
      and L: "distinct L" "set L \<subseteq> dom (mq_heap ?q)"
    using inv by (simp_all add: mpsc_inv_def)
  have "producer_ok ?f (dom (mq_heap ?q)) F L (?P i)" using ok by (simp add: producers_ok_def)
  then have p: "F = Some p" "?f p = Null" using pc by simp_all
  have own: "owned (?P i) = Some p" using pc by simp
  have "extends L ?f ?P ?f (?P(i := Producer_idle))" by (rule extends_move [OF ok own]) (use pc in auto)
  then have "shape ?f (?P(i := Producer_idle)) (data_of ?q) ?q (Some p) L (ms_consumer s)"
    using shape_extends [OF sh] p(1) by auto
  from shape_publish [OF this p(2)]
  have "shape ?f (?P(i := Producer_idle)) (data_of ?q) (?q\<lparr>mq_cur_enqueue_node := Some p\<rparr>) None L (ms_consumer s)" .
  moreover have "producers_ok ?f (?P(i := Producer_idle)) (dom (mq_heap ?q)) None L"
    by (rule producers_ok_move [OF ok own]) (use p in auto)
  ultimately have "mpsc_inv (s\<lparr>ms_queue := ?q\<lparr>mq_cur_enqueue_node := Some p\<rparr>, ms_producers := ?P(i := Producer_idle)\<rparr>) None L"
    using L by (simp add: mpsc_inv_def)
  then show ?thesis by (auto simp: moves_to_def)
qed

lemma producer_step_ok:
  assumes inv: "mpsc_inv s F L"
  shows "\<exists>ev q pc. producer_step (ms_queue s) (ms_producers s i) = Inr (ev, q, pc) \<and>
    moves_to s F L ev (s\<lparr>ms_queue := q, ms_producers := (ms_producers s)(i := pc)\<rparr>)"
proof -
  have ok: "producers_ok (next_of (ms_queue s)) (ms_producers s) (dom (mq_heap (ms_queue s))) F L"
      and sh: "shape (next_of (ms_queue s)) (ms_producers s) (data_of (ms_queue s)) (ms_queue s) F L (ms_consumer s)"
    using inv by (simp_all add: mpsc_inv_def)
  have pok: "producer_ok (next_of (ms_queue s)) (dom (mq_heap (ms_queue s))) F L (ms_producers s i)"
    using ok by (simp add: producers_ok_def)
  show ?thesis
  proof (cases "ms_producers s i")
    case Producer_idle
    then have "s\<lparr>ms_producers := (ms_producers s)(i := Producer_idle)\<rparr> = s" by (simp add: fun_upd_idem)
    then show ?thesis using Producer_idle inv by (auto simp: moves_to_def)
  next
    case (Enq_exchange p)
    then show ?thesis using exchange_ok [OF inv] by simp
  next
    case (Enq_link p r)
    then have "F \<noteq> Some p" using first_owner [OF ok, of p i] by auto
    then show ?thesis using connect_ok [OF inv, of i p "Node r" Producer_idle] Enq_link pok by auto
  next
    case (Enq_first p)
    then have F: "F = Some p" using pok by simp
    then have "p \<in> set L" using shape_first_node sh by blast
    then show ?thesis using connect_ok [OF inv, of i p Null "Enq_publish p"] Enq_first pok F by auto
  next
    case (Enq_publish p)
    then show ?thesis using publish_ok [OF inv] by simp
  qed
qed

section \<open>The consumer\<close>

lemma quiet_ok:
  assumes "mpsc_inv s F L" and "mq_heap q = mq_heap (ms_queue s)"
    and "shape (next_of (ms_queue s)) (ms_producers s) (data_of (ms_queue s)) q F L pc"
  shows "moves_to s F L Quiet (s\<lparr>ms_queue := q, ms_consumer := pc\<rparr>)"
    and "moves_to s F L Deq_fails (s\<lparr>ms_queue := q, ms_consumer := pc\<rparr>)"
proof -
  have "next_of q = next_of (ms_queue s)" "data_of q = data_of (ms_queue s)"
    using assms(2) by (simp_all add: next_of_def data_of_def fun_eq_iff)
  then show "moves_to s F L Quiet (s\<lparr>ms_queue := q, ms_consumer := pc\<rparr>)"
      "moves_to s F L Deq_fails (s\<lparr>ms_queue := q, ms_consumer := pc\<rparr>)"
    using assms by (auto simp: moves_to_def mpsc_inv_def)
qed

lemma linked_back_append:
  "linked_back f P r (M @ N) \<longleftrightarrow> linked_back f P r M \<and> linked_back f P (last (r # M)) N"
  by (induction M arbitrary: r) auto

lemma start_shape:
  assumes "waiting f P q F (mq_cur_dequeue_node q) L"
  shows "mq_cur_dequeue_node q = Some n \<Longrightarrow> shape f P D q F L (Deq_data n)"
    and "mq_cur_dequeue_node q = None \<Longrightarrow> mq_cur_enqueue_node q = Some n \<Longrightarrow>
      shape f P D (q\<lparr>mq_cur_enqueue_node := None\<rparr>) F L (Deq_data n)"
proof -
  show "shape f P D q F L (Deq_data n)" if "mq_cur_dequeue_node q = Some n"
    using assms that by (simp add: waiting_def)
  show "shape f P D (q\<lparr>mq_cur_enqueue_node := None\<rparr>) F L (Deq_data n)" if null: "mq_cur_dequeue_node q = None" "mq_cur_enqueue_node q = Some n"
  proof -
    obtain N where "L = [n] @ N" "attached f P (q\<lparr>mq_cur_enqueue_node := None\<rparr>) F [n] N"
      using assms null by (auto simp: waiting_def fresh_def attached_def split: list.splits)
    then show ?thesis unfolding shape.simps by (intro exI [of _ "[n]"] exI [of _ N]) simp
  qed
qed

lemma test_shape:
  assumes "shape f P D q F L (Deq_test n x)"
  shows "f n = Null \<Longrightarrow> shape f P D q F L (Rev_cas n x)" and "f n \<noteq> Null \<Longrightarrow> shape f P D q F L (Deq_advance n x)"
proof -
  obtain A N where L: "x = D n" "L = A @ N" "hd A = n" "attached f P q F A N" using assms by auto
  then obtain A' where A: "A = n # A'" by (cases A) (auto simp: attached_def)
  show "shape f P D q F L (Rev_cas n x)" if "f n = Null"
    using that L A by (cases A') (auto simp: attached_def)
  show "shape f P D q F L (Deq_advance n x)" if "f n \<noteq> Null"
  proof (cases A')
    case (Cons b B)
    then have "attached f P q F A' N" "f n = link_of (Some b)" using L A by (auto simp: attached_def link_of_def)
    then have "waiting f P q F (Some b) (A' @ N)"
      unfolding waiting_def option.case using Cons by (intro exI [of _ A'] exI [of _ N]) simp
    then show ?thesis using L A \<open>f n = link_of (Some b)\<close> by auto
  qed (use that L A in \<open>simp add: attached_def\<close>)
qed

lemma cas_shape:
  assumes "shape f P D q F L (Rev_cas n x)" and "distinct L"
  shows "mq_head q = Some n \<Longrightarrow> shape f P D (q\<lparr>mq_head := None\<rparr>) F L (Deq_advance n x)"
    and "mq_head q \<noteq> Some n \<Longrightarrow> shape f P D q F L (Rev_wait n x None (mq_head q))"
proof -
  obtain N where L: "x = D n" "L = n # N" "attached f P q F [n] N" using assms(1) by auto
  show "shape f P D (q\<lparr>mq_head := None\<rparr>) F L (Deq_advance n x)" if "mq_head q = Some n"
  proof -
    have "N = []" using that L assms(2) by (cases N rule: rev_cases) (auto simp: attached_def)
    then show ?thesis using L by (auto simp: attached_def waiting_def fresh_def link_of_def intro!: exI [of _ None])
  qed
  show "shape f P D q F L (Rev_wait n x None (mq_head q))" if "mq_head q \<noteq> Some n"
  proof -
    have "N \<noteq> []" using that L(3) by (auto simp: attached_def)
    moreover have "reversing f P q F n N [] []" using L(3) \<open>N \<noteq> []\<close> by (auto simp: attached_def reversing_def)
    ultimately have "L = n # N @ [] @ [] \<and> N \<noteq> [] \<and> mq_head q = Some (last N) \<and> None = head_of [] \<and> reversing f P q F n N [] []"
      using L by (simp add: attached_def head_of_def)
    then show ?thesis using L(1) unfolding shape.simps by blast
  qed
qed

lemma extends_outside: "p \<notin> set M \<Longrightarrow> extends M f P (f(p := l)) P"
  by (auto simp: extends_def points_back_def)

text \<open>The consumer writes only to nodes that are connected.\<close>

lemma producers_ok_connected:
  assumes "producers_ok f P H None L" and "f p \<noteq> Unconnected"
  shows "producers_ok (f(p := l)) P H None L"
proof -
  have "producer_ok (f(p := l)) H None L (P i)" for i
  proof -
    have "producer_ok f H None L (P i)" using assms(1) by (simp add: producers_ok_def)
    then show ?thesis using assms(2) by (cases "P i") auto
  qed
  then show ?thesis using assms(1) by (simp add: producers_ok_def)
qed

lemma turn_shape:
  assumes "reversing f P q F n (B @ [p]) B2 N" and "distinct (n # B @ p # B2 @ N)" and "f p \<noteq> Unconnected" and "same_fields q q'"
  shows "f p = Node (last (n # B))" and "reversing (f(p := link_of (head_of B2))) P q' F n B (p # B2) N"
proof -
  have bk: "linked_back f P n B" "points_back f P p (last (n # B))"
    using assms(1) by (simp_all add: reversing_def linked_back_append)
  then show "f p = Node (last (n # B))" using assms(3) by (simp add: points_back_def)
  let ?g = "f(p := link_of (head_of B2))"
  have "linked_back ?g P n B" using linked_back_extends [OF bk(1) extends_outside] assms(2) by auto
  moreover have "fwd ?g B2" using fwd_extends [OF _ extends_outside [of p B2 f P]] assms(1,2) by (auto simp: reversing_def)
  then have "fwd ?g (p # B2)" by (cases B2) (simp_all add: link_of_def head_of_def)
  moreover have "linked_back ?g P (last (n # B @ p # B2)) N"
    using linked_back_extends [OF _ extends_outside [of p N f P]] assms(1,2) by (auto simp: reversing_def)
  ultimately show "reversing ?g P q' F n B (p # B2) N" using assms by (auto simp: reversing_def same_fields_def)
qed

lemma turn_ok:
  assumes inv: "mpsc_inv s F L" and pc: "ms_consumer s = Rev_turn n x tail p"
  shows "\<exists>q pc. consumer_step (ms_queue s) (ms_consumer s) = Inr (Quiet, q, pc) \<and>
    moves_to s F L Quiet (s\<lparr>ms_queue := q, ms_consumer := pc\<rparr>)"
proof -
  let ?q = "ms_queue s" and ?P = "ms_producers s" and ?f = "next_of (ms_queue s)"
  have ok: "producers_ok ?f ?P (dom (mq_heap ?q)) F L" and sh: "shape ?f ?P (data_of ?q) ?q F L (ms_consumer s)"
      and L: "distinct L" "set L \<subseteq> dom (mq_heap ?q)"
    using inv by (simp_all add: mpsc_inv_def)
  obtain B1 B2 N where B: "x = data_of ?q n" "L = n # B1 @ B2 @ N" "B1 \<noteq> []" "p = Some (last B1)" "tail = head_of B2"
      "reversing ?f ?P ?q F n B1 B2 N" "?f (last B1) \<noteq> Unconnected"
    using sh pc by auto
  obtain B a where a: "B1 = B @ [a]" using B(3) by (cases B1 rule: rev_cases) auto
  have F: "F = None" using B(6) by (simp add: reversing_def)
  have a_in: "a \<in> dom (mq_heap ?q)" using L(2) B(2) a by auto
  obtain q where q: "set_next_field a (link_of tail) ?q = Inr q" "next_of q = ?f(a := link_of tail)" "data_of q = data_of ?q"
      "dom (mq_heap q) = dom (mq_heap ?q)" "same_fields ?q q"
    using set_next_field_ok [OF a_in] by blast
  have dist: "distinct (n # B @ a # B2 @ N)" using L(1) B(2) a by simp
  have turn: "?f a = Node (last (n # B))" "reversing (next_of q) ?P q F n B (a # B2) N"
    using turn_shape [OF _ dist _ q(5), of ?f ?P F] B(5,6,7) a q(2) by auto
  define pc' where "pc' = (if B = [] then Rev_link n x p else Rev_wait n x p (Some (last B)))"
  have "last (n # B) = n \<longleftrightarrow> B = []" using dist by auto
  then have "consumer_step ?q (ms_consumer s) = Inr (Quiet, q, pc')"
    using pc B(4) a a_in q(1) turn(1)
    by (auto simp: node_at_def next_of_def pointer_of_def pc'_def split: if_splits)
  moreover have "shape (next_of q) ?P (data_of q) q F L pc'"
  proof (cases "B = []")
    case True
    then have "L = n # (a # B2) @ N \<and> a # B2 \<noteq> [] \<and> p = Some (hd (a # B2)) \<and> reversing (next_of q) ?P q F n [] (a # B2) N"
      using B(2,4) a turn(2) by simp
    then show ?thesis using True B(1) q(3) unfolding pc'_def by (simp del: append.simps list.sel) blast
  next
    case False
    have "L = n # B @ (a # B2) @ N \<and> B \<noteq> [] \<and> Some (last B) = Some (last B) \<and> p = head_of (a # B2) \<and> reversing (next_of q) ?P q F n B (a # B2) N"
      using False B(2,4) a turn(2) by (simp add: head_of_def)
    then show ?thesis using False B(1) q(3) unfolding pc'_def by (simp del: append.simps) blast
  qed
  moreover have "producers_ok (next_of q) ?P (dom (mq_heap q)) F L"
    using producers_ok_connected [of ?f ?P "dom (mq_heap ?q)" L a] ok F B(7) a q(2,4) by simp
  ultimately show ?thesis using L q(3,4) by (auto simp: moves_to_def mpsc_inv_def)
qed

lemma link_ok:
  assumes inv: "mpsc_inv s F L" and pc: "ms_consumer s = Rev_link n x tail"
  shows "\<exists>q. consumer_step (ms_queue s) (ms_consumer s) = Inr (Quiet, q, Deq_advance n x) \<and>
    moves_to s F L Quiet (s\<lparr>ms_queue := q, ms_consumer := Deq_advance n x\<rparr>)"
proof -
  let ?q = "ms_queue s" and ?P = "ms_producers s" and ?f = "next_of (ms_queue s)"
  have ok: "producers_ok ?f ?P (dom (mq_heap ?q)) F L" and sh: "shape ?f ?P (data_of ?q) ?q F L (ms_consumer s)"
      and L: "distinct L" "set L \<subseteq> dom (mq_heap ?q)"
    using inv by (simp_all add: mpsc_inv_def)
  obtain B2 N where B: "x = data_of ?q n" "L = n # B2 @ N" "B2 \<noteq> []" "tail = Some (hd B2)" "reversing ?f ?P ?q F n [] B2 N"
    using sh pc by auto
  have F: "F = None" and n: "?f n = Null" using B(5) by (simp_all add: reversing_def)
  have n_in: "n \<in> dom (mq_heap ?q)" using L(2) B(2) by auto
  obtain q where q: "set_next_field n (link_of tail) ?q = Inr q" "next_of q = ?f(n := link_of tail)" "data_of q = data_of ?q"
      "dom (mq_heap q) = dom (mq_heap ?q)" "same_fields ?q q"
    using set_next_field_ok [OF n_in] by blast
  have "fwd (next_of q) B2" "linked_back (next_of q) ?P (last B2) N"
    using fwd_extends [OF _ extends_outside [of n B2 ?f ?P]] linked_back_extends [OF _ extends_outside [of n N ?f ?P]] L(1) B(2,3,5)
    by (auto simp: reversing_def q(2))
  then have "attached (next_of q) ?P q F B2 N" using B(3,5) q(5) by (auto simp: attached_def reversing_def same_fields_def)
  then have "waiting (next_of q) ?P q F (Some (hd B2)) (B2 @ N)"
    unfolding waiting_def option.case by (intro exI [of _ B2] exI [of _ N]) simp
  moreover have "next_of q n = link_of (Some (hd B2))" by (simp add: q(2) B(4))
  ultimately have "shape (next_of q) ?P (data_of q) q F L (Deq_advance n x)" using B(1,2) q(3) by auto
  moreover have "producers_ok (next_of q) ?P (dom (mq_heap q)) F L"
    using producers_ok_connected [of ?f ?P "dom (mq_heap ?q)" L n] ok F n q(2,4) by simp
  ultimately have "mpsc_inv (s\<lparr>ms_queue := q, ms_consumer := Deq_advance n x\<rparr>) F L" using L q(4) by (simp add: mpsc_inv_def)
  then show ?thesis using pc q(1,3) by (auto simp: moves_to_def)
qed

lemma free_ok:
  assumes inv: "mpsc_inv s F L" and pc: "ms_consumer s = Deq_free n x"
  shows "\<exists>q. consumer_step (ms_queue s) (ms_consumer s) = Inr (Dequeued x, q, Consumer_idle) \<and>
    moves_to s F L (Dequeued x) (s\<lparr>ms_queue := q, ms_consumer := Consumer_idle\<rparr>)"
proof -
  let ?q = "ms_queue s" and ?P = "ms_producers s" and ?f = "next_of (ms_queue s)"
  have ok: "producers_ok ?f ?P (dom (mq_heap ?q)) F L" and sh: "shape ?f ?P (data_of ?q) ?q F L (ms_consumer s)"
      and L: "distinct L" "set L \<subseteq> dom (mq_heap ?q)"
    using inv by (simp_all add: mpsc_inv_def)
  obtain M where M: "x = data_of ?q n" "?f n \<noteq> Unconnected" "L = n # M" "waiting ?f ?P ?q F (mq_cur_dequeue_node ?q) M"
    using sh pc by auto
  let ?r = "?q\<lparr>mq_heap := (mq_heap ?q)(n := None)\<rparr>"
  have next_r: "next_of ?r = ?f(n := Unconnected)" by (auto simp: next_of_def)
  have data_r: "data_of ?r a = data_of ?q a" if "a \<noteq> n" for a using that by (simp add: data_of_def)
  have n: "n \<notin> set M" using L(1) M(3) by simp
  have F: "F \<noteq> Some n"
    using M(4) n by (auto simp: waiting_def fresh_def attached_def split: option.splits list.splits)
  have "waiting (next_of ?r) ?P ?r F (mq_cur_dequeue_node ?r) M"
    using waiting_extends [OF M(4) extends_outside [OF n, of ?f ?P Unconnected], of ?r] next_r by (simp add: same_fields_def)
  moreover have "producer_ok (next_of ?r) (dom (mq_heap ?r)) F M (?P i)" for i
  proof -
    have "producer_ok ?f (dom (mq_heap ?q)) F L (?P i)" using ok by (simp add: producers_ok_def)
    then show ?thesis using M(2,3) F by (cases "?P i") (auto simp: next_r)
  qed
  then have "producers_ok (next_of ?r) ?P (dom (mq_heap ?r)) F M" using ok by (simp add: producers_ok_def)
  ultimately have "mpsc_inv (s\<lparr>ms_queue := ?r, ms_consumer := Consumer_idle\<rparr>) F M"
    using L M(3) by (auto simp: mpsc_inv_def)
  moreover have data_M: "map (data_of ?r) M = map (data_of ?q) M" by (intro map_cong data_r) (use n in auto)
  moreover have "fifo_event (Dequeued x) (map (data_of ?q) L) = Some (map (data_of ?r) M)" unfolding data_M using M(1,3) by simp
  ultimately have "moves_to s F L (Dequeued x) (s\<lparr>ms_queue := ?r, ms_consumer := Consumer_idle\<rparr>)"
    unfolding moves_to_def by (intro exI [of _ F] exI [of _ M]) simp
  moreover have "mq_heap ?q n \<noteq> None" using L(2) M(3) by auto
  ultimately show ?thesis using pc by (auto simp: node_at_def)
qed

lemma consumer_step_ok:
  assumes inv: "mpsc_inv s F L"
  shows "\<exists>ev q pc. consumer_step (ms_queue s) (ms_consumer s) = Inr (ev, q, pc) \<and>
    moves_to s F L ev (s\<lparr>ms_queue := q, ms_consumer := pc\<rparr>)"
proof -
  let ?q = "ms_queue s" and ?P = "ms_producers s" and ?f = "next_of (ms_queue s)"
  have sh: "shape ?f ?P (data_of ?q) ?q F L (ms_consumer s)" and L: "distinct L" "set L \<subseteq> dom (mq_heap ?q)"
    using inv by (simp_all add: mpsc_inv_def)
  have node: "node_at ?q a = Inr (the (mq_heap ?q a)) \<and> mn_next (the (mq_heap ?q a)) = ?f a \<and> mn_data (the (mq_heap ?q a)) = data_of ?q a"
    if "a \<in> set L" for a
    using that L(2) by (auto simp: node_at_def next_of_def data_of_def)
  note quiet = quiet_ok [OF inv]
  show ?thesis
  proof (cases "ms_consumer s")
    case Deq_start
    then have w: "waiting ?f ?P ?q F (mq_cur_dequeue_node ?q) L" using sh by simp
    show ?thesis
    proof (cases "mq_cur_dequeue_node ?q")
      case None
      then show ?thesis using Deq_start w quiet(2) [of ?q Consumer_idle] quiet(1) [OF _ start_shape(2) [OF w None]]
        by (cases "mq_cur_enqueue_node ?q") auto
    next
      case (Some n)
      then show ?thesis using Deq_start quiet(1) [OF _ start_shape(1) [OF w Some]] by auto
    qed
  next
    case (Deq_data n)
    then have "n \<in> set L" using sh by (auto simp: attached_def neq_Nil_conv)
    then show ?thesis using sh node quiet(1) [of ?q] Deq_data by auto
  next
    case (Deq_test n x)
    then have "n \<in> set L" using sh by (auto simp: attached_def neq_Nil_conv)
    then show ?thesis using sh test_shape [of ?f ?P _ ?q F L n x] node quiet(1) [of ?q] Deq_test by auto
  next
    case (Rev_cas n x)
    then have c: "shape ?f ?P (data_of ?q) ?q F L (Rev_cas n x)" using sh by simp
    show ?thesis
      using Rev_cas quiet(1) [OF _ cas_shape(1) [OF c L(1)]] quiet(1) [OF _ cas_shape(2) [OF c L(1)]]
      by (cases "mq_head ?q = Some n") auto
  next
    case (Rev_wait n x tail p)
    then obtain B1 B2 N where B: "x = data_of ?q n" "L = n # B1 @ B2 @ N" "B1 \<noteq> []" "p = Some (last B1)" "tail = head_of B2"
        "reversing ?f ?P ?q F n B1 B2 N"
      using sh by auto
    then have "last B1 \<in> set L" by simp
    moreover have "shape ?f ?P (data_of ?q) ?q F L (Rev_turn n x tail p)" if "?f (last B1) \<noteq> Unconnected"
      using B that unfolding shape.simps by blast
    ultimately show ?thesis using sh node [of "last B1"] quiet(1) [of ?q] Rev_wait B(4) by auto
  next
    case (Rev_turn n x tail p)
    then show ?thesis using turn_ok [OF inv] by metis
  next
    case (Rev_link n x tail)
    then show ?thesis using link_ok [OF inv] by metis
  next
    case (Deq_advance n x)
    then obtain d M where M: "x = data_of ?q n" "L = n # M" "?f n = link_of d" "waiting ?f ?P ?q F d M" using sh by auto
    have "?f n \<noteq> Unconnected" using M(3) by (auto simp: link_of_def split: option.splits)
    moreover have "waiting ?f ?P (?q\<lparr>mq_cur_dequeue_node := d\<rparr>) F d M"
      using M(4) by (auto simp: waiting_def fresh_def attached_def split: option.splits list.splits)
    ultimately have "shape ?f ?P (data_of ?q) (?q\<lparr>mq_cur_dequeue_node := d\<rparr>) F L (Deq_free n x)" using M(1,2) by auto
    moreover have "pointer_of (?f n) = Inr d" using M(3) by (simp add: pointer_of_def link_of_def split: option.splits)
    ultimately show ?thesis using node [of n] M(2) quiet(1) Deq_advance by auto
  next
    case (Deq_free n x)
    then show ?thesis using free_ok [OF inv] by metis
  next
    case Consumer_idle
    then show ?thesis using quiet(1) [of ?q] sh by auto
  qed
qed

section \<open>The simulation\<close>

lemma alloc_ok:
  assumes inv: "mpsc_inv s F L" and idle: "ms_producers s i = Producer_idle" and new: "mq_heap (ms_queue s) p = None"
  shows "moves_to s F L Quiet (s\<lparr>ms_queue := (ms_queue s)\<lparr>mq_heap := (mq_heap (ms_queue s))(p \<mapsto> \<lparr>mn_next = Unconnected, mn_data = x\<rparr>)\<rparr>,
    ms_producers := (ms_producers s)(i := Enq_exchange p)\<rparr>)"
proof -
  let ?q = "ms_queue s" and ?P = "ms_producers s" and ?f = "next_of (ms_queue s)" and ?P' = "(ms_producers s)(i := Enq_exchange p)"
  let ?r = "?q\<lparr>mq_heap := (mq_heap ?q)(p \<mapsto> \<lparr>mn_next = Unconnected, mn_data = x\<rparr>)\<rparr>"
  have ok: "producers_ok ?f ?P (dom (mq_heap ?q)) F L" and sh: "shape ?f ?P (data_of ?q) ?q F L (ms_consumer s)"
      and L: "distinct L" "set L \<subseteq> dom (mq_heap ?q)"
    using inv by (simp_all add: mpsc_inv_def)
  have p: "p \<notin> set L" using L(2) new by auto
  have next_r: "next_of ?r = ?f" using new by (auto simp: next_of_def)
  have data_r: "data_of ?r a = data_of ?q a" if "a \<in> set L" for a using that p by (auto simp: data_of_def)
  have link: "j \<noteq> i" if "?P j = Enq_link a r" for j a r using that idle by auto
  have "extends L ?f ?P ?f ?P'" using link by (auto simp: extends_def points_back_def)
  then have "shape (next_of ?r) ?P' (data_of ?r) ?r F L (ms_consumer s)"
    unfolding next_r by (rule shape_extends [OF sh]) (use data_r in \<open>auto simp: same_fields_def\<close>)
  moreover have "producers_ok (next_of ?r) ?P' (dom (mq_heap ?r)) F L"
  proof -
    have pok: "producer_ok ?f (dom (mq_heap ?q)) F L (?P j)" for j using ok by (simp add: producers_ok_def)
    have inF: "p \<in> set L" if "F = Some p" using shape_first_node sh that by blast
    have own: "owned (?P j) \<noteq> Some p" for j using pok [of j] p new inF by (cases "?P j") auto
    have "producer_ok ?f (dom (mq_heap ?r)) F L (?P' j)" for j
      using pok [of j] p new by (cases "?P j") (auto simp: next_of_def)
    moreover have "j = k" if "owned (?P' j) = Some a" "owned (?P' k) = Some a" for j k a
      using that own ok unfolding producers_ok_def by (metis fun_upd_apply option.inject owned.simps(2))
    moreover have "\<exists>j. ?P' j = Enq_first a \<or> ?P' j = Enq_publish a" if "F = Some a" for a
      using that ok idle unfolding producers_ok_def by (metis fun_upd_apply producer_pc.distinct(5,7))
    ultimately show ?thesis unfolding producers_ok_def next_r by blast
  qed
  ultimately have "mpsc_inv (s\<lparr>ms_queue := ?r, ms_producers := ?P'\<rparr>) F L" using L by (auto simp: mpsc_inv_def)
  moreover have "map (data_of ?r) L = map (data_of ?q) L" by (intro map_cong data_r) auto
  ultimately show ?thesis unfolding moves_to_def by (intro exI [of _ F] exI [of _ L]) simp
qed

lemma moves_to_rel: "moves_to s F L ev t \<Longrightarrow> \<exists>c. fifo_event ev (map (data_of (ms_queue s)) L) = Some c \<and> mpsc_rel t c"
  by (auto simp: moves_to_def mpsc_rel_def)

lemma mpsc_step_rel:
  assumes "mpsc_step s ev t" and "mpsc_rel s c"
  shows "\<exists>c'. fifo_event ev c = Some c' \<and> mpsc_rel t c'"
proof -
  obtain F L where inv: "mpsc_inv s F L" and c: "c = map (data_of (ms_queue s)) L" using assms(2) by (auto simp: mpsc_rel_def)
  have "moves_to s F L ev t"
    using assms(1)
  proof cases
    case (call_enqueue i p x)
    then show ?thesis using alloc_ok [OF inv] by simp
  next
    case call_dequeue
    then have "shape (next_of (ms_queue s)) (ms_producers s) (data_of (ms_queue s)) (ms_queue s) F L Deq_start"
      using inv by (simp add: mpsc_inv_def)
    then show ?thesis using quiet_ok(1) [OF inv, of "ms_queue s"] call_dequeue by simp
  next
    case (producer i q pc)
    then show ?thesis using producer_step_ok [OF inv, of i] by simp
  next
    case (consumer q pc)
    then show ?thesis using consumer_step_ok [OF inv] by simp
  qed
  then show ?thesis unfolding c by (rule moves_to_rel)
qed

interpretation mpsc: lts_simulation mpsc_step fifo_event mpsc_rel
  by unfold_locales (rule mpsc_step_rel)

lemma start_rel: "mpsc_rel mpsc_start []"
  unfolding mpsc_rel_def mpsc_inv_def
  by (intro exI [of _ None] exI [of _ "[]"])
    (simp add: mpsc_start_def MPSCQueue_new_def producers_ok_def waiting_def fresh_def)

section \<open>Properties\<close>

fun enqueued :: "'a mpsc_event list \<Rightarrow> 'a list" where
  "enqueued [] = []"
| "enqueued (Enqueued x # es) = x # enqueued es"
| "enqueued (_ # es) = enqueued es"

fun dequeued :: "'a mpsc_event list \<Rightarrow> 'a list" where
  "dequeued [] = []"
| "dequeued (Dequeued x # es) = x # dequeued es"
| "dequeued (_ # es) = dequeued es"

lemma fifo_run: "spec_run fifo_event es c = Some c' \<Longrightarrow> c @ enqueued es = dequeued es @ c'"
proof (induction es arbitrary: c)
  case (Cons e es)
  then obtain c1 where c1: "fifo_event e c = Some c1" "c1 @ enqueued es = dequeued es @ c'"
    by (auto simp: bind_eq_Some_conv)
  then show ?case by (cases e; cases c) (auto split: if_splits)
qed simp

text \<open>\<^verbatim>\<open>Dequeue\<close> fails on an empty queue, or while the producer of the first node has not stored it yet.\<close>

lemma fails_only_if:
  assumes "mpsc_inv s F L" and "consumer_step (ms_queue s) (ms_consumer s) = Inr (Deq_fails, q, pc)"
  shows "L = [] \<or> (\<exists>i p. ms_producers s i = Enq_first p \<or> ms_producers s i = Enq_publish p)"
proof -
  have "ms_consumer s = Deq_start" "mq_cur_dequeue_node (ms_queue s) = None" "mq_cur_enqueue_node (ms_queue s) = None"
    using assms(2) by (cases "ms_consumer s"; auto simp: rbind_eq_Inr split: option.splits if_splits)+
  then have "fresh (next_of (ms_queue s)) (ms_producers s) (ms_queue s) F L" and enq: "mq_cur_enqueue_node (ms_queue s) = None"
    using assms(1) by (auto simp: mpsc_inv_def waiting_def)
  then have "L = [] \<or> F \<noteq> None" by (cases L) (auto simp: fresh_def)
  then show ?thesis using assms(1) unfolding mpsc_inv_def producers_ok_def by auto
qed

text \<open>The waiting loop of \<^verbatim>\<open>ReverseList\<close> waits for a producer whose next step connects the node.\<close>

lemma waits_only_for:
  assumes "mpsc_inv s F L" and "ms_consumer s = Rev_wait n x tail (Some p)" and "next_of (ms_queue s) p = Unconnected"
  shows "\<exists>i r. ms_producers s i = Enq_link p r"
proof -
  obtain B1 B2 N where "B1 \<noteq> []" "p = last B1" "linked_back (next_of (ms_queue s)) (ms_producers s) n B1"
    using assms(1,2) by (auto simp: mpsc_inv_def reversing_def)
  then obtain B where "linked_back (next_of (ms_queue s)) (ms_producers s) n (B @ [p])" by (metis append_butlast_last_id)
  then show ?thesis using assms(3) by (auto simp: linked_back_append points_back_def)
qed

text \<open>
  C10. The queue for many producers is first-in first-out in every interleaving of any number of producers with the
  consumer: the elements dequeued, followed by those still in the queue, are the elements in the order in
  which \<^verbatim>\<open>_head\<close> was exchanged. No step uses a node that is not allocated or a null pointer, and no \<^verbatim>\<open>CHECK\<close> fails. \<^verbatim>\<open>Dequeue\<close>
  fails only when the queue is empty or the producer of its first node is still in \<^verbatim>\<open>Enqueue\<close>, and
  the consumer stays where it is only when it waits for a producer whose next step connects a node.
\<close>

theorem MPSCQueue_fifo:
  assumes "lts_run mpsc_step mpsc_start es s"
  shows "\<exists>c. enqueued es = dequeued es @ c \<and>
    (\<exists>r. producer_step (ms_queue s) (ms_producers s i) = Inr r) \<and>
    (\<exists>ev q pc. consumer_step (ms_queue s) (ms_consumer s) = Inr (ev, q, pc) \<and>
      (ev = Deq_fails \<longrightarrow> c = [] \<or> (\<exists>j p. ms_producers s j = Enq_first p \<or> ms_producers s j = Enq_publish p)) \<and>
      (pc = ms_consumer s \<longrightarrow> pc = Consumer_idle \<or> (\<exists>j p r. ms_producers s j = Enq_link p r)))"
proof -
  obtain c where c: "spec_run fifo_event es [] = Some c" "mpsc_rel s c" using mpsc.run_simulates [OF assms start_rel] by blast
  then obtain F L where inv: "mpsc_inv s F L" and L: "c = map (data_of (ms_queue s)) L" by (auto simp: mpsc_rel_def)
  obtain ev q pc where step: "consumer_step (ms_queue s) (ms_consumer s) = Inr (ev, q, pc)"
    using consumer_step_ok [OF inv] by blast
  have "pc = Consumer_idle \<or> (\<exists>j p r. ms_producers s j = Enq_link p r)" if same: "pc = ms_consumer s"
  proof (cases "ms_consumer s")
    case (Rev_wait n x tail p)
    then obtain a where p: "p = Some a" using inv by (auto simp: mpsc_inv_def)
    have "next_of (ms_queue s) a = Unconnected"
      using step same Rev_wait p by (auto simp: rbind_eq_Inr node_at_def of_option_eq_Inr next_of_def split: if_splits)
    then show ?thesis using waits_only_for [OF inv] Rev_wait p by blast
  qed (use step same in \<open>auto simp: rbind_eq_Inr split: if_splits option.splits\<close>)
  moreover have "enqueued es = dequeued es @ c" using fifo_run [OF c(1)] by simp
  moreover have "\<exists>r. producer_step (ms_queue s) (ms_producers s i) = Inr r" using producer_step_ok [OF inv] by blast
  ultimately show ?thesis using step fails_only_if [OF inv] L by blast
qed

text \<open>Two producers overtake each other: the second one connects its node first, and both elements come out in order.\<close>

datatype 'a mpsc_turn = Call_enqueue nat nat 'a | Call_dequeue | Producer_moves nat | Consumer_moves

fun mpsc_move :: "'a mpsc_turn \<Rightarrow> 'a mpsc_state \<Rightarrow> ('a mpsc_event \<times> 'a mpsc_state) option" where
  "mpsc_move (Call_enqueue i p x) s =
    (if ms_producers s i = Producer_idle \<and> mq_heap (ms_queue s) p = None
     then Some (Quiet, s\<lparr>ms_queue := (ms_queue s)\<lparr>mq_heap := (mq_heap (ms_queue s))(p \<mapsto> \<lparr>mn_next = Unconnected, mn_data = x\<rparr>)\<rparr>,
       ms_producers := (ms_producers s)(i := Enq_exchange p)\<rparr>)
     else None)"
| "mpsc_move Call_dequeue s = (if ms_consumer s = Consumer_idle then Some (Quiet, s\<lparr>ms_consumer := Deq_start\<rparr>) else None)"
| "mpsc_move (Producer_moves i) s = (case producer_step (ms_queue s) (ms_producers s i) of
     Inr (ev, q, pc) \<Rightarrow> Some (ev, s\<lparr>ms_queue := q, ms_producers := (ms_producers s)(i := pc)\<rparr>) | Inl f \<Rightarrow> None)"
| "mpsc_move Consumer_moves s = (case consumer_step (ms_queue s) (ms_consumer s) of
     Inr (ev, q, pc) \<Rightarrow> Some (ev, s\<lparr>ms_queue := q, ms_consumer := pc\<rparr>) | Inl f \<Rightarrow> None)"

lemma mpsc_move_step: "mpsc_move mv s = Some (ev, s') \<Longrightarrow> mpsc_step s ev s'"
  by (cases mv) (auto split: sum.splits if_splits intro: mpsc_step.intros)

lemma mpsc_schedule_run: "schedule mpsc_move mvs s = Some (es, u) \<Longrightarrow> lts_run mpsc_step s es u"
  by (rule schedule_run [of mpsc_move mpsc_step]) (rule mpsc_move_step)

definition mpsc_example :: "nat mpsc_event list" where
  "mpsc_example = [Quiet, Quiet, Enqueued 7, Enqueued 8, Quiet, Quiet, Quiet, Quiet, Quiet, Quiet, Quiet, Quiet, Quiet,
     Quiet, Quiet, Quiet, Dequeued 7]"

lemma mpsc_example_run: "\<exists>s. lts_run mpsc_step mpsc_start mpsc_example s"
proof -
  have "\<exists>s. schedule mpsc_move ([Call_enqueue 0 10 7, Call_enqueue 1 11 8, Producer_moves 0, Producer_moves 1, Producer_moves 1,
      Producer_moves 0, Producer_moves 0, Call_dequeue] @ replicate 9 Consumer_moves) mpsc_start = Some (mpsc_example, s)"
    by (simp add: mpsc_example_def mpsc_start_def MPSCQueue_new_def node_at_def set_next_field_def link_of_def pointer_of_def
        numeral_eq_Suc)
  then show ?thesis using mpsc_schedule_run by blast
qed

theorem MPSCQueue_fifo_witness:
  "\<exists>s c. lts_run mpsc_step mpsc_start mpsc_example s \<and> [7, 8] = [7] @ c \<and> enqueued mpsc_example = dequeued mpsc_example @ c"
proof -
  obtain s where s: "lts_run mpsc_step mpsc_start mpsc_example s" using mpsc_example_run by blast
  obtain c where "enqueued mpsc_example = dequeued mpsc_example @ c" using MPSCQueue_fifo [OF s] by blast
  then show ?thesis using s by (auto simp: mpsc_example_def)
qed

end
