(* ===== verification/Spec2Isabelle.thy ===== *)
theory Spec2Isabelle
  imports Tools_Properties Fussion_Hash Fussion_Properties Network_Run Bounded_Queue Linked_List MRU_Cache Safe_Math String_Splitter Socket_Server Flat_Map_Properties Small_Map Work_Stealing_Queue MPSC_Queue
begin

text \<open>
  Verification of fussion, a threshold signature system for groups of drones (UAVs), and of the parts of
  the butil and bthread libraries it ships with.

  \<^bold>\<open>The program.\<close> A trusted authority (TA) publishes parameters over the pairing-friendly curve BLS12-381 and
  hands each drone a share: ElGamal ciphertexts of the linear factors \<open>d\<^sub>i * ID + b\<^sub>i\<close>. A drone signs a message
  under the product of its ciphertexts. A cluster head collects \<open>t\<close> partial signatures and transforms
  them for one verifier, who combines them with Lagrange coefficients at zero and compares two pairings.
  \<^verbatim>\<open>src/fussion.cpp\<close> has the scheme, \<^verbatim>\<open>src/Tools/Tools.cpp\<close> its arithmetic, \<^verbatim>\<open>src/Tools/brpcTools.cpp\<close> the text
  codecs, and \<^verbatim>\<open>src/brpcTA.cpp\<close>, \<^verbatim>\<open>brpcUAV.cpp\<close>, \<^verbatim>\<open>brpcAgg.cpp\<close> and \<^verbatim>\<open>brpcVerifier.cpp\<close> the four programs, which
  exchange the messages of \<^verbatim>\<open>proto/\<close> over brpc. \<^verbatim>\<open>else/\<close> has two socket demonstrations. \<^verbatim>\<open>libsh/butil\<close> and
  \<^verbatim>\<open>libsh/bthread\<close> are copies of the headers of brpc's base and thread libraries.

  \<^bold>\<open>Conventions.\<close> A call that may fail returns \<open>fault + 'a\<close>; the faults are what the C++ code can do besides
  returning (reading out of bounds, throwing, dividing by zero, overflowing a signed number, using a null
  pointer or an indeterminate value, failing a CHECK, running forever). \<open>rbind\<close> sequences such calls, \<open>for_range\<close>
  and \<open>for_collect\<close> are counted loops, \<open>vec_at\<close> is an unchecked \<^verbatim>\<open>operator[]\<close> (\<^verbatim>\<open>Cpp_Prelude\<close>). \<^verbatim>\<open>mpz_class\<close> is \<open>int\<close>,
  with the truncating remainder; \<^verbatim>\<open>int\<close> thresholds are integers with the 32-bit range checked where the code
  computes with them; the counters of containers are words where they can wrap. Global variables are
  records that are passed and returned; the random state and the clock readings are arguments. Code that runs
  in several threads is a step relation with one step for each access to a shared variable.

  \<^bold>\<open>Libraries that are not in the repository.\<close> GMP and MIRACL Core are records of the functions the program calls
  (\<^verbatim>\<open>Libraries\<close>). Their documented behaviour is the locales \<open>gmp_lib\<close>, \<open>miracl_lib\<close> and \<open>fussion_libs\<close>; the meaning
  of a point is its discrete logarithm in the field \<open>zq\<close> of residues modulo the group order. The laws are
  interpreted on a reference instance (\<^verbatim>\<open>Reference_Libraries\<close>, \<^verbatim>\<open>Reference_Run\<close>), on which all witnesses run. A network
  is a record of the calls of brpc (\<^verbatim>\<open>Rpc_Messages\<close>), in \<^verbatim>\<open>Network_Run\<close> one that delivers to the handlers.
\<close>

text \<open>
  \<^bold>\<open>Mathematics.\<close>
  \<^item> \<^verbatim>\<open>Primality\<close>, \<^verbatim>\<open>Small_Primes\<close>, \<^verbatim>\<open>Order_Prime\<close>: Fermat, trial division and Pocklington's criterion, and with them
    that the twelve numbers of \<^verbatim>\<open>getFactors\<close> and the 255-bit modulus of \<^verbatim>\<open>rand_mpz\<close> are prime.
  \<^item> \<^verbatim>\<open>Zq_Field\<close>: the residues as a field, an instance of the library's classes. \<^verbatim>\<open>Interpolation\<close>: Lagrange
    interpolation at zero of products of linear factors. \<^verbatim>\<open>Digits\<close>: numerals and byte strings.

  \<^bold>\<open>The signature system.\<close>
  \<^item> \<^verbatim>\<open>Tools\<close>, \<^verbatim>\<open>Tools_Properties\<close> (\<^verbatim>\<open>Tools.cpp\<close>): conversions, random numbers, hashing, the inverse of a \<^verbatim>\<open>BIG\<close>. Shown: the
    conversion round trip below \<open>2 ^ 256\<close> and what is cut above, the range of \<^verbatim>\<open>rand_mpz\<close>, termination and
    correctness of \<^verbatim>\<open>BIG_inv\<close>.
  \<^item> \<^verbatim>\<open>Fussion\<close> (\<^verbatim>\<open>fussion.cpp\<close>, \<^verbatim>\<open>fussion.h\<close>): one definition per function and loop body. \<^verbatim>\<open>Fussion_Hash\<close>: when
    \<^verbatim>\<open>hashToCoprime\<close> ends and when it does not. \<^verbatim>\<open>Fussion_Lagrange\<close>: both overloads of \<^verbatim>\<open>getPi_0\<close> interpolate and agree.
    \<^verbatim>\<open>Fussion_Scheme\<close>, \<^verbatim>\<open>Fussion_Sign\<close>, \<^verbatim>\<open>Fussion_Verify\<close>, \<^verbatim>\<open>Fussion_Run\<close>: the result of each step in the field, inside
    \<open>fussion_libs\<close>. \<^verbatim>\<open>Fussion_Properties\<close>: keys, completeness, the exact verification equation, rejection of a
    changed signature, and the out-of-bounds reads.
  \<^item> \<^verbatim>\<open>BrpcTools\<close> (\<^verbatim>\<open>brpcTools.cpp\<close>): the codecs; the locales \<open>sep_codec\<close> and \<open>semi_codec\<close> carry the round trips of
    vectors, and sublocales of \<open>gmp_lib\<close> and \<open>fussion_libs\<close> provide their elements.
  \<^item> \<^verbatim>\<open>Rpc_Messages\<close>, \<^verbatim>\<open>BrpcTA\<close>, \<^verbatim>\<open>BrpcUAV\<close>, \<^verbatim>\<open>BrpcAgg\<close>, \<^verbatim>\<open>BrpcVerifier\<close>: messages, handlers, clients, server start and \<^verbatim>\<open>main\<close>
    of the four programs. \<^verbatim>\<open>Network_Params\<close>, \<^verbatim>\<open>Network_Run\<close>: what is sent is what is received, and the connected
    programs end with an accepted signature.
\<close>

text \<open>
  \<^bold>\<open>The containers and numerics of butil and bthread.\<close>
  \<^item> \<^verbatim>\<open>Refinement\<close>: the locales \<open>guarded_refinement\<close> and \<open>data_refinement\<close>, which lift the simulation of one operation
    to every sequence of operations, and \<open>lts_simulation\<close>, which lifts the simulation of one step to every interleaving.
  \<^item> \<^verbatim>\<open>Machine_Words\<close>, \<^verbatim>\<open>Bounded_Queue\<close> (\<^verbatim>\<open>bounded_queue.h\<close>): the ring with 32-bit counters refines a list of bounded length;
    above a capacity of \<open>2 ^ 31\<close> its indices wrap and a push overwrites another item.
  \<^item> \<^verbatim>\<open>Linked_List\<close> (\<^verbatim>\<open>linked_list.h\<close>): pointer assignments in a heap of links keep the circle and change its sequence.
  \<^item> \<^verbatim>\<open>MRU_Cache\<close> (\<^verbatim>\<open>mru_cache.h\<close>): refines a list of entries in order of use; each payload is deleted once.
  \<^item> \<^verbatim>\<open>Small_Map\<close> (\<^verbatim>\<open>small_map.h\<close>): the array with its raw slots and the standard map that replaces it refine one finite map,
    so the switch cannot be observed; the order in which a standard map keeps its entries is an argument.
  \<^item> \<^verbatim>\<open>Work_Stealing_Queue\<close> (\<^verbatim>\<open>bthread/work_stealing_queue.h\<close>): in every interleaving of the owner with any number of thieves the
    queue refines a bounded deque, and no element is lost or handed out twice.
  \<^item> \<^verbatim>\<open>MPSC_Queue\<close> (\<^verbatim>\<open>mpsc_queue.h\<close>): in every interleaving of any number of producers with the consumer the queue is first-in
    first-out; its invariant describes the nodes that are exchanged but not yet linked.
  \<^item> \<^verbatim>\<open>Bit_Array\<close> (\<^verbatim>\<open>bit_array.h\<close>), \<^verbatim>\<open>Object_Pool\<close> (\<^verbatim>\<open>single_threaded_pool.h\<close>) and \<^verbatim>\<open>Flat_Map\<close> (\<^verbatim>\<open>flat_map.h\<close>, \<^verbatim>\<open>flat_map_inl.h\<close>):
    the hash map with its pool and thumbnail. \<^verbatim>\<open>Flat_Map_Rounding\<close>, \<^verbatim>\<open>Flat_Map_Invariant\<close>, \<^verbatim>\<open>Flat_Map_Operations\<close> and
    \<^verbatim>\<open>Flat_Map_Resize\<close> carry the invariant through every operation; \<^verbatim>\<open>Flat_Map_Properties\<close> shows that the map with
    unique keys refines a finite map, and that iterating over a small sparse map does not end.
  \<^item> \<^verbatim>\<open>Safe_Conversions\<close>, \<^verbatim>\<open>Safe_Math\<close> (\<^verbatim>\<open>numerics/\<close>): range checks, casts and checked arithmetic on the integer types.
  \<^item> \<^verbatim>\<open>String_Splitter\<close> (\<^verbatim>\<open>string_splitter.h\<close>, \<^verbatim>\<open>string_splitter_inl.h\<close>): the fields visited, and reads past the end.
  \<^item> \<^verbatim>\<open>Socket_Server\<close> (\<^verbatim>\<open>else/\<close>): the single-client programs as functions of what they read; the threaded server as
    a step relation, with its invariant and its starvation.

  \<^bold>\<open>Loops and bounds.\<close> Loops that may not end (\<^verbatim>\<open>hashToCoprime\<close>, \<^verbatim>\<open>BIG_inv\<close>, \<^verbatim>\<open>BoundedQueue::_mod\<close>, the rounding loop of
  \<^verbatim>\<open>FlatMap::init\<close>) are partial functions whose value \<open>None\<close> is the fault \<open>Diverges\<close>; where the code returns, this is
  proved. The iteration over a hash map has as fuel the number of its nodes, which is enough when the
  invariant holds; that it does not end is stated for all fuel. \<^verbatim>\<open>operator[]\<close> and \<^verbatim>\<open>resize\<close> call each other to a
  depth of at most 64: every resize doubles the buckets, and no allocation reaches \<open>2 ^ 48\<close> bytes, which is
  an assumption on the machine (\<open>params_ok\<close>). The iteration over a small map has its size as fuel. The two concurrent queues
  assume sequential consistency: every access to a shared variable is one step, and the steps of all threads are
  in one order. Reorderings that the weaker memory orders of the code allow are outside the model. The positions of
  the work-stealing queue do not wrap, which would take \<open>2 ^ 64\<close> operations.
\<close>

text \<open>
  \<^bold>\<open>Not modelled.\<close>
  \<^item> Output and logging: \<^verbatim>\<open>show_mpz\<close>, \<^verbatim>\<open>showBIG\<close>, \<^verbatim>\<open>showFP12\<close>, \<^verbatim>\<open>printLine\<close>, \<^verbatim>\<open>CallAfterRpc\<close>, the statistics of \<^verbatim>\<open>FlatMap\<close>.
  \<^item> The code generated from \<^verbatim>\<open>proto/*.proto\<close>; the accessors are the fields of the message records.
  \<^item> \<^verbatim>\<open>libsh/brpc\<close>, \<^verbatim>\<open>bvar\<close>, \<^verbatim>\<open>json2pb\<close>, \<^verbatim>\<open>mcpack2pb\<close>, \<^verbatim>\<open>miracl\<close> and, besides the work-stealing queue, \<^verbatim>\<open>bthread\<close> are headers of
    libraries that are linked as binaries: the functions they declare have no source here, and the templates
    defined in these headers run over those functions.
  \<^item> The rest of \<^verbatim>\<open>libsh/butil\<close> and its \<^verbatim>\<open>third_party\<close> copies: no program of the repository calls it directly, and
    most of its headers only declare functions, wrap system calls, or describe the compiler and platform.
  \<^item> In modelled headers: floating-point numbers (the numerics and the conversions of the splitters), \<^verbatim>\<open>FlatSet\<close>
    and the string-keyed wrappers, which forward to \<^verbatim>\<open>FlatMap\<close>, \<^verbatim>\<open>KeyValuePairsSplitter\<close>, and user-defined
    comparison of keys.
  \<^item> Secrecy and unforgeability: the theorems are about what the code computes, not about what an
    adversary can compute. Timing, and the interleaving of concurrent requests to one server of the
    signature system, are not modelled; a handler runs to its end.
  \<^item> \<^verbatim>\<open>test/\<close>, which has example programs for brpc and for the codecs.
\<close>

end
